(* ===== verification/Prelude.thy ===== *)
theory Prelude
  imports
    Complex_Main
    "HOL-Library.Signed_Division"
    "HOL-Library.Product_Lexorder"
    "HOL-Library.List_Lexorder"
    "HOL-Library.Char_ord"
    "HOL-Library.Multiset"
begin

text \<open>
  What the components share: the collections of simplification rules, the Go idioms the
  code is written in (\<open>slices.IndexFunc\<close>, truncating division, the keep-the-best scan over a
  slice, first fit into a slice of rooms) and the generic facts about them.

  Go's \<open>int\<close> and \<open>int64\<close> are HOL \<open>int\<close>; Go's \<open>/\<close> on them truncates towards zero and is
  \<open>sdiv\<close> of \<open>HOL-Library.Signed_Division\<close>. A Go pointer used as an optional value is an
  \<open>option\<close>. An index that Go reports as -1 when nothing is found is a \<open>nat option\<close>. Times are
  \<open>int\<close> nanoseconds since 1970 UTC and durations \<open>int\<close> nanoseconds. Sorting with
  \<open>slices.SortStableFunc\<close> over a chain \<open>cmp.Or(k1, k2, ...)\<close> is \<open>sort_key\<close>, which is stable, with
  the tuple of the compared keys in lexicographic order (\<open>False < True\<close> as in \<open>boolOrder\<close>).
\<close>

named_theorems cap_simps "unfolding of the capacity operations"
named_theorems host_simps "unfolding of the host predicates and updates"
named_theorems plan_simps "unfolding of the planner's state updates"

type_synonym uuid = nat
type_synonym time = int
type_synonym duration = int

abbreviation second :: duration where "second \<equiv> 1000000000"
abbreviation minute :: duration where "minute \<equiv> 60 * second"
abbreviation hour :: duration where "hour \<equiv> 3600 * second"
abbreviation gib :: int where "gib \<equiv> 1073741824"

text \<open>\<open>slices.IndexFunc\<close>.\<close>

fun index_func :: "('a \<Rightarrow> bool) \<Rightarrow> 'a list \<Rightarrow> nat option" where
  "index_func P [] = None"
| "index_func P (x # xs) = (if P x then Some 0 else map_option Suc (index_func P xs))"

text \<open>
  A scan that keeps the best element so far: \<open>rank\<close> is \<open>None\<close> for an element the loop skips,
  and a later element replaces the best one only when it ranks strictly lower.
\<close>

fun scan_best :: "('a \<Rightarrow> ('k::linorder) option) \<Rightarrow> nat \<Rightarrow> (nat \<times> 'k) option \<Rightarrow> 'a list \<Rightarrow> (nat \<times> 'k) option" where
  "scan_best rank i best [] = best"
| "scan_best rank i best (x # xs) =
     scan_best rank (Suc i)
       (case rank x of
          None \<Rightarrow> best
        | Some k \<Rightarrow> (case best of
              None \<Rightarrow> Some (i, k)
            | Some (j, b) \<Rightarrow> if k < b then Some (i, k) else best)) xs"

text \<open>First fit: each item goes to the first room that fits it, or is left over.\<close>

fun first_fit :: "('h \<Rightarrow> 'r \<Rightarrow> bool) \<Rightarrow> ('h \<Rightarrow> 'r \<Rightarrow> 'h) \<Rightarrow> 'h list \<Rightarrow> 'r list \<Rightarrow> 'h list \<times> 'r list" where
  "first_fit fits reserve rooms [] = (rooms, [])"
| "first_fit fits reserve rooms (r # rs) =
     (case index_func (\<lambda>h. fits h r) rooms of
        None \<Rightarrow> (let (rooms', out) = first_fit fits reserve rooms rs in (rooms', r # out))
      | Some i \<Rightarrow> first_fit fits reserve (rooms[i := reserve (rooms ! i) r]) rs)"

subsection \<open>Indices\<close>

lemma index_func_Some:
  "index_func P xs = Some i \<Longrightarrow> i < length xs \<and> P (xs ! i) \<and> (\<forall>j<i. \<not> P (xs ! j))"
proof (induction xs arbitrary: i)
  case Nil
  then show ?case by simp
next
  case (Cons x xs)
  show ?case
  proof (cases "P x")
    case True
    with Cons.prems show ?thesis by simp
  next
    case False
    with Cons.prems obtain k where "index_func P xs = Some k" and "i = Suc k"
      by auto
    with Cons.IH [of k] False show ?thesis
      by (auto simp: less_Suc_eq_0_disj)
  qed
qed

lemma index_func_None: "index_func P xs = None \<longleftrightarrow> (\<forall>x\<in>set xs. \<not> P x)"
  by (induction xs) auto

lemma index_func_less: "index_func P xs = Some i \<Longrightarrow> i < length xs"
  by (simp add: index_func_Some)

lemma index_func_holds: "index_func P xs = Some i \<Longrightarrow> P (xs ! i)"
  by (simp add: index_func_Some)

lemma index_func_in_set: "index_func P xs = Some i \<Longrightarrow> xs ! i \<in> set xs"
  by (simp add: index_func_less)

lemma index_func_map: "index_func P (map f xs) = index_func (P \<circ> f) xs"
  by (induction xs) auto

lemma all_set_update:
  assumes "\<forall>x\<in>set xs. P x" and "P y"
  shows "\<forall>x\<in>set (xs[i := y]). P x"
  using assms set_update_subset_insert by fastforce

lemma length_filter_update:
  "i < length xs \<Longrightarrow>
     int (length (filter P (xs[i := y]))) = int (length (filter P xs)) - of_bool (P (xs ! i)) + of_bool (P y)"
proof (induction xs arbitrary: i)
  case Nil
  then show ?case by simp
next
  case (Cons x xs)
  then show ?case by (cases i) auto
qed

subsection \<open>The scan\<close>

definition scan_ok :: "('a \<Rightarrow> ('k::linorder) option) \<Rightarrow> 'a list \<Rightarrow> (nat \<times> 'k) option \<Rightarrow> bool" where
  "scan_ok rank xs best \<longleftrightarrow>
     (case best of
        None \<Rightarrow> (\<forall>x\<in>set xs. rank x = None)
      | Some (j, k) \<Rightarrow> j < length xs \<and> rank (xs ! j) = Some k
          \<and> (\<forall>i<length xs. \<forall>k'. rank (xs ! i) = Some k' \<longrightarrow> k \<le> k' \<and> (i < j \<longrightarrow> k < k')))"

lemma scan_ok_step:
  assumes "scan_ok rank xs best"
  shows "scan_ok rank (xs @ [x])
           (case rank x of
              None \<Rightarrow> best
            | Some k \<Rightarrow> (case best of
                  None \<Rightarrow> Some (length xs, k)
                | Some (j, b) \<Rightarrow> if k < b then Some (length xs, k) else best))"
proof (cases "rank x")
  case None
  with assms show ?thesis
    by (auto simp: scan_ok_def nth_append less_Suc_eq split: option.splits prod.splits)
next
  case (Some k)
  show ?thesis
  proof (cases best)
    case None
    with assms Some show ?thesis
      by (auto simp: scan_ok_def nth_append less_Suc_eq)
  next
    case (Some jb)
    obtain j b where jb: "best = Some (j, b)"
      using Some by (cases jb) auto
    then show ?thesis
      using assms \<open>rank x = Some k\<close>
      by (auto simp: scan_ok_def nth_append less_Suc_eq) (metis less_le_trans order_less_le)+
  qed
qed

lemma scan_best_ok:
  "scan_ok rank ys best \<Longrightarrow> scan_ok rank (ys @ xs) (scan_best rank (length ys) best xs)"
proof (induction xs arbitrary: ys best)
  case Nil
  then show ?case by simp
next
  case (Cons x xs)
  from scan_ok_step [OF Cons.prems, of x]
  have "scan_ok rank ((ys @ [x]) @ xs) (scan_best rank (length (ys @ [x]))
          (case rank x of
              None \<Rightarrow> best
            | Some k \<Rightarrow> (case best of
                  None \<Rightarrow> Some (length ys, k)
                | Some (j, b) \<Rightarrow> if k < b then Some (length ys, k) else best)) xs)"
    by (rule Cons.IH)
  then show ?case by simp
qed

lemma scan_best_from_start: "scan_ok rank xs (scan_best rank 0 None xs)"
  using scan_best_ok [of rank "[]" None xs] by (simp add: scan_ok_def)

lemma scan_best_Some:
  assumes "scan_best rank 0 None xs = Some (j, k)"
  shows "j < length xs" and "rank (xs ! j) = Some k"
    and "\<And>i k'. i < length xs \<Longrightarrow> rank (xs ! i) = Some k' \<Longrightarrow> k \<le> k'"
    and "\<And>i k'. i < j \<Longrightarrow> rank (xs ! i) = Some k' \<Longrightarrow> k < k'"
  using scan_best_from_start [of rank xs] assms
  by (auto simp: scan_ok_def) (meson less_trans)

lemma scan_best_None:
  "scan_best rank 0 None xs = None \<longleftrightarrow> (\<forall>x\<in>set xs. rank x = None)"
proof
  assume "scan_best rank 0 None xs = None"
  then show "\<forall>x\<in>set xs. rank x = None"
    using scan_best_from_start [of rank xs] by (simp add: scan_ok_def)
next
  assume all: "\<forall>x\<in>set xs. rank x = None"
  show "scan_best rank 0 None xs = None"
  proof (cases "scan_best rank 0 None xs")
    case (Some jk)
    then obtain j k where "scan_best rank 0 None xs = Some (j, k)"
      by (cases jk) auto
    from scan_best_Some(1,2) [OF this] all show ?thesis
      by (metis nth_mem option.distinct(1))
  qed simp
qed

subsection \<open>Rooms that take items\<close>

text \<open>
  The contract of a room: an item that fits can be reserved without breaking the room's
  invariant. Whoever fills rooms (the placer, the planner's cover, the headroom parts)
  relies on this alone.
\<close>

locale room =
  fixes fits :: "'h \<Rightarrow> 'r \<Rightarrow> bool"
    and reserve :: "'h \<Rightarrow> 'r \<Rightarrow> 'h"
    and ok :: "'h \<Rightarrow> bool"
  assumes reserve_ok: "ok h \<Longrightarrow> fits h r \<Longrightarrow> ok (reserve h r)"
begin

lemma first_fit_ok:
  "\<forall>h\<in>set rooms. ok h \<Longrightarrow> first_fit fits reserve rooms items = (rooms', out) \<Longrightarrow> \<forall>h\<in>set rooms'. ok h"
proof (induction items arbitrary: rooms rooms' out)
  case Nil
  then show ?case by simp
next
  case (Cons r items)
  show ?case
  proof (cases "index_func (\<lambda>h. fits h r) rooms")
    case None
    then show ?thesis
      using Cons by (auto split: prod.splits)
  next
    case (Some i)
    have "ok (rooms ! i)"
      using Some Cons.prems(1) by (auto dest: index_func_in_set)
    moreover have "fits (rooms ! i) r"
      using Some by (rule index_func_holds)
    ultimately have "\<forall>h\<in>set (rooms[i := reserve (rooms ! i) r]). ok h"
      using Cons.prems(1) by (intro all_set_update reserve_ok)
    then show ?thesis
      using Cons Some by (auto split: prod.splits)
  qed
qed

lemma first_fit_left_over:
  "first_fit fits reserve rooms items = (rooms', out) \<Longrightarrow> mset out \<subseteq># mset items \<and> length rooms' = length rooms"
proof (induction items arbitrary: rooms rooms' out)
  case Nil
  then show ?case by simp
next
  case (Cons r items)
  then show ?case
    by (fastforce split: option.splits prod.splits intro: subset_mset.order_trans)
qed

end

text \<open>
  The contract of a chooser: the room it names exists and fits. Choosing and reserving, item
  after item, then keeps every room's invariant.
\<close>

fun choose_all :: "('h list \<Rightarrow> 'r \<Rightarrow> nat option) \<Rightarrow> ('h \<Rightarrow> 'r \<Rightarrow> 'h) \<Rightarrow> 'h list \<Rightarrow> 'r list \<Rightarrow> 'h list" where
  "choose_all pick reserve hs [] = hs"
| "choose_all pick reserve hs (r # rs) =
     (case pick hs r of
        None \<Rightarrow> choose_all pick reserve hs rs
      | Some i \<Rightarrow> choose_all pick reserve (hs[i := reserve (hs ! i) r]) rs)"

locale chooser = room +
  fixes pick :: "'a list \<Rightarrow> 'b \<Rightarrow> nat option"
  assumes choose_fits: "pick hs r = Some i \<Longrightarrow> i < length hs \<and> fits (hs ! i) r"
begin

lemma choose_step_ok:
  assumes "\<forall>h\<in>set hs. ok h" and "pick hs r = Some i"
  shows "\<forall>h\<in>set (hs[i := reserve (hs ! i) r]). ok h"
proof -
  have "i < length hs" and "fits (hs ! i) r"
    using choose_fits [OF assms(2)] by auto
  then have "ok (reserve (hs ! i) r)"
    using assms(1) by (auto intro: reserve_ok)
  with assms(1) show ?thesis by (rule all_set_update)
qed

lemma choose_all_ok: "\<forall>h\<in>set hs. ok h \<Longrightarrow> \<forall>h\<in>set (choose_all pick reserve hs rs). ok h"
proof (induction rs arbitrary: hs)
  case Nil
  then show ?case by simp
next
  case (Cons r rs)
  then show ?case
    by (cases "pick hs r") (auto dest: choose_step_ok)
qed

end

subsection \<open>Truncating division\<close>

lemma sdiv_div: "0 \<le> a \<Longrightarrow> 0 \<le> b \<Longrightarrow> a sdiv b = a div (b::int)"
  by (cases "a = 0"; cases "b = 0") (auto simp: signed_divide_int_def sgn_if)

lemma sdiv_nonneg: "0 \<le> a \<Longrightarrow> 0 \<le> b \<Longrightarrow> 0 \<le> a sdiv (b::int)"
  by (simp add: sdiv_div pos_imp_zdiv_nonneg_iff div_int_pos_iff)

lemma le_div_mult:
  fixes a b c :: int
  assumes "a \<le> b div c" and "0 < c"
  shows "a * c \<le> b"
proof -
  have "a * c \<le> b div c * c"
    using assms by (intro mult_right_mono) auto
  also have "\<dots> = b - b mod c" by (simp add: minus_mod_eq_div_mult)
  also have "\<dots> \<le> b" using assms(2) by simp
  finally show ?thesis .
qed

lemma ceil_div_bound:
  fixes v n :: int
  assumes "0 < n"
  shows "v \<le> n * ((v + n - 1) div n)" and "n * ((v + n - 1) div n) < v + n"
proof -
  have "n * ((v + n - 1) div n) = (v + n - 1) - (v + n - 1) mod n"
    by (simp add: minus_mod_eq_mult_div)
  moreover have "0 \<le> (v + n - 1) mod n" "(v + n - 1) mod n < n"
    using assms by auto
  ultimately show "v \<le> n * ((v + n - 1) div n)" and "n * ((v + n - 1) div n) < v + n"
    by linarith+
qed

lemma foldl_invariant:
  assumes "P a" and "\<And>a x. P a \<Longrightarrow> x \<in> set xs \<Longrightarrow> P (f a x)"
  shows "P (foldl f a xs)"
  using assms by (induction xs arbitrary: a) auto

lemma sum_list_update_int: "i < length xs \<Longrightarrow> sum_list (xs[i := y]) = sum_list xs - xs ! i + (y::int)"
proof (induction xs arbitrary: i)
  case (Cons x xs)
  then show ?case by (cases i) auto
qed simp

lemma map_update_same: "k < length xs \<Longrightarrow> f y = f (xs ! k) \<Longrightarrow> map f (xs[k := y]) = map f xs"
  by (simp add: map_update list_update_same_conv)

text \<open>An invariant of a fold that speaks of the part of the list already walked.\<close>

lemma foldl_prefix_invariant:
  assumes "P [] a" and "\<And>ys y zs b. xs = ys @ y # zs \<Longrightarrow> P ys b \<Longrightarrow> P (ys @ [y]) (f b y)"
  shows "P xs (foldl f a xs)"
proof -
  have "xs = ys @ zs \<Longrightarrow> P ys b \<Longrightarrow> P xs (foldl f b zs)" for ys zs b
  proof (induction zs arbitrary: ys b)
    case (Cons z zs)
    then show ?case using assms(2) by simp
  qed simp
  from this [of "[]" xs a] assms(1) show ?thesis by simp
qed

lemma index_func_append: "index_func P xs = Some i \<Longrightarrow> index_func P (xs @ ys) = Some i"
  by (induction xs arbitrary: i) (auto split: if_splits)

lemma first_fit_more_rooms:
  "first_fit fits reserve rooms items = (rooms', []) \<Longrightarrow> first_fit fits reserve (rooms @ extra) items = (rooms' @ extra, [])"
proof (induction items arbitrary: rooms rooms')
  case (Cons r items)
  then obtain i where i: "index_func (\<lambda>h. fits h r) rooms = Some i" by (auto split: option.splits prod.splits)
  then have "i < length rooms" by (rule index_func_less)
  with Cons i show ?case by (simp add: index_func_append nth_append list_update_append)
qed simp

subsection \<open>Walks that let go\<close>

text \<open>
  The contract of a walk that lets go of an item only once what it has kept is enough: whatever it
  lets go, it ends with enough.
\<close>

locale letting_go =
  fixes step :: "'s \<Rightarrow> 'i \<Rightarrow> 's"
    and enough :: "'s \<Rightarrow> bool"
    and gone :: "'s \<Rightarrow> 'g"
    and ok :: "'s \<Rightarrow> bool"
    and item :: "'i \<Rightarrow> bool"
  assumes step_ok: "ok s \<Longrightarrow> item i \<Longrightarrow> ok (step s i)"
    and step_enough: "ok s \<Longrightarrow> item i \<Longrightarrow> enough s \<Longrightarrow> enough (step s i)"
    and step_gone: "ok s \<Longrightarrow> item i \<Longrightarrow> gone (step s i) \<noteq> gone s \<Longrightarrow> enough s"
begin

lemma walk_enough: "ok s \<Longrightarrow> \<forall>i\<in>set is. item i \<Longrightarrow> enough s \<Longrightarrow> enough (foldl step s is)"
  by (induction "is" arbitrary: s) (auto intro: step_ok step_enough)

lemma walk_gone: "ok s \<Longrightarrow> \<forall>i\<in>set is. item i \<Longrightarrow> gone (foldl step s is) \<noteq> gone s \<Longrightarrow> enough (foldl step s is)"
proof (induction "is" arbitrary: s)
  case (Cons i "is")
  show ?case
  proof (cases "gone (step s i) = gone s")
    case True
    then show ?thesis using Cons by (simp add: step_ok)
  next
    case False
    then have "enough s" using Cons.prems by (intro step_gone [of s i]) auto
    then show ?thesis using Cons.prems walk_enough [of "step s i" "is"] by (simp add: step_ok step_enough)
  qed
qed simp

end

end
