(* ===== verification/Capacity.thy ===== *)
theory Capacity
  imports Prelude
begin

text \<open>
  \<open>FleetCapacity\<close> and its operations (\<open>internal/compute/fleet_admin.go\<close>,
  \<open>fleet_policy.go\<close>), and the way headroom is cut into parts and the parts placed
  (\<open>split\<close>, \<open>unplaced\<close>, \<open>placesAll\<close>, \<open>total\<close> of \<open>fleet_target.go\<close>).
\<close>

record FleetCapacity =
  fcCPUMillis :: int
  fcMemoryBytes :: int
  fcGPUs :: int

abbreviation FC :: "int \<Rightarrow> int \<Rightarrow> int \<Rightarrow> FleetCapacity" where
  "FC c m g \<equiv> \<lparr>fcCPUMillis = c, fcMemoryBytes = m, fcGPUs = g\<rparr>"

definition NoCapacity :: FleetCapacity where
  "NoCapacity = FC 0 0 0"

definition Plus_cap :: "FleetCapacity \<Rightarrow> FleetCapacity \<Rightarrow> FleetCapacity" where
  "Plus_cap a b = FC (fcCPUMillis a + fcCPUMillis b) (fcMemoryBytes a + fcMemoryBytes b) (fcGPUs a + fcGPUs b)"

definition Minus_cap :: "FleetCapacity \<Rightarrow> FleetCapacity \<Rightarrow> FleetCapacity" where
  "Minus_cap a b = FC (fcCPUMillis a - fcCPUMillis b) (fcMemoryBytes a - fcMemoryBytes b) (fcGPUs a - fcGPUs b)"

definition Times_cap :: "FleetCapacity \<Rightarrow> int \<Rightarrow> FleetCapacity" where
  "Times_cap a n = FC (fcCPUMillis a * n) (fcMemoryBytes a * n) (fcGPUs a * n)"

definition Covers :: "FleetCapacity \<Rightarrow> FleetCapacity \<Rightarrow> bool" where
  "Covers a b \<longleftrightarrow> fcCPUMillis a \<ge> fcCPUMillis b \<and> fcMemoryBytes a \<ge> fcMemoryBytes b \<and> fcGPUs a \<ge> fcGPUs b"

definition Upper :: "FleetCapacity \<Rightarrow> FleetCapacity \<Rightarrow> FleetCapacity" where
  "Upper a b = FC (max (fcCPUMillis a) (fcCPUMillis b)) (max (fcMemoryBytes a) (fcMemoryBytes b)) (max (fcGPUs a) (fcGPUs b))"

definition Lower :: "FleetCapacity \<Rightarrow> FleetCapacity \<Rightarrow> FleetCapacity" where
  "Lower a b = FC (min (fcCPUMillis a) (fcCPUMillis b)) (min (fcMemoryBytes a) (fcMemoryBytes b)) (min (fcGPUs a) (fcGPUs b))"

definition Clamp :: "FleetCapacity \<Rightarrow> FleetCapacity" where
  "Clamp a = Upper a NoCapacity"

definition Percent :: "FleetCapacity \<Rightarrow> int \<Rightarrow> FleetCapacity" where
  "Percent a p =
     (let up = (\<lambda>v. (v * p + 99) sdiv 100); gpus = (fcGPUs a * p) sdiv 100
      in if fcGPUs a > 0 \<and> gpus = 0 then NoCapacity
         else FC (up (fcCPUMillis a)) (up (fcMemoryBytes a)) gpus)"

definition Empty_cap :: "FleetCapacity \<Rightarrow> bool" where
  "Empty_cap a = Covers NoCapacity a"

text \<open>How many copies of a shape fit, bounded by a limit; the loop runs over the three dimensions.\<close>

definition fits_dim :: "int \<times> int \<Rightarrow> int \<Rightarrow> int" where
  "fits_dim d n = (if snd d > 0 then min n (max (fst d) 0 sdiv snd d) else n)"

definition fits_cap :: "FleetCapacity \<Rightarrow> FleetCapacity \<Rightarrow> int \<Rightarrow> int" where
  "fits_cap a shape limit =
     fold fits_dim [(fcCPUMillis a, fcCPUMillis shape), (fcMemoryBytes a, fcMemoryBytes shape), (fcGPUs a, fcGPUs shape)] limit"

definition totalOf :: "'a list \<Rightarrow> ('a \<Rightarrow> FleetCapacity) \<Rightarrow> FleetCapacity" where
  "totalOf items f = fold (\<lambda>item t. Plus_cap t (f item)) items NoCapacity"

definition total_cap :: "FleetCapacity list \<Rightarrow> FleetCapacity" where
  "total_cap parts = fold (\<lambda>p out. Plus_cap out p) parts NoCapacity"

text \<open>The fewest equal parts, rounded up, that fit within the bound in every dimension it has.\<close>

definition split_dim :: "int \<times> int \<Rightarrow> int \<Rightarrow> int" where
  "split_dim d n = (if snd d > 0 then max n ((fst d + snd d - 1) sdiv snd d) else n)"

definition split_count :: "FleetCapacity \<Rightarrow> FleetCapacity \<Rightarrow> int" where
  "split_count c bound =
     fold split_dim [(fcCPUMillis c, fcCPUMillis bound), (fcMemoryBytes c, fcMemoryBytes bound), (fcGPUs c, fcGPUs bound)] 1"

definition split_cap :: "FleetCapacity \<Rightarrow> FleetCapacity \<Rightarrow> FleetCapacity list" where
  "split_cap c bound =
     (if Empty_cap c then []
      else let n = split_count c bound; up = (\<lambda>v. (v + n - 1) sdiv n)
           in replicate (nat n) (FC (up (fcCPUMillis c)) (up (fcMemoryBytes c)) (up (fcGPUs c))))"

definition unplaced :: "FleetCapacity list \<Rightarrow> FleetCapacity list \<Rightarrow> FleetCapacity list" where
  "unplaced rooms parts = snd (first_fit Covers Minus_cap rooms parts)"

definition placesAll :: "FleetCapacity list \<Rightarrow> FleetCapacity list \<Rightarrow> bool" where
  "placesAll rooms parts \<longleftrightarrow> length (unplaced rooms parts) = 0"

text \<open>\<open>shapeOrder\<close> of \<open>fleet_cover.go\<close> as the key it compares.\<close>

definition shape_key :: "FleetCapacity \<Rightarrow> int \<times> int \<times> int" where
  "shape_key a = (fcGPUs a, fcMemoryBytes a, fcCPUMillis a)"

abbreviation nonneg_cap :: "FleetCapacity \<Rightarrow> bool" where
  "nonneg_cap a \<equiv> Covers a NoCapacity"

subsection \<open>The algebra of capacities\<close>

lemma cap_eqI:
  "fcCPUMillis a = fcCPUMillis b \<Longrightarrow> fcMemoryBytes a = fcMemoryBytes b \<Longrightarrow> fcGPUs a = fcGPUs b
   \<Longrightarrow> a = (b::FleetCapacity)"
  by simp

lemmas cap_defs = NoCapacity_def Plus_cap_def Minus_cap_def Times_cap_def Covers_def Upper_def
  Lower_def Clamp_def Empty_cap_def

declare cap_defs [cap_simps]

interpretation cap_plus: comm_monoid Plus_cap NoCapacity
  by unfold_locales (auto simp: cap_simps)

interpretation cap_upper: semilattice Upper
  by unfold_locales (auto simp: cap_simps max.assoc max.commute max.left_commute)

interpretation cap_lower: semilattice Lower
  by unfold_locales (auto simp: cap_simps min.assoc min.commute min.left_commute)

interpretation cap_order: ordering Covers "\<lambda>a b. Covers a b \<and> a \<noteq> b"
  by unfold_locales (auto simp: cap_simps)

lemma Covers_refl [simp]: "Covers a a"
  by (simp add: cap_simps)

lemma Covers_trans: "Covers a b \<Longrightarrow> Covers b c \<Longrightarrow> Covers a c"
  by (auto simp: cap_simps)

lemma Upper_covers: "Covers (Upper a b) a" "Covers (Upper a b) b"
  by (simp_all add: cap_simps)

lemma Upper_least: "Covers c a \<Longrightarrow> Covers c b \<Longrightarrow> Covers c (Upper a b)"
  by (simp add: cap_simps)

lemma Covers_Lower: "Covers a (Lower a b)" "Covers b (Lower a b)"
  by (simp_all add: cap_simps)

lemma Plus_mono: "Covers a b \<Longrightarrow> Covers c d \<Longrightarrow> Covers (Plus_cap a c) (Plus_cap b d)"
  by (simp add: cap_simps)

lemma Covers_Minus_iff: "Covers a (Plus_cap b c) \<longleftrightarrow> Covers (Minus_cap a b) c"
  by (auto simp: cap_simps)

lemma Minus_nonneg: "Covers a b \<Longrightarrow> nonneg_cap (Minus_cap a b)"
  by (simp add: cap_simps)

lemma Clamp_nonneg [simp]: "nonneg_cap (Clamp a)"
  by (simp add: cap_simps)

lemma Clamp_covers: "Covers (Clamp a) a"
  by (simp add: cap_simps)

lemma Empty_Clamp_iff: "Empty_cap (Clamp (Minus_cap a b)) \<longleftrightarrow> Covers b a"
  by (auto simp: cap_simps)

lemma Plus_Minus [simp]: "Plus_cap (Minus_cap a b) b = a"
  by (simp add: cap_simps)

lemma Covers_summand: "Plus_cap a b = c \<Longrightarrow> nonneg_cap b \<Longrightarrow> Covers c a"
  by (auto simp: cap_simps)

subsection \<open>Sums\<close>

lemma fold_Plus:
  "fold (\<lambda>item t. Plus_cap t (f item)) xs a = Plus_cap a (fold (\<lambda>item t. Plus_cap t (f item)) xs NoCapacity)"
proof (induction xs arbitrary: a)
  case Nil
  then show ?case by simp
next
  case (Cons x xs)
  show ?case
    using Cons.IH [of "Plus_cap a (f x)"] Cons.IH [of "Plus_cap NoCapacity (f x)"]
    by (simp add: cap_plus.assoc)
qed

lemma totalOf_Nil [simp]: "totalOf [] f = NoCapacity"
  by (simp add: totalOf_def)

lemma totalOf_Cons [simp]: "totalOf (x # xs) f = Plus_cap (f x) (totalOf xs f)"
  using fold_Plus [of f xs "Plus_cap NoCapacity (f x)"] by (simp add: totalOf_def)

lemma totalOf_append: "totalOf (xs @ ys) f = Plus_cap (totalOf xs f) (totalOf ys f)"
  by (induction xs) (simp_all add: cap_plus.assoc)

lemma totalOf_nonneg: "\<forall>x\<in>set xs. nonneg_cap (f x) \<Longrightarrow> nonneg_cap (totalOf xs f)"
  by (induction xs) (auto simp: cap_simps)

lemma totalOf_subset:
  "distinct xs \<Longrightarrow> set xs \<subseteq> set ys \<Longrightarrow> \<forall>y\<in>set ys. nonneg_cap (f y) \<Longrightarrow> Covers (totalOf ys f) (totalOf xs f)"
proof (induction xs arbitrary: ys)
  case Nil
  then show ?case using totalOf_nonneg [of ys f] by simp
next
  case (Cons x xs)
  obtain as bs where ys: "ys = as @ x # bs" using Cons.prems(2) by (metis list.set_intros(1) split_list subsetD)
  have "Covers (totalOf (as @ bs) f) (totalOf xs f)" using Cons ys by (intro Cons.IH) auto
  then show ?case by (simp add: ys totalOf_append cap_simps)
qed

lemma total_cap_totalOf: "total_cap xs = totalOf xs id"
  by (simp add: total_cap_def totalOf_def)

lemma total_cap_simps [simp]:
  "total_cap [] = NoCapacity" "total_cap (x # xs) = Plus_cap x (total_cap xs)"
  by (simp_all add: total_cap_totalOf)

lemma total_cap_nonneg: "\<forall>x\<in>set xs. nonneg_cap x \<Longrightarrow> nonneg_cap (total_cap xs)"
  by (induction xs) (auto simp: cap_simps)

lemma total_cap_update:
  assumes "i < length xs"
  shows "total_cap (xs[i := y]) = Plus_cap (Minus_cap (total_cap xs) (xs ! i)) y"
  using assms
proof (induction xs arbitrary: i)
  case Nil
  then show ?case by simp
next
  case (Cons x xs)
  then show ?case by (cases i) (auto simp: cap_simps)
qed

lemma total_cap_replicate:
  "total_cap (replicate n a) = Times_cap a (int n)"
  by (induction n) (auto simp: cap_simps algebra_simps)

subsection \<open>How many copies fit\<close>

lemma fits_dim_bound:
  assumes "0 \<le> n" and "n' = fits_dim d n" and "0 \<le> fst d"
  shows "0 \<le> n'" and "n' \<le> n" and "0 \<le> snd d \<Longrightarrow> n' * snd d \<le> fst d \<or> snd d = 0"
proof -
  show "0 \<le> n'" and "n' \<le> n"
    using assms by (auto simp: fits_dim_def sdiv_nonneg)
  show "n' * snd d \<le> fst d \<or> snd d = 0" if "0 \<le> snd d"
  proof (cases "0 < snd d")
    case True
    then have "n' \<le> fst d div snd d"
      using assms by (simp add: fits_dim_def sdiv_div)
    then have "n' * snd d \<le> (fst d div snd d) * snd d"
      using that by (rule mult_right_mono)
    also have "\<dots> \<le> fst d"
      using assms(3) True by (simp add: minus_mod_eq_div_mult [symmetric])
    finally show ?thesis by simp
  qed (use that in simp)
qed

lemma fits_cap_bounds:
  assumes "0 \<le> limit" and "nonneg_cap a"
  shows "0 \<le> fits_cap a shape limit" and "fits_cap a shape limit \<le> limit"
  using assms by (auto simp: fits_cap_def fits_dim_def cap_simps sdiv_nonneg min_le_iff_disj)

lemma fits_cap_covers:
  assumes "0 \<le> limit" and "nonneg_cap a" and "nonneg_cap shape"
  shows "Covers a (Times_cap shape (fits_cap a shape limit))"
proof -
  let ?n1 = "fits_dim (fcCPUMillis a, fcCPUMillis shape) limit"
  let ?n2 = "fits_dim (fcMemoryBytes a, fcMemoryBytes shape) ?n1"
  let ?n3 = "fits_dim (fcGPUs a, fcGPUs shape) ?n2"
  have a: "0 \<le> fcCPUMillis a" "0 \<le> fcMemoryBytes a" "0 \<le> fcGPUs a"
    and s: "0 \<le> fcCPUMillis shape" "0 \<le> fcMemoryBytes shape" "0 \<le> fcGPUs shape"
    using assms by (auto simp: cap_simps)
  have n1: "0 \<le> ?n1" "?n1 * fcCPUMillis shape \<le> fcCPUMillis a \<or> fcCPUMillis shape = 0"
    using fits_dim_bound [OF assms(1) refl, of "(fcCPUMillis a, fcCPUMillis shape)"] a s by auto
  have n2: "0 \<le> ?n2" "?n2 \<le> ?n1" "?n2 * fcMemoryBytes shape \<le> fcMemoryBytes a \<or> fcMemoryBytes shape = 0"
    using fits_dim_bound [OF n1(1) refl, of "(fcMemoryBytes a, fcMemoryBytes shape)"] a s by auto
  have n3: "0 \<le> ?n3" "?n3 \<le> ?n2" "?n3 * fcGPUs shape \<le> fcGPUs a \<or> fcGPUs shape = 0"
    using fits_dim_bound [OF n2(1) refl, of "(fcGPUs a, fcGPUs shape)"] a s by auto
  have "?n3 * fcCPUMillis shape \<le> ?n1 * fcCPUMillis shape"
    using n2 n3 s by (intro mult_right_mono) auto
  moreover have "?n3 * fcMemoryBytes shape \<le> ?n2 * fcMemoryBytes shape"
    using n3 s by (intro mult_right_mono) auto
  ultimately show ?thesis
    using n1 n2 n3 a by (auto simp: fits_cap_def cap_simps mult.commute)
qed

lemma fits_cap_one:
  assumes "1 \<le> limit" and "nonneg_cap shape" and "Covers a shape"
  shows "1 \<le> fits_cap a shape limit"
proof -
  have step: "1 \<le> fits_dim (x, y) n" if "1 \<le> n" "y \<le> x" for x y n :: int
  proof (cases "0 < y")
    case True
    then have "1 \<le> x div y"
      using that by (simp add: pos_imp_zdiv_pos_iff int_one_le_iff_zero_less)
    with True that show ?thesis by (simp add: fits_dim_def sdiv_div)
  qed (use that in \<open>simp add: fits_dim_def\<close>)
  show ?thesis
    using assms by (auto simp: fits_cap_def cap_simps intro!: step)
qed

lemma fits_dim_greatest:
  assumes "n \<le> l" "n * snd d \<le> fst d" "0 \<le> fst d"
  shows "n \<le> fits_dim d l"
proof (cases "0 < snd d")
  case True
  then have "n \<le> fst d div snd d"
    using zdiv_mono1 [OF assms(2) True] by simp
  with True assms show ?thesis by (simp add: fits_dim_def sdiv_div)
qed (use assms in \<open>simp add: fits_dim_def\<close>)

lemma fits_cap_greatest:
  assumes "n \<le> limit" and "nonneg_cap a" and "Covers a (Times_cap shape n)"
  shows "n \<le> fits_cap a shape limit"
  using assms by (auto simp: fits_cap_def cap_simps mult.commute intro!: fits_dim_greatest)

subsection \<open>Splitting headroom into parts\<close>

lemma split_count_pos: "1 \<le> split_count c bound"
  by (auto simp: split_count_def split_dim_def max_def)

lemma split_dim_mono: "n \<le> split_dim d n"
  by (simp add: split_dim_def)

lemma split_dim_enough:
  assumes "0 \<le> fst d" and "0 < snd d"
  shows "fst d \<le> split_dim d n * snd d"
proof -
  have "fst d \<le> snd d * ((fst d + snd d - 1) div snd d)"
    using ceil_div_bound(1) [OF assms(2)] .
  also have "\<dots> \<le> snd d * split_dim d n"
    using assms by (intro mult_left_mono) (simp_all add: split_dim_def sdiv_div)
  finally show ?thesis by (simp add: mult.commute)
qed

lemma split_count_enough:
  assumes "nonneg_cap c"
  shows "0 < fcCPUMillis bound \<Longrightarrow> fcCPUMillis c \<le> split_count c bound * fcCPUMillis bound"
    and "0 < fcMemoryBytes bound \<Longrightarrow> fcMemoryBytes c \<le> split_count c bound * fcMemoryBytes bound"
    and "0 < fcGPUs bound \<Longrightarrow> fcGPUs c \<le> split_count c bound * fcGPUs bound"
proof -
  have c: "0 \<le> fcCPUMillis c" "0 \<le> fcMemoryBytes c" "0 \<le> fcGPUs c"
    using assms by (auto simp: cap_simps)
  let ?d1 = "(fcCPUMillis c, fcCPUMillis bound)" and ?d2 = "(fcMemoryBytes c, fcMemoryBytes bound)"
    and ?d3 = "(fcGPUs c, fcGPUs bound)"
  have n: "split_count c bound = split_dim ?d3 (split_dim ?d2 (split_dim ?d1 1))"
    by (simp add: split_count_def)
  show "fcGPUs c \<le> split_count c bound * fcGPUs bound" if "0 < fcGPUs bound"
    using split_dim_enough [of ?d3] c that by (simp add: n)
  show "fcMemoryBytes c \<le> split_count c bound * fcMemoryBytes bound" if "0 < fcMemoryBytes bound"
  proof -
    have "fcMemoryBytes c \<le> split_dim ?d2 (split_dim ?d1 1) * fcMemoryBytes bound"
      using split_dim_enough [of ?d2] c that by simp
    also have "\<dots> \<le> split_count c bound * fcMemoryBytes bound"
      using that by (intro mult_right_mono) (simp_all add: n split_dim_mono)
    finally show ?thesis .
  qed
  show "fcCPUMillis c \<le> split_count c bound * fcCPUMillis bound" if "0 < fcCPUMillis bound"
  proof -
    have "fcCPUMillis c \<le> split_dim ?d1 1 * fcCPUMillis bound"
      using split_dim_enough [of ?d1] c that by simp
    also have "\<dots> \<le> split_count c bound * fcCPUMillis bound"
      using that order_trans [OF split_dim_mono split_dim_mono, of "split_dim ?d1 1" ?d3 ?d2]
      by (intro mult_right_mono) (simp_all add: n)
    finally show ?thesis .
  qed
qed

lemma ceil_le_iff:
  fixes v n b :: int
  assumes "0 < n"
  shows "(v + n - 1) div n \<le> b \<longleftrightarrow> v \<le> n * b"
proof
  assume "(v + n - 1) div n \<le> b"
  then have "n * ((v + n - 1) div n) \<le> n * b"
    using assms by (intro mult_left_mono) auto
  with ceil_div_bound(1) [OF assms, of v] show "v \<le> n * b" by linarith
next
  assume "v \<le> n * b"
  with ceil_div_bound(2) [OF assms, of v] have "n * ((v + n - 1) div n) < n * (b + 1)"
    by (simp add: algebra_simps)
  then show "(v + n - 1) div n \<le> b"
    using assms by (simp add: mult_less_cancel_left_pos)
qed

lemma split_dim_least:
  assumes "n \<le> k" and "0 < k" and "0 \<le> fst d" and "0 < snd d \<Longrightarrow> (fst d + k - 1) div k \<le> snd d"
  shows "split_dim d n \<le> k"
proof (cases "0 < snd d")
  case True
  then have "fst d \<le> k * snd d"
    using assms ceil_le_iff [of k "fst d" "snd d"] by simp
  then have "fst d \<le> snd d * k" by (simp add: mult.commute)
  then have "(fst d + snd d - 1) div snd d \<le> k"
    using ceil_le_iff [OF True] by simp
  with True assms show ?thesis by (simp add: split_dim_def sdiv_div)
qed (use assms in \<open>simp add: split_dim_def\<close>)

subsection \<open>Placing parts\<close>

interpretation cap_room: room Covers Minus_cap nonneg_cap
  by unfold_locales (rule Minus_nonneg)

lemma first_fit_total:
  "first_fit Covers Minus_cap rooms parts = (rooms', out) \<Longrightarrow>
     Plus_cap (total_cap rooms') (total_cap parts) = Plus_cap (total_cap rooms) (total_cap out)"
proof (induction parts arbitrary: rooms rooms' out)
  case Nil
  then show ?case by simp
next
  case (Cons p parts)
  show ?case
  proof (cases "index_func (\<lambda>h. Covers h p) rooms")
    case None
    then obtain out' where out': "first_fit Covers Minus_cap rooms parts = (rooms', out')" "out = p # out'"
      using Cons.prems by (auto split: prod.splits)
    from Cons.IH [OF out'(1)] out'(2) show ?thesis
      by (simp add: cap_simps)
  next
    case (Some i)
    have "i < length rooms" using Some by (rule index_func_less)
    moreover have "first_fit Covers Minus_cap (rooms[i := Minus_cap (rooms ! i) p]) parts = (rooms', out)"
      using Some Cons.prems by simp
    note Cons.IH [OF this]
    ultimately show ?thesis
      by (simp add: total_cap_update) (simp add: cap_simps)
  qed
qed

lemma placesAll_iff: "placesAll rooms parts \<longleftrightarrow> unplaced rooms parts = []"
  by (simp add: placesAll_def)

lemma unplaced_rooms:
  obtains rooms' where "first_fit Covers Minus_cap rooms parts = (rooms', unplaced rooms parts)"
  by (cases "first_fit Covers Minus_cap rooms parts") (simp add: unplaced_def)

lemma placesAll_more: "placesAll rooms parts \<Longrightarrow> placesAll (rooms @ extra) parts"
proof -
  assume "placesAll rooms parts"
  moreover obtain rooms' where "first_fit Covers Minus_cap rooms parts = (rooms', unplaced rooms parts)" by (rule unplaced_rooms)
  ultimately have "first_fit Covers Minus_cap (rooms @ extra) parts = (rooms' @ extra, [])"
    by (intro first_fit_more_rooms) (simp add: placesAll_iff)
  then show ?thesis by (simp add: placesAll_iff unplaced_def)
qed

lemma split_cap_length: "\<not> Empty_cap c \<Longrightarrow> int (length (split_cap c bound)) = split_count c bound"
  using split_count_pos [of c bound] by (simp add: split_cap_def Let_def)

lemma split_cap_part:
  assumes "nonneg_cap c" and "p \<in> set (split_cap c bound)"
  shows "p = FC ((fcCPUMillis c + split_count c bound - 1) div split_count c bound)
               ((fcMemoryBytes c + split_count c bound - 1) div split_count c bound)
               ((fcGPUs c + split_count c bound - 1) div split_count c bound)"
  using assms split_count_pos [of c bound]
  by (auto simp: split_cap_def Let_def cap_simps sdiv_div split: if_splits)

lemma split_cap_covers:
  assumes "nonneg_cap c" and "\<not> Empty_cap c"
  shows "Covers (total_cap (split_cap c bound)) c"
proof -
  have n: "0 < split_count c bound" using split_count_pos [of c bound] by linarith
  have "0 \<le> fcCPUMillis c" "0 \<le> fcMemoryBytes c" "0 \<le> fcGPUs c"
    using assms(1) by (auto simp: cap_simps)
  then show ?thesis
    using assms(2) n ceil_div_bound(1) [OF n]
    by (auto simp: split_cap_def Let_def total_cap_replicate sdiv_div Covers_def Times_cap_def mult.commute)
qed

subsection \<open>Properties\<close>

text \<open>
  \<open>split\<close> cuts headroom into parts that together hold it, each within the bound in every
  dimension the bound has, and no smaller number of equal parts would do.
\<close>

theorem split_cap_correct:
  assumes "nonneg_cap c" and "\<not> Empty_cap c"
  shows "Covers (total_cap (split_cap c bound)) c
     \<and> (\<forall>p\<in>set (split_cap c bound).
           (0 < fcCPUMillis bound \<longrightarrow> fcCPUMillis p \<le> fcCPUMillis bound)
         \<and> (0 < fcMemoryBytes bound \<longrightarrow> fcMemoryBytes p \<le> fcMemoryBytes bound)
         \<and> (0 < fcGPUs bound \<longrightarrow> fcGPUs p \<le> fcGPUs bound))
     \<and> (\<forall>k\<ge>1. (0 < fcCPUMillis bound \<longrightarrow> (fcCPUMillis c + k - 1) div k \<le> fcCPUMillis bound)
          \<and> (0 < fcMemoryBytes bound \<longrightarrow> (fcMemoryBytes c + k - 1) div k \<le> fcMemoryBytes bound)
          \<and> (0 < fcGPUs bound \<longrightarrow> (fcGPUs c + k - 1) div k \<le> fcGPUs bound)
          \<longrightarrow> int (length (split_cap c bound)) \<le> k)"
proof (intro conjI)
  let ?n = "split_count c bound"
  have n: "1 \<le> ?n" by (rule split_count_pos)
  then have n0: "0 < ?n" by linarith
  have c: "0 \<le> fcCPUMillis c" "0 \<le> fcMemoryBytes c" "0 \<le> fcGPUs c"
    using assms(1) by (auto simp: cap_simps)
  show "Covers (total_cap (split_cap c bound)) c"
    using assms by (rule split_cap_covers)
  show "\<forall>p\<in>set (split_cap c bound).
           (0 < fcCPUMillis bound \<longrightarrow> fcCPUMillis p \<le> fcCPUMillis bound)
         \<and> (0 < fcMemoryBytes bound \<longrightarrow> fcMemoryBytes p \<le> fcMemoryBytes bound)
         \<and> (0 < fcGPUs bound \<longrightarrow> fcGPUs p \<le> fcGPUs bound)"
    using split_cap_part [OF assms(1)] split_count_enough [OF assms(1)] n0
    by (fastforce simp: ceil_le_iff)
  show "\<forall>k\<ge>1. (0 < fcCPUMillis bound \<longrightarrow> (fcCPUMillis c + k - 1) div k \<le> fcCPUMillis bound)
          \<and> (0 < fcMemoryBytes bound \<longrightarrow> (fcMemoryBytes c + k - 1) div k \<le> fcMemoryBytes bound)
          \<and> (0 < fcGPUs bound \<longrightarrow> (fcGPUs c + k - 1) div k \<le> fcGPUs bound)
          \<longrightarrow> int (length (split_cap c bound)) \<le> k"
    using c by (auto simp: split_cap_length [OF assms(2)] split_count_def intro!: split_dim_least)
qed

theorem split_cap_correct_witness:
  "split_cap (FC 10000 20 0) (FC 4000 0 0) = replicate 3 (FC 3334 7 0)
   \<and> Covers (total_cap (split_cap (FC 10000 20 0) (FC 4000 0 0))) (FC 10000 20 0)"
proof -
  have "nonneg_cap (FC 10000 20 0)" and "\<not> Empty_cap (FC 10000 20 0)"
    by (simp_all add: cap_simps)
  from split_cap_correct [OF this, of "FC 4000 0 0"] show ?thesis
    by (simp add: split_cap_def split_count_def split_dim_def cap_simps signed_divide_int_def numeral_3_eq_3)
qed

text \<open>
  What \<open>unplaced\<close> leaves out is part of what was asked, and the rooms hold the rest: no room
  is counted twice. When all parts are placed the rooms cover their total.
\<close>

theorem unplaced_sound:
  assumes "\<forall>r\<in>set rooms. nonneg_cap r"
  shows "mset (unplaced rooms parts) \<subseteq># mset parts
     \<and> Covers (total_cap rooms) (Minus_cap (total_cap parts) (total_cap (unplaced rooms parts)))
     \<and> (placesAll rooms parts \<longrightarrow> Covers (total_cap rooms) (total_cap parts))"
proof (intro conjI)
  obtain rooms' where ff: "first_fit Covers Minus_cap rooms parts = (rooms', unplaced rooms parts)"
    by (rule unplaced_rooms)
  show "mset (unplaced rooms parts) \<subseteq># mset parts"
    using cap_room.first_fit_left_over [OF ff] by simp
  have "nonneg_cap (total_cap rooms')"
    using cap_room.first_fit_ok [OF assms ff] by (rule total_cap_nonneg)
  with first_fit_total [OF ff]
  show "Covers (total_cap rooms) (Minus_cap (total_cap parts) (total_cap (unplaced rooms parts)))"
    by (simp add: cap_simps)
  then show "placesAll rooms parts \<longrightarrow> Covers (total_cap rooms) (total_cap parts)"
    by - (rule impI, simp add: placesAll_iff, simp add: cap_simps)
qed

theorem unplaced_sound_witness:
  "unplaced [FC 4 4 0, FC 2 8 0] [FC 3 3 0, FC 2 4 0, FC 2 1 0] = [FC 2 1 0]
   \<and> Covers (total_cap [FC 4 4 0, FC 2 8 0]) (Minus_cap (total_cap [FC 3 3 0, FC 2 4 0, FC 2 1 0]) (FC 2 1 0))"
proof -
  have e: "unplaced [FC 4 4 0, FC 2 8 0] [FC 3 3 0, FC 2 4 0, FC 2 1 0] = [FC 2 1 0]"
    by (simp add: unplaced_def cap_simps)
  have "\<forall>r\<in>set [FC 4 4 0, FC 2 8 0]. nonneg_cap r"
    by (simp add: cap_simps)
  from unplaced_sound [OF this, of "[FC 3 3 0, FC 2 4 0, FC 2 1 0]"] e show ?thesis by simp
qed

text \<open>
  \<open>fits\<close> is the most copies of a shape, up to the limit, that fit: that many fit, and one
  more, within the limit, does not.
\<close>

theorem fits_cap_maximal:
  assumes "0 \<le> limit" and "nonneg_cap a" and "nonneg_cap shape"
  shows "Covers a (Times_cap shape (fits_cap a shape limit))
     \<and> (fits_cap a shape limit < limit \<longrightarrow> \<not> Covers a (Times_cap shape (fits_cap a shape limit + 1)))"
proof (intro conjI impI)
  show "Covers a (Times_cap shape (fits_cap a shape limit))"
    by (rule fits_cap_covers [OF assms])
  show "\<not> Covers a (Times_cap shape (fits_cap a shape limit + 1))" if "fits_cap a shape limit < limit"
    using fits_cap_greatest [OF _ assms(2), of "fits_cap a shape limit + 1" limit shape] that by auto
qed

theorem fits_cap_maximal_witness:
  "fits_cap (FC 9000 16 1) (FC 2000 3 0) 10 = 4 \<and> \<not> Covers (FC 9000 16 1) (Times_cap (FC 2000 3 0) 5)"
proof -
  have n: "fits_cap (FC 9000 16 1) (FC 2000 3 0) 10 = 4"
    by (simp add: fits_cap_def fits_dim_def signed_divide_int_def)
  have "(0::int) \<le> 10" "nonneg_cap (FC 9000 16 1)" "nonneg_cap (FC 2000 3 0)"
    by (simp_all add: cap_simps)
  from fits_cap_maximal [OF this] n show ?thesis by simp
qed

end
