(* ===== verification/Float64.thy ===== *)
theory Float64
  imports Prelude "HOL-Library.Log_Nat"
begin

text \<open>
  Go's \<open>float64\<close>, as far as the planner uses it: quotients of integers and their sums, rounded
  to nearest with ties to even. A finite \<open>float64\<close> is the rational number it denotes, and
  \<open>fl\<close> rounds a rational to it; \<open>float64(n)\<close>, \<open>x / y\<close> and \<open>x + y\<close> are \<open>fl\<close> of the exact
  result. The magnitudes here stay below \<open>2 ^ 64\<close>, so overflow to an infinity cannot occur, and a
  divisor is never zero, so no NaN arises.
\<close>

text \<open>The largest \<open>e\<close> with \<open>2 ^ e \<le> x\<close>, from the bit lengths of the quotient's parts.\<close>

definition ilog2 :: "rat \<Rightarrow> int" where
  "ilog2 x = (let (n, d) = quotient_of x; k = bitlen n - bitlen d
              in if 2 powi k \<le> x then k else k - 1)"

text \<open>The spacing of the floats of \<open>x\<close>'s binade: 53 significant bits, \<open>2 ^ -1074\<close> at least.\<close>

definition ulp :: "rat \<Rightarrow> rat" where
  "ulp x = 2 powi (max (ilog2 x - 52) (-1074))"

definition round_even :: "rat \<Rightarrow> int" where
  "round_even x = (let f = \<lfloor>x\<rfloor>; r = x - of_int f
                   in if r < 1/2 then f else if r > 1/2 then f + 1 else if even f then f else f + 1)"

definition fl_pos :: "rat \<Rightarrow> rat" where
  "fl_pos x = of_int (round_even (x / ulp x)) * ulp x"

definition fl :: "rat \<Rightarrow> rat" where
  "fl x = (if x = 0 then 0 else if x < 0 then - fl_pos (- x) else fl_pos x)"

definition float_of_int :: "int \<Rightarrow> rat" where
  "float_of_int n = fl (of_int n)"

definition fdiv :: "rat \<Rightarrow> rat \<Rightarrow> rat" where
  "fdiv x y = fl (x / y)"

definition fadd :: "rat \<Rightarrow> rat \<Rightarrow> rat" where
  "fadd x y = fl (x + y)"

subsection \<open>The logarithm\<close>

lemma powi_split: "(2::rat) powi (a - b) = 2 powi a / 2 powi b"
  by (simp add: power_int_diff)

lemma bitlen_powi:
  assumes "0 < n"
  shows "(2::rat) powi (bitlen n - 1) \<le> of_int n" and "of_int n < (2::rat) powi (bitlen n)"
proof -
  have b: "2 ^ nat (bitlen n - 1) \<le> n" "n < 2 ^ nat (bitlen n)"
    using bitlen_bounds [OF assms] by auto
  have pos: "1 \<le> bitlen n"
    using assms by (simp add: bitlen_def floorlog_def)
  have "(2::rat) powi (bitlen n - 1) = of_int (2 ^ nat (bitlen n - 1))"
    and "(2::rat) powi (bitlen n) = of_int (2 ^ nat (bitlen n))"
    using pos by (simp_all add: power_int_def)
  with b show "(2::rat) powi (bitlen n - 1) \<le> of_int n" and "of_int n < (2::rat) powi (bitlen n)"
    by (simp_all only: of_int_le_iff of_int_less_iff)
qed

lemma ilog2_bounds:
  assumes "0 < x"
  shows "2 powi (ilog2 x) \<le> x" and "x < 2 powi (ilog2 x + 1)"
proof -
  obtain n d where q: "quotient_of x = (n, d)" by (cases "quotient_of x")
  have x: "x = of_int n / of_int d" and d: "0 < d"
    using quotient_of_div [OF q] quotient_of_denom_pos [OF q] by auto
  have n: "0 < n"
    using assms d by (simp add: x zero_less_divide_iff)
  let ?k = "bitlen n - bitlen d"
  have "of_int n / of_int d \<ge> 2 powi (bitlen n - 1) / (2 powi (bitlen d) :: rat)"
    using bitlen_powi [OF n] bitlen_powi [OF d] d n by (intro frac_le) (auto intro: less_imp_le)
  also have "2 powi (bitlen n - 1) / (2 powi (bitlen d) :: rat) = 2 powi (?k - 1)"
    by (simp add: powi_split [symmetric] algebra_simps)
  finally have lo: "2 powi (?k - 1) \<le> x" by (simp add: x)
  have "x < 2 powi (bitlen n) / (2 powi (bitlen d - 1) :: rat)"
    unfolding x using bitlen_powi [OF n] bitlen_powi [OF d] n
    by (intro frac_less) auto
  also have "2 powi (bitlen n) / (2 powi (bitlen d - 1) :: rat) = 2 powi (?k + 1)"
    by (simp add: powi_split [symmetric] algebra_simps)
  finally have hi: "x < 2 powi (?k + 1)" .
  show "2 powi (ilog2 x) \<le> x" and "x < 2 powi (ilog2 x + 1)"
    using lo hi by (auto simp: ilog2_def q Let_def)
qed

lemma ilog2_mono:
  assumes "0 < x" and "x \<le> y"
  shows "ilog2 x \<le> ilog2 y"
proof (rule ccontr)
  assume "\<not> ilog2 x \<le> ilog2 y"
  then have "(2::rat) powi (ilog2 y + 1) \<le> 2 powi (ilog2 x)"
    by (intro power_int_increasing) auto
  with ilog2_bounds(1) [OF assms(1)] ilog2_bounds(2) [of y] assms show False
    by linarith
qed

subsection \<open>Rounding is monotone\<close>

lemma round_even_near: "of_int (round_even x) \<le> x + 1/2" and "x - 1/2 \<le> of_int (round_even x)"
  by (auto simp: round_even_def Let_def) linarith+

lemma round_even_of_int [simp]: "round_even (of_int n) = n"
  by (simp add: round_even_def)

lemma round_even_mono:
  assumes "x \<le> y"
  shows "round_even x \<le> round_even y"
proof (cases "\<lfloor>x\<rfloor> = \<lfloor>y\<rfloor>")
  case True
  with assms show ?thesis by (auto simp: round_even_def Let_def)
next
  case False
  then have "\<lfloor>x\<rfloor> + 1 \<le> \<lfloor>y\<rfloor>"
    using floor_mono [OF assms] by linarith
  moreover have "round_even x \<le> \<lfloor>x\<rfloor> + 1" "\<lfloor>y\<rfloor> \<le> round_even y"
    by (auto simp: round_even_def Let_def)
  ultimately show ?thesis by linarith
qed

lemma ulp_pos [simp]: "0 < ulp x"
  by (simp add: ulp_def)

lemma fl_pos_mono:
  assumes "0 < x" and "x \<le> y"
  shows "fl_pos x \<le> fl_pos y"
proof -
  let ?ex = "max (ilog2 x - 52) (-1074)" and ?ey = "max (ilog2 y - 52) (-1074)"
  have le: "?ex \<le> ?ey" using ilog2_mono [OF assms] by linarith
  show ?thesis
  proof (cases "?ex = ?ey")
    case True
    then have "ulp x = ulp y" by (simp add: ulp_def)
    moreover have "round_even (x / ulp x) \<le> round_even (y / ulp x)"
      using assms by (intro round_even_mono divide_right_mono) (auto intro: less_imp_le)
    ultimately show ?thesis
      by (auto simp: fl_pos_def intro!: mult_right_mono intro: less_imp_le)
  next
    case False
    then have ey: "?ey = ilog2 y - 52" and lt: "?ex + 1 \<le> ?ey" using le by linarith+
    have "x < 2 powi (?ex + 53)"
      using ilog2_bounds(2) [OF assms(1)]
      by (rule less_le_trans) (intro power_int_increasing, auto)
    then have "x / ulp x \<le> of_int (2 ^ 53)"
      by (simp add: ulp_def power_int_add divide_le_eq algebra_simps)
    from round_even_mono [OF this] have "round_even (x / ulp x) \<le> 2 ^ 53"
      by (simp only: round_even_of_int)
    then have "(of_int (round_even (x / ulp x)) :: rat) \<le> of_int (2 ^ 53)"
      by (simp only: of_int_le_iff)
    then have "fl_pos x \<le> of_int (2 ^ 53) * ulp x"
      unfolding fl_pos_def by (intro mult_right_mono) (auto intro: less_imp_le)
    also have "of_int (2 ^ 53) * ulp x = 2 powi (?ex + 53)"
      by (simp add: ulp_def power_int_add)
    also have "(2::rat) powi (?ex + 53) \<le> 2 powi (?ey + 52)"
      using lt by (intro power_int_increasing) auto
    also have "2 powi (?ey + 52) = of_int (2 ^ 52) * ulp y"
      by (simp add: ulp_def power_int_add)
    also have "\<dots> \<le> fl_pos y"
    proof -
      have "2 powi (?ey + 52) \<le> y"
        using ilog2_bounds(1) [of y] assms ey by simp
      then have "of_int (2 ^ 52) \<le> y / ulp y"
        by (simp add: ulp_def power_int_add le_divide_eq algebra_simps)
      from round_even_mono [OF this] have "2 ^ 52 \<le> round_even (y / ulp y)"
        by (simp only: round_even_of_int)
      then have "(of_int (2 ^ 52) :: rat) \<le> of_int (round_even (y / ulp y))"
        by (simp only: of_int_le_iff)
      then show ?thesis
        unfolding fl_pos_def by (intro mult_right_mono) (auto intro: less_imp_le)
    qed
    finally show ?thesis .
  qed
qed

lemma fl_pos_nonneg:
  assumes "0 < x"
  shows "0 \<le> fl_pos x"
proof -
  have "0 \<le> x / ulp x"
    using assms by (simp add: less_imp_le)
  from round_even_mono [OF this] round_even_of_int [of 0] have "0 \<le> round_even (x / ulp x)"
    by simp
  then show ?thesis
    by (simp add: fl_pos_def less_imp_le)
qed

lemma fl_mono:
  assumes "x \<le> y"
  shows "fl x \<le> fl y"
  using assms fl_pos_mono [of x y] fl_pos_mono [of "- y" "- x"] fl_pos_nonneg [of y] fl_pos_nonneg [of "- x"]
  by (auto simp: fl_def)

text \<open>
  What the ranking needs of rounding: it is monotone and fixes zero. Every order fact about
  scores follows from these two laws.
\<close>

locale rounding =
  fixes rnd :: "rat \<Rightarrow> rat"
  assumes rnd_mono: "x \<le> y \<Longrightarrow> rnd x \<le> rnd y"
    and rnd_zero: "rnd 0 = 0"
begin

lemma rnd_nonneg: "0 \<le> x \<Longrightarrow> 0 \<le> rnd x"
  using rnd_mono [of 0 x] by (simp add: rnd_zero)

lemma quotient_mono:
  assumes "a \<le> a'" and "0 \<le> d"
  shows "rnd (rnd a / rnd d) \<le> rnd (rnd a' / rnd d)"
  using assms by (intro rnd_mono divide_right_mono) (auto intro: rnd_mono rnd_nonneg)

lemma sum_mono:
  assumes "a \<le> a'" and "b \<le> b'"
  shows "rnd (a + b) \<le> rnd (a' + b')"
  using assms by (intro rnd_mono add_mono)

end

interpretation f64: rounding fl
proof
  show "fl x \<le> fl y" if "x \<le> y" for x y :: rat
    using that by (rule fl_mono)
  show "fl 0 = 0"
    by (simp add: fl_def)
qed

lemma fdiv_mono: "a \<le> a' \<Longrightarrow> 0 \<le> d \<Longrightarrow> fdiv (float_of_int a) (float_of_int d) \<le> fdiv (float_of_int a') (float_of_int d)"
  unfolding fdiv_def float_of_int_def by (rule f64.quotient_mono) auto

lemma fadd_mono: "a \<le> a' \<Longrightarrow> b \<le> b' \<Longrightarrow> fadd a b \<le> fadd a' b'"
  unfolding fadd_def by (rule f64.sum_mono)

end
