(* ===== verification/Hosts.thy ===== *)
theory Hosts
  imports Capacity Float64
begin

text \<open>
  \<open>internal/compute/capacity.go\<close> (with the enumerations of \<open>types.go\<close> and \<open>sameOwner\<close> of
  \<open>planner.go\<close>): what a container needs from its host, what a host has free, which hosts
  accept and fit a container, and \<open>ChooseHost\<close>, the choice both the placer and the fleet
  planner make. \<open>Reserve\<close> and \<open>Evict\<close> mutate a host through a pointer in Go and return the new
  host here. \<open>AvailableCapacity\<close>, which only copies rows of a database query, is not modelled.
\<close>

datatype HostKind = KindPlatform | KindConnection | KindMachine
datatype Provider = ProviderAgent | ProviderAWS
datatype Market = MarketNone | MarketSpot | MarketOnDemand

type_synonym HostID = uuid

record VolumeRead =
  vrRegion :: string
  vrBytes :: int

record Requirement =
  rWorkspace :: uuid
  rConnection :: "uuid option"
  rMachine :: string
  rRegion :: string
  rZone :: string
  rPreemptible :: bool
  rGPUs :: "string list"
  rGPUCount :: int
  rCPUMillis :: int
  rMemoryBytes :: int
  rDisks :: int
  rPrefer :: "HostID option"
  rRead :: "VolumeRead option"
  rPacks :: bool

record HostCapacity =
  hcHost :: HostID
  hcKind :: HostKind
  hcProvider :: Provider
  hcConnection :: "uuid option"
  hcName :: string
  hcWorkspaces :: "uuid list"
  hcRegion :: string
  hcZone :: string
  hcZoneID :: string
  hcMarket :: Market
  hcGPUType :: string
  hcGPUCount :: int
  hcCPUMillis :: int
  hcMemoryBytes :: int
  hcFreeCPUMillis :: int
  hcFreeMemoryBytes :: int
  hcFreeGPUs :: int
  hcFreeDiskSlots :: int
  hcHandsBack :: bool
  hcPacked :: FleetCapacity

definition GPUAny :: string where
  "GPUAny = ''any''"

definition VolumeReadOf :: "string option \<Rightarrow> int \<Rightarrow> VolumeRead option" where
  "VolumeReadOf region bytes =
     (case region of None \<Rightarrow> None | Some r \<Rightarrow> Some \<lparr>vrRegion = r, vrBytes = bytes\<rparr>)"

definition GPUsNeeded :: "Requirement \<Rightarrow> int" where
  "GPUsNeeded r = (if rGPUCount r = 0 \<and> rGPUs r \<noteq> [] then 1 else rGPUCount r)"

definition sameOwner :: "uuid option \<Rightarrow> uuid option \<Rightarrow> bool" where
  "sameOwner a b = (case (a, b) of (None, None) \<Rightarrow> True | (Some x, Some y) \<Rightarrow> x = y | _ \<Rightarrow> False)"

definition GPUAccepted :: "string list \<Rightarrow> string \<Rightarrow> bool" where
  "GPUAccepted preference model \<longleftrightarrow> model \<noteq> '''' \<and> (\<exists>p\<in>set preference. p = GPUAny \<or> p = model)"

definition GPURank :: "string list \<Rightarrow> string \<Rightarrow> int" where
  "GPURank preference model =
     (case index_func (\<lambda>p. p = GPUAny \<or> p = model) preference of None \<Rightarrow> - 1 | Some n \<Rightarrow> int n)"

definition ProductRegion :: "string \<Rightarrow> string" where
  "ProductRegion region =
     (if region = ''us-east-1'' \<or> region = ''us-east-2'' then ''us-east''
      else if region = ''us-west-1'' \<or> region = ''us-west-2'' then ''us-west''
      else if region = ''eu-central-1'' \<or> region = ''eu-central-2'' then ''eu-central''
      else if region = ''eu-north-1'' then ''eu-north''
      else if region = ''ap-southeast-1'' \<or> region = ''ap-southeast-3'' \<or> region = ''ap-southeast-5''
      then ''ap-southeast'' else '''')"

definition packs :: "HostCapacity \<Rightarrow> Requirement \<Rightarrow> bool" where
  "packs h r \<longleftrightarrow> rPacks r \<and> GPUsNeeded r = 0 \<and> hcGPUCount h > 0 \<and> hcProvider h = ProviderAWS
     \<and> hcFreeGPUs h < hcGPUCount h"

definition Accepts :: "HostCapacity \<Rightarrow> Requirement \<Rightarrow> bool" where
  "Accepts h r =
     (if rMachine r \<noteq> '''' \<and> (hcKind h \<noteq> KindMachine \<or> hcName h \<noteq> rMachine r \<or> rWorkspace r \<notin> set (hcWorkspaces h))
      then False
      else if rMachine r = '''' \<and> (hcKind h = KindMachine \<or> \<not> sameOwner (hcConnection h) (rConnection r))
      then False
      else if rRegion r \<noteq> '''' \<and> ProductRegion (hcRegion h) \<noteq> rRegion r then False
      else if rZone r \<noteq> '''' \<and> hcZone h \<noteq> rZone r \<and> hcZoneID h \<noteq> rZone r then False
      else if \<not> rPreemptible r \<and> hcMarket h = MarketSpot \<or> rPreemptible r \<and> hcHandsBack h then False
      else if GPUsNeeded r > 0 then hcGPUCount h \<ge> GPUsNeeded r \<and> GPUAccepted (rGPUs r) (hcGPUType h)
      else hcGPUCount h = 0 \<or> hcProvider h \<noteq> ProviderAWS \<or> packs h r)"

definition host_room :: "HostCapacity \<Rightarrow> Requirement \<Rightarrow> FleetCapacity" where
  "host_room h r =
     (let free = FC (hcFreeCPUMillis h) (hcFreeMemoryBytes h) 0
      in if GPUsNeeded r > 0 then Plus_cap free (hcPacked h) else free)"

definition Fits :: "HostCapacity \<Rightarrow> Requirement \<Rightarrow> bool" where
  "Fits h r \<longleftrightarrow> Accepts h r \<and> fcCPUMillis (host_room h r) \<ge> rCPUMillis r
     \<and> fcMemoryBytes (host_room h r) \<ge> rMemoryBytes r
     \<and> hcFreeGPUs h \<ge> GPUsNeeded r \<and> hcFreeDiskSlots h \<ge> rDisks r"

definition Evicts :: "HostCapacity \<Rightarrow> Requirement \<Rightarrow> bool" where
  "Evicts h r \<longleftrightarrow> GPUsNeeded r > 0 \<and> (hcFreeCPUMillis h < rCPUMillis r \<or> hcFreeMemoryBytes h < rMemoryBytes r)"

definition floorHost :: "HostCapacity \<Rightarrow> bool" where
  "floorHost h \<longleftrightarrow> hcKind h \<noteq> KindMachine \<and> hcMarket h = MarketOnDemand \<and> hcGPUCount h = 0"

definition keepsFloor :: "HostCapacity \<Rightarrow> FleetCapacity \<Rightarrow> bool" where
  "keepsFloor h flr \<longleftrightarrow> floorHost h \<and> hcFreeCPUMillis h \<ge> fcCPUMillis flr \<and> hcFreeMemoryBytes h \<ge> fcMemoryBytes flr"

definition Evict :: "HostCapacity \<Rightarrow> FleetCapacity \<Rightarrow> HostCapacity" where
  "Evict h shape = h\<lparr>hcPacked := Minus_cap (hcPacked h) shape,
     hcFreeCPUMillis := hcFreeCPUMillis h + fcCPUMillis shape,
     hcFreeMemoryBytes := hcFreeMemoryBytes h + fcMemoryBytes shape\<rparr>"

definition Reserve :: "HostCapacity \<Rightarrow> Requirement \<Rightarrow> HostCapacity" where
  "Reserve h r =
     (let h' = h\<lparr>hcFreeCPUMillis := hcFreeCPUMillis h - rCPUMillis r,
                 hcFreeMemoryBytes := hcFreeMemoryBytes h - rMemoryBytes r,
                 hcFreeGPUs := hcFreeGPUs h - GPUsNeeded r,
                 hcFreeDiskSlots := hcFreeDiskSlots h - rDisks r\<rparr>
      in if GPUsNeeded r > 0
         then Evict h' (FC (max (- hcFreeCPUMillis h') 0) (max (- hcFreeMemoryBytes h') 0) 0)
         else h')"

text \<open>
  The rank of a host in \<open>ChooseHost\<close>: the fields of its local struct, compared in order. The
  score adds two rounded quotients.
\<close>

type_synonym host_rank = "bool \<times> bool \<times> bool \<times> bool \<times> bool \<times> rat"

definition host_score :: "HostCapacity \<Rightarrow> Requirement \<Rightarrow> rat" where
  "host_score h r =
     fadd (fdiv (float_of_int (hcFreeCPUMillis h - rCPUMillis r)) (float_of_int (hcCPUMillis h)))
          (fdiv (float_of_int (hcFreeMemoryBytes h - rMemoryBytes r)) (float_of_int (hcMemoryBytes h)))"

definition rank_of :: "HostCapacity \<Rightarrow> Requirement \<Rightarrow> host_rank" where
  "rank_of h r =
     (rPreemptible r \<and> hcMarket h \<noteq> MarketSpot,
      rPrefer r \<noteq> Some (hcHost h),
      (case rRead r of None \<Rightarrow> True | Some rd \<Rightarrow> hcRegion h \<noteq> vrRegion rd),
      \<not> packs h r, Evicts h r, host_score h r)"

definition floor_holders :: "HostCapacity list \<Rightarrow> Requirement \<Rightarrow> FleetCapacity \<Rightarrow> int" where
  "floor_holders hosts r flr =
     int (length (filter (\<lambda>h. keepsFloor h flr \<and> sameOwner (hcConnection h) (rConnection r)) hosts))"

text \<open>Whether the loop skips a host: it does not fit, or lending it would take the last floor.\<close>

definition eligible :: "int \<Rightarrow> Requirement \<Rightarrow> FleetCapacity \<Rightarrow> HostCapacity \<Rightarrow> bool" where
  "eligible holders r flr h \<longleftrightarrow>
     hcCPUMillis h > 0 \<and> hcMemoryBytes h > 0 \<and> Fits h r
     \<and> (rPreemptible r \<and> hcMarket h \<noteq> MarketSpot \<and> \<not> Empty_cap flr \<and> floorHost h
        \<longrightarrow> (if keepsFloor h flr \<and> \<not> keepsFloor (Reserve h r) flr then holders - 1 else holders) \<ge> 1)"

definition ChooseHost :: "HostCapacity list \<Rightarrow> Requirement \<Rightarrow> FleetCapacity \<Rightarrow> nat option" where
  "ChooseHost hosts r flr =
     (let holders = (if rPreemptible r \<and> \<not> Empty_cap flr then floor_holders hosts r flr else 0)
      in map_option fst (scan_best (\<lambda>h. if eligible holders r flr h then Some (rank_of h r) else None) 0 None hosts))"

subsection \<open>Reserving room\<close>

declare Evict_def [host_simps] Reserve_def [host_simps] host_room_def [host_simps] Evicts_def [host_simps]

definition host_ok :: "HostCapacity \<Rightarrow> bool" where
  "host_ok h \<longleftrightarrow> 0 \<le> hcFreeCPUMillis h \<and> 0 \<le> hcFreeMemoryBytes h \<and> 0 \<le> hcFreeGPUs h \<and> 0 \<le> hcFreeDiskSlots h
     \<and> nonneg_cap (hcPacked h)"

lemma Fits_Accepts: "Fits h r \<Longrightarrow> Accepts h r"
  by (simp add: Fits_def)

lemma Reserve_ok: "host_ok h \<Longrightarrow> Fits h r \<Longrightarrow> host_ok (Reserve h r)"
  by (auto simp: host_ok_def Fits_def host_simps cap_simps Let_def max_def split: if_splits)

interpretation host_room: room Fits Reserve host_ok
  by unfold_locales (rule Reserve_ok)

lemma Reserve_fields [simp]:
  "hcHost (Reserve h r) = hcHost h" "hcKind (Reserve h r) = hcKind h" "hcMarket (Reserve h r) = hcMarket h"
  "hcConnection (Reserve h r) = hcConnection h" "hcGPUCount (Reserve h r) = hcGPUCount h"
  "hcFreeGPUs (Reserve h r) = hcFreeGPUs h - GPUsNeeded r" "hcFreeDiskSlots (Reserve h r) = hcFreeDiskSlots h - rDisks r"
  by (simp_all add: Reserve_def Evict_def Let_def)

lemma Evict_fields [simp]:
  "hcHost (Evict h s) = hcHost h" "hcKind (Evict h s) = hcKind h" "hcMarket (Evict h s) = hcMarket h"
  "hcConnection (Evict h s) = hcConnection h" "hcGPUCount (Evict h s) = hcGPUCount h"
  "hcFreeGPUs (Evict h s) = hcFreeGPUs h" "hcFreeDiskSlots (Evict h s) = hcFreeDiskSlots h"
  by (simp_all add: Evict_def)

text \<open>Free room and packed room together fall by exactly what was reserved.\<close>

lemma Reserve_conserves:
  "hcFreeCPUMillis (Reserve h r) + fcCPUMillis (hcPacked (Reserve h r))
     = hcFreeCPUMillis h + fcCPUMillis (hcPacked h) - rCPUMillis r"
  "hcFreeMemoryBytes (Reserve h r) + fcMemoryBytes (hcPacked (Reserve h r))
     = hcFreeMemoryBytes h + fcMemoryBytes (hcPacked h) - rMemoryBytes r"
  by (simp_all add: host_simps cap_simps Let_def)

subsection \<open>The choice\<close>

lemma ChooseHost_Some:
  assumes "ChooseHost hosts r flr = Some i"
  obtains holders where
    "holders = (if rPreemptible r \<and> \<not> Empty_cap flr then floor_holders hosts r flr else 0)"
    "i < length hosts" "eligible holders r flr (hosts ! i)"
    "\<And>j. j < length hosts \<Longrightarrow> eligible holders r flr (hosts ! j) \<Longrightarrow> rank_of (hosts ! i) r \<le> rank_of (hosts ! j) r"
    "\<And>j. j < i \<Longrightarrow> eligible holders r flr (hosts ! j) \<Longrightarrow> rank_of (hosts ! i) r < rank_of (hosts ! j) r"
proof -
  define holders where "holders = (if rPreemptible r \<and> \<not> Empty_cap flr then floor_holders hosts r flr else 0)"
  let ?rank = "\<lambda>h. if eligible holders r flr h then Some (rank_of h r) else None"
  from assms obtain k where s: "scan_best ?rank 0 None hosts = Some (i, k)"
    by (auto simp: ChooseHost_def holders_def Let_def)
  note scan = scan_best_Some [OF s]
  have k: "eligible holders r flr (hosts ! i)" "k = rank_of (hosts ! i) r"
    using scan(2) by (auto split: if_splits)
  show thesis
    using that [OF holders_def scan(1) k(1)] scan(3,4) k by (auto simp del: less_eq_prod_simp less_prod_simp)
qed

lemma ChooseHost_fits: "ChooseHost hosts r flr = Some i \<Longrightarrow> i < length hosts \<and> Fits (hosts ! i) r"
  by (erule ChooseHost_Some) (auto simp: eligible_def)

lemma ChooseHost_None:
  "ChooseHost hosts r flr = None \<longleftrightarrow>
     (\<forall>h\<in>set hosts. \<not> eligible (if rPreemptible r \<and> \<not> Empty_cap flr then floor_holders hosts r flr else 0) r flr h)"
  by (auto simp: ChooseHost_def Let_def scan_best_None)

interpretation host_choice: chooser Fits Reserve host_ok "\<lambda>hs r. ChooseHost hs r flr" for flr
  by unfold_locales (rule ChooseHost_fits)

lemma host_score_mono:
  assumes "hcFreeCPUMillis a \<le> hcFreeCPUMillis b" and "hcFreeMemoryBytes a \<le> hcFreeMemoryBytes b"
    and "hcCPUMillis a = hcCPUMillis b" and "hcMemoryBytes a = hcMemoryBytes b"
    and "0 \<le> hcCPUMillis a" and "0 \<le> hcMemoryBytes a"
  shows "host_score a r \<le> host_score b r"
  using assms unfolding host_score_def by (auto intro!: fadd_mono fdiv_mono)

subsection \<open>Properties\<close>

text \<open>Concrete values for the witnesses: a platform host and a requirement of 1 CPU and 1 GiB.\<close>

definition demo_host :: "HostID \<Rightarrow> Market \<Rightarrow> int \<Rightarrow> int \<Rightarrow> HostCapacity" where
  "demo_host n m cpu mem =
     \<lparr>hcHost = n, hcKind = KindPlatform, hcProvider = ProviderAWS, hcConnection = None, hcName = [], hcWorkspaces = [],
      hcRegion = ''us-east-1'', hcZone = [], hcZoneID = [], hcMarket = m, hcGPUType = [], hcGPUCount = 0,
      hcCPUMillis = 4000, hcMemoryBytes = 8, hcFreeCPUMillis = cpu, hcFreeMemoryBytes = mem, hcFreeGPUs = 0,
      hcFreeDiskSlots = 2, hcHandsBack = False, hcPacked = NoCapacity\<rparr>"

definition demo_need :: Requirement where
  "demo_need =
     \<lparr>rWorkspace = 1, rConnection = None, rMachine = [], rRegion = [], rZone = [], rPreemptible = True,
      rGPUs = [], rGPUCount = 0, rCPUMillis = 1000, rMemoryBytes = 1, rDisks = 0, rPrefer = None, rRead = None,
      rPacks = False\<rparr>"

lemmas demo_simps = demo_host_def demo_need_def Fits_def Accepts_def packs_def host_room_def GPUsNeeded_def
  sameOwner_def floorHost_def keepsFloor_def eligible_def floor_holders_def Reserve_def Evict_def Evicts_def cap_simps

lemma demo_eligible: "eligible n demo_need NoCapacity (demo_host k MarketSpot c m) \<longleftrightarrow> 1000 \<le> c \<and> 1 \<le> m"
  by (auto simp: demo_simps)

lemma demo_rank: "rank_of (demo_host k MarketSpot c m) demo_need
    = (False, True, True, True, False, host_score (demo_host k MarketSpot c m) demo_need)"
  by (simp add: rank_of_def demo_host_def demo_need_def packs_def Evicts_def GPUsNeeded_def)

text \<open>
  C35: \<open>ChooseHost\<close> returns the first host of lowest rank among the hosts it may use, and nothing
  exactly when it may use none. A host it may use has a size, fits the container and, lent to
  Spot-tolerant work, leaves the on-demand floor.
\<close>

theorem ChooseHost_best:
  fixes hosts r flr
  defines "may h \<equiv> eligible (if rPreemptible r \<and> \<not> Empty_cap flr then floor_holders hosts r flr else 0) r flr h"
  shows "(ChooseHost hosts r flr = None \<longleftrightarrow> (\<forall>h\<in>set hosts. \<not> may h))
     \<and> (ChooseHost hosts r flr = Some i \<longleftrightarrow>
           i < length hosts \<and> may (hosts ! i)
           \<and> (\<forall>j<length hosts. may (hosts ! j) \<longrightarrow> rank_of (hosts ! i) r \<le> rank_of (hosts ! j) r)
           \<and> (\<forall>j<i. may (hosts ! j) \<longrightarrow> rank_of (hosts ! i) r < rank_of (hosts ! j) r))"
proof (intro conjI)
  show none: "ChooseHost hosts r flr = None \<longleftrightarrow> (\<forall>h\<in>set hosts. \<not> may h)"
    unfolding may_def by (rule ChooseHost_None)
  have some: "i < length hosts \<and> may (hosts ! i)
           \<and> (\<forall>j<length hosts. may (hosts ! j) \<longrightarrow> rank_of (hosts ! i) r \<le> rank_of (hosts ! j) r)
           \<and> (\<forall>j<i. may (hosts ! j) \<longrightarrow> rank_of (hosts ! i) r < rank_of (hosts ! j) r)"
    if "ChooseHost hosts r flr = Some i" for i
    using that by (rule ChooseHost_Some) (simp add: may_def)
  show "ChooseHost hosts r flr = Some i \<longleftrightarrow>
           i < length hosts \<and> may (hosts ! i)
           \<and> (\<forall>j<length hosts. may (hosts ! j) \<longrightarrow> rank_of (hosts ! i) r \<le> rank_of (hosts ! j) r)
           \<and> (\<forall>j<i. may (hosts ! j) \<longrightarrow> rank_of (hosts ! i) r < rank_of (hosts ! j) r)" (is "_ \<longleftrightarrow> ?best i")
  proof
    assume best: "?best i"
    then have "\<exists>h\<in>set hosts. may h" by auto
    with none obtain k where k: "ChooseHost hosts r flr = Some k" by fastforce
    have "\<not> i < k" and "\<not> k < i"
      using some [OF k] best by (metis leD less_trans)+
    with k show "ChooseHost hosts r flr = Some i" by simp
  qed (rule some)
qed

theorem ChooseHost_best_witness:
  "ChooseHost [demo_host 1 MarketOnDemand 2000 4, demo_host 2 MarketSpot 4000 8] demo_need NoCapacity = Some 1"
  using ChooseHost_best [of "[demo_host 1 MarketOnDemand 2000 4, demo_host 2 MarketSpot 4000 8]" demo_need NoCapacity 1]
  by (simp add: demo_simps rank_of_def less_Suc_eq)

text \<open>
  Spot-tolerant work never takes the last of an account's on-demand warm floor: while some
  host keeps the floor, one still does after the chosen host has taken the work.
\<close>

theorem ChooseHost_keeps_floor:
  assumes "rPreemptible r" and "\<not> Empty_cap flr" and "1 \<le> floor_holders hosts r flr"
    and "ChooseHost hosts r flr = Some i"
  shows "1 \<le> floor_holders (hosts[i := Reserve (hosts ! i) r]) r flr"
proof -
  let ?keeps = "\<lambda>h. keepsFloor h flr \<and> sameOwner (hcConnection h) (rConnection r)"
  have i: "i < length hosts" and e: "eligible (floor_holders hosts r flr) r flr (hosts ! i)"
    using assms(1,2) ChooseHost_Some [OF assms(4)] by auto
  define left where "left = (if keepsFloor (hosts ! i) flr \<and> \<not> keepsFloor (Reserve (hosts ! i) r) flr
    then floor_holders hosts r flr - 1 else floor_holders hosts r flr)"
  have count: "left \<le> floor_holders (hosts[i := Reserve (hosts ! i) r]) r flr"
  proof -
    have "floor_holders (hosts[i := Reserve (hosts ! i) r]) r flr
        = floor_holders hosts r flr - of_bool (?keeps (hosts ! i)) + of_bool (?keeps (Reserve (hosts ! i) r))"
      using i unfolding floor_holders_def by (rule length_filter_update)
    then show ?thesis by (auto simp: left_def)
  qed
  show ?thesis
  proof (cases "floorHost (hosts ! i)")
    case True
    then have "hcMarket (hosts ! i) \<noteq> MarketSpot" by (simp add: floorHost_def)
    with True e assms(1,2) have "1 \<le> left" by (simp add: eligible_def left_def)
    with count show ?thesis by linarith
  next
    case False
    then have "left = floor_holders hosts r flr" by (simp add: left_def keepsFloor_def)
    with count assms(3) show ?thesis by linarith
  qed
qed

theorem ChooseHost_keeps_floor_witness:
  "ChooseHost [demo_host 1 MarketOnDemand 2000 4, demo_host 2 MarketSpot 4000 8] demo_need (FC 2000 4 0) = Some 1
   \<and> 1 \<le> floor_holders ([demo_host 1 MarketOnDemand 2000 4, demo_host 2 MarketSpot 4000 8]
              [1 := Reserve (demo_host 2 MarketSpot 4000 8) demo_need]) demo_need (FC 2000 4 0)"
proof -
  let ?hs = "[demo_host 1 MarketOnDemand 2000 4, demo_host 2 MarketSpot 4000 8]"
  have c: "ChooseHost ?hs demo_need (FC 2000 4 0) = Some 1"
    by (simp add: ChooseHost_def demo_simps rank_of_def)
  have "rPreemptible demo_need" "\<not> Empty_cap (FC 2000 4 0)" "1 \<le> floor_holders ?hs demo_need (FC 2000 4 0)"
    by (simp_all add: demo_simps)
  from ChooseHost_keeps_floor [OF this c] c show ?thesis by simp
qed

text \<open>
  A host that fits a container takes it without any free resource or packed room falling
  below zero; free and packed CPU and memory together fall by exactly what was reserved, and
  work without GPUs evicts nothing.
\<close>

theorem Reserve_exact:
  assumes "host_ok h" and "Fits h r"
  shows "host_ok (Reserve h r)
     \<and> hcFreeCPUMillis (Reserve h r) + fcCPUMillis (hcPacked (Reserve h r))
         = hcFreeCPUMillis h + fcCPUMillis (hcPacked h) - rCPUMillis r
     \<and> hcFreeMemoryBytes (Reserve h r) + fcMemoryBytes (hcPacked (Reserve h r))
         = hcFreeMemoryBytes h + fcMemoryBytes (hcPacked h) - rMemoryBytes r
     \<and> (GPUsNeeded r \<le> 0 \<longrightarrow> hcPacked (Reserve h r) = hcPacked h)"
  using Reserve_ok [OF assms] Reserve_conserves by (simp_all add: Reserve_def Let_def)

theorem Reserve_exact_witness:
  "host_ok (Reserve (demo_host 1 MarketSpot 2000 4) demo_need)
   \<and> hcFreeCPUMillis (Reserve (demo_host 1 MarketSpot 2000 4) demo_need) = 1000"
proof -
  have "host_ok (demo_host 1 MarketSpot 2000 4)" and "Fits (demo_host 1 MarketSpot 2000 4) demo_need"
    by (simp_all add: host_ok_def demo_simps)
  from Reserve_exact [OF this] show ?thesis by (simp add: demo_simps)
qed

text \<open>
  Among hosts of one size the tighter one never scores higher, rounding included: a host
  that fits, ties with the chosen one in the earlier criteria and has no more room left can only
  tie with it in the score.
\<close>

theorem ChooseHost_tightest:
  assumes "ChooseHost hosts r NoCapacity = Some i" and "j < length hosts" and "Fits (hosts ! j) r"
    and "rank_of (hosts ! i) r = (borrows, elsewhere, remote, unpacked, evicts, score_i)"
    and "rank_of (hosts ! j) r = (borrows, elsewhere, remote, unpacked, evicts, score_j)"
    and "hcCPUMillis (hosts ! i) = hcCPUMillis (hosts ! j)" and "hcMemoryBytes (hosts ! i) = hcMemoryBytes (hosts ! j)"
    and "0 < hcCPUMillis (hosts ! j)" and "0 < hcMemoryBytes (hosts ! j)"
    and "hcFreeCPUMillis (hosts ! j) \<le> hcFreeCPUMillis (hosts ! i)"
    and "hcFreeMemoryBytes (hosts ! j) \<le> hcFreeMemoryBytes (hosts ! i)"
  shows "score_i = score_j"
proof -
  have "eligible 0 r NoCapacity (hosts ! j)"
    using assms(3,8,9) by (simp add: eligible_def cap_simps)
  then have "rank_of (hosts ! i) r \<le> rank_of (hosts ! j) r"
    using assms(2) ChooseHost_Some [OF assms(1)] by (metis Empty_cap_def Covers_refl)
  then have "score_i \<le> score_j"
    using assms(4,5) by simp
  moreover have "host_score (hosts ! j) r \<le> host_score (hosts ! i) r"
    using assms(6-) by (intro host_score_mono) auto
  ultimately show ?thesis
    using assms(4,5) by (simp add: rank_of_def)
qed

theorem ChooseHost_tightest_witness:
  "ChooseHost [demo_host 2 MarketSpot 2000 4, demo_host 3 MarketSpot 2000 4] demo_need NoCapacity = Some 0
   \<and> host_score (demo_host 2 MarketSpot 2000 4) demo_need = host_score (demo_host 3 MarketSpot 2000 4) demo_need"
proof -
  let ?hs = "[demo_host 2 MarketSpot 2000 4, demo_host 3 MarketSpot 2000 4]"
  have "host_score (demo_host 3 MarketSpot 2000 4) demo_need = host_score (demo_host 2 MarketSpot 2000 4) demo_need"
    by (simp add: host_score_def demo_host_def)
  then have c: "ChooseHost ?hs demo_need NoCapacity = Some 0"
    by (simp add: ChooseHost_def demo_eligible demo_rank)
  have r: "rank_of (?hs ! 0) demo_need = (False, True, True, True, False, host_score (demo_host 2 MarketSpot 2000 4) demo_need)"
    "rank_of (?hs ! 1) demo_need = (False, True, True, True, False, host_score (demo_host 3 MarketSpot 2000 4) demo_need)"
    by (simp_all add: demo_rank)
  have "Fits (?hs ! 1) demo_need"
    by (simp add: demo_simps)
  from ChooseHost_tightest [OF c _ this r] c show ?thesis
    by (simp add: demo_host_def)
qed

end
