(* ===== verification/Placement.thy ===== *)
theory Placement
  imports Hosts
begin

text \<open>
  \<open>internal/scheduling/placement.go\<close>: one placement batch packs pending containers onto hosts.
  \<open>pack\<close> is modelled whole: the order of the containers, the bought host before the chosen one,
  the eviction of packed CPU work for GPU work and the reservation. In Go it returns the ids, the
  host ids and the victims and changes the map of packed rows it is given; here it returns the
  state with all of them.

  \<open>placeBatch\<close> and \<open>Place\<close> run over a database. The queries are the fields of a record of
  functions over a store; a failed query rolls the store back. \<open>Place\<close> repeats batches in a loop
  that the code does not bound, so it is a partial function whose \<open>None\<close> is "does not return".
  Logging and tracing are left out.
\<close>

record PendingContainersRow =
  pcID :: uuid
  pcWorkspaceID :: uuid
  pcConnectionID :: "uuid option"
  pcMachine :: string
  pcRegion :: string
  pcZone :: string
  pcPreemptible :: bool
  pcGpus :: "string list"
  pcGpuCount :: int
  pcCpuMillis :: int
  pcMemoryBytes :: int
  pcDisks :: int
  pcDiskHost :: "uuid option"
  pcReadRegion :: "string option"
  pcReadBytes :: int
  pcPacks :: bool
  pcBought :: "uuid option"

record PackedContainersRow =
  pkID :: uuid
  pkHostID :: uuid
  pkCpuMillis :: int
  pkMemoryBytes :: int

record AssignContainersRow =
  acID :: uuid
  acHostID :: "uuid option"

definition requirement :: "PendingContainersRow \<Rightarrow> Requirement" where
  "requirement c =
     \<lparr>rWorkspace = pcWorkspaceID c, rConnection = pcConnectionID c, rMachine = pcMachine c,
      rRegion = pcRegion c, rZone = pcZone c, rPreemptible = pcPreemptible c, rGPUs = pcGpus c,
      rGPUCount = pcGpuCount c, rCPUMillis = pcCpuMillis c, rMemoryBytes = pcMemoryBytes c,
      rDisks = pcDisks c, rPrefer = pcDiskHost c, rRead = VolumeReadOf (pcReadRegion c) (pcReadBytes c),
      rPacks = pcPacks c\<rparr>"

text \<open>The placement targets hosts serve. \<open>uuid.String\<close> is a parameter.\<close>

definition host_targets :: "(uuid \<Rightarrow> string) \<Rightarrow> HostCapacity \<Rightarrow> string list" where
  "host_targets uuid_string h =
     (case hcKind h of
        KindPlatform \<Rightarrow> [''platform'']
      | KindConnection \<Rightarrow> (case hcConnection h of None \<Rightarrow> [] | Some c \<Rightarrow> [''connection:'' @ uuid_string c])
      | KindMachine \<Rightarrow> map (\<lambda>ws. ''machine:'' @ uuid_string ws @ '':'' @ hcName h) (hcWorkspaces h))"

definition add_target :: "string \<Rightarrow> string list \<Rightarrow> string list" where
  "add_target t out = (if t \<in> set out then out else out @ [t])"

definition targets :: "(uuid \<Rightarrow> string) \<Rightarrow> HostCapacity list \<Rightarrow> string list" where
  "targets uuid_string hosts = fold (\<lambda>h out. fold add_target (host_targets uuid_string h) out) hosts []"

text \<open>\<open>packedOn\<close>: the hosts whose packed rows are read, and the rows grouped by host.\<close>

definition packed_hosts :: "HostCapacity list \<Rightarrow> PendingContainersRow list \<Rightarrow> uuid list" where
  "packed_hosts hosts pending =
     (if \<exists>c\<in>set pending. GPUsNeeded (requirement c) > 0
      then map hcHost (filter (\<lambda>h. \<not> Empty_cap (hcPacked h)) hosts) else [])"

definition group_packed :: "PackedContainersRow list \<Rightarrow> HostID \<Rightarrow> PackedContainersRow list" where
  "group_packed rows h = filter (\<lambda>r. pkHostID r = h) rows"

subsection \<open>Packing\<close>

record pack_state =
  psFree :: "HostCapacity list"
  psPacked :: "HostID \<Rightarrow> PackedContainersRow list"
  psIds :: "uuid list"
  psHostIDs :: "uuid list"
  psVictims :: "uuid \<Rightarrow> uuid list"

definition bought :: "HostCapacity list \<Rightarrow> PendingContainersRow \<Rightarrow> nat option" where
  "bought free c = (case pcBought c of None \<Rightarrow> None | Some b \<Rightarrow> index_func (\<lambda>h. hcHost h = b) free)"

definition bought_fits :: "HostCapacity list \<Rightarrow> PendingContainersRow \<Rightarrow> bool" where
  "bought_fits free c = (case bought free c of None \<Rightarrow> False | Some i \<Rightarrow> Fits (free ! i) (requirement c))"

definition pack_order :: "HostCapacity list \<Rightarrow> PendingContainersRow list \<Rightarrow> PendingContainersRow list" where
  "pack_order free pending =
     filter (bought_fits free) pending @ sort_key pcPreemptible (filter (\<lambda>c. \<not> bought_fits free c) pending)"

definition row_shape :: "PackedContainersRow \<Rightarrow> FleetCapacity" where
  "row_shape r = FC (pkCpuMillis r) (pkMemoryBytes r) 0"

fun evict_for :: "Requirement \<Rightarrow> HostCapacity \<Rightarrow> PackedContainersRow list \<Rightarrow> uuid list
    \<Rightarrow> HostCapacity \<times> PackedContainersRow list \<times> uuid list" where
  "evict_for need h [] evicts = (h, [], evicts)"
| "evict_for need h (r # rest) evicts =
     (if Evicts h need then evict_for need (Evict h (row_shape r)) rest (evicts @ [pkID r])
      else (h, r # rest, evicts))"

definition pack_target :: "FleetCapacity \<Rightarrow> HostCapacity list \<Rightarrow> PendingContainersRow \<Rightarrow> nat option" where
  "pack_target flr free c =
     (if bought_fits free c then bought free c else ChooseHost free (requirement c) flr)"

definition pack_one :: "FleetCapacity \<Rightarrow> PendingContainersRow \<Rightarrow> pack_state \<Rightarrow> pack_state" where
  "pack_one flr c s =
     (case pack_target flr (psFree s) c of
        None \<Rightarrow> s
      | Some best \<Rightarrow>
          (let need = requirement c;
               (h, rest, evicts) = evict_for need (psFree s ! best) (psPacked s (hcHost (psFree s ! best))) []
           in if Evicts h need then s
              else s\<lparr>psFree := (psFree s)[best := Reserve h need],
                     psPacked := (if evicts = [] then psPacked s else (psPacked s)(hcHost h := rest)),
                     psVictims := (if evicts = [] then psVictims s else (psVictims s)(pcID c := evicts)),
                     psIds := psIds s @ [pcID c],
                     psHostIDs := psHostIDs s @ [hcHost h]\<rparr>))"

definition pack :: "FleetCapacity \<Rightarrow> HostCapacity list \<Rightarrow> PendingContainersRow list
    \<Rightarrow> (HostID \<Rightarrow> PackedContainersRow list) \<Rightarrow> pack_state" where
  "pack flr hosts pending packed =
     fold (pack_one flr) (pack_order hosts pending)
       \<lparr>psFree = hosts, psPacked = packed, psIds = [], psHostIDs = [], psVictims = (\<lambda>_. [])\<rparr>"

subsection \<open>A batch and the loop over batches\<close>

record ('s, 'e) Queries =
  qTryPlacementLock :: "'s \<Rightarrow> 'e + (bool \<times> 's)"
  qAvailableCapacity :: "'s \<Rightarrow> 'e + HostCapacity list"
  qPendingContainers :: "'s \<Rightarrow> int \<Rightarrow> int \<Rightarrow> string list \<Rightarrow> int \<Rightarrow> 'e + PendingContainersRow list"
  qPackedContainers :: "'s \<Rightarrow> uuid list \<Rightarrow> 'e + PackedContainersRow list"
  qAssignContainers :: "'s \<Rightarrow> uuid list \<Rightarrow> uuid list \<Rightarrow> 'e + (AssignContainersRow list \<times> 's)"
  qEvictContainers :: "'s \<Rightarrow> uuid list \<Rightarrow> 'e + 's"
  qNotifyAll :: "'s \<Rightarrow> string list \<Rightarrow> 'e + 's"
  qUuidString :: "uuid \<Rightarrow> string"

record placeBatchResult =
  pbSkipped :: bool
  pbConsidered :: nat
  pbAssigned :: "AssignContainersRow list"

definition placementBatch :: nat where
  "placementBatch = 500"

definition assign_batch :: "('s, 'e) Queries \<Rightarrow> 's \<Rightarrow> nat \<Rightarrow> pack_state \<Rightarrow> 'e + (placeBatchResult \<times> 's)" where
  "assign_batch q s considered p =
     (if psIds p = [] then Inr (\<lparr>pbSkipped = False, pbConsidered = considered, pbAssigned = []\<rparr>, s)
      else case qAssignContainers q s (psIds p) (psHostIDs p) of
        Inl e \<Rightarrow> Inl e
      | Inr (assigned, s1) \<Rightarrow>
          (let notify = concat (map (\<lambda>a. case acHostID a of None \<Rightarrow> [] | Some h \<Rightarrow> [qUuidString q h]) assigned);
               evict = concat (map (\<lambda>a. psVictims p (acID a)) assigned)
           in case qEvictContainers q s1 evict of
                Inl e \<Rightarrow> Inl e
              | Inr s2 \<Rightarrow> (case qNotifyAll q s2 notify of
                    Inl e \<Rightarrow> Inl e
                  | Inr s3 \<Rightarrow> Inr (\<lparr>pbSkipped = False, pbConsidered = considered, pbAssigned = assigned\<rparr>, s3))))"

definition place_tx :: "FleetCapacity \<Rightarrow> ('s, 'e) Queries \<Rightarrow> 's \<Rightarrow> 'e + (placeBatchResult \<times> 's)" where
  "place_tx flr q s0 =
     (case qTryPlacementLock q s0 of
        Inl e \<Rightarrow> Inl e
      | Inr (locked, s) \<Rightarrow>
          if \<not> locked then Inr (\<lparr>pbSkipped = True, pbConsidered = 0, pbAssigned = []\<rparr>, s)
          else case qAvailableCapacity q s of
            Inl e \<Rightarrow> Inl e
          | Inr hosts \<Rightarrow>
              if hosts = [] then Inr (\<lparr>pbSkipped = False, pbConsidered = 0, pbAssigned = []\<rparr>, s)
              else case qPendingContainers q s (fold max (map hcFreeCPUMillis hosts) 0)
                          (fold max (map hcFreeMemoryBytes hosts) 0) (targets (qUuidString q) hosts) (int placementBatch) of
                Inl e \<Rightarrow> Inl e
              | Inr pending \<Rightarrow>
                  (case (if packed_hosts hosts pending = [] then Inr []
                         else qPackedContainers q s (packed_hosts hosts pending)) of
                     Inl e \<Rightarrow> Inl e
                   | Inr rows \<Rightarrow> assign_batch q s (length pending) (pack flr hosts pending (group_packed rows))))"

text \<open>\<open>placeBatch\<close>: the transaction commits its store, or rolls back on an error.\<close>

definition placeBatch :: "FleetCapacity \<Rightarrow> ('s, 'e) Queries \<Rightarrow> 's \<Rightarrow> ('e + placeBatchResult) \<times> 's" where
  "placeBatch flr q s = (case place_tx flr q s of Inl e \<Rightarrow> (Inl e, s) | Inr (b, s') \<Rightarrow> (Inr b, s'))"

record PlacementResult =
  prSkipped :: bool
  prAssigned :: nat

partial_function (option) place_loop ::
  "FleetCapacity \<Rightarrow> ('s, 'e) Queries \<Rightarrow> nat \<Rightarrow> 's \<Rightarrow> (PlacementResult \<times> 'e option \<times> 's) option" where
  "place_loop flr q n s =
     (case placeBatch flr q s of
        (Inl e, s') \<Rightarrow> Some (\<lparr>prSkipped = False, prAssigned = n\<rparr>, Some e, s')
      | (Inr b, s') \<Rightarrow>
          if pbSkipped b then Some (\<lparr>prSkipped = True, prAssigned = n\<rparr>, None, s')
          else if pbConsidered b < placementBatch \<or> pbAssigned b = []
          then Some (\<lparr>prSkipped = False, prAssigned = n + length (pbAssigned b)\<rparr>, None, s')
          else place_loop flr q (n + length (pbAssigned b)) s')"

definition Place :: "FleetCapacity \<Rightarrow> ('s, 'e) Queries \<Rightarrow> 's \<Rightarrow> (PlacementResult \<times> 'e option \<times> 's) option" where
  "Place flr q s = place_loop flr q 0 s"

subsection \<open>Evicting for GPU work\<close>

definition rows_total :: "PackedContainersRow list \<Rightarrow> FleetCapacity" where
  "rows_total rows = totalOf rows row_shape"

lemma rows_total_simps [simp]:
  "rows_total [] = NoCapacity" "rows_total (r # rs) = Plus_cap (row_shape r) (rows_total rs)"
  by (simp_all add: rows_total_def)

definition free_cap :: "HostCapacity \<Rightarrow> FleetCapacity" where
  "free_cap h = FC (hcFreeCPUMillis h) (hcFreeMemoryBytes h) (hcFreeGPUs h)"

definition need_cap :: "Requirement \<Rightarrow> FleetCapacity" where
  "need_cap r = FC (rCPUMillis r) (rMemoryBytes r) (GPUsNeeded r)"

text \<open>
  The packed rows read of a host hold no negative amounts and no more than the host's packed
  room. \<open>packedOn\<close> reads no rows at all for a batch without GPU work, which satisfies it.
\<close>

definition packed_ok :: "HostCapacity \<Rightarrow> PackedContainersRow list \<Rightarrow> bool" where
  "packed_ok h rows \<longleftrightarrow> (\<forall>r\<in>set rows. nonneg_cap (row_shape r)) \<and> Covers (hcPacked h) (rows_total rows)"

lemma packed_ok_none: "host_ok h \<Longrightarrow> packed_ok h []"
  by (simp add: packed_ok_def host_ok_def)

lemma packed_ok_nonneg: "packed_ok h rows \<Longrightarrow> nonneg_cap (rows_total rows)"
  unfolding rows_total_def by (intro totalOf_nonneg) (simp add: packed_ok_def)

lemma host_ok_free: "host_ok h \<Longrightarrow> nonneg_cap (free_cap h)"
  by (simp add: host_ok_def free_cap_def cap_simps)

lemma Evict_step:
  assumes "host_ok h" and "packed_ok h (r # rest)"
  shows "host_ok (Evict h (row_shape r))" and "packed_ok (Evict h (row_shape r)) rest"
    and "free_cap (Evict h (row_shape r)) = Plus_cap (free_cap h) (row_shape r)"
proof -
  have "nonneg_cap (totalOf rest row_shape)"
    using assms(2) by (intro totalOf_nonneg) (simp add: packed_ok_def)
  with assms show "host_ok (Evict h (row_shape r))" and "packed_ok (Evict h (row_shape r)) rest"
    and "free_cap (Evict h (row_shape r)) = Plus_cap (free_cap h) (row_shape r)"
    by (auto simp: host_ok_def packed_ok_def Evict_def row_shape_def free_cap_def rows_total_def cap_simps)
qed

lemma evict_for_spec:
  "evict_for need h rows evicts = (h', rest, evicts') \<Longrightarrow> host_ok h \<Longrightarrow> packed_ok h rows \<Longrightarrow>
     host_ok h' \<and> packed_ok h' rest \<and> hcHost h' = hcHost h \<and> hcFreeDiskSlots h' = hcFreeDiskSlots h
     \<and> Plus_cap (free_cap h') (rows_total rest) = Plus_cap (free_cap h) (rows_total rows)
     \<and> (\<exists>taken. rows = taken @ rest \<and> evicts' = evicts @ map pkID taken)"
proof (induction need h rows evicts rule: evict_for.induct)
  case (1 need h evicts)
  then show ?case by simp
next
  case (2 need h r rest0 evicts)
  show ?case
  proof (cases "Evicts h need")
    case False
    with 2 show ?thesis by auto
  next
    case True
    note step = Evict_step [OF "2.prems"(2,3)]
    from True "2.prems"(1)
    have "evict_for need (Evict h (row_shape r)) rest0 (evicts @ [pkID r]) = (h', rest, evicts')"
      by simp
    from "2.IH" [OF True this step(1,2)]
    show ?thesis
      by (auto simp: step(3) cap_plus.assoc intro: exI [of _ "r # _"])
  qed
qed

lemma Accepts_Evict [simp]: "Accepts (Evict h s) r = Accepts h r"
  by (simp add: Accepts_def packs_def Evict_def)

lemma Fits_Evict: "GPUsNeeded r > 0 \<Longrightarrow> Fits h r \<Longrightarrow> Fits (Evict h s) r"
  unfolding Fits_def Accepts_Evict by (simp add: host_room_def Evict_def cap_simps Let_def)

lemma evict_for_fits:
  "evict_for need h rows evicts = (h', rest, evicts') \<Longrightarrow> Fits h need \<Longrightarrow> Fits h' need"
proof (induction need h rows evicts rule: evict_for.induct)
  case (2 need h r rest0 evicts)
  then show ?case
    by (auto simp: Evicts_def Fits_Evict split: if_splits)
qed simp

lemma Reserve_without_evicting:
  assumes "host_ok h" and "\<not> Evicts h need" and "Fits h need"
  shows "free_cap (Reserve h need) = Minus_cap (free_cap h) (need_cap need)"
    and "hcPacked (Reserve h need) = hcPacked h"
    and "hcFreeDiskSlots (Reserve h need) = hcFreeDiskSlots h - rDisks need"
proof -
  have "GPUsNeeded need > 0 \<longrightarrow> rCPUMillis need \<le> hcFreeCPUMillis h \<and> rMemoryBytes need \<le> hcFreeMemoryBytes h"
    using assms(2) by (auto simp: Evicts_def)
  then show "free_cap (Reserve h need) = Minus_cap (free_cap h) (need_cap need)"
    and "hcPacked (Reserve h need) = hcPacked h"
    and "hcFreeDiskSlots (Reserve h need) = hcFreeDiskSlots h - rDisks need"
    by (auto simp: free_cap_def need_cap_def Reserve_def Evict_def Let_def cap_simps)
qed

subsection \<open>The packing invariant\<close>

definition need_of :: "PendingContainersRow list \<Rightarrow> uuid \<Rightarrow> FleetCapacity" where
  "need_of pending i = (case find (\<lambda>c. pcID c = i) pending of None \<Rightarrow> NoCapacity | Some c \<Rightarrow> need_cap (requirement c))"

text \<open>What the assignments so far reserve on a host.\<close>

definition load_on :: "PendingContainersRow list \<Rightarrow> uuid list \<Rightarrow> uuid list \<Rightarrow> HostID \<Rightarrow> FleetCapacity" where
  "load_on pending ids hosts h = totalOf (filter (\<lambda>a. snd a = h) (zip ids hosts)) (\<lambda>a. need_of pending (fst a))"

definition disks_of :: "PendingContainersRow list \<Rightarrow> uuid \<Rightarrow> int" where
  "disks_of pending i = (case find (\<lambda>c. pcID c = i) pending of None \<Rightarrow> 0 | Some c \<Rightarrow> pcDisks c)"

definition disks_on :: "PendingContainersRow list \<Rightarrow> uuid list \<Rightarrow> uuid list \<Rightarrow> HostID \<Rightarrow> int" where
  "disks_on pending ids hosts h =
     sum_list (map (\<lambda>a. disks_of pending (fst a)) (filter (\<lambda>a. snd a = h) (zip ids hosts)))"

definition pack_inv :: "HostCapacity list \<Rightarrow> (HostID \<Rightarrow> PackedContainersRow list) \<Rightarrow> PendingContainersRow list \<Rightarrow> pack_state \<Rightarrow> bool" where
  "pack_inv hosts packed pending s \<longleftrightarrow>
     map hcHost (psFree s) = map hcHost hosts \<and> length (psIds s) = length (psHostIDs s)
     \<and> (\<forall>h\<in>set (psFree s). host_ok h \<and> packed_ok h (psPacked s (hcHost h)))
     \<and> (\<forall>i<length hosts. Plus_cap (load_on pending (psIds s) (psHostIDs s) (hcHost (hosts ! i)))
            (Plus_cap (free_cap (psFree s ! i)) (rows_total (psPacked s (hcHost (hosts ! i)))))
          = Plus_cap (free_cap (hosts ! i)) (rows_total (packed (hcHost (hosts ! i)))))
     \<and> (\<forall>i<length hosts. disks_on pending (psIds s) (psHostIDs s) (hcHost (hosts ! i)) + hcFreeDiskSlots (psFree s ! i)
          = hcFreeDiskSlots (hosts ! i))"

lemma need_of_self:
  assumes "distinct (map pcID pending)" and "c \<in> set pending"
  shows "need_of pending (pcID c) = need_cap (requirement c)" and "disks_of pending (pcID c) = rDisks (requirement c)"
proof -
  have "find (\<lambda>d. pcID d = pcID c) pending = Some c"
    using assms by (induction pending) force+
  then show "need_of pending (pcID c) = need_cap (requirement c)" and "disks_of pending (pcID c) = rDisks (requirement c)"
    by (simp_all add: need_of_def disks_of_def requirement_def)
qed

lemma load_on_snoc:
  assumes "length ids = length hosts"
  shows "load_on pending (ids @ [i]) (hosts @ [h']) h =
           Plus_cap (load_on pending ids hosts h) (if h' = h then need_of pending i else NoCapacity)"
    and "disks_on pending (ids @ [i]) (hosts @ [h']) h =
           disks_on pending ids hosts h + (if h' = h then disks_of pending i else 0)"
  using assms by (simp_all add: load_on_def disks_on_def totalOf_append)

lemma pack_target_fits: "pack_target flr free c = Some i \<Longrightarrow> i < length free \<and> Fits (free ! i) (requirement c)"
proof (cases "bought_fits free c")
  case True
  assume "pack_target flr free c = Some i"
  with True have "bought free c = Some i" and "Fits (free ! i) (requirement c)"
    by (auto simp: pack_target_def bought_fits_def split: option.splits)
  then show ?thesis
    by (auto simp: bought_def split: option.splits dest: index_func_less)
next
  case False
  assume "pack_target flr free c = Some i"
  with False show ?thesis by (simp add: pack_target_def ChooseHost_fits)
qed

text \<open>What a step that assigns container \<open>c\<close> to the host at index \<open>i\<close> does.\<close>

definition pack_assigns :: "PendingContainersRow \<Rightarrow> nat \<Rightarrow> HostCapacity \<Rightarrow> PackedContainersRow list \<Rightarrow> pack_state \<Rightarrow> pack_state \<Rightarrow> bool" where
  "pack_assigns c i h rest s t \<longleftrightarrow>
     i < length (psFree s) \<and> Fits (psFree s ! i) (requirement c)
     \<and> (\<exists>taken. psPacked s (hcHost (psFree s ! i)) = taken @ rest
          \<and> evict_for (requirement c) (psFree s ! i) (taken @ rest) [] = (h, rest, map pkID taken)
          \<and> psVictims t = (if taken = [] then psVictims s else (psVictims s)(pcID c := map pkID taken)))
     \<and> \<not> Evicts h (requirement c) \<and> hcHost h = hcHost (psFree s ! i)
     \<and> psFree t = (psFree s)[i := Reserve h (requirement c)]
     \<and> psPacked t = (psPacked s)(hcHost h := rest)
     \<and> psIds t = psIds s @ [pcID c] \<and> psHostIDs t = psHostIDs s @ [hcHost h]"

lemma evict_for_shape:
  "evict_for need h rows evicts = (h', rest, evicts') \<Longrightarrow>
     hcHost h' = hcHost h \<and> (\<exists>taken. rows = taken @ rest \<and> evicts' = evicts @ map pkID taken)"
proof (induction need h rows evicts rule: evict_for.induct)
  case (2 need h r rest0 evicts)
  show ?case
  proof (cases "Evicts h need")
    case True
    from "2.IH" [OF True] "2.prems" True obtain taken where
      "hcHost h' = hcHost h" "rest0 = taken @ rest" "evicts' = evicts @ pkID r # map pkID taken"
      by auto
    then show ?thesis by (auto intro: exI [of _ "r # taken"])
  qed (use "2.prems" in auto)
qed simp

lemma pack_one_cases:
  obtains (same) "pack_one flr c s = s"
    | (assign) i h rest where "pack_assigns c i h rest s (pack_one flr c s)"
proof (cases "pack_target flr (psFree s) c")
  case None
  then show thesis by (intro same) (simp add: pack_one_def)
next
  case (Some i)
  note fit = pack_target_fits [OF Some]
  obtain h rest evicts where e: "evict_for (requirement c) (psFree s ! i) (psPacked s (hcHost (psFree s ! i))) [] = (h, rest, evicts)"
    by (cases "evict_for (requirement c) (psFree s ! i) (psPacked s (hcHost (psFree s ! i))) []") auto
  show thesis
  proof (cases "Evicts h (requirement c)")
    case True
    with Some e show thesis by (intro same) (simp add: pack_one_def)
  next
    case False
    from evict_for_shape [OF e] obtain taken where
      t: "hcHost h = hcHost (psFree s ! i)" "psPacked s (hcHost (psFree s ! i)) = taken @ rest" "evicts = map pkID taken"
      by auto
    have "pack_assigns c i h rest s (pack_one flr c s)"
      using Some e False t fit by (auto simp: pack_assigns_def pack_one_def fun_upd_idem)
    then show thesis by (rule assign)
  qed
qed

lemma pack_assigns_inv:
  assumes inv: "pack_inv hosts packed pending s" and a: "pack_assigns c i h rest s t"
    and d: "distinct (map hcHost hosts)" and p: "distinct (map pcID pending)" "c \<in> set pending"
  shows "pack_inv hosts packed pending t"
proof -
  let ?r = "requirement c" and ?h0 = "psFree s ! i"
  from inv have hosts: "map hcHost (psFree s) = map hcHost hosts" and len: "length (psIds s) = length (psHostIDs s)"
    and ok: "\<And>h. h \<in> set (psFree s) \<Longrightarrow> host_ok h \<and> packed_ok h (psPacked s (hcHost h))"
    by (auto simp: pack_inv_def)
  from hosts have n: "length (psFree s) = length hosts" by (rule map_eq_imp_length_eq)
  from a obtain taken where i: "i < length (psFree s)" and rows: "psPacked s (hcHost ?h0) = taken @ rest"
    and ev: "evict_for ?r ?h0 (taken @ rest) [] = (h, rest, map pkID taken)"
    by (auto simp: pack_assigns_def)
  have h0: "host_ok ?h0" "packed_ok ?h0 (taken @ rest)"
    using ok [of ?h0] i rows by auto
  note h = evict_for_spec [OF ev h0] and fits = evict_for_fits [OF ev]
  have fit: "Fits h ?r" and stop: "\<not> Evicts h ?r" and id: "hcHost h = hcHost ?h0"
    using a fits by (auto simp: pack_assigns_def)
  note res = Reserve_without_evicting [OF _ stop fit]
  have okR: "host_ok (Reserve h ?r)" and pkR: "packed_ok (Reserve h ?r) rest"
    using h fit res by (auto simp: packed_ok_def intro: Reserve_ok)
  have "hcHost ?h0 = map hcHost hosts ! i"
    using hosts i by (metis nth_map)
  then have names: "map hcHost (psFree t) = map hcHost hosts"
    using a id hosts by (simp add: pack_assigns_def map_update)
  have other: "hcHost (psFree s ! j) \<noteq> hcHost h" if "j < length hosts" "j \<noteq> i" for j
    using d that i n id hosts by (metis distinct_conv_nth length_map nth_map)
  have 1: "host_ok x \<and> packed_ok x (psPacked t (hcHost x))" if "x \<in> set (psFree t)" for x
  proof -
    from that a obtain j where j: "j < length (psFree s)" "x = (psFree s)[i := Reserve h ?r] ! j"
      by (auto simp: pack_assigns_def in_set_conv_nth)
    show ?thesis
    proof (cases "j = i")
      case True
      with j i a okR pkR show ?thesis by (auto simp: pack_assigns_def)
    next
      case False
      with j ok [of "psFree s ! j"] other [of j] n a show ?thesis
        by (auto simp: pack_assigns_def)
    qed
  qed
  have 2: "Plus_cap (load_on pending (psIds t) (psHostIDs t) (hcHost (hosts ! j)))
            (Plus_cap (free_cap (psFree t ! j)) (rows_total (psPacked t (hcHost (hosts ! j)))))
          = Plus_cap (free_cap (hosts ! j)) (rows_total (packed (hcHost (hosts ! j))))" if j: "j < length hosts" for j
  proof -
    have hj: "hcHost (hosts ! j) = hcHost (psFree s ! j)"
      using hosts j n by (metis nth_map)
    have old: "Plus_cap (load_on pending (psIds s) (psHostIDs s) (hcHost (hosts ! j)))
            (Plus_cap (free_cap (psFree s ! j)) (rows_total (psPacked s (hcHost (hosts ! j)))))
          = Plus_cap (free_cap (hosts ! j)) (rows_total (packed (hcHost (hosts ! j))))"
      using inv j by (simp add: pack_inv_def)
    show ?thesis
    proof (cases "j = i")
      case True
      have "free_cap (Reserve h ?r) = Minus_cap (free_cap h) (need_cap ?r)"
        using res h by simp
      moreover have "Plus_cap (free_cap h) (rows_total rest) = Plus_cap (free_cap ?h0) (rows_total (taken @ rest))"
        using h by simp
      ultimately show ?thesis
        using old a True hj i rows id len by (simp add: pack_assigns_def load_on_snoc need_of_self [OF p]) (simp add: cap_simps)
    next
      case False
      then show ?thesis
        using old a hj other [OF j] len by (simp add: pack_assigns_def load_on_snoc)
    qed
  qed
  have 3: "disks_on pending (psIds t) (psHostIDs t) (hcHost (hosts ! j)) + hcFreeDiskSlots (psFree t ! j)
          = hcFreeDiskSlots (hosts ! j)" if j: "j < length hosts" for j
  proof -
    have hj: "hcHost (hosts ! j) = hcHost (psFree s ! j)"
      using hosts j n by (metis nth_map)
    have old: "disks_on pending (psIds s) (psHostIDs s) (hcHost (hosts ! j)) + hcFreeDiskSlots (psFree s ! j)
          = hcFreeDiskSlots (hosts ! j)"
      using inv j by (simp add: pack_inv_def)
    show ?thesis
    proof (cases "j = i")
      case True
      with old a hj i id len h show ?thesis
        by (simp add: pack_assigns_def load_on_snoc need_of_self [OF p] res)
    next
      case False
      then show ?thesis
        using old a hj other [OF j] len by (simp add: pack_assigns_def load_on_snoc)
    qed
  qed
  show ?thesis
    using names len a 1 2 3 by (auto simp: pack_inv_def pack_assigns_def)
qed

lemma pack_inv_fold:
  assumes "pack_inv hosts packed pending s" and "distinct (map hcHost hosts)" and "distinct (map pcID pending)"
    and "set cs \<subseteq> set pending"
  shows "pack_inv hosts packed pending (fold (pack_one flr) cs s)"
  using assms(1,4)
proof (induction cs arbitrary: s)
  case Nil
  then show ?case by simp
next
  case (Cons c cs)
  have "pack_inv hosts packed pending (pack_one flr c s)"
    using Cons.prems assms(2,3) by (cases rule: pack_one_cases [of flr c s]) (auto intro: pack_assigns_inv)
  with Cons show ?case by simp
qed

lemma set_pack_order [simp]: "set (pack_order hosts pending) = set pending"
  by (auto simp: pack_order_def)

lemma mset_pack_order: "mset (pack_order hosts pending) = mset pending"
  using multiset_partition [of "mset pending" "bought_fits hosts"] by (simp add: pack_order_def)

lemma pack_inv_start:
  assumes "\<forall>h\<in>set hosts. host_ok h \<and> packed_ok h (packed (hcHost h))"
  shows "pack_inv hosts packed pending
     \<lparr>psFree = hosts, psPacked = packed, psIds = [], psHostIDs = [], psVictims = (\<lambda>_. [])\<rparr>"
  using assms by (simp add: pack_inv_def load_on_def disks_on_def)

lemma pack_pack_inv:
  assumes "\<forall>h\<in>set hosts. host_ok h \<and> packed_ok h (packed (hcHost h))"
    and "distinct (map hcHost hosts)" and "distinct (map pcID pending)"
  shows "pack_inv hosts packed pending (pack flr hosts pending packed)"
  unfolding pack_def using assms by (intro pack_inv_fold pack_inv_start) auto

subsection \<open>Who is assigned, and whom they evict\<close>

text \<open>Two hosts that differ in their free resources and packed room only.\<close>

definition same_static :: "HostCapacity \<Rightarrow> HostCapacity \<Rightarrow> bool" where
  "same_static h h' \<longleftrightarrow>
     h' = h\<lparr>hcFreeCPUMillis := hcFreeCPUMillis h', hcFreeMemoryBytes := hcFreeMemoryBytes h',
            hcFreeGPUs := hcFreeGPUs h', hcFreeDiskSlots := hcFreeDiskSlots h', hcPacked := hcPacked h'\<rparr>"

lemma same_static_refl [simp]: "same_static h h"
  by (simp add: same_static_def)

lemma same_static_Evict: "same_static h h' \<Longrightarrow> same_static h (Evict h' s)"
  by (cases h, cases h') (simp add: same_static_def Evict_def)

lemma same_static_Reserve: "same_static h h' \<Longrightarrow> same_static h (Reserve h' r)"
  by (cases h, cases h') (simp add: same_static_def Reserve_def Evict_def Let_def)

lemma evict_for_static: "evict_for need h rows evicts = (h', rest, evicts') \<Longrightarrow> same_static g h \<Longrightarrow> same_static g h'"
  by (induction need h rows evicts rule: evict_for.induct) (auto simp: same_static_Evict split: if_splits)

lemma evict_for_cpu_work:
  "GPUsNeeded need \<le> 0 \<Longrightarrow> evict_for need h rows evicts = (h, rows, evicts)"
  by (cases rows) (auto simp: Evicts_def)

definition assigned_to :: "pack_state \<Rightarrow> HostID \<Rightarrow> uuid list" where
  "assigned_to s h = map fst (filter (\<lambda>a. snd a = h) (zip (psIds s) (psHostIDs s)))"

text \<open>
  The rows taken off a host are the first of its packed rows, and the victims recorded for the
  assignments to it, in their order, are their ids.
\<close>

definition evicted_on :: "(HostID \<Rightarrow> PackedContainersRow list) \<Rightarrow> pack_state \<Rightarrow> HostID \<Rightarrow> bool" where
  "evicted_on packed s h \<longleftrightarrow>
     (\<exists>evicted. packed h = evicted @ psPacked s h \<and> map pkID evicted = concat (map (psVictims s) (assigned_to s h)))"

text \<open>An assignment names a pending container and a host that fits it at some free resources.\<close>

definition assigned_ok :: "HostCapacity list \<Rightarrow> PendingContainersRow list \<Rightarrow> (uuid \<Rightarrow> uuid list) \<Rightarrow> uuid \<Rightarrow> HostID \<Rightarrow> bool" where
  "assigned_ok hosts pending victims i h \<longleftrightarrow>
     (\<exists>c\<in>set pending. pcID c = i
        \<and> (\<exists>g\<in>set hosts. hcHost g = h \<and> (\<exists>g'. same_static g g' \<and> Fits g' (requirement c)))
        \<and> (GPUsNeeded (requirement c) \<le> 0 \<longrightarrow> victims i = []))"

definition evict_inv :: "HostCapacity list \<Rightarrow> (HostID \<Rightarrow> PackedContainersRow list) \<Rightarrow> PendingContainersRow list \<Rightarrow> pack_state \<Rightarrow> bool" where
  "evict_inv hosts packed pending s \<longleftrightarrow>
     length (psIds s) = length (psHostIDs s) \<and> distinct (psIds s) \<and> list_all2 same_static hosts (psFree s)
     \<and> (\<forall>i. i \<notin> set (psIds s) \<longrightarrow> psVictims s i = [])
     \<and> (\<forall>h. evicted_on packed s h)
     \<and> (\<forall>a\<in>set (zip (psIds s) (psHostIDs s)). assigned_ok hosts pending (psVictims s) (fst a) (snd a))"

lemma same_static_host: "same_static g h \<Longrightarrow> hcHost h = hcHost g"
  by (cases g, cases h) (simp add: same_static_def)

lemma pack_assigns_evict_inv:
  assumes inv: "evict_inv hosts packed pending s" and a: "pack_assigns c i h rest s t"
    and c: "c \<in> set pending" "pcID c \<notin> set (psIds s)"
  shows "evict_inv hosts packed pending t"
proof -
  let ?h0 = "psFree s ! i" and ?r = "requirement c"
  from a obtain taken where i: "i < length (psFree s)" and fit: "Fits ?h0 ?r"
    and rows: "psPacked s (hcHost ?h0) = taken @ rest"
    and ev: "evict_for ?r ?h0 (taken @ rest) [] = (h, rest, map pkID taken)"
    and vic: "psVictims t = (if taken = [] then psVictims s else (psVictims s)(pcID c := map pkID taken))"
    and id: "hcHost h = hcHost ?h0" and free: "psFree t = (psFree s)[i := Reserve h ?r]"
    and pk: "psPacked t = (psPacked s)(hcHost h := rest)"
    and ids: "psIds t = psIds s @ [pcID c]" "psHostIDs t = psHostIDs s @ [hcHost h]"
    by (auto simp: pack_assigns_def)
  from inv have len: "length (psIds s) = length (psHostIDs s)" and dist: "distinct (psIds s)"
    and st: "list_all2 same_static hosts (psFree s)"
    and none: "\<And>j. j \<notin> set (psIds s) \<Longrightarrow> psVictims s j = []"
    and pre: "\<And>g. evicted_on packed s g"
    by (auto simp: evict_inv_def)
  have n: "length hosts = length (psFree s)" using st by (rule list_all2_lengthD)
  have g: "same_static (hosts ! i) ?h0" using st i by (simp add: list_all2_conv_all_nth)
  have vc: "psVictims t (pcID c) = map pkID taken"
    using vic none [OF c(2)] by auto
  have vo: "psVictims t j = psVictims s j" if "j \<noteq> pcID c" for j
    using vic that by auto
  have to: "assigned_to t g = assigned_to s g @ (if hcHost h = g then [pcID c] else [])" for g
    using len by (simp add: assigned_to_def ids)
  have old: "map (psVictims t) (assigned_to s g) = map (psVictims s) (assigned_to s g)" for g
    using c(2) len by (intro map_cong refl vo) (auto simp: assigned_to_def dest: set_zip_leftD)
  have st': "list_all2 same_static hosts (psFree t)"
    using st i n same_static_Reserve [OF evict_for_static [OF ev g], of ?r]
    by (auto simp: free list_all2_conv_all_nth nth_list_update)
  have cpu: "GPUsNeeded ?r \<le> 0 \<longrightarrow> psVictims t (pcID c) = []"
    using evict_for_cpu_work [of ?r ?h0 "taken @ rest" "[]"] ev vc by auto
  have host: "hosts ! i \<in> set hosts" "hcHost (hosts ! i) = hcHost h"
    using i n id same_static_host [OF g] by auto
  have assigned: "assigned_ok hosts pending (psVictims t) j k"
    if "(j, k) \<in> set (zip (psIds t) (psHostIDs t))" for j k
  proof -
    from that len consider "(j, k) \<in> set (zip (psIds s) (psHostIDs s))" | "j = pcID c" "k = hcHost h"
      by (auto simp: ids)
    then show ?thesis
    proof cases
      case 1
      then have "j \<noteq> pcID c" using c(2) by (auto dest: set_zip_leftD)
      moreover have "assigned_ok hosts pending (psVictims s) j k"
        using 1 inv by (auto simp: evict_inv_def)
      ultimately show ?thesis by (simp add: assigned_ok_def vo)
    next
      case 2
      with c(1) host g fit cpu show ?thesis unfolding assigned_ok_def by blast
    qed
  qed
  have prefix: "evicted_on packed t k" for k
  proof -
    from pre [of k] obtain ev where e: "packed k = ev @ psPacked s k"
      "map pkID ev = concat (map (psVictims s) (assigned_to s k))"
      by (auto simp: evicted_on_def)
    show ?thesis
    proof (cases "hcHost h = k")
      case True
      with e rows id show ?thesis
        by (auto simp: evicted_on_def to old vc pk intro!: exI [of _ "ev @ taken"])
    next
      case False
      with e show ?thesis by (auto simp: evicted_on_def to old pk)
    qed
  qed
  show ?thesis
    using len dist c(2) st' none vo prefix assigned by (auto simp: evict_inv_def ids)
qed

lemma evict_inv_fold:
  assumes "evict_inv hosts packed pending s" and "distinct (map pcID cs)" and "set cs \<subseteq> set pending"
    and "set (map pcID cs) \<inter> set (psIds s) = {}"
  shows "evict_inv hosts packed pending (fold (pack_one flr) cs s)"
  using assms
proof (induction cs arbitrary: s)
  case Nil
  then show ?case by simp
next
  case (Cons c cs)
  show ?case
  proof (cases rule: pack_one_cases [of flr c s])
    case same
    with Cons show ?thesis by simp
  next
    case (assign i h rest)
    from Cons.prems have "c \<in> set pending" and "pcID c \<notin> set (psIds s)" by auto
    from pack_assigns_evict_inv [OF Cons.prems(1) assign this]
    have "evict_inv hosts packed pending (pack_one flr c s)" .
    moreover have "psIds (pack_one flr c s) = psIds s @ [pcID c]"
      using assign by (simp add: pack_assigns_def)
    ultimately show ?thesis
      using Cons by simp
  qed
qed

lemma distinct_pack_order:
  assumes "distinct (map pcID pending)"
  shows "distinct (map pcID (pack_order hosts pending))"
proof -
  have "mset (map pcID (pack_order hosts pending)) = mset (map pcID pending)"
    by (simp add: mset_pack_order)
  with assms show ?thesis by (metis distinct_count_atmost_1 set_mset_mset)
qed

lemma pack_evict_inv:
  assumes "distinct (map pcID pending)"
  shows "evict_inv hosts packed pending (pack flr hosts pending packed)"
  unfolding pack_def using assms
  by (intro evict_inv_fold distinct_pack_order)
    (auto simp: evict_inv_def evicted_on_def assigned_to_def list_all2_same list.rel_refl)

subsection \<open>The loop ends\<close>

lemma placeBatch_pending:
  assumes lock: "\<And>s b s'. qTryPlacementLock q s = Inr (b, s') \<Longrightarrow> pend s' \<le> pend s"
    and assign: "\<And>s ids hs rows s'. qAssignContainers q s ids hs = Inr (rows, s') \<Longrightarrow> pend s' + length rows \<le> pend s"
    and evict: "\<And>s ids s'. qEvictContainers q s ids = Inr s' \<Longrightarrow> pend s' \<le> pend s"
    and notify: "\<And>s ns s'. qNotifyAll q s ns = Inr s' \<Longrightarrow> pend s' \<le> pend s"
    and batch: "placeBatch flr q s = (Inr b, s')"
  shows "pend s' + length (pbAssigned b) \<le> (pend s :: nat)"
proof -
  have ab: "pend t' + length (pbAssigned b) \<le> pend t" if "assign_batch q t n p = Inr (b, t')" for t t' n p b
  proof (cases "psIds p = []")
    case False
    with that obtain rows s1 s2 ns es where 1: "qAssignContainers q t (psIds p) (psHostIDs p) = Inr (rows, s1)"
      and 2: "qEvictContainers q s1 es = Inr s2" and 3: "qNotifyAll q s2 ns = Inr t'" and b: "pbAssigned b = rows"
      by (auto simp: assign_batch_def Let_def split: sum.splits prod.splits)
    from assign [OF 1] evict [OF 2] notify [OF 3] b show ?thesis by simp
  qed (use that in \<open>auto simp: assign_batch_def\<close>)
  from batch have "place_tx flr q s = Inr (b, s')"
    by (auto simp: placeBatch_def split: sum.splits prod.splits)
  then obtain locked s1 where l: "qTryPlacementLock q s = Inr (locked, s1)"
    and "pend s' + length (pbAssigned b) \<le> pend s1"
    unfolding place_tx_def by (auto split: sum.splits prod.splits if_splits dest: ab)
  with lock [OF l] show ?thesis by linarith
qed

lemma place_loop_returns:
  assumes step: "\<And>s b s'. placeBatch flr q s = (Inr b, s') \<Longrightarrow> pend s' + length (pbAssigned b) \<le> (pend s :: nat)"
  shows "\<exists>r. place_loop flr q n s = Some r"
proof (induction "pend s" arbitrary: n s rule: less_induct)
  case less
  obtain x s' where b: "placeBatch flr q s = (x, s')" by force
  show ?case
  proof (cases x)
    case (Inl e)
    with b show ?thesis by (subst place_loop.simps) simp
  next
    case (Inr c)
    show ?thesis
    proof (cases "pbSkipped c \<or> pbConsidered c < placementBatch \<or> pbAssigned c = []")
      case True
      with b Inr show ?thesis by (subst place_loop.simps) auto
    next
      case False
      with step [of s c s'] b Inr have "pend s' < pend s"
        by (cases "pbAssigned c") auto
      from less [OF this] False b Inr show ?thesis by (subst place_loop.simps) auto
    qed
  qed
qed

subsection \<open>Properties\<close>

text \<open>Concrete values for the witnesses: a GPU container and a GPU host with packed CPU work.\<close>

definition demo_row :: "uuid \<Rightarrow> PendingContainersRow" where
  "demo_row n =
     \<lparr>pcID = n, pcWorkspaceID = 1, pcConnectionID = None, pcMachine = [], pcRegion = [], pcZone = [],
      pcPreemptible = True, pcGpus = [''T4''], pcGpuCount = 1, pcCpuMillis = 3000, pcMemoryBytes = 4, pcDisks = 0,
      pcDiskHost = None, pcReadRegion = None, pcReadBytes = 0, pcPacks = False, pcBought = None\<rparr>"

definition demo_gpu_host :: HostCapacity where
  "demo_gpu_host = (demo_host 9 MarketSpot 1000 4)\<lparr>hcGPUType := ''T4'', hcGPUCount := 1, hcFreeGPUs := 1, hcPacked := FC 3000 4 0\<rparr>"

definition demo_packed :: "HostID \<Rightarrow> PackedContainersRow list" where
  "demo_packed h = (if h = 9 then [\<lparr>pkID = 70, pkHostID = 9, pkCpuMillis = 2000, pkMemoryBytes = 2\<rparr>,
                                   \<lparr>pkID = 71, pkHostID = 9, pkCpuMillis = 1000, pkMemoryBytes = 2\<rparr>] else [])"

lemma demo_gpu_fits: "Fits demo_gpu_host (requirement (demo_row n))"
  by (simp add: demo_gpu_host_def demo_row_def requirement_def demo_simps VolumeReadOf_def GPUAccepted_def)

lemma demo_target: "pack_target NoCapacity [demo_gpu_host] (demo_row n) = Some 0"
proof -
  have "eligible k (requirement (demo_row n)) NoCapacity demo_gpu_host" for k
    using demo_gpu_fits by (simp add: eligible_def cap_simps) (simp add: demo_gpu_host_def demo_host_def)
  then have "ChooseHost [demo_gpu_host] (requirement (demo_row n)) NoCapacity \<noteq> None"
    by (simp add: ChooseHost_None)
  then obtain i where "ChooseHost [demo_gpu_host] (requirement (demo_row n)) NoCapacity = Some i"
    by blast
  with ChooseHost_fits [OF this] show ?thesis
    by (simp add: pack_target_def bought_fits_def bought_def demo_row_def)
qed

lemma demo_evicts: "Evicts demo_gpu_host (requirement (demo_row n))"
    "\<not> Evicts (Evict demo_gpu_host (FC 2000 2 0)) (requirement (demo_row n))"
  by (simp_all add: demo_gpu_host_def demo_host_def demo_row_def requirement_def Evicts_def Evict_def GPUsNeeded_def)

lemma demo_pack:
  "psIds (pack NoCapacity [demo_gpu_host] [demo_row 5] demo_packed) = [5]"
  "psHostIDs (pack NoCapacity [demo_gpu_host] [demo_row 5] demo_packed) = [9]"
  "psVictims (pack NoCapacity [demo_gpu_host] [demo_row 5] demo_packed) 5 = [70]"
proof -
  have h: "hcHost demo_gpu_host = 9" and c: "pcID (demo_row 5) = 5"
    by (simp_all add: demo_gpu_host_def demo_host_def demo_row_def)
  have o: "pack_order [demo_gpu_host] [demo_row 5] = [demo_row 5]"
    by (simp add: pack_order_def)
  show "psIds (pack NoCapacity [demo_gpu_host] [demo_row 5] demo_packed) = [5]"
    "psHostIDs (pack NoCapacity [demo_gpu_host] [demo_row 5] demo_packed) = [9]"
    "psVictims (pack NoCapacity [demo_gpu_host] [demo_row 5] demo_packed) 5 = [70]"
    by (simp_all add: pack_def o pack_one_def demo_target h c demo_packed_def row_shape_def demo_evicts)
qed

lemma demo_pack_ok:
  "\<forall>h\<in>set [demo_gpu_host]. host_ok h \<and> packed_ok h (demo_packed (hcHost h))"
  by (simp add: demo_gpu_host_def demo_host_def demo_packed_def host_ok_def packed_ok_def row_shape_def cap_simps)

text \<open>
  C12: packing never oversubscribes a host. The batch takes from each host, for CPU, memory and
  GPUs, exactly the room that was free there and is no longer, and the room of the packed
  containers it evicts, which are the first packed rows of the host and the victims recorded for
  the assignments to it; for disk slots it takes from the free ones. Nothing falls below zero, so
  the load assigned fits in the free room and what the recorded victims held. Asked of the hosts:
  nothing is negative, ids are unique, and the packed rows read of a host, none for a batch
  without GPU work, hold no more than the host's packed room.
\<close>

theorem pack_never_oversubscribes:
  assumes "\<forall>h\<in>set hosts. host_ok h \<and> packed_ok h (packed (hcHost h))"
    and "distinct (map hcHost hosts)" and "distinct (map pcID pending)"
    and "s = pack flr hosts pending packed" and "i < length hosts" and "h = hcHost (hosts ! i)"
  shows "host_ok (psFree s ! i)
     \<and> (\<exists>evicted. packed h = evicted @ psPacked s h
          \<and> map pkID evicted = concat (map (psVictims s) (assigned_to s h))
          \<and> Plus_cap (load_on pending (psIds s) (psHostIDs s) h) (free_cap (psFree s ! i))
              = Plus_cap (free_cap (hosts ! i)) (rows_total evicted)
          \<and> Covers (Plus_cap (free_cap (hosts ! i)) (rows_total evicted)) (load_on pending (psIds s) (psHostIDs s) h))
     \<and> disks_on pending (psIds s) (psHostIDs s) h + hcFreeDiskSlots (psFree s ! i) = hcFreeDiskSlots (hosts ! i)"
proof (intro conjI)
  have inv: "pack_inv hosts packed pending s"
    unfolding assms(4) using assms(1-3) by (rule pack_pack_inv)
  then have "length (psFree s) = length hosts"
    unfolding pack_inv_def by (metis length_map)
  with inv assms(5) show ok: "host_ok (psFree s ! i)"
    by (auto simp: pack_inv_def)
  show "disks_on pending (psIds s) (psHostIDs s) h + hcFreeDiskSlots (psFree s ! i) = hcFreeDiskSlots (hosts ! i)"
    using inv assms(5,6) by (simp add: pack_inv_def)
  have "evict_inv hosts packed pending s"
    unfolding assms(4) using assms(3) by (rule pack_evict_inv)
  then have "evicted_on packed s h"
    by (simp add: evict_inv_def)
  then obtain evicted where e: "packed h = evicted @ psPacked s h"
    "map pkID evicted = concat (map (psVictims s) (assigned_to s h))"
    unfolding evicted_on_def by blast
  have "Plus_cap (load_on pending (psIds s) (psHostIDs s) h) (Plus_cap (free_cap (psFree s ! i)) (rows_total (psPacked s h)))
      = Plus_cap (free_cap (hosts ! i)) (rows_total (packed h))"
    using inv assms(5,6) by (simp add: pack_inv_def)
  with e(1) have eq: "Plus_cap (load_on pending (psIds s) (psHostIDs s) h) (free_cap (psFree s ! i))
      = Plus_cap (free_cap (hosts ! i)) (rows_total evicted)"
    by (simp add: rows_total_def totalOf_append cap_simps)
  with e host_ok_free [OF ok]
  show "\<exists>evicted. packed h = evicted @ psPacked s h
          \<and> map pkID evicted = concat (map (psVictims s) (assigned_to s h))
          \<and> Plus_cap (load_on pending (psIds s) (psHostIDs s) h) (free_cap (psFree s ! i))
              = Plus_cap (free_cap (hosts ! i)) (rows_total evicted)
          \<and> Covers (Plus_cap (free_cap (hosts ! i)) (rows_total evicted)) (load_on pending (psIds s) (psHostIDs s) h)"
    by (blast intro: Covers_summand)
qed

theorem pack_never_oversubscribes_witness:
  "psIds (pack NoCapacity [demo_gpu_host] [demo_row 5] demo_packed) = [5]
   \<and> psVictims (pack NoCapacity [demo_gpu_host] [demo_row 5] demo_packed) 5 = [70]
   \<and> host_ok (psFree (pack NoCapacity [demo_gpu_host] [demo_row 5] demo_packed) ! 0)
   \<and> host_ok (psFree (pack NoCapacity [demo_gpu_host] [demo_row 5] (group_packed [])) ! 0)"
  using pack_never_oversubscribes [OF demo_pack_ok _ _ refl _ refl, of "[demo_row 5]" 0 NoCapacity]
    pack_never_oversubscribes [of "[demo_gpu_host]" "group_packed []" "[demo_row 5]" _ NoCapacity 0 9]
    demo_pack demo_pack_ok
  by (simp add: packed_ok_none group_packed_def) (simp add: demo_gpu_host_def demo_host_def)

text \<open>
  A batch assigns each container at most once and only containers it was given, and each to a
  host of the snapshot that, with the free resources left at that moment, fits it: accepts its
  placement, market and GPUs and has room.
\<close>

theorem pack_assigns_to_fitting_hosts:
  assumes "distinct (map pcID pending)" and "s = pack flr hosts pending packed"
  shows "length (psIds s) = length (psHostIDs s) \<and> distinct (psIds s)
     \<and> (\<forall>(i, h)\<in>set (zip (psIds s) (psHostIDs s)). \<exists>c\<in>set pending. pcID c = i
          \<and> (\<exists>g\<in>set hosts. hcHost g = h \<and> (\<exists>g'. same_static g g' \<and> Fits g' (requirement c))))"
proof (intro conjI)
  have inv: "evict_inv hosts packed pending s"
    unfolding assms(2) using assms(1) by (rule pack_evict_inv)
  then show "length (psIds s) = length (psHostIDs s)" and "distinct (psIds s)"
    by (simp_all add: evict_inv_def)
  show "\<forall>(i, h)\<in>set (zip (psIds s) (psHostIDs s)). \<exists>c\<in>set pending. pcID c = i
          \<and> (\<exists>g\<in>set hosts. hcHost g = h \<and> (\<exists>g'. same_static g g' \<and> Fits g' (requirement c)))"
    using inv by (fastforce simp: evict_inv_def assigned_ok_def)
qed

theorem pack_assigns_to_fitting_hosts_witness:
  "distinct (psIds (pack NoCapacity [demo_gpu_host] [demo_row 5] demo_packed))
   \<and> psIds (pack NoCapacity [demo_gpu_host] [demo_row 5] demo_packed) = [5]"
  using pack_assigns_to_fitting_hosts [of "[demo_row 5]" _ NoCapacity "[demo_gpu_host]" demo_packed] demo_pack by simp

text \<open>
  Evictions follow the order of the packed rows. The containers evicted on a host, read in the
  order of the assignments there, are a prefix of the host's packed rows and the rows left are the
  rest, so no row is evicted twice; work without GPUs evicts none.
\<close>

theorem pack_evicts_prefix:
  assumes "distinct (map pcID pending)" and "s = pack flr hosts pending packed"
  shows "map pkID (packed h) = concat (map (psVictims s) (assigned_to s h)) @ map pkID (psPacked s h)
     \<and> (\<forall>(i, h)\<in>set (zip (psIds s) (psHostIDs s)). \<exists>c\<in>set pending. pcID c = i
          \<and> (GPUsNeeded (requirement c) \<le> 0 \<longrightarrow> psVictims s i = []))
     \<and> (\<forall>i. i \<notin> set (psIds s) \<longrightarrow> psVictims s i = [])"
proof (intro conjI)
  have inv: "evict_inv hosts packed pending s"
    unfolding assms(2) using assms(1) by (rule pack_evict_inv)
  then show "map pkID (packed h) = concat (map (psVictims s) (assigned_to s h)) @ map pkID (psPacked s h)"
    unfolding evict_inv_def evicted_on_def by (metis map_append)
  show "\<forall>i. i \<notin> set (psIds s) \<longrightarrow> psVictims s i = []"
    using inv by (simp add: evict_inv_def)
  show "\<forall>(i, h)\<in>set (zip (psIds s) (psHostIDs s)). \<exists>c\<in>set pending. pcID c = i
          \<and> (GPUsNeeded (requirement c) \<le> 0 \<longrightarrow> psVictims s i = [])"
    using inv by (fastforce simp: evict_inv_def assigned_ok_def)
qed

theorem pack_evicts_prefix_witness:
  "psVictims (pack NoCapacity [demo_gpu_host] [demo_row 5] demo_packed) 5 = [70]
   \<and> [70, 71] = concat (map (psVictims (pack NoCapacity [demo_gpu_host] [demo_row 5] demo_packed))
         (assigned_to (pack NoCapacity [demo_gpu_host] [demo_row 5] demo_packed) 9))
       @ map pkID (psPacked (pack NoCapacity [demo_gpu_host] [demo_row 5] demo_packed) 9)"
  using pack_evicts_prefix [of "[demo_row 5]" _ NoCapacity "[demo_gpu_host]" demo_packed 9] demo_pack
  by (simp add: demo_packed_def)

text \<open>
  \<open>Place\<close> returns. Every batch that makes it loop assigned at least one container, and
  assigning takes a container out of the pending ones: given that the assignment removes the rows
  it returns from the pending containers and that locking, evicting and notifying add none, the
  loop ends.
\<close>

theorem Place_returns:
  assumes "\<And>s b s'. qTryPlacementLock q s = Inr (b, s') \<Longrightarrow> pend s' \<le> (pend s :: nat)"
    and "\<And>s ids hs rows s'. qAssignContainers q s ids hs = Inr (rows, s') \<Longrightarrow> pend s' + length rows \<le> pend s"
    and "\<And>s ids s'. qEvictContainers q s ids = Inr s' \<Longrightarrow> pend s' \<le> pend s"
    and "\<And>s ns s'. qNotifyAll q s ns = Inr s' \<Longrightarrow> pend s' \<le> pend s"
  shows "\<exists>result. Place flr q s = Some result"
  unfolding Place_def using placeBatch_pending [OF assms] by (rule place_loop_returns)

text \<open>A store that is the list of pending containers; assigning removes the ids it is given.\<close>

definition demo_queries :: "(uuid list, unit) Queries" where
  "demo_queries =
     \<lparr>qTryPlacementLock = (\<lambda>s. Inr (True, s)), qAvailableCapacity = (\<lambda>s. Inr [demo_gpu_host]),
      qPendingContainers = (\<lambda>s c m ts n. Inr (map demo_row (take (nat n) s))),
      qPackedContainers = (\<lambda>s hs. Inr (demo_packed 9)),
      qAssignContainers = (\<lambda>s ids hs. let took = filter (\<lambda>i. i \<in> set ids) s
          in Inr (map (\<lambda>i. \<lparr>acID = i, acHostID = Some 9\<rparr>) took, filter (\<lambda>i. i \<notin> set ids) s)),
      qEvictContainers = (\<lambda>s ids. Inr s), qNotifyAll = (\<lambda>s ns. Inr s), qUuidString = (\<lambda>_. [])\<rparr>"

theorem Place_returns_witness: "\<exists>result. Place NoCapacity demo_queries [5, 6] = Some result"
proof (rule Place_returns [of demo_queries length])
  fix s ids hs rows s'
  assume "qAssignContainers demo_queries s ids hs = Inr (rows, s')"
  then show "length s' + length rows \<le> length s"
    using sum_length_filter_compl [of "\<lambda>i. i \<in> set ids" s] by (auto simp: demo_queries_def Let_def)
qed (simp_all add: demo_queries_def)

end
