(* ===== verification/Cpu.thy ===== *)
theory Cpu
  imports Prelude "HOL-Library.Word"
begin

text \<open>
  \<open>internal/cpu/cpu.go\<close>: CPU units. \<open>Millis\<close> counts thousandths of a physical core,
  \<open>VCPUMillis\<close> thousandths of a hardware thread, and \<open>Topology\<close> converts between them. A Go
  division by zero panics, which is \<open>None\<close> here. \<open>CPUTime\<close> works on \<open>uint64\<close> and is kept at
  that width: its product may wrap around.
\<close>

type_synonym Millis = int
type_synonym VCPUMillis = int

record Topology =
  Threads :: int
  Cores :: int

datatype topology_error = ThreadsOnCores int int

definition Validate :: "Topology \<Rightarrow> topology_error + unit" where
  "Validate t = (if Cores t < 1 \<or> Threads t < Cores t
                 then Inl (ThreadsOnCores (Threads t) (Cores t)) else Inr ())"

definition Topology_CPUMillis :: "Topology \<Rightarrow> Millis" where
  "Topology_CPUMillis t = Cores t * 1000"

definition VCPUs :: "Topology \<Rightarrow> Millis \<Rightarrow> VCPUMillis option" where
  "VCPUs t c = (if Cores t = 0 then None else Some ((c * Threads t) sdiv Cores t))"

definition CPUTime :: "Topology \<Rightarrow> 64 word \<Rightarrow> 64 word option" where
  "CPUTime t vcpuUsec =
     (if (of_int (Threads t) :: 64 word) = 0 then None
      else Some ((vcpuUsec * of_int (Cores t)) div of_int (Threads t)))"

lemma Validate_ok: "Validate t = Inr () \<longleftrightarrow> 1 \<le> Cores t \<and> Cores t \<le> Threads t"
  by (auto simp: Validate_def)

lemma of_int_word_small:
  assumes "0 \<le> n" and "n < 2 ^ 64"
  shows "uint (of_int n :: 64 word) = n"
  using assms by (simp add: uint_word_of_int_eq take_bit_int_eq_self)

text \<open>Time on threads never grows when counted on cores, while the product fits 64 bits.\<close>

lemma CPUTime_exact:
  assumes "Validate t = Inr ()" and "Threads t < 2 ^ 63" and "uint v * Cores t < 2 ^ 64"
  shows "\<exists>r. CPUTime t v = Some r \<and> uint r = (uint v * Cores t) div Threads t"
proof -
  have c: "1 \<le> Cores t" "Cores t \<le> Threads t" using assms(1) by (simp_all add: Validate_ok)
  have th: "uint (of_int (Threads t) :: 64 word) = Threads t"
    and co: "uint (of_int (Cores t) :: 64 word) = Cores t"
    using c assms(2) by (intro of_int_word_small; simp)+
  have nz: "(of_int (Threads t) :: 64 word) \<noteq> 0"
  proof
    assume "(of_int (Threads t) :: 64 word) = 0"
    then have "Threads t = 0" using th by simp
    with c show False by simp
  qed
  have "uint (v * of_int (Cores t)) = uint v * Cores t"
    using assms(3) c by (simp add: uint_word_ariths co uint_nonnegative)
  then have "uint ((v * of_int (Cores t)) div of_int (Threads t)) = (uint v * Cores t) div Threads t"
    by (simp add: uint_div th)
  with nz show ?thesis by (simp add: CPUTime_def)
qed

end
