(* ===== verification/Catalog.thy ===== *)
theory Catalog
  imports Cpu Hosts
begin

text \<open>
  \<open>internal/compute/fleet_catalog.go\<close>, the policy of \<open>fleet_policy.go\<close> and the quota classes
  of \<open>quotas.go\<close>: the instance types the fleet buys, what a host of a type offers and costs,
  the vCPU quota it counts against, and the reviewed policy the planner runs. The data volume
  and its disk slots are also computed by the host (\<open>internal/hostproto/datavolume.go\<close>).

  A Go value-and-flag result is an \<open>option\<close>. Money is \<open>int\<close> micros.
\<close>

subsection \<open>Constants\<close>

definition rootVolumeGiB :: int where "rootVolumeGiB = 100"
definition FrameCacheBytes :: int where "FrameCacheBytes = 32 * gib"
definition DiskDirtyBytes :: int where "DiskDirtyBytes = 4 * gib"
definition hibernationMemoryLimit :: int where "hibernationMemoryLimit = 150 * gib"
definition hibernationRAMLimit :: int where "hibernationRAMLimit = 32 * gib"
definition diskSlotCores :: int where "diskSlotCores = 1"
definition minDiskSlots :: int where "minDiskSlots = 2"
definition baselineMiBps :: int where "baselineMiBps = 125"
definition buildMiBps :: int where "buildMiBps = 500"
definition buildCores :: int where "buildCores = 4"
definition transferMilliGBPerCoreHour :: int where "transferMilliGBPerCoreHour = 500"

text \<open>The disk slots a host offers for a data volume of a size (\<open>hostproto.DiskSlots\<close>).\<close>

definition DiskSlots_volume :: "int \<Rightarrow> int" where
  "DiskSlots_volume volumeBytes =
     max 0 ((volumeBytes - FrameCacheBytes + DiskDirtyBytes sdiv 2) sdiv DiskDirtyBytes)"

subsection \<open>Instance types\<close>

record CatalogType =
  ctName :: string
  ctArchitecture :: string
  ctTopology :: Topology
  ctMemoryBytes :: int
  ctGPU :: string
  ctGPUCount :: int
  ctHibernates :: bool
  ctInstanceStore :: bool
  ctPrices :: "int list"

definition priceRegions :: "string list" where
  "priceRegions = [''us-east-2'', ''us-west-1'', ''us-east-1'', ''us-west-2'']"

definition OnDemandMicros :: "CatalogType \<Rightarrow> string \<Rightarrow> int option" where
  "OnDemandMicros t region =
     (case index_func (\<lambda>r. r = region) priceRegions of
        None \<Rightarrow> None
      | Some n \<Rightarrow> if ctPrices t ! n = 0 then None else Some (ctPrices t ! n))"

definition CatalogType_CPUMillis :: "CatalogType \<Rightarrow> Millis" where
  "CatalogType_CPUMillis t = Topology_CPUMillis (ctTopology t)"

definition CatalogType_VCPUs :: "CatalogType \<Rightarrow> int" where
  "CatalogType_VCPUs t = Threads (ctTopology t)"

definition Usable :: "CatalogType \<Rightarrow> int \<Rightarrow> FleetCapacity" where
  "Usable t reportedMemory =
     (let memory = (if reportedMemory \<le> 0
                    then let nominal = (ctMemoryBytes t * 94) sdiv 100
                         in nominal - max (512 * 1048576) (nominal sdiv 10)
                    else reportedMemory)
      in FC (CatalogType_CPUMillis t) memory (ctGPUCount t))"

definition RootGiB :: "CatalogType \<Rightarrow> bool \<Rightarrow> int" where
  "RootGiB t hibernate =
     (if hibernate \<and> ctHibernates t then rootVolumeGiB + (ctMemoryBytes t + gib - 1) sdiv gib
      else rootVolumeGiB)"

definition DiskSlots :: "CatalogType \<Rightarrow> int" where
  "DiskSlots t = max minDiskSlots (Cores (ctTopology t) sdiv diskSlotCores)"

definition DataVolumeGiB :: "CatalogType \<Rightarrow> int" where
  "DataVolumeGiB t =
     (if ctInstanceStore t then 0 else (FrameCacheBytes + DiskSlots t * DiskDirtyBytes) sdiv gib)"

record regionRates =
  rrGp3GiBMonth :: int
  rrGp3MiBpsMonth :: int
  rrIpv4Hour :: int

definition ratesIn :: "string \<Rightarrow> regionRates" where
  "ratesIn region =
     (if region = ''us-west-1'' then \<lparr>rrGp3GiBMonth = 96000, rrGp3MiBpsMonth = 48000, rrIpv4Hour = 5000\<rparr>
      else \<lparr>rrGp3GiBMonth = 80000, rrGp3MiBpsMonth = 40000, rrIpv4Hour = 5000\<rparr>)"

definition RootMiBps :: "CatalogType \<Rightarrow> int" where
  "RootMiBps t = (if Cores (ctTopology t) \<ge> buildCores then buildMiBps else baselineMiBps)"

definition PricedMiBps :: "CatalogType \<Rightarrow> bool \<Rightarrow> int" where
  "PricedMiBps t reserve = (if reserve then baselineMiBps else RootMiBps t)"

definition rootDiskMicros :: "string \<Rightarrow> int \<Rightarrow> int \<Rightarrow> int" where
  "rootDiskMicros region g mibps =
     (let r = ratesIn region
      in (g * rrGp3GiBMonth r + (mibps - baselineMiBps) * rrGp3MiBpsMonth r + 719) sdiv 720)"

definition volumesMicros :: "CatalogType \<Rightarrow> string \<Rightarrow> bool \<Rightarrow> bool \<Rightarrow> int" where
  "volumesMicros t region hibernate reserve =
     rootDiskMicros region (RootGiB t hibernate + DataVolumeGiB t) (PricedMiBps t reserve)"

definition transferMicrosPerGB :: "string \<Rightarrow> string \<Rightarrow> int" where
  "transferMicrosPerGB from_r to_r =
     (if from_r = to_r then 0
      else if from_r @ '' '' @ to_r = ''us-east-1 us-east-2'' \<or> from_r @ '' '' @ to_r = ''us-east-2 us-east-1'' then 10000
      else 20000)"

definition transferMicros :: "string \<Rightarrow> string \<Rightarrow> CatalogType \<Rightarrow> int" where
  "transferMicros storageRegion region t =
     (Cores (ctTopology t) * transferMilliGBPerCoreHour * transferMicrosPerGB storageRegion region) sdiv 1000"

definition twoPerCore :: "int \<Rightarrow> Topology" where
  "twoPerCore vcpus = \<lparr>Threads = vcpus, Cores = vcpus sdiv 2\<rparr>"

definition cpuType :: "string \<Rightarrow> int \<Rightarrow> int \<Rightarrow> bool \<Rightarrow> int list \<Rightarrow> CatalogType" where
  "cpuType name vcpus memGiB hib prices =
     \<lparr>ctName = name, ctArchitecture = ''amd64'', ctTopology = twoPerCore vcpus, ctMemoryBytes = memGiB * gib,
      ctGPU = [], ctGPUCount = 0, ctHibernates = hib, ctInstanceStore = False, ctPrices = prices\<rparr>"

definition gpu_type :: "string \<Rightarrow> int \<Rightarrow> int \<Rightarrow> string \<Rightarrow> int \<Rightarrow> int list \<Rightarrow> CatalogType" where
  "gpu_type name vcpus memGiB model cards prices =
     \<lparr>ctName = name, ctArchitecture = ''amd64'', ctTopology = twoPerCore vcpus, ctMemoryBytes = memGiB * gib,
      ctGPU = model, ctGPUCount = cards, ctHibernates = False, ctInstanceStore = True, ctPrices = prices\<rparr>"

definition FleetCatalog :: "CatalogType list" where
  "FleetCatalog =
     [cpuType ''m7i.large'' 2 8 True [100800, 117600, 100800, 100800],
      cpuType ''m7i.xlarge'' 4 16 True [201600, 235200, 201600, 201600],
      cpuType ''c6a.2xlarge'' 8 16 True [306000, 381600, 306000, 306000],
      cpuType ''c7i.2xlarge'' 8 16 True [357000, 445200, 357000, 357000],
      cpuType ''m6a.2xlarge'' 8 32 True [345600, 403200, 345600, 345600],
      cpuType ''m7i.2xlarge'' 8 32 True [403200, 470400, 403200, 403200],
      cpuType ''r6a.2xlarge'' 8 64 True [453600, 504000, 453600, 453600],
      cpuType ''r7i.2xlarge'' 8 64 True [529200, 588000, 529200, 529200],
      cpuType ''c6a.4xlarge'' 16 32 True [612000, 763200, 612000, 612000],
      cpuType ''m6a.4xlarge'' 16 64 True [691200, 806400, 691200, 691200],
      cpuType ''m7i.4xlarge'' 16 64 True [806400, 940800, 806400, 806400],
      cpuType ''r6a.4xlarge'' 16 128 True [907200, 1008000, 907200, 907200],
      cpuType ''c6a.8xlarge'' 32 64 True [1224000, 1526400, 1224000, 1224000],
      cpuType ''c6i.8xlarge'' 32 64 True [1360000, 1696000, 1360000, 1360000],
      cpuType ''m6a.8xlarge'' 32 128 True [1382400, 1612800, 1382400, 1382400],
      cpuType ''m7i.8xlarge'' 32 128 True [1612800, 1881600, 1612800, 1612800],
      cpuType ''r6a.8xlarge'' 32 256 False [1814400, 2016000, 1814400, 1814400],
      cpuType ''m7i.12xlarge'' 48 192 False [2419200, 2822400, 2419200, 2419200],
      cpuType ''m7i.16xlarge'' 64 256 False [3225600, 3763200, 3225600, 3225600],
      gpu_type ''g4dn.xlarge'' 4 16 ''T4'' 1 [526000, 631000, 526000, 526000],
      gpu_type ''g4dn.2xlarge'' 8 32 ''T4'' 1 [752000, 902000, 752000, 752000],
      gpu_type ''g4dn.4xlarge'' 16 64 ''T4'' 1 [1204000, 1445000, 1204000, 1204000],
      gpu_type ''g4dn.8xlarge'' 32 128 ''T4'' 1 [2176000, 2611000, 2176000, 2176000],
      gpu_type ''g4dn.16xlarge'' 64 256 ''T4'' 1 [4352000, 5222000, 4352000, 4352000],
      gpu_type ''g4dn.12xlarge'' 48 192 ''T4'' 4 [3912000, 4694000, 3912000, 3912000],
      gpu_type ''g4dn.metal'' 96 384 ''T4'' 8 [7824000, 9389000, 7824000, 7824000],
      gpu_type ''g5.xlarge'' 4 16 ''A10G'' 1 [1006000, 0, 1006000, 1006000],
      gpu_type ''g5.2xlarge'' 8 32 ''A10G'' 1 [1212000, 0, 1212000, 1212000],
      gpu_type ''g5.4xlarge'' 16 64 ''A10G'' 1 [1624000, 0, 1624000, 1624000],
      gpu_type ''g5.8xlarge'' 32 128 ''A10G'' 1 [2448000, 0, 2448000, 2448000],
      gpu_type ''g5.16xlarge'' 64 256 ''A10G'' 1 [4096000, 0, 4096000, 4096000],
      gpu_type ''g5.12xlarge'' 48 192 ''A10G'' 4 [5672000, 0, 5672000, 5672000],
      gpu_type ''g5.24xlarge'' 96 384 ''A10G'' 4 [8144000, 0, 8144000, 8144000],
      gpu_type ''g5.48xlarge'' 192 768 ''A10G'' 8 [16288000, 0, 16288000, 16288000],
      gpu_type ''g6.xlarge'' 4 16 ''L4'' 1 [804800, 0, 804800, 804800],
      gpu_type ''g6.2xlarge'' 8 32 ''L4'' 1 [977600, 0, 977600, 977600],
      gpu_type ''g6.4xlarge'' 16 64 ''L4'' 1 [1323200, 0, 1323200, 1323200],
      gpu_type ''g6.8xlarge'' 32 128 ''L4'' 1 [2014400, 0, 2014400, 2014400],
      gpu_type ''g6.16xlarge'' 64 256 ''L4'' 1 [3396800, 0, 3396800, 3396800],
      gpu_type ''g6.12xlarge'' 48 192 ''L4'' 4 [4601600, 0, 4601600, 4601600],
      gpu_type ''g6.24xlarge'' 96 384 ''L4'' 4 [6675200, 0, 6675200, 6675200],
      gpu_type ''g6.48xlarge'' 192 768 ''L4'' 8 [13350400, 0, 13350400, 13350400],
      gpu_type ''gr6.4xlarge'' 16 128 ''L4'' 1 [1539200, 0, 1539200, 1539200],
      gpu_type ''gr6.8xlarge'' 32 256 ''L4'' 1 [2446400, 0, 2446400, 2446400],
      gpu_type ''g6e.xlarge'' 4 32 ''L40S'' 1 [1861000, 0, 1861000, 1861000],
      gpu_type ''g6e.2xlarge'' 8 64 ''L40S'' 1 [2242080, 0, 2242080, 2242080],
      gpu_type ''g6e.4xlarge'' 16 128 ''L40S'' 1 [3004240, 0, 3004240, 3004240],
      gpu_type ''g6e.8xlarge'' 32 256 ''L40S'' 1 [4528560, 0, 4528560, 4528560],
      gpu_type ''g6e.16xlarge'' 64 512 ''L40S'' 1 [7577190, 0, 7577190, 7577190],
      gpu_type ''g6e.12xlarge'' 48 384 ''L40S'' 4 [10492640, 0, 10492640, 10492640],
      gpu_type ''g6e.24xlarge'' 96 768 ''L40S'' 4 [15065590, 0, 15065590, 15065590],
      gpu_type ''g6e.48xlarge'' 192 1536 ''L40S'' 8 [30131180, 0, 30131180, 30131180],
      gpu_type ''g7e.2xlarge'' 8 64 ''RTXPro6000'' 1 [3363120, 0, 3363120, 3363120],
      gpu_type ''g7e.4xlarge'' 16 128 ''RTXPro6000'' 1 [3998160, 0, 3998160, 3998160],
      gpu_type ''g7e.8xlarge'' 32 256 ''RTXPro6000'' 1 [5268240, 0, 5268240, 5268240],
      gpu_type ''g7e.12xlarge'' 48 512 ''RTXPro6000'' 2 [8286080, 0, 8286080, 8286080],
      gpu_type ''g7e.24xlarge'' 96 1024 ''RTXPro6000'' 4 [16572160, 0, 16572160, 16572160],
      gpu_type ''g7e.48xlarge'' 192 2048 ''RTXPro6000'' 8 [33144320, 0, 33144320, 33144320],
      gpu_type ''p4d.24xlarge'' 96 1152 ''A100-40'' 8 [21957640, 0, 21957642, 21957640],
      gpu_type ''p5.4xlarge'' 16 256 ''H100'' 1 [6880000, 0, 6880000, 6880000],
      gpu_type ''p5.48xlarge'' 192 2048 ''H100'' 8 [55040000, 68800000, 55040000, 55040000]]"

definition CatalogTypeNamed :: "string \<Rightarrow> CatalogType option" where
  "CatalogTypeNamed name = List.find (\<lambda>t. ctName t = name) FleetCatalog"

definition FleetArchitectures :: "string list" where
  "FleetArchitectures =
     foldl (\<lambda>as t. if ctArchitecture t \<in> set as then as else as @ [ctArchitecture t]) [] FleetCatalog"

definition hibernates :: "CatalogType \<Rightarrow> bool" where
  "hibernates t \<longleftrightarrow> ctHibernates t \<and> ctMemoryBytes t \<le> hibernationRAMLimit"

subsection \<open>Quota classes\<close>

datatype QuotaClass = QuotaStandard | QuotaG | QuotaP

definition QuotaClassOf :: "string \<Rightarrow> QuotaClass option" where
  "QuotaClassOf instanceType =
     (let family = takeWhile (\<lambda>c. c \<noteq> CHR ''.'') instanceType
      in if family = [] then None
         else if take 2 family = ''vt'' \<or> hd family = CHR ''g'' then Some QuotaG
         else if hd family = CHR ''p'' then Some QuotaP
         else if take 3 family = ''inf'' \<or> take 3 family = ''trn'' \<or> take 2 family = ''dl'' then None
         else if hd family \<in> set ''acdhimrtz'' then Some QuotaStandard
         else None)"

text \<open>
  A quota: its region, its class and the market. \<open>QuotaClassOf\<close> returns the empty class with
  false for a family without one; the callers drop the flag, so a key's class is an \<open>option\<close>.
\<close>

record QuotaKey =
  qkRegion :: string
  qkClass :: "QuotaClass option"
  qkMarket :: Market

text \<open>
  A Spot placement score is read per shape: each type of the G and P families is one, every
  other shape is its vCPU count, which Go prints with the suffix \<open>vCPUs\<close>.
\<close>

datatype placement_shape = TypeShape string | VCPUShape int

definition placementShape :: "CatalogType \<Rightarrow> placement_shape" where
  "placementShape t =
     (if QuotaClassOf (ctName t) \<in> {Some QuotaG, Some QuotaP} then TypeShape (ctName t)
      else VCPUShape (CatalogType_VCPUs t))"

subsection \<open>Facts\<close>

definition type_ok :: "CatalogType \<Rightarrow> bool" where
  "type_ok t \<longleftrightarrow> Validate (ctTopology t) = Inr ()
     \<and> (ctHibernates t \<longrightarrow> ctMemoryBytes t < hibernationMemoryLimit)
     \<and> (ctGPU t \<noteq> [] \<longleftrightarrow> 0 < ctGPUCount t)
     \<and> QuotaClassOf (ctName t) \<noteq> None
     \<and> (QuotaClassOf (ctName t) = Some QuotaStandard \<longleftrightarrow> ctGPU t = [])
     \<and> length (ctPrices t) = length priceRegions \<and> list_all (\<lambda>p. 0 \<le> p) (ctPrices t)
     \<and> OnDemandMicros t ''us-east-1'' \<noteq> None
     \<and> nonneg_cap (Usable t 0) \<and> fcMemoryBytes (Usable t 0) < ctMemoryBytes t"

lemma FleetCatalog_types_ok: "list_all type_ok FleetCatalog"
  by code_simp

lemma FleetCatalog_names_distinct: "distinct (map ctName FleetCatalog)"
  by code_simp

lemma find_distinct:
  assumes "distinct (map f xs)" and "x \<in> set xs"
  shows "List.find (\<lambda>y. f y = f x) xs = Some x"
  using assms by (induction xs) auto

lemma DiskSlots_pos: "2 \<le> DiskSlots t"
  by (simp add: DiskSlots_def minDiskSlots_def)

lemma DataVolume_bytes:
  assumes "\<not> ctInstanceStore t"
  shows "DataVolumeGiB t * gib = FrameCacheBytes + DiskSlots t * DiskDirtyBytes"
proof -
  have "FrameCacheBytes + DiskSlots t * DiskDirtyBytes = (32 + 4 * DiskSlots t) * gib"
    by (simp add: FrameCacheBytes_def DiskDirtyBytes_def)
  moreover from this have "DataVolumeGiB t = 32 + 4 * DiskSlots t"
    using assms DiskSlots_pos [of t] by (simp add: DataVolumeGiB_def sdiv_div)
  ultimately show ?thesis by simp
qed

subsection \<open>Properties\<close>

text \<open>
  The reviewed catalog is well formed. Every type has a valid topology, a quota class that
  matches whether it has GPUs, a price for each region and one in us-east-1, usable capacity that
  is not negative and memory below what the type has; a type that hibernates is under EC2's RAM
  limit; and looking a type of the catalog up by its name finds it.
\<close>

theorem FleetCatalog_well_formed:
  "list_all type_ok FleetCatalog \<and> list_all (\<lambda>t. CatalogTypeNamed (ctName t) = Some t) FleetCatalog"
proof
  show "list_all type_ok FleetCatalog" by (rule FleetCatalog_types_ok)
  show "list_all (\<lambda>t. CatalogTypeNamed (ctName t) = Some t) FleetCatalog"
    unfolding list_all_iff CatalogTypeNamed_def
    using find_distinct [OF FleetCatalog_names_distinct] by blast
qed

text \<open>
  The two sides of a data volume agree. A host whose EBS data volume was sized by
  \<open>DataVolumeGiB\<close> offers exactly the disk slots \<open>DiskSlots\<close> plans with, as long as its
  filesystem keeps at most half a disk's dirty budget of the volume for itself.
\<close>

theorem data_volume_slots_agree:
  assumes "\<not> ctInstanceStore t" and "0 \<le> kept" and "kept \<le> DiskDirtyBytes sdiv 2"
  shows "DiskSlots_volume (DataVolumeGiB t * gib - kept) = DiskSlots t"
proof -
  have h: "DiskDirtyBytes sdiv 2 = 2 * gib"
    by (simp add: DiskDirtyBytes_def sdiv_div)
  have "DiskSlots_volume (DataVolumeGiB t * gib - kept)
      = max 0 ((DiskSlots t * DiskDirtyBytes + (2 * gib - kept)) sdiv DiskDirtyBytes)"
    by (simp add: DiskSlots_volume_def DataVolume_bytes [OF assms(1)] h algebra_simps)
  also have "(DiskSlots t * DiskDirtyBytes + (2 * gib - kept)) sdiv DiskDirtyBytes
      = (DiskSlots t * DiskDirtyBytes + (2 * gib - kept)) div DiskDirtyBytes"
    using assms DiskSlots_pos [of t] h by (intro sdiv_div) (simp_all add: DiskDirtyBytes_def)
  also have "\<dots> = DiskSlots t + (2 * gib - kept) div DiskDirtyBytes"
    by (rule div_mult_self3) (simp add: DiskDirtyBytes_def)
  also have "(2 * gib - kept) div DiskDirtyBytes = 0"
    using assms h by (simp add: DiskDirtyBytes_def div_pos_pos_trivial)
  finally show ?thesis
    using DiskSlots_pos [of t] by simp
qed

theorem data_volume_slots_agree_witness:
  "DiskSlots_volume (DataVolumeGiB (cpuType ''m7i.xlarge'' 4 16 True [201600, 235200, 201600, 201600]) * gib - 1000000) = 2"
proof -
  let ?t = "cpuType ''m7i.xlarge'' 4 16 True [201600, 235200, 201600, 201600]"
  have "\<not> ctInstanceStore ?t" and "(0::int) \<le> 1000000" and "1000000 \<le> DiskDirtyBytes sdiv 2"
    by (simp_all add: cpuType_def DiskDirtyBytes_def sdiv_div)
  from data_volume_slots_agree [OF this] show ?thesis
    by (simp add: cpuType_def DiskSlots_def twoPerCore_def minDiskSlots_def diskSlotCores_def sdiv_div)
qed

end
