(* ===== verification/Policy.thy ===== *)
theory Policy
  imports Catalog
begin

text \<open>
  The fleet policy of \<open>internal/compute/fleet_policy.go\<close>: the markets headroom is kept in, the
  targets of each, the largest shape a reserve must fit, and the reviewed values the planner
  runs with (\<open>DefaultPolicy\<close>). \<open>Policy.GPU\<close>, a map from model to reserve, is an association
  list; a model left out reads as the zero reserve, as in Go.
\<close>

record ReserveMarket =
  rmPreemptible :: bool
  rmGPU :: string

abbreviation RM :: "bool \<Rightarrow> string \<Rightarrow> ReserveMarket" where
  "RM p g \<equiv> \<lparr>rmPreemptible = p, rmGPU = g\<rparr>"

definition ReserveMarket_String :: "ReserveMarket \<Rightarrow> string" where
  "ReserveMarket_String m =
     (if rmPreemptible m then ''spot'' else ''on_demand'') @ '':'' @ (if rmGPU m \<noteq> [] then rmGPU m else ''cpu'')"

definition spotCPU :: "ReserveMarket \<Rightarrow> bool" where
  "spotCPU m \<longleftrightarrow> m = RM True []"

definition buyMarket :: "ReserveMarket \<Rightarrow> Market" where
  "buyMarket m = (if rmPreemptible m then MarketSpot else MarketOnDemand)"

definition reserveMarketOf :: "Market \<Rightarrow> string \<Rightarrow> ReserveMarket" where
  "reserveMarketOf market gpu = RM (market = MarketSpot) gpu"

record HeadroomTarget =
  htFloor :: FleetCapacity
  htLoadPercent :: int

definition HeadroomTarget_Of :: "HeadroomTarget \<Rightarrow> FleetCapacity \<Rightarrow> FleetCapacity" where
  "HeadroomTarget_Of t load = Upper (htFloor t) (Percent load (htLoadPercent t))"

record MarketReserve =
  mrWarm :: HeadroomTarget
  mrStopped :: HeadroomTarget
  mrFitLargest :: bool
  mrAwaitReturn :: bool

record LargestShape =
  lsWindow :: duration
  lsDefault :: FleetCapacity
  lsSpotGPU :: FleetCapacity
  lsCap :: FleetCapacity
  lsCapDisks :: int

definition offered_within :: "FleetCapacity \<Rightarrow> string \<Rightarrow> CatalogType list \<Rightarrow> FleetCapacity" where
  "offered_within cap gpu catalog =
     foldl (\<lambda>acc t. let u = Usable t 0 in if ctGPU t = gpu \<and> Covers cap u then Upper acc u else acc)
       NoCapacity catalog"

definition LargestShape_of ::
  "LargestShape \<Rightarrow> ReserveMarket \<Rightarrow> FleetCapacity \<Rightarrow> int \<Rightarrow> CatalogType list \<Rightarrow> FleetCapacity \<times> int" where
  "LargestShape_of s m largest disks catalog =
     (let bounded = (\<lambda>l. (Lower (Lower l (lsCap s)) (offered_within (lsCap s) (rmGPU m) catalog), min disks (lsCapDisks s)))
      in if rmGPU m = [] then bounded (Upper largest (lsDefault s))
         else if fcGPUs largest > 0 then bounded (largest\<lparr>fcGPUs := 1\<rparr>)
         else if rmPreemptible m then bounded (lsSpotGPU s)
         else (NoCapacity, 0))"

record GPUReserve =
  grSpot :: MarketReserve
  grOnDemand :: MarketReserve

record BatchWindow =
  bwQuiet :: duration
  bwMax :: duration

record StartTimes =
  stLaunch :: duration
  stGPULaunch :: duration
  stResume :: duration
  stGPUResume :: duration
  stSpotDisable :: duration
  stSpotDisableMax :: duration

record Policy =
  pMarginPercent :: int
  pProvision :: duration
  pCostHorizon :: duration
  pMaxGrowthActions :: int
  pSpot :: MarketReserve
  pOnDemand :: MarketReserve
  pGPU :: "(string \<times> GPUReserve) list"
  pLargestShape :: LargestShape
  pArrivalWindow :: duration
  pWarmWindow :: duration
  pBatch :: BatchWindow
  pKeep :: duration
  pSpotPriceAge :: duration
  pSpotWait :: duration
  pLossCapPercent :: int
  pLossBudget :: int
  pQueueTimeout :: duration
  pStarts :: StartTimes

definition NoTarget :: HeadroomTarget where
  "NoTarget = \<lparr>htFloor = NoCapacity, htLoadPercent = 0\<rparr>"

definition NoReserve :: MarketReserve where
  "NoReserve = \<lparr>mrWarm = NoTarget, mrStopped = NoTarget, mrFitLargest = False, mrAwaitReturn = False\<rparr>"

text \<open>A type of a given topology and memory, as the default policy sizes its shapes by.\<close>

definition sizing_type :: "int \<Rightarrow> int \<Rightarrow> int \<Rightarrow> CatalogType" where
  "sizing_type vcpus memGiB cards =
     \<lparr>ctName = [], ctArchitecture = [], ctTopology = twoPerCore vcpus, ctMemoryBytes = memGiB * gib, ctGPU = [],
      ctGPUCount = cards, ctHibernates = False, ctInstanceStore = False, ctPrices = [0, 0, 0, 0]\<rparr>"

definition DefaultPolicy :: Policy where
  "DefaultPolicy =
     (let cpuMarket = \<lparr>mrWarm = \<lparr>htFloor = FC 1000 (4 * gib) 0, htLoadPercent = 25\<rparr>,
                       mrStopped = \<lparr>htFloor = FC 3000 (12 * gib) 0, htLoadPercent = 50\<rparr>,
                       mrFitLargest = True, mrAwaitReturn = False\<rparr>;
          spotMarket = cpuMarket\<lparr>mrStopped := (mrStopped cpuMarket)\<lparr>htLoadPercent := 0\<rparr>\<rparr>;
          card = \<lparr>mrWarm = \<lparr>htFloor = NoCapacity, htLoadPercent = 25\<rparr>,
                  mrStopped = \<lparr>htFloor = NoCapacity, htLoadPercent = 50\<rparr>,
                  mrFitLargest = True, mrAwaitReturn = False\<rparr>;
          spotCard = \<lparr>mrWarm = mrWarm card, mrStopped = mrStopped card, mrFitLargest = True, mrAwaitReturn = True\<rparr>;
          gpus = map (\<lambda>model. (model, \<lparr>grSpot = spotCard, grOnDemand = card\<rparr>)) [''T4'', ''A10G'', ''L4''];
          fits = Usable (sizing_type 16 32 0) 0;
          oneCard = Usable (sizing_type 8 32 1) 0;
          limit = sizing_type 32 64 1
      in \<lparr>pMarginPercent = 5, pProvision = 300 * second, pCostHorizon = hour, pMaxGrowthActions = 16,
          pSpot = spotMarket, pOnDemand = cpuMarket, pGPU = gpus,
          pLargestShape = \<lparr>lsWindow = 7 * 24 * hour, lsDefault = fits, lsSpotGPU = oneCard, lsCap = Usable limit 0,
                           lsCapDisks = DiskSlots limit\<rparr>,
          pArrivalWindow = 2 * minute, pWarmWindow = 30 * minute,
          pBatch = \<lparr>bwQuiet = second, bwMax = 5 * second\<rparr>,
          pKeep = 2 * minute, pSpotPriceAge = hour, pSpotWait = 2 * minute,
          pLossCapPercent = 15, pLossBudget = 20000000, pQueueTimeout = 20 * minute,
          pStarts = \<lparr>stLaunch = 23 * second, stGPULaunch = 150 * second, stResume = 15 * second, stGPUResume = 70 * second,
                     stSpotDisable = 66 * second, stSpotDisableMax = 180 * second\<rparr>\<rparr>)"

definition Policy_Reserve :: "Policy \<Rightarrow> ReserveMarket \<Rightarrow> MarketReserve" where
  "Policy_Reserve p m =
     (if rmGPU m \<noteq> [] \<and> rmPreemptible m then (case map_of (pGPU p) (rmGPU m) of None \<Rightarrow> NoReserve | Some g \<Rightarrow> grSpot g)
      else if rmGPU m \<noteq> [] then (case map_of (pGPU p) (rmGPU m) of None \<Rightarrow> NoReserve | Some g \<Rightarrow> grOnDemand g)
      else if rmPreemptible m then pSpot p
      else pOnDemand p)"

definition Policy_Markets :: "Policy \<Rightarrow> ReserveMarket list" where
  "Policy_Markets p =
     [RM True [], RM False []] @ concat (map (\<lambda>card. [RM True card, RM False card]) (sort (map fst (pGPU p))))"

definition readMicros :: "Policy \<Rightarrow> VolumeRead option \<Rightarrow> string \<Rightarrow> int" where
  "readMicros p rd region =
     (case rd of
        None \<Rightarrow> 0
      | Some r \<Rightarrow> (vrBytes r * transferMicrosPerGB (vrRegion r) region) sdiv 1000000000 * (hour sdiv second)
                    sdiv (pCostHorizon p sdiv second))"

subsection \<open>Facts\<close>

abbreviation policy_cap :: FleetCapacity where
  "policy_cap \<equiv> lsCap (pLargestShape DefaultPolicy)"

text \<open>The largest type within the cap of each model the default policy keeps a reserve of.\<close>

definition largest_type :: "string \<Rightarrow> string" where
  "largest_type gpu =
     (if gpu = [] then ''c6a.8xlarge'' else if gpu = ''T4'' then ''g4dn.4xlarge''
      else if gpu = ''A10G'' then ''g5.4xlarge'' else ''g6.4xlarge'')"

definition offers_all_of :: "string \<Rightarrow> bool" where
  "offers_all_of gpu \<longleftrightarrow>
     list_ex (\<lambda>t. ctName t = largest_type gpu \<and> ctGPU t = gpu \<and> Covers policy_cap (Usable t 0)
                 \<and> Usable t 0 = offered_within policy_cap gpu FleetCatalog) FleetCatalog"

lemma default_offers_all: "list_all offers_all_of [[], ''T4'', ''A10G'', ''L4'']"
  by code_simp

lemma default_markets:
  "Policy_Markets DefaultPolicy =
     [RM True [], RM False [], RM True ''A10G'', RM False ''A10G'', RM True ''L4'', RM False ''L4'', RM True ''T4'', RM False ''T4'']"
  by code_simp

lemma default_market_offers:
  assumes "m \<in> set (Policy_Markets DefaultPolicy)"
  shows "offers_all_of (rmGPU m)"
  using assms default_offers_all by (auto simp: default_markets)

lemma LargestShape_of_bound:
  "fst (LargestShape_of s m largest disks catalog) = NoCapacity
   \<or> Covers (offered_within (lsCap s) (rmGPU m) catalog) (fst (LargestShape_of s m largest disks catalog))"
  by (auto simp: LargestShape_of_def Let_def Lower_def Covers_def)

subsection \<open>Properties\<close>

text \<open>
  C36: the shape a reserve must fit is always one a reserve can be. In every market the default
  policy keeps headroom in, and whatever its containers reserved, the catalog has a type of the
  market's model within the size cap whose usable room covers the shape \<open>LargestShape.of\<close>
  asks for.
\<close>

theorem largest_shape_has_type:
  assumes "m \<in> set (Policy_Markets DefaultPolicy)"
  shows "\<exists>t\<in>set FleetCatalog. ctGPU t = rmGPU m \<and> Covers (lsCap (pLargestShape DefaultPolicy)) (Usable t 0)
           \<and> Covers (Usable t 0) (fst (LargestShape_of (pLargestShape DefaultPolicy) m largest disks FleetCatalog))"
proof -
  obtain t where t: "t \<in> set FleetCatalog" "ctGPU t = rmGPU m" "Covers policy_cap (Usable t 0)"
      "Usable t 0 = offered_within policy_cap (rmGPU m) FleetCatalog"
    using default_market_offers [OF assms] unfolding offers_all_of_def list_ex_iff by blast
  have "type_ok t"
    using t(1) FleetCatalog_types_ok by (simp add: list_all_iff)
  then have "Covers (Usable t 0) NoCapacity"
    by (simp add: type_ok_def)
  then have "Covers (Usable t 0) (fst (LargestShape_of (pLargestShape DefaultPolicy) m largest disks FleetCatalog))"
    using LargestShape_of_bound [of "pLargestShape DefaultPolicy" m largest disks FleetCatalog] t(4) by auto
  with t show ?thesis by blast
qed

theorem largest_shape_has_type_witness:
  "list_ex (\<lambda>t. ctGPU t = ''T4'' \<and> Covers (lsCap (pLargestShape DefaultPolicy)) (Usable t 0)
           \<and> Covers (Usable t 0) (fst (LargestShape_of (pLargestShape DefaultPolicy) (RM True ''T4'') (FC 90000 7 3) 1 FleetCatalog)))
     FleetCatalog"
proof -
  have "RM True ''T4'' \<in> set (Policy_Markets DefaultPolicy)"
    by (simp add: default_markets)
  from largest_shape_has_type [OF this, of "FC 90000 7 3" 1] show ?thesis
    by (simp add: list_ex_iff)
qed

text \<open>
  The disks are bounded by the cap's slots and not by the slots of a type of the market's
  model. Once a T4 container attached nine or more disks, \<open>LargestShape.of\<close> asks for more disk
  slots than any T4 type within the size cap has, so no reserve of that market can hold it.
\<close>

theorem gpu_reserve_disks_unmet:
  "9 \<le> disks \<and> 0 < fcGPUs largest \<longrightarrow>
     list_all (\<lambda>t. ctGPU t = ''T4'' \<and> Covers (lsCap (pLargestShape DefaultPolicy)) (Usable t 0)
         \<longrightarrow> DiskSlots t < snd (LargestShape_of (pLargestShape DefaultPolicy) (RM p ''T4'') largest disks FleetCatalog))
       FleetCatalog"
proof
  assume d: "9 \<le> disks \<and> 0 < fcGPUs largest"
  have "list_all (\<lambda>t. ctGPU t = ''T4'' \<and> Covers policy_cap (Usable t 0) \<longrightarrow> DiskSlots t \<le> 8) FleetCatalog"
    by code_simp
  moreover have "lsCapDisks (pLargestShape DefaultPolicy) = 16"
    by code_simp
  then have "9 \<le> snd (LargestShape_of (pLargestShape DefaultPolicy) (RM p ''T4'') largest disks FleetCatalog)"
    using d by (simp add: LargestShape_of_def Let_def)
  ultimately show "list_all (\<lambda>t. ctGPU t = ''T4'' \<and> Covers policy_cap (Usable t 0)
         \<longrightarrow> DiskSlots t < snd (LargestShape_of (pLargestShape DefaultPolicy) (RM p ''T4'') largest disks FleetCatalog))
       FleetCatalog"
    by (fastforce simp: list_all_iff)
qed

theorem gpu_reserve_disks_unmet_witness:
  "list_all (\<lambda>t. DiskSlots t < snd (LargestShape_of (pLargestShape DefaultPolicy) (RM True ''T4'') (FC 1000 1 1) 9 FleetCatalog))
     (filter (\<lambda>t. ctGPU t = ''T4'' \<and> Covers (lsCap (pLargestShape DefaultPolicy)) (Usable t 0)) FleetCatalog)"
  using gpu_reserve_disks_unmet [of 9 "FC 1000 1 1" True] by (simp add: list_all_iff)

end
