(* ===== verification/FleetHosts.thy ===== *)
theory FleetHosts
  imports Policy
begin

text \<open>
  A platform host as the planner sees it (\<open>FleetHost\<close> of \<open>internal/compute/fleet_plan.go\<close>)
  and what the planner reads off one: the market it serves, the room it has, whether it can
  resume, and its room as placement would see it. \<open>FleetState\<close> is of \<open>fleet_admin.go\<close> and
  \<open>fleet_plan.go\<close>, \<open>ReserveMode\<close> of \<open>types.go\<close>.
\<close>

datatype FleetState =
    FleetServing | FleetStarting | FleetDraining | FleetUnavailable | FleetTerminating
  | FleetPreparing | FleetStopping | FleetStopped | FleetHibernateUnverified | FleetImageSaved

definition fleet_state_name :: "FleetState \<Rightarrow> string" where
  "fleet_state_name s =
     (case s of FleetServing \<Rightarrow> ''serving'' | FleetStarting \<Rightarrow> ''starting'' | FleetDraining \<Rightarrow> ''draining''
        | FleetUnavailable \<Rightarrow> ''unavailable'' | FleetTerminating \<Rightarrow> ''terminating'' | FleetPreparing \<Rightarrow> ''preparing''
        | FleetStopping \<Rightarrow> ''stopping'' | FleetStopped \<Rightarrow> ''stopped''
        | FleetHibernateUnverified \<Rightarrow> ''hibernate_unverified'' | FleetImageSaved \<Rightarrow> ''image_saved'')"

datatype ReserveMode = ReserveStop | ReserveHibernate

record FleetHost =
  fhID :: HostID
  fhInstanceType :: string
  fhRegion :: string
  fhZone :: string
  fhZoneID :: string
  fhMarket :: Market
  fhGPU :: string
  fhUsable :: FleetCapacity
  fhState :: FleetState
  fhLoad :: FleetCapacity
  fhPacked :: FleetCapacity
  fhContainers :: int
  fhUsedDisks :: int
  fhProtected :: bool
  fhStartRefused :: bool
  fhRequested :: bool
  fhUpdateDue :: bool
  fhReserveMode :: "ReserveMode option"
  fhHibernationConfigured :: bool
  fhStoppable :: bool
  fhHourlyMicros :: "int option"
  fhPhaseAt :: time
  fhReplaces :: "HostID option"
  fhRightsizeRefusedAt :: "time option"
  fhStoppedAt :: "time option"
  fhSlept :: bool
  fhHandsBack :: bool
  fhMoves :: "Requirement list"
  fhStays :: bool

definition host_market :: "FleetHost \<Rightarrow> ReserveMarket" where
  "host_market h = reserveMarketOf (fhMarket h) (fhGPU h)"

definition room_of_host :: "FleetHost \<Rightarrow> FleetCapacity" where
  "room_of_host h = Clamp (Minus_cap (fhUsable h) (fhLoad h))"

definition free_of_host :: "FleetHost \<Rightarrow> FleetCapacity" where
  "free_of_host h = (if fhUpdateDue h then NoCapacity else room_of_host h)"

definition resumable :: "FleetHost \<Rightarrow> bool" where
  "resumable h \<longleftrightarrow> fhState h = FleetStopped \<or> fhState h = FleetHibernateUnverified \<or> fhState h = FleetImageSaved"

definition reserve_host :: "FleetHost \<Rightarrow> bool" where
  "reserve_host h \<longleftrightarrow> resumable h \<or> fhState h = FleetPreparing \<or> fhState h = FleetStopping"

definition capacity_of_host :: "FleetHost \<Rightarrow> HostCapacity" where
  "capacity_of_host h =
     (let free = room_of_host h
      in \<lparr>hcHost = fhID h, hcKind = KindPlatform, hcProvider = ProviderAWS, hcConnection = None, hcName = [], hcWorkspaces = [],
          hcRegion = fhRegion h, hcZone = fhZone h, hcZoneID = fhZoneID h, hcMarket = fhMarket h, hcGPUType = fhGPU h,
          hcGPUCount = fcGPUs (fhUsable h), hcCPUMillis = fcCPUMillis (fhUsable h), hcMemoryBytes = fcMemoryBytes (fhUsable h),
          hcFreeCPUMillis = fcCPUMillis free, hcFreeMemoryBytes = fcMemoryBytes free, hcFreeGPUs = fcGPUs free,
          hcFreeDiskSlots = (case CatalogTypeNamed (fhInstanceType h) of None \<Rightarrow> 0 | Some t \<Rightarrow> max 0 (DiskSlots t - fhUsedDisks h)),
          hcHandsBack = fhHandsBack h, hcPacked = fhPacked h\<rparr>)"

definition forWork :: "FleetHost \<Rightarrow> HostCapacity \<Rightarrow> HostCapacity" where
  "forWork h rm =
     (if fhUpdateDue h
      then rm\<lparr>hcFreeCPUMillis := 0, hcFreeMemoryBytes := 0, hcFreeGPUs := 0, hcFreeDiskSlots := 0\<rparr>
      else rm)"

definition serving :: "FleetHost \<Rightarrow> bool" where
  "serving h \<longleftrightarrow> fhState h = FleetServing"

definition starting :: "FleetHost \<Rightarrow> bool" where
  "starting h \<longleftrightarrow> fhState h = FleetStarting"

definition busy :: "FleetHost \<Rightarrow> bool" where
  "busy h \<longleftrightarrow> (if fhGPU h \<noteq> [] then fcGPUs (fhLoad h) > 0 else fhContainers h > 0)"

definition roomOf :: "HostCapacity \<Rightarrow> FleetCapacity" where
  "roomOf r = FC (hcFreeCPUMillis r) (hcFreeMemoryBytes r) (hcFreeGPUs r)"

definition reservedShape :: "Requirement \<Rightarrow> FleetCapacity" where
  "reservedShape r = FC (rCPUMillis r) (rMemoryBytes r) (GPUsNeeded r)"

lemma room_of_host_nonneg: "nonneg_cap (room_of_host h)"
  by (simp add: room_of_host_def Clamp_def Upper_def Covers_def NoCapacity_def)

lemma roomOf_capacity: "roomOf (capacity_of_host h) = room_of_host h"
  by (simp add: roomOf_def capacity_of_host_def Let_def)

text \<open>The room a host shows to placement is sound bookkeeping when its packed work is.\<close>

lemma capacity_of_host_ok:
  assumes "nonneg_cap (fhPacked h)"
  shows "host_ok (capacity_of_host h)"
  using assms room_of_host_nonneg [of h]
  by (auto simp: host_ok_def capacity_of_host_def Let_def Covers_def NoCapacity_def split: option.splits)

end
