(* ===== verification/Calendar.thy ===== *)
theory Calendar
  imports Prelude
begin

text \<open>
  The proleptic Gregorian calendar as Go's \<open>time\<close> package counts it in UTC: dates as day
  numbers and days back as dates. Day 0 is 0001-01-01; 1970-01-01 is day 719162. A time is
  nanoseconds since 1970, \<open>time.Date\<close> in UTC is \<open>utc_date\<close>, and weekdays count from
  Sunday.
\<close>

definition leap_year :: "int \<Rightarrow> bool" where
  "leap_year y \<longleftrightarrow> y mod 4 = 0 \<and> (y mod 100 \<noteq> 0 \<or> y mod 400 = 0)"

definition month_days :: "int \<Rightarrow> int \<Rightarrow> int" where
  "month_days y m =
     (if m = 2 then (if leap_year y then 29 else 28)
      else if m = 4 \<or> m = 6 \<or> m = 9 \<or> m = 11 then 30 else 31)"

text \<open>Days before a year, and within a year before a month.\<close>

definition days_before_year :: "int \<Rightarrow> int" where
  "days_before_year y = (let k = y - 1 in 365 * k + k div 4 - k div 100 + k div 400)"

definition days_before_month :: "int \<Rightarrow> int \<Rightarrow> int" where
  "days_before_month y m =
     (if m \<le> 1 then 0 else if m = 2 then 31
      else (if leap_year y then 1 else 0)
           + (if m = 3 then 59 else if m = 4 then 90 else if m = 5 then 120 else if m = 6 then 151
              else if m = 7 then 181 else if m = 8 then 212 else if m = 9 then 243 else if m = 10 then 273
              else if m = 11 then 304 else 334))"

definition day_number :: "int \<Rightarrow> int \<Rightarrow> int \<Rightarrow> int" where
  "day_number y m d = days_before_year y + days_before_month y m + (d - 1)"

definition unix_epoch_day :: int where
  "unix_epoch_day = 719162"

definition utc_date :: "int \<Rightarrow> int \<Rightarrow> int \<Rightarrow> int \<Rightarrow> int \<Rightarrow> int \<Rightarrow> int \<Rightarrow> time" where
  "utc_date y m d h mi s ns =
     (day_number y m d - unix_epoch_day) * (24 * hour) + h * hour + mi * minute + s * second + ns"

text \<open>The zero \<open>time.Time\<close>, the first instant of year 1.\<close>

definition zero_time :: time where
  "zero_time = utc_date 1 1 1 0 0 0 0"

text \<open>The day, hour and minute of an instant.\<close>

definition day_of :: "time \<Rightarrow> int" where
  "day_of t = t div (24 * hour) + unix_epoch_day"

definition hour_of :: "time \<Rightarrow> int" where
  "hour_of t = t mod (24 * hour) div hour"

definition minute_of :: "time \<Rightarrow> int" where
  "minute_of t = t mod hour div minute"

lemma unix_epoch: "utc_date 1970 1 1 0 0 0 0 = 0"
  by code_simp

subsection \<open>Dates of days\<close>

text \<open>
  The year, month and day a day number falls in: cycles of 400, 100, 4 and single years, the last of four
  centuries and of four years one day longer.
\<close>

definition year_of :: "int \<Rightarrow> int" where
  "year_of n =
     (let k = n div 146097; r = n mod 146097;
          c = min 3 (r div 36524); r = r - c * 36524;
          q = r div 1461; r = r - q * 1461;
          z = min 3 (r div 365)
      in 400 * k + 100 * c + 4 * q + z + 1)"

definition month_in :: "int \<Rightarrow> int \<Rightarrow> int" where
  "month_in y d =
     (if d < days_before_month y 2 then 1 else if d < days_before_month y 3 then 2 else if d < days_before_month y 4 then 3
      else if d < days_before_month y 5 then 4 else if d < days_before_month y 6 then 5 else if d < days_before_month y 7 then 6
      else if d < days_before_month y 8 then 7 else if d < days_before_month y 9 then 8 else if d < days_before_month y 10 then 9
      else if d < days_before_month y 11 then 10 else if d < days_before_month y 12 then 11 else 12)"

definition month_of :: "int \<Rightarrow> int" where
  "month_of n = month_in (year_of n) (n - days_before_year (year_of n))"

definition mday_of :: "int \<Rightarrow> int" where
  "mday_of n = n - days_before_year (year_of n) - days_before_month (year_of n) (month_of n) + 1"

definition weekday_of :: "int \<Rightarrow> int" where
  "weekday_of n = (n + 1) mod 7"

lemma day_number_of [simp]: "day_number (year_of n) (month_of n) (mday_of n) = n"
  by (simp add: day_number_def mday_of_def)

text \<open>A year as cycles, and the days before it.\<close>

lemma days_before_year_cycles:
  assumes "0 \<le> c" "c \<le> 3" "0 \<le> q" "q \<le> 24" "0 \<le> z" "z \<le> 3"
  shows "days_before_year (400 * k + 100 * c + 4 * q + z + 1) = 146097 * k + 36524 * c + 1461 * q + 365 * z"
proof -
  let ?y = "400 * k + 100 * c + 4 * q + z"
  have "?y div 4 = 100 * k + 25 * c + q" by (rule int_div_pos_eq [where r = z]) (use assms in auto)
  moreover have "?y div 100 = 4 * k + c" by (rule int_div_pos_eq [where r = "4 * q + z"]) (use assms in auto)
  moreover have "?y div 400 = k" by (rule int_div_pos_eq [where r = "100 * c + 4 * q + z"]) (use assms in auto)
  ultimately show ?thesis by (simp add: days_before_year_def Let_def)
qed

lemma leap_year_cycles:
  assumes "0 \<le> c" "c \<le> 3" "0 \<le> q" "q \<le> 24" "0 \<le> z" "z \<le> 3"
  shows "leap_year (400 * k + 100 * c + 4 * q + z + 1) \<longleftrightarrow> z = 3 \<and> (q \<noteq> 24 \<or> c = 3)"
proof (cases "z = 3")
  case False
  have "(400 * k + 100 * c + 4 * q + z + 1) mod 4 = z + 1"
    by (rule int_mod_pos_eq [where q = "100 * k + 25 * c + q"]) (use assms False in auto)
  then show ?thesis using False assms by (simp add: leap_year_def)
next
  case True
  let ?y = "400 * k + 100 * c + 4 * q + z + 1"
  have m4: "?y mod 4 = 0" by (rule int_mod_pos_eq [where q = "100 * k + 25 * c + q + 1"]) (use True in auto)
  show ?thesis
  proof (cases "q = 24")
    case False
    have "?y mod 100 = 4 * q + 4" by (rule int_mod_pos_eq [where q = "4 * k + c"]) (use assms True False in auto)
    then show ?thesis using m4 True False assms by (simp add: leap_year_def)
  next
    case q: True
    have m100: "?y mod 100 = 0" by (rule int_mod_pos_eq [where q = "4 * k + c + 1"]) (use True q in auto)
    show ?thesis
    proof (cases "c = 3")
      case False
      have "?y mod 400 = 100 * c + 100" by (rule int_mod_pos_eq [where q = k]) (use assms True q False in auto)
      then show ?thesis using m4 m100 True q False assms by (simp add: leap_year_def)
    next
      case c: True
      have "?y mod 400 = 0" by (rule int_mod_pos_eq [where q = "k + 1"]) (use True q c in auto)
      then show ?thesis using m4 True q c by (simp add: leap_year_def)
    qed
  qed
qed

text \<open>A quotient goes up by one where the next number is a multiple.\<close>

lemma div_next:
  fixes k m :: int
  assumes "0 < m"
  shows "(k + 1) div m = k div m + (if (k + 1) mod m = 0 then 1 else 0)"
proof -
  have k: "k = m * (k div m) + k mod m" "0 \<le> k mod m" "k mod m < m" using assms by simp_all
  show ?thesis
  proof (cases "k mod m = m - 1")
    case True
    then have "k + 1 = m * (k div m) + m" using k(1) by linarith
    then have "k + 1 = m * (k div m + 1)" by (simp add: distrib_left)
    then show ?thesis using assms by simp
  next
    case False
    have d: "(k + 1) div m = k div m" by (rule int_div_pos_eq [where r = "k mod m + 1"]) (use k False in auto)
    have "(k + 1) mod m = k mod m + 1" by (rule int_mod_pos_eq [where q = "k div m"]) (use k False in auto)
    then show ?thesis using d k(2) by simp
  qed
qed

lemma div_prev: "0 < m \<Longrightarrow> k div m = (k - 1) div m + (if k mod m = 0 then 1 else (0::int))"
  using div_next [of m "k - 1"] by simp

lemma days_before_year_next: "days_before_year (y + 1) = days_before_year y + 365 + (if leap_year y then 1 else 0)"
proof -
  have m: "y mod 100 = 0" if "y mod 400 = 0" using mod_mod_cancel [of 100 400 y] that by simp
  have m': "y mod 4 = 0" if "y mod 100 = 0" using mod_mod_cancel [of 4 100 y] that by simp
  define a b c where "a = (y - 1) div 4" and "b = (y - 1) div 100" and "c = (y - 1) div 400"
  define i j k where "i = (if y mod 4 = 0 then 1 else (0::int))" and "j = (if y mod 100 = 0 then 1 else (0::int))"
    and "k = (if y mod 400 = 0 then 1 else (0::int))"
  have q: "y div 4 = a + i" "y div 100 = b + j" "y div 400 = c + k"
    unfolding a_def b_def c_def i_def j_def k_def by (rule div_prev, simp)+
  have "days_before_year (y + 1) = days_before_year y + 365 + i - j + k"
    unfolding days_before_year_def Let_def add_diff_cancel_right' q a_def [symmetric] b_def [symmetric] c_def [symmetric] by simp
  moreover have "(if P then 1 else 0) - (if Q then 1 else 0) + (if R then 1 else 0) = (if P \<and> (\<not> Q \<or> R) then 1 else (0::int))"
    if "R \<Longrightarrow> Q" "Q \<Longrightarrow> P" for P Q R using that by (cases P; cases Q; cases R) simp_all
  from this [OF m m'] have "i - j + k = (if leap_year y then 1 else 0)" unfolding leap_year_def i_def j_def k_def .
  ultimately show ?thesis by simp
qed

lemma days_before_year_mono: "y \<le> y' \<Longrightarrow> days_before_year y \<le> days_before_year y'"
  by (induction rule: int_ge_induct) (auto simp: days_before_year_next)

lemma year_of_cycles:
  obtains k c q z where "0 \<le> c" "c \<le> 3" "0 \<le> q" "q \<le> 24" "0 \<le> z" "z \<le> 3" "year_of n = 400 * k + 100 * c + 4 * q + z + 1"
    "146097 * k + 36524 * c + 1461 * q + 365 * z \<le> n"
    "n < 146097 * k + 36524 * c + 1461 * q + 365 * z + 365 + (if z = 3 \<and> (q \<noteq> 24 \<or> c = 3) then 1 else 0)"
proof -
  define k where "k = n div 146097"
  define r where "r = n mod 146097"
  define c where "c = min 3 (r div 36524)"
  define s where "s = r - c * 36524"
  define q where "q = s div 1461"
  define u where "u = s - q * 1461"
  define z where "z = min 3 (u div 365)"
  have n: "n = 146097 * k + r" "0 \<le> r" "r < 146097" by (simp_all add: k_def r_def)
  then have c: "0 \<le> c" "c \<le> 3" "0 \<le> s" "s < 36525" "c < 3 \<Longrightarrow> s < 36524"
    unfolding c_def s_def min_def by (auto simp: minus_div_mult_eq_mod pos_imp_zdiv_nonneg_iff)
  have q: "0 \<le> q" "q \<le> 24" "0 \<le> u" "u < 1461"
    using c(3,4) by (simp_all add: q_def u_def minus_div_mult_eq_mod pos_imp_zdiv_nonneg_iff)
  then have z: "0 \<le> z" "z \<le> 3" "365 * z \<le> u" "u < 365 * z + 365 + (if z = 3 then 1 else 0)"
    unfolding z_def min_def by (auto simp: pos_imp_zdiv_nonneg_iff)
  have u: "u < 365 * z + 365 + (if z = 3 \<and> (q \<noteq> 24 \<or> c = 3) then 1 else 0)"
    using z c q unfolding u_def by (auto split: if_splits)
  have y: "year_of n = 400 * k + 100 * c + 4 * q + z + 1"
    by (simp only: year_of_def Let_def k_def r_def c_def s_def q_def u_def z_def)
  have eq: "n = 146097 * k + 36524 * c + 1461 * q + u" using n(1) by (simp add: u_def s_def)
  show thesis by (rule that [of c q z k]) (use c q z u y eq in simp_all)
qed

lemma year_of_bounds: "days_before_year (year_of n) \<le> n" "n < days_before_year (year_of n) + 365 + (if leap_year (year_of n) then 1 else 0)"
  by (rule year_of_cycles [of n], simp add: days_before_year_cycles leap_year_cycles)+

lemma month_of_range: "1 \<le> month_of n" "month_of n \<le> 12"
  by (simp_all add: month_of_def month_in_def)

lemma month_in_days:
  assumes "0 \<le> d" and "d < 365 + (if leap_year y then 1 else 0)"
  shows "days_before_month y (month_in y d) \<le> d" and "d < days_before_month y (month_in y d) + month_days y (month_in y d)"
  using assms by (cases "leap_year y"; simp add: month_in_def month_days_def days_before_month_def)+

lemma mday_of_range: "1 \<le> mday_of n" "mday_of n \<le> month_days (year_of n) (month_of n)"
proof -
  let ?y = "year_of n" and ?d = "n - days_before_year (year_of n)"
  have "0 \<le> ?d" "?d < 365 + (if leap_year ?y then 1 else 0)" using year_of_bounds [of n] by simp_all
  from month_in_days [OF this] show "1 \<le> mday_of n" "mday_of n \<le> month_days ?y (month_of n)"
    by (simp_all add: mday_of_def month_of_def)
qed

lemma mday_of_31: "mday_of n \<le> 31"
  using mday_of_range(2) [of n] by (auto simp: month_days_def split: if_splits)

lemma year_of_between:
  assumes "days_before_year a \<le> n" and "n < days_before_year b"
  shows "a \<le> year_of n" and "year_of n < b"
proof -
  show "a \<le> year_of n"
  proof (rule ccontr)
    assume "\<not> a \<le> year_of n"
    then have "days_before_year (year_of n + 1) \<le> days_before_year a" by (intro days_before_year_mono) simp
    then show False using assms(1) year_of_bounds(2) [of n] by (simp add: days_before_year_next)
  qed
  show "year_of n < b"
  proof (rule ccontr)
    assume "\<not> year_of n < b"
    then have "days_before_year b \<le> days_before_year (year_of n)" by (intro days_before_year_mono) simp
    then show False using assms(2) year_of_bounds(1) [of n] by linarith
  qed
qed

end
