(* ===== verification/Rates.thy ===== *)
theory Rates
  imports Calendar
begin

text \<open>
  The rate card of \<open>internal/billing/ratecard.go\<close>: plans and what an account on one may use,
  the reviewed history of published rates, and the card in force at an instant. Money is \<open>int\<close>
  nanodollars. A panic of \<open>multiplied\<close> is \<open>None\<close>; \<open>cardRate\<close>
  panics for no owner of the datatype. The maps of a card are
  association lists whose first entry for a key is the current one.
\<close>

subsection \<open>Constants and plans\<close>

definition NanosPerUSD :: int where "NanosPerUSD = 1000000000"
definition managementFeePercent :: int where "managementFeePercent = 8"
definition noCardMaxCPUContainers :: int where "noCardMaxCPUContainers = 10"
definition noCardMaxGPUs :: int where "noCardMaxGPUs = 1"

datatype PlanID = PlanFree | PlanTeam | PlanBusiness
datatype TermsVersion = TermsFree | TermsTeam | TermsBusiness

text \<open>A GPU model's name; the empty name is no GPU.\<close>

type_synonym GPUType = string

abbreviation (input) noGPU :: GPUType where "noGPU \<equiv> []"

record GPUModel =
  gmType :: GPUType
  gmEnabled :: bool

definition GPUModels :: "GPUModel list" where
  "GPUModels =
     map (\<lambda>(t, e). \<lparr>gmType = t, gmEnabled = e\<rparr>)
       [(''T4'', True), (''A10G'', True), (''L4'', True), (''L40S'', True), (''A100-40'', False),
        (''RTXPro6000'', False), (''H100'', False)]"

definition gpuModels_priced :: "GPUType list" where
  "gpuModels_priced = map gmType GPUModels"

definition enabledGPUs :: "GPUType list" where
  "enabledGPUs = map gmType (filter gmEnabled GPUModels)"

definition GPUEnabled :: "string \<Rightarrow> bool" where
  "GPUEnabled model \<longleftrightarrow> model \<in> set enabledGPUs"

definition noCardGPUs :: "GPUType list" where
  "noCardGPUs = [''A10G'', ''L4'', ''T4'']"

datatype BillingOwner = OwnerPlatformFleet | OwnerConnectedCloud | OwnerSelfHosted

definition billingOwners :: "BillingOwner list" where
  "billingOwners = [OwnerPlatformFleet, OwnerConnectedCloud, OwnerSelfHosted]"

datatype RateClass = ClassAuto | ClassPinned | ClassNonPreemptible | ClassPinnedNonPreemptible

definition RateClassFor :: "bool \<Rightarrow> bool \<Rightarrow> RateClass" where
  "RateClassFor pinned preemptible =
     (if preemptible \<and> pinned then ClassPinned
      else if preemptible then ClassAuto
      else if pinned then ClassPinnedNonPreemptible
      else ClassNonPreemptible)"

record Limit =
  liMax :: int
  liUnlimited :: bool

definition limitOf :: "int \<Rightarrow> Limit" where
  "limitOf n = \<lparr>liMax = n, liUnlimited = False\<rparr>"

definition unlimited :: Limit where
  "unlimited = \<lparr>liMax = 0, liUnlimited = True\<rparr>"

record Entitlements =
  enMaxCPUContainers :: int
  enMaxGPUs :: int
  enGPUTypes :: "GPUType list"
  enMaxWorkspaces :: Limit
  enMaxMembers :: Limit
  enConnectedCloud :: bool
  enCustomDomains :: bool
  enSelfHosted :: bool
  enRegionSelection :: bool
  enRetentionDays :: int
  enMaxWorkspaceDiskGiB :: int

text \<open>A published plan; its name, summary and notes, which only the catalog page prints, are left out.\<close>

record Plan =
  plID :: PlanID
  plTerms :: TermsVersion
  plMonthlyNanos :: int
  plIncludedNanos :: int
  plEntitlements :: Entitlements

definition Plans :: "Plan list" where
  "Plans =
     (let paidDiskGiB = 1024
      in [\<lparr>plID = PlanFree, plTerms = TermsFree, plMonthlyNanos = 0, plIncludedNanos = 0,
           plEntitlements = \<lparr>enMaxCPUContainers = 30, enMaxGPUs = 5, enGPUTypes = gpuModels_priced,
             enMaxWorkspaces = limitOf 1, enMaxMembers = limitOf 1, enConnectedCloud = False, enCustomDomains = False,
             enSelfHosted = True, enRegionSelection = False, enRetentionDays = 1, enMaxWorkspaceDiskGiB = 0\<rparr>\<rparr>,
          \<lparr>plID = PlanTeam, plTerms = TermsTeam, plMonthlyNanos = 49 * NanosPerUSD, plIncludedNanos = 25 * NanosPerUSD,
           plEntitlements = \<lparr>enMaxCPUContainers = 1000, enMaxGPUs = 50, enGPUTypes = gpuModels_priced,
             enMaxWorkspaces = unlimited, enMaxMembers = limitOf 3, enConnectedCloud = False, enCustomDomains = True,
             enSelfHosted = True, enRegionSelection = True, enRetentionDays = 30, enMaxWorkspaceDiskGiB = paidDiskGiB\<rparr>\<rparr>,
          \<lparr>plID = PlanBusiness, plTerms = TermsBusiness, plMonthlyNanos = 199 * NanosPerUSD, plIncludedNanos = 100 * NanosPerUSD,
           plEntitlements = \<lparr>enMaxCPUContainers = 2000, enMaxGPUs = 100, enGPUTypes = gpuModels_priced,
             enMaxWorkspaces = unlimited, enMaxMembers = unlimited, enConnectedCloud = True, enCustomDomains = True,
             enSelfHosted = True, enRegionSelection = True, enRetentionDays = 90, enMaxWorkspaceDiskGiB = paidDiskGiB\<rparr>\<rparr>])"

datatype rate_error = NoPlan PlanID | NoTerms TermsVersion | NoRatesCover time | NoComputeRate RateClass BillingOwner GPUType

definition PlanFor :: "PlanID \<Rightarrow> rate_error + Plan" where
  "PlanFor i = (case List.find (\<lambda>p. plID p = i) Plans of None \<Rightarrow> Inl (NoPlan i) | Some p \<Rightarrow> Inr p)"

definition planOfTerms :: "TermsVersion \<Rightarrow> rate_error + Plan" where
  "planOfTerms v = (case List.find (\<lambda>p. plTerms p = v) Plans of None \<Rightarrow> Inl (NoTerms v) | Some p \<Rightarrow> Inr p)"

definition accountEntitlements :: "Plan \<Rightarrow> bool \<Rightarrow> bool \<Rightarrow> rate_error + Entitlements" where
  "accountEntitlements plan hasCard complimentary =
     (if complimentary
      then (case PlanFor PlanBusiness of Inl e \<Rightarrow> Inl e | Inr business \<Rightarrow> Inr (plEntitlements business))
      else let e = plEntitlements plan
           in Inr (if hasCard then e
                   else e\<lparr>enMaxCPUContainers := noCardMaxCPUContainers, enMaxGPUs := noCardMaxGPUs,
                          enGPUTypes := noCardGPUs\<rparr>))"

subsection \<open>Rates\<close>

record ComputeRate =
  crOwner :: BillingOwner
  crClass :: RateClass
  crGPU :: GPUType
  crContainerHour :: int
  crCPUHour :: int
  crMemoryGiBHour :: int
  crGPUCardHour :: int

type_synonym rateKey = "BillingOwner \<times> RateClass \<times> GPUType"

definition rate_key :: "ComputeRate \<Rightarrow> rateKey" where
  "rate_key r = (crOwner r, crClass r, crGPU r)"

record PlatformRate =
  prEgressGiB :: int
  prVolumeGiBMonth :: int

record DiskRate =
  drStoredGiBMonth :: int
  drAttachedGiBMonth :: int

record rateChange =
  rcVersion :: string
  rcEffectiveAt :: time
  rcCompute :: "ComputeRate list"
  rcPlatform :: "PlatformRate option"
  rcDisk :: "DiskRate option"

record shapeRate =
  srOwner :: BillingOwner
  srContainerHour :: int
  srCPUHour :: int
  srMemoryGiB :: int

type_synonym gpuRate = "GPUType \<times> int"

definition managementFee :: "int \<Rightarrow> int" where
  "managementFee fleetHour = (fleetHour * managementFeePercent) sdiv 100 sdiv 3600 * 3600"

definition cardRate :: "gpuRate \<Rightarrow> BillingOwner \<Rightarrow> int" where
  "cardRate g owner =
     (case owner of
        OwnerPlatformFleet \<Rightarrow> snd g
      | OwnerConnectedCloud \<Rightarrow> managementFee (snd g)
      | OwnerSelfHosted \<Rightarrow> 0)"

definition shapesFrom :: "shapeRate \<Rightarrow> shapeRate list" where
  "shapesFrom fleet =
     [fleet,
      \<lparr>srOwner = OwnerConnectedCloud, srContainerHour = managementFee (srContainerHour fleet),
       srCPUHour = managementFee (srCPUHour fleet), srMemoryGiB = managementFee (srMemoryGiB fleet)\<rparr>,
      \<lparr>srOwner = OwnerSelfHosted, srContainerHour = 0, srCPUHour = 0, srMemoryGiB = 0\<rparr>]"

definition computeRates :: "shapeRate list \<Rightarrow> gpuRate list \<Rightarrow> ComputeRate list" where
  "computeRates shapes gpus =
     concat (map (\<lambda>s.
       let base = \<lparr>crOwner = srOwner s, crClass = ClassAuto, crGPU = noGPU, crContainerHour = srContainerHour s,
                   crCPUHour = srCPUHour s, crMemoryGiBHour = srMemoryGiB s, crGPUCardHour = 0\<rparr>
       in base # map (\<lambda>g. base\<lparr>crGPU := fst g, crGPUCardHour := cardRate g (srOwner s)\<rparr>) gpus) shapes)"

record Placement =
  plaClass :: RateClass
  plaPinned :: bool
  plaPreemptible :: bool
  plaCPUMemoryTenths :: int
  plaGPUTenths :: int

definition placements :: "Placement list" where
  "placements =
     map (\<lambda>(pinned, preemptible).
       let location = (if pinned then 15 else 10);
           cpuMemory = (if preemptible then location else location * 3)
       in \<lparr>plaClass = RateClassFor pinned preemptible, plaPinned = pinned, plaPreemptible = preemptible,
           plaCPUMemoryTenths = cpuMemory, plaGPUTenths = location\<rparr>)
     [(False, True), (True, True), (False, False), (True, False)]"

definition multiplied :: "int \<Rightarrow> int \<Rightarrow> int option" where
  "multiplied hourly tenths = (if (hourly * tenths) mod 10 \<noteq> 0 then None else Some (hourly * tenths sdiv 10))"

definition placement_rate :: "Placement \<Rightarrow> ComputeRate \<Rightarrow> ComputeRate option" where
  "placement_rate p r =
     (let r = r\<lparr>crClass := plaClass p\<rparr>
      in if crOwner r = OwnerPlatformFleet
         then (case (multiplied (crCPUHour r) (plaCPUMemoryTenths p), multiplied (crMemoryGiBHour r) (plaCPUMemoryTenths p),
                     multiplied (crGPUCardHour r) (plaGPUTenths p)) of
                 (Some c, Some m, Some g) \<Rightarrow> Some (r\<lparr>crCPUHour := c, crMemoryGiBHour := m, crGPUCardHour := g\<rparr>)
               | _ \<Rightarrow> None)
         else Some r)"

fun all_some :: "'a option list \<Rightarrow> 'a list option" where
  "all_some [] = Some []"
| "all_some (x # xs) =
     (case x of None \<Rightarrow> None | Some y \<Rightarrow> (case all_some xs of None \<Rightarrow> None | Some ys \<Rightarrow> Some (y # ys)))"

definition placementRates :: "ComputeRate list \<Rightarrow> (RateClass \<Rightarrow> bool) \<Rightarrow> ComputeRate list option" where
  "placementRates auto_rates keep =
     all_some (concat (map (\<lambda>p. map (placement_rate p) auto_rates) (filter (\<lambda>p. keep (plaClass p)) placements)))"

definition initialGPUs :: "gpuRate list" where
  "initialGPUs =
     [(''T4'', 560880000), (''A10G'', 1201201200), (''L4'', 899398800), (''L40S'', 2138346000),
      (''A100-40'', 1993860000), (''A100-80'', 2925626400), (''H100'', 3372120000), (''H200'', 3918236400)]"

definition septemberGPUs :: "gpuRate list" where
  "septemberGPUs =
     map (\<lambda>(model, fleetHour).
       (model, if model = ''T4'' then 550000000 else if model = ''A10G'' then 1000000000
               else if model = ''L4'' then 750000000 else fleetHour)) initialGPUs"

definition spotGPUs :: "gpuRate list" where
  "spotGPUs =
     [(''T4'', 350000000), (''A10G'', 750000000), (''L4'', 500000000), (''L40S'', 1350000000),
      (''A100-40'', 1500000000), (''A100-80'', 2925626400), (''H100'', 2250000000), (''H200'', 3250000000)]"

definition octoberGPUs :: "gpuRate list" where
  "octoberGPUs =
     [(''T4'', 550000000), (''A10G'', 1000000000), (''L4'', 720000000), (''RTXPro4500'', 950000000),
      (''L40S'', 1800000000), (''RTXPro6000'', 2800000000), (''H100'', 3650000000)]"

definition october30GPUs :: "gpuRate list" where
  "october30GPUs =
     [(''L4'', 780000000), (''L40S'', 1900000000), (''RTXPro6000'', 2970000000), (''A100-40'', 2060000000),
      (''H100'', 3870000000)]"

definition gpuOnly :: "ComputeRate list \<Rightarrow> ComputeRate list" where
  "gpuOnly = filter (\<lambda>r. crGPU r \<noteq> noGPU)"

definition rateHistory :: "rateChange list option" where
  "rateHistory =
     (let fleet = (\<lambda>c m. \<lparr>srOwner = OwnerPlatformFleet, srContainerHour = 0, srCPUHour = c, srMemoryGiB = m\<rparr>);
          initial = computeRates (shapesFrom (fleet 55126800 7560000)) initialGPUs;
          september = shapesFrom (fleet 44000000 7500000);
          change = (\<lambda>v since c p d. \<lparr>rcVersion = v, rcEffectiveAt = since, rcCompute = c, rcPlatform = p, rcDisk = d\<rparr>);
          all = (\<lambda>_. True)
      in case (placementRates initial (\<lambda>c. c \<noteq> ClassAuto),
               placementRates (computeRates september septemberGPUs) all,
               placementRates (computeRates september spotGPUs) all,
               placementRates (computeRates september octoberGPUs) all,
               placementRates (computeRates september october30GPUs) all) of
           (Some r1, Some r2, Some r3, Some r4, Some r5) \<Rightarrow> Some
             [change ''2026-08-18.a'' (utc_date 2026 1 1 0 0 0 0) initial
                (Some \<lparr>prEgressGiB = 0, prVolumeGiBMonth = 50000000\<rparr>) None,
              change ''2026-09-09.a'' (utc_date 2026 9 9 0 0 0 0) r1 None None,
              change ''2026-09-10.a'' (utc_date 2026 9 10 4 9 5 835918000) r2
                (Some \<lparr>prEgressGiB = 130000000, prVolumeGiBMonth = 50000000\<rparr>) None,
              change ''2026-09-10.b'' (utc_date 2026 9 10 4 58 18 736793000) (gpuOnly r3) None None,
              change ''2026-09-23.a'' (utc_date 2026 9 23 0 0 0 0) [] None
                (Some \<lparr>drStoredGiBMonth = 50000000, drAttachedGiBMonth = 200000000\<rparr>),
              change ''2026-10-27.a'' (utc_date 2026 10 27 5 0 0 0) (gpuOnly r4) None None,
              change ''2026-10-30.a'' (utc_date 2026 10 30 10 0 0 0) (gpuOnly r5) None None]
         | _ \<Rightarrow> None)"

subsection \<open>The card in force\<close>

record RateCard =
  cdVersion :: string
  cdEffectiveAt :: time
  cdCompute :: "(rateKey \<times> ComputeRate) list"
  cdClassSince :: "(RateClass \<times> time) list"
  cdPlatform :: PlatformRate
  cdDisk :: "DiskRate option"

definition empty_card :: RateCard where
  "empty_card = \<lparr>cdVersion = [], cdEffectiveAt = 0, cdCompute = [], cdClassSince = [],
     cdPlatform = \<lparr>prEgressGiB = 0, prVolumeGiBMonth = 0\<rparr>, cdDisk = None\<rparr>"

definition publish :: "RateCard \<Rightarrow> rateChange \<Rightarrow> RateCard" where
  "publish crd change =
     \<lparr>cdVersion = rcVersion change, cdEffectiveAt = rcEffectiveAt change,
      cdCompute = foldl (\<lambda>m r. (rate_key r, r) # m) (cdCompute crd) (rcCompute change),
      cdClassSince = foldl (\<lambda>m r. (crClass r, rcEffectiveAt change) # m) (cdClassSince crd) (rcCompute change),
      cdPlatform = (case rcPlatform change of None \<Rightarrow> cdPlatform crd | Some p \<Rightarrow> p),
      cdDisk = (case rcDisk change of None \<Rightarrow> cdDisk crd | Some d \<Rightarrow> Some d)\<rparr>"

fun merge_until :: "time \<Rightarrow> rateChange list \<Rightarrow> RateCard \<Rightarrow> bool \<Rightarrow> RateCard \<times> bool" where
  "merge_until t [] crd found = (crd, found)"
| "merge_until t (change # history) crd found =
     (if rcEffectiveAt change > t then (crd, found)
      else merge_until t history (publish crd change) True)"

definition cardAt :: "rateChange list \<Rightarrow> time \<Rightarrow> rate_error + RateCard" where
  "cardAt history t =
     (let (crd, found) = merge_until t history empty_card False
      in if found then Inr crd else Inl (NoRatesCover t))"

definition changesBetween :: "rateChange list \<Rightarrow> time \<Rightarrow> time \<Rightarrow> time list" where
  "changesBetween history from_t to_t =
     map rcEffectiveAt (filter (\<lambda>c. rcEffectiveAt c > from_t \<and> rcEffectiveAt c < to_t) history)"

definition computeRate :: "RateCard \<Rightarrow> BillingOwner \<Rightarrow> RateClass \<Rightarrow> GPUType \<Rightarrow> rate_error + ComputeRate" where
  "computeRate crd owner cls gpu =
     (case map_of (cdCompute crd) (owner, cls, gpu) of
        None \<Rightarrow> Inl (NoComputeRate cls owner gpu)
      | Some r \<Rightarrow> Inr r)"

text \<open>The class names as the rate card prints them, which order the fleet's rates.\<close>

definition class_name :: "RateClass \<Rightarrow> string" where
  "class_name c =
     (case c of ClassAuto \<Rightarrow> ''auto'' | ClassPinned \<Rightarrow> ''pinned'' | ClassNonPreemptible \<Rightarrow> ''non_preemptible''
              | ClassPinnedNonPreemptible \<Rightarrow> ''pinned_non_preemptible'')"

text \<open>The entries of a map: for each key the first one in the list.\<close>

definition map_entries :: "('k \<times> 'v) list \<Rightarrow> ('k \<times> 'v) list" where
  "map_entries m = foldr (\<lambda>e out. e # filter (\<lambda>e'. fst e' \<noteq> fst e) out) m []"

definition FleetComputeRates :: "rateChange list \<Rightarrow> time \<Rightarrow> rate_error + ComputeRate list" where
  "FleetComputeRates history t =
     (case cardAt history t of
        Inl e \<Rightarrow> Inl e
      | Inr crd \<Rightarrow> Inr (sort_key (\<lambda>r. (class_name (crClass r), crGPU r))
          (filter (\<lambda>r. crOwner r = OwnerPlatformFleet) (map snd (map_entries (cdCompute crd))))))"

subsection \<open>Facts\<close>

lemma merge_until_takeWhile:
  "merge_until t history crd found =
     (foldl publish crd (takeWhile (\<lambda>c. rcEffectiveAt c \<le> t) history),
      found \<or> takeWhile (\<lambda>c. rcEffectiveAt c \<le> t) history \<noteq> [])"
  by (induction history arbitrary: crd found) auto

text \<open>The publications in force at an instant.\<close>

definition in_force :: "rateChange list \<Rightarrow> time \<Rightarrow> rateChange list" where
  "in_force history t = takeWhile (\<lambda>c. rcEffectiveAt c \<le> t) history"

lemma cardAt_in_force:
  "cardAt history t =
     (if in_force history t = [] then Inl (NoRatesCover t)
      else Inr (foldl publish empty_card (in_force history t)))"
  by (simp add: cardAt_def in_force_def merge_until_takeWhile)

lemma map_of_foldl_key:
  "map_of (foldl (\<lambda>m r. (f r, g r) # m) m rs) k =
     (case List.find (\<lambda>r. f r = k) (rev rs) of None \<Rightarrow> map_of m k | Some r \<Rightarrow> Some (g r))"
proof (induction rs arbitrary: m rule: rev_induct)
  case Nil
  then show ?case by simp
next
  case (snoc r rs)
  then show ?case by simp
qed

text \<open>
  The specification of a rate: that of the last publication in force that lists its key, and
  within it the last one listed.
\<close>

fun latest_rate :: "rateChange list \<Rightarrow> rateKey \<Rightarrow> ComputeRate option" where
  "latest_rate [] k = None"
| "latest_rate (c # cs) k =
     (case latest_rate cs k of
        Some r \<Rightarrow> Some r
      | None \<Rightarrow> List.find (\<lambda>r. rate_key r = k) (rev (rcCompute c)))"

lemma foldl_publish_rates:
  "map_of (cdCompute (foldl publish crd cs)) k =
     (case latest_rate cs k of None \<Rightarrow> map_of (cdCompute crd) k | Some r \<Rightarrow> Some r)"
proof (induction cs arbitrary: crd)
  case Nil
  then show ?case by simp
next
  case (Cons c cs)
  then show ?case
    by (simp add: publish_def map_of_foldl_key split: option.splits)
qed

lemma latest_rate_append: "latest_rate (cs @ ds) k = (case latest_rate ds k of Some r \<Rightarrow> Some r | None \<Rightarrow> latest_rate cs k)"
  by (induction cs) (auto split: option.splits)

lemma in_force_mono:
  assumes "t \<le> t'"
  shows "\<exists>more. in_force history t' = in_force history t @ more"
  using assms unfolding in_force_def by (induction history) auto

lemma computeRate_latest:
  assumes "in_force history t \<noteq> []"
  shows "\<exists>crd. cardAt history t = Inr crd
           \<and> (\<forall>owner cls gpu. computeRate crd owner cls gpu =
                (case latest_rate (in_force history t) (owner, cls, gpu) of
                   None \<Rightarrow> Inl (NoComputeRate cls owner gpu) | Some r \<Rightarrow> Inr r))"
  using assms
  by (simp add: cardAt_in_force computeRate_def foldl_publish_rates empty_card_def split: option.splits)

text \<open>Once priced, a key stays priced.\<close>

lemma latest_rate_stays:
  assumes "t \<le> t'" and "latest_rate (in_force history t) k \<noteq> None"
  shows "latest_rate (in_force history t') k \<noteq> None"
  using in_force_mono [OF assms(1), of history] assms(2) by (auto simp: latest_rate_append split: option.splits)

definition published :: "rateChange list" where
  "published = (case rateHistory of None \<Rightarrow> [] | Some h \<Rightarrow> h)"

definition all_priced :: "time \<Rightarrow> GPUType list \<Rightarrow> bool" where
  "all_priced t gpus \<longleftrightarrow>
     list_all (\<lambda>owner. list_all (\<lambda>cls. list_all (\<lambda>gpu.
         latest_rate (in_force published t) (owner, cls, gpu) \<noteq> None) gpus)
       [ClassAuto, ClassPinned, ClassNonPreemptible, ClassPinnedNonPreemptible]) billingOwners"

lemma all_priced_later: "all_priced t gpus \<Longrightarrow> t \<le> t' \<Longrightarrow> all_priced t' gpus"
  unfolding all_priced_def list_all_iff by (meson latest_rate_stays)

lemma all_priced_owner: "all_priced t gpus \<Longrightarrow> gpu \<in> set gpus \<Longrightarrow> latest_rate (in_force published t) (owner, cls, gpu) \<noteq> None"
  unfolding all_priced_def list_all_iff billingOwners_def by (cases owner; cases cls) auto

lemma published_enabled: "all_priced (utc_date 2026 9 9 0 0 0 0) (noGPU # enabledGPUs)"
  by code_simp

lemma published_models: "all_priced (utc_date 2026 10 27 5 0 0 0) (noGPU # gpuModels_priced)"
  by code_simp

lemma published_history: "rateHistory = Some published"
proof -
  have "rateHistory \<noteq> None" by code_simp
  then obtain h where h: "rateHistory = Some h" by blast
  show ?thesis unfolding published_def h option.case ..
qed

lemma published_in_order: "sorted_wrt (<) (map rcEffectiveAt published)"
  by code_simp

lemma managementFee_div:
  assumes "0 \<le> f"
  shows "managementFee f = (f * 8 div 100) div 3600 * 3600"
  using assms by (simp add: managementFee_def managementFeePercent_def sdiv_div div_int_pos_iff)

subsection \<open>Properties\<close>

text \<open>
  The reviewed price history is publishable. Building it multiplies every fleet rate to a
  whole number of nanodollars, so it never panics; its publications are in strictly increasing
  order of their instants, which reading it up to an instant relies on; and from 2026-09-09 on
  every owner, rate class and enabled GPU model has a rate, from 2026-10-27 on every priced model.
\<close>

theorem rate_history_published:
  "\<exists>history. rateHistory = Some history \<and> sorted_wrt (<) (map rcEffectiveAt history)
     \<and> (\<forall>t owner cls gpu. utc_date 2026 9 9 0 0 0 0 \<le> t \<and> gpu \<in> insert noGPU (set enabledGPUs)
           \<or> utc_date 2026 10 27 5 0 0 0 \<le> t \<and> gpu \<in> set gpuModels_priced
         \<longrightarrow> (\<exists>crd r. cardAt history t = Inr crd \<and> computeRate crd owner cls gpu = Inr r))"
proof (intro exI [of _ published] conjI allI impI)
  show "rateHistory = Some published" by (rule published_history)
  show "sorted_wrt (<) (map rcEffectiveAt published)" by (rule published_in_order)
next
  fix t owner cls gpu
  assume "utc_date 2026 9 9 0 0 0 0 \<le> t \<and> gpu \<in> insert noGPU (set enabledGPUs)
           \<or> utc_date 2026 10 27 5 0 0 0 \<le> t \<and> gpu \<in> set gpuModels_priced"
  then have priced: "latest_rate (in_force published t) (owner, cls, gpu) \<noteq> None"
  proof
    assume "utc_date 2026 9 9 0 0 0 0 \<le> t \<and> gpu \<in> insert noGPU (set enabledGPUs)"
    then have "all_priced t (noGPU # enabledGPUs)" and "gpu \<in> set (noGPU # enabledGPUs)"
      using all_priced_later [OF published_enabled] by auto
    then show ?thesis by (rule all_priced_owner)
  next
    assume "utc_date 2026 10 27 5 0 0 0 \<le> t \<and> gpu \<in> set gpuModels_priced"
    then have "all_priced t (noGPU # gpuModels_priced)" and "gpu \<in> set (noGPU # gpuModels_priced)"
      using all_priced_later [OF published_models] by auto
    then show ?thesis by (rule all_priced_owner)
  qed
  then have "in_force published t \<noteq> []" by auto
  from computeRate_latest [OF this] priced
  show "\<exists>crd r. cardAt published t = Inr crd \<and> computeRate crd owner cls gpu = Inr r"
    by (auto split: option.splits)
qed

theorem rate_history_published_witness:
  "\<exists>history crd r. rateHistory = Some history \<and> cardAt history (utc_date 2027 1 1 0 0 0 0) = Inr crd
     \<and> computeRate crd OwnerPlatformFleet ClassPinned ''L4'' = Inr r"
proof -
  have "utc_date 2026 9 9 0 0 0 0 \<le> utc_date 2027 1 1 0 0 0 0" and "''L4'' \<in> insert noGPU (set enabledGPUs)"
    by code_simp+
  with rate_history_published show ?thesis by blast
qed

text \<open>
  The card at an instant reads every rate from the last publication in force that lists it:
  later publications override earlier ones key by key, and a key none lists has no rate.
\<close>

theorem cardAt_latest_publication:
  assumes "sorted (map rcEffectiveAt history)" and "cardAt history t = Inr crd"
  shows "computeRate crd owner cls gpu =
     (case latest_rate (filter (\<lambda>c. rcEffectiveAt c \<le> t) history) (owner, cls, gpu) of
        None \<Rightarrow> Inl (NoComputeRate cls owner gpu) | Some r \<Rightarrow> Inr r)"
proof -
  have "in_force history t = filter (\<lambda>c. rcEffectiveAt c \<le> t) history"
    using assms(1) unfolding in_force_def by (induction history) (fastforce simp: filter_empty_conv eq_commute [of "[]"])+
  moreover have "in_force history t \<noteq> []"
    using assms(2) by (auto simp: cardAt_in_force split: if_splits)
  ultimately show ?thesis
    using computeRate_latest [of history t] assms(2) by auto
qed

definition demo_rate :: "int \<Rightarrow> ComputeRate" where
  "demo_rate n = \<lparr>crOwner = OwnerPlatformFleet, crClass = ClassAuto, crGPU = [], crContainerHour = 0, crCPUHour = n,
     crMemoryGiBHour = 0, crGPUCardHour = 0\<rparr>"

definition demo_history :: "rateChange list" where
  "demo_history = map (\<lambda>n. \<lparr>rcVersion = [], rcEffectiveAt = n, rcCompute = [demo_rate n], rcPlatform = None, rcDisk = None\<rparr>) [1, 5, 9]"

theorem cardAt_latest_publication_witness:
  "\<exists>crd. cardAt demo_history 7 = Inr crd \<and> computeRate crd OwnerPlatformFleet ClassAuto [] = Inr (demo_rate 5)"
proof -
  obtain crd where c: "cardAt demo_history 7 = Inr crd"
    by (auto simp: cardAt_in_force in_force_def demo_history_def)
  have "sorted (map rcEffectiveAt demo_history)" by (simp add: demo_history_def)
  from cardAt_latest_publication [OF this c, of OwnerPlatformFleet ClassAuto "[]"] c show ?thesis
    by (simp add: demo_history_def demo_rate_def rate_key_def)
qed

text \<open>
  C28: an interval without a publication strictly inside it prices under one card: at every
  instant of it the card is the one at its start. So splitting an interval at \<open>changesBetween\<close>
  leaves parts that each price under a single card.
\<close>

theorem one_card_between_changes:
  assumes "changesBetween history a b = []" and "a \<le> t" and "t < b"
  shows "cardAt history t = Inr crd \<longleftrightarrow> cardAt history a = Inr crd"
proof -
  have "rcEffectiveAt c \<le> t \<longleftrightarrow> rcEffectiveAt c \<le> a" if "c \<in> set history" for c
  proof -
    have "\<not> (rcEffectiveAt c > a \<and> rcEffectiveAt c < b)"
      using assms(1) that by (auto simp: changesBetween_def filter_empty_conv)
    with assms(2,3) show ?thesis by linarith
  qed
  then have "in_force history t = in_force history a"
    unfolding in_force_def by (auto intro!: takeWhile_cong)
  then show ?thesis by (simp add: cardAt_in_force)
qed

theorem one_card_between_changes_witness:
  "\<exists>crd. cardAt demo_history 6 = Inr crd \<and> cardAt demo_history 8 = Inr crd"
proof -
  have n: "changesBetween demo_history 6 9 = []"
    by (simp add: changesBetween_def demo_history_def)
  obtain crd where c: "cardAt demo_history 6 = Inr crd"
    by (auto simp: cardAt_in_force in_force_def demo_history_def)
  moreover have "cardAt demo_history 8 = Inr crd"
    using one_card_between_changes [OF n, of 8 crd] c by simp
  ultimately show ?thesis by blast
qed

text \<open>
  The management fee is a whole number of nanodollars per second and at most its percentage
  of the fleet's rate, less than one nanodollar per second (and a hundredth of one per hour) below it.
\<close>

theorem managementFee_bounds:
  assumes "0 \<le> f"
  shows "3600 dvd managementFee f \<and> managementFee f * 100 \<le> f * managementFeePercent
     \<and> f * managementFeePercent < managementFee f * 100 + 360000 \<and> 0 \<le> managementFee f"
proof -
  define q where "q = f * 8 div 100"
  have m: "managementFee f = q div 3600 * 3600"
    using managementFee_div [OF assms] by (simp add: q_def)
  have "q * 100 = f * 8 - f * 8 mod 100" and "0 \<le> f * 8 mod 100" and "f * 8 mod 100 < 100"
    by (simp_all add: q_def minus_mod_eq_div_mult)
  moreover have "0 \<le> q" using assms by (simp add: q_def)
  moreover have "q div 3600 * 3600 = q - q mod 3600" and "0 \<le> q mod 3600" and "q mod 3600 < 3600"
    by (simp_all add: minus_mod_eq_div_mult)
  moreover have "0 \<le> q div 3600 * 3600" using \<open>0 \<le> q\<close> by simp
  ultimately show ?thesis
    unfolding m managementFeePercent_def by (intro conjI dvd_triv_right) linarith+
qed

theorem managementFee_bounds_witness:
  "managementFee 44000000 = 3517200 \<and> 3517200 * 100 \<le> 44000000 * managementFeePercent"
proof -
  have "managementFee 44000000 = 3517200"
    by (simp add: managementFee_div)
  with managementFee_bounds [of 44000000] show ?thesis by simp
qed

end
