(* ===== verification/Offers.thy ===== *)
theory Offers
  imports FleetHosts Rates
begin

text \<open>
  \<open>internal/compute/fleet_offers.go\<close>: the ways to buy a host and their order. Maps are
  functions into \<open>option\<close> (\<open>Networks\<close>, whose keys are walked in sorted order, is an association
  list), and the zero value an absent key reads as is written out. \<open>Network\<close> and \<open>Subnet\<close> keep
  the fields the ranking reads.
\<close>

record OfferCooldown =
  ocRegion :: string
  ocZoneID :: string
  ocInstanceType :: string
  ocMarket :: Market
  ocUntil :: time
  ocQuota :: bool

record VCPUQuota =
  vqKey :: QuotaKey
  vqVCPUs :: int

abbreviation QK :: "string \<Rightarrow> QuotaClass option \<Rightarrow> Market \<Rightarrow> QuotaKey" where
  "QK r c m \<equiv> \<lparr>qkRegion = r, qkClass = c, qkMarket = m\<rparr>"

text \<open>The vCPUs each quota's hosts count against it: every host but stopped reserves.\<close>

definition QuotaUse :: "FleetHost list \<Rightarrow> CatalogType list \<Rightarrow> QuotaKey \<Rightarrow> int" where
  "QuotaUse hosts catalog =
     foldl (\<lambda>used h.
       if resumable h then used
       else (case index_func (\<lambda>t. ctName t = fhInstanceType h) catalog of
               None \<Rightarrow> used
             | Some i \<Rightarrow>
                 let k = QK (fhRegion h) (QuotaClassOf (fhInstanceType h)) (fhMarket h)
                 in used(k := used k + CatalogType_VCPUs (catalog ! i))))
     (\<lambda>_. 0) hosts"

definition quotaRoom :: "VCPUQuota list \<Rightarrow> (QuotaKey \<Rightarrow> int) \<Rightarrow> QuotaKey \<Rightarrow> int option" where
  "quotaRoom quotas used =
     foldl (\<lambda>rm q. rm(vqKey q := Some (vqVCPUs q - used (vqKey q)))) (\<lambda>_. None) quotas"

record Subnet =
  snZone :: string
  snZoneID :: string

record Network =
  nwSubnets :: "Subnet list"

record SpotQuote =
  sqRegion :: string
  sqZoneID :: string
  sqInstanceType :: string
  sqHourlyMicros :: int
  sqObservedAt :: time
  sqPlacementScore :: int

record OfferInputs =
  oiNow :: time
  oiCatalog :: "CatalogType list"
  oiNetworks :: "(string \<times> Network) list"
  oiSpot :: "SpotQuote list"
  oiCooldowns :: "OfferCooldown list"
  oiRates :: "ComputeRate list"
  oiReportedMemory :: "string \<Rightarrow> int"
  oiZoneHosts :: "string \<Rightarrow> int"
  oiZoneTypes :: "string \<Rightarrow> (string \<Rightarrow> string list) option"
  oiQuotas :: "VCPUQuota list"
  oiQuotaUsed :: "QuotaKey \<Rightarrow> int"
  oiOwnerPays :: bool
  oiWaiveMargin :: bool
  oiStorageRegion :: string
  oiReadBytes :: "ReserveMarket \<Rightarrow> int option"

definition marketRead :: "OfferInputs \<Rightarrow> ReserveMarket \<Rightarrow> VolumeRead option" where
  "marketRead inp m =
     (case oiReadBytes inp m of
        None \<Rightarrow> None
      | Some b \<Rightarrow> Some \<lparr>vrRegion = oiStorageRegion inp, vrBytes = b\<rparr>)"

record FleetOffer =
  foType :: CatalogType
  foRegion :: string
  foZone :: string
  foZoneID :: string
  foMarket :: Market
  foUsable :: FleetCapacity
  foHibernate :: bool
  foHourlyMicros :: int
  foStoppedMicros :: int
  foTransferMicros :: int
  foReadMicros :: int
  foPlacementPenalty :: int
  foQuota :: QuotaKey

definition placementPenaltyPercent :: int where "placementPenaltyPercent = 4"
definition placementFloor :: int where "placementFloor = 1"

definition market_name :: "Market \<Rightarrow> string" where
  "market_name m = (case m of MarketNone \<Rightarrow> [] | MarketSpot \<Rightarrow> ''spot'' | MarketOnDemand \<Rightarrow> ''on_demand'')"

definition offer_key :: "FleetOffer \<Rightarrow> string" where
  "offer_key o' = foRegion o' @ ''/'' @ foZoneID o' @ ''/'' @ ctName (foType o') @ ''/'' @ market_name (foMarket o')"

definition ranked :: "FleetOffer \<Rightarrow> int \<Rightarrow> int" where
  "ranked o' micros = micros * (100 + foPlacementPenalty o') sdiv 100"

definition running :: "FleetOffer \<Rightarrow> int" where
  "running o' = foHourlyMicros o' + foTransferMicros o' + foReadMicros o'"

definition servingCost :: "Policy \<Rightarrow> FleetOffer \<Rightarrow> int" where
  "servingCost p o' = ranked o' (running o' * (pCostHorizon p sdiv second))"

definition reserveCost :: "Policy \<Rightarrow> FleetOffer \<Rightarrow> int" where
  "reserveCost p o' =
     ranked o' ((foStoppedMicros o' + foReadMicros o') * (pCostHorizon p sdiv second)
                + foHourlyMicros o' * (pProvision p sdiv second))"

datatype purchaseRejection = rejectUnpricedCapacity | rejectInsufficientMargin

type_synonym rateIndex = "RateClass \<Rightarrow> GPUType \<Rightarrow> ComputeRate option"

definition indexRates :: "ComputeRate list \<Rightarrow> rateIndex" where
  "indexRates rates = foldl (\<lambda>idx r. idx(crClass r := (idx (crClass r))(crGPU r := Some r))) (\<lambda>_ _. None) rates"

definition hourRevenue :: "ComputeRate \<Rightarrow> FleetCapacity \<Rightarrow> int" where
  "hourRevenue rate capacity =
     fcCPUMillis capacity * crCPUHour rate sdiv 1000
     + fcMemoryBytes capacity sdiv gib * crMemoryGiBHour rate
     + (fcMemoryBytes capacity smod gib) * crMemoryGiBHour rate sdiv gib
     + fcGPUs capacity * crGPUCardHour rate"

definition marginRejection :: "Policy \<Rightarrow> rateIndex \<Rightarrow> FleetOffer \<Rightarrow> Requirement \<Rightarrow> purchaseRejection option" where
  "marginRejection p rates o' need =
     (let cls = RateClassFor (rRegion need \<noteq> [] \<or> rZone need \<noteq> []) (rPreemptible need \<or> foMarket o' = MarketSpot)
      in case rates cls (ctGPU (foType o')) of
           None \<Rightarrow> Some rejectUnpricedCapacity
         | Some rate \<Rightarrow>
             if fcCPUMillis (foUsable o') \<le> 0 \<or> fcMemoryBytes (foUsable o') \<le> 0 then Some rejectUnpricedCapacity
             else let revenue = hourRevenue rate (foUsable o')
                  in if revenue \<le> 0 then Some rejectUnpricedCapacity
                     else if foHourlyMicros o' > revenue * (100 - pMarginPercent p) sdiv 100000
                     then Some rejectInsufficientMargin
                     else None)"

definition cooled :: "OfferCooldown list \<Rightarrow> time \<Rightarrow> string \<Rightarrow> string \<Rightarrow> string \<Rightarrow> Market \<Rightarrow> bool" where
  "cooled cooldowns now region zoneID instanceType market \<longleftrightarrow>
     list_ex (\<lambda>c.
       if ocRegion c \<noteq> region \<or> (ocZoneID c \<noteq> [] \<and> ocZoneID c \<noteq> zoneID) \<or> ocMarket c \<noteq> market \<or> \<not> ocUntil c > now
       then False
       else ocInstanceType c = instanceType
            \<or> (ocQuota c \<and> QuotaClassOf (ocInstanceType c) \<noteq> None
               \<and> QuotaClassOf (ocInstanceType c) = QuotaClassOf instanceType)) cooldowns"

type_synonym spotPool = "string \<times> string \<times> string"

definition freshSpot :: "Policy \<Rightarrow> SpotQuote list \<Rightarrow> time \<Rightarrow> spotPool \<Rightarrow> SpotQuote option" where
  "freshSpot p quotes now =
     foldl (\<lambda>fresh q.
       if now - sqObservedAt q > pSpotPriceAge p then fresh
       else let pool = (sqRegion q, sqZoneID q, sqInstanceType q)
            in (case fresh pool of
                  None \<Rightarrow> fresh(pool := Some q)
                | Some best \<Rightarrow> if sqObservedAt q > sqObservedAt best then fresh(pool := Some q) else fresh))
     (\<lambda>_. None) quotes"

record scoreRange =
  scBest :: int
  scWorst :: int

text \<open>A type's shape: the last catalog entry of its name, as the map's writes leave it.\<close>

definition catalog_shapes :: "CatalogType list \<Rightarrow> string \<Rightarrow> placement_shape option" where
  "catalog_shapes catalog = foldl (\<lambda>m t. m(ctName t := Some (placementShape t))) (\<lambda>_. None) catalog"

definition placementRanges :: "Policy \<Rightarrow> OfferInputs \<Rightarrow> placement_shape \<Rightarrow> scoreRange option" where
  "placementRanges p inp =
     (let shapes = catalog_shapes (oiCatalog inp)
      in foldl (\<lambda>ranges q.
           case shapes (sqInstanceType q) of
             None \<Rightarrow> ranges
           | Some shape \<Rightarrow>
               if sqPlacementScore q = 0 \<or> oiNow inp - sqObservedAt q > pSpotPriceAge p then ranges
               else let r = (case ranges shape of
                               None \<Rightarrow> \<lparr>scBest = sqPlacementScore q, scWorst = sqPlacementScore q\<rparr>
                             | Some r \<Rightarrow> r)
                    in ranges(shape := Some \<lparr>scBest = max (scBest r) (sqPlacementScore q),
                                             scWorst = min (scWorst r) (sqPlacementScore q)\<rparr>))
         (\<lambda>_. None) (oiSpot inp))"

definition placementPenalty :: "(placement_shape \<Rightarrow> scoreRange option) \<Rightarrow> placement_shape \<Rightarrow> int \<Rightarrow> int" where
  "placementPenalty ranges shape score =
     (case ranges shape of
        None \<Rightarrow> 0
      | Some r \<Rightarrow> placementPenaltyPercent * (scBest r - (if score = 0 then scWorst r else score)))"

text \<open>
  The body of \<open>RankOffers\<close>'s inner loops: whether a type in a region and zone can host the need
  at all, and the offer of that type in one market, if the loop does not skip it.
\<close>

definition type_offered :: "Policy \<Rightarrow> Requirement \<Rightarrow> bool \<Rightarrow> OfferInputs \<Rightarrow> string \<Rightarrow> Subnet \<Rightarrow> CatalogType \<Rightarrow> bool" where
  "type_offered p need reserve inp region subnet t \<longleftrightarrow>
     (let gpus = GPUsNeeded need; usable = Usable t (oiReportedMemory inp (ctName t))
      in \<not> (case oiZoneTypes inp region of None \<Rightarrow> False | Some zones \<Rightarrow> ctName t \<notin> set (zones (snZoneID subnet)))
         \<and> \<not> (OnDemandMicros t region = None \<or> (gpus > 0) \<noteq> (ctGPUCount t > 0) \<or> ctGPUCount t < gpus
              \<or> (gpus > 0 \<and> \<not> GPUAccepted (rGPUs need) (ctGPU t))
              \<or> (ctGPU t \<noteq> [] \<and> \<not> oiOwnerPays inp \<and> \<not> GPUEnabled (ctGPU t)))
         \<and> \<not> (\<not> Covers usable (FC (rCPUMillis need) (rMemoryBytes need) gpus) \<or> DiskSlots t < rDisks need
              \<or> reserve \<and> \<not> Covers (lsCap (pLargestShape p)) usable))"

definition spot_price :: "Policy \<Rightarrow> OfferInputs \<Rightarrow> string \<Rightarrow> Subnet \<Rightarrow> CatalogType \<Rightarrow> (int \<times> int) option" where
  "spot_price p inp region subnet t =
     (case freshSpot p (oiSpot inp) (oiNow inp) (region, snZoneID subnet, ctName t) of
        None \<Rightarrow> None
      | Some q \<Rightarrow>
          if sqPlacementScore q \<noteq> 0 \<and> sqPlacementScore q \<le> placementFloor then None
          else Some (sqHourlyMicros q, placementPenalty (placementRanges p inp) (placementShape t) (sqPlacementScore q)))"

definition offer_of :: "Policy \<Rightarrow> Requirement \<Rightarrow> bool \<Rightarrow> OfferInputs \<Rightarrow> string \<Rightarrow> Subnet \<Rightarrow> CatalogType \<Rightarrow> Market
    \<Rightarrow> int \<Rightarrow> int \<Rightarrow> FleetOffer" where
  "offer_of p need reserve inp region subnet t market price penalty =
     (let hibernate = reserve \<and> hibernates t; disk = volumesMicros t region hibernate reserve
      in \<lparr>foType = t, foRegion = region, foZone = snZone subnet, foZoneID = snZoneID subnet, foMarket = market,
          foUsable = Usable t (oiReportedMemory inp (ctName t)), foHibernate = hibernate,
          foHourlyMicros = price + disk + rrIpv4Hour (ratesIn region), foStoppedMicros = disk,
          foTransferMicros = transferMicros (oiStorageRegion inp) region t, foReadMicros = readMicros p (rRead need) region,
          foPlacementPenalty = penalty, foQuota = QK region (QuotaClassOf (ctName t)) market\<rparr>)"

definition market_offer :: "Policy \<Rightarrow> Requirement \<Rightarrow> bool \<Rightarrow> OfferInputs \<Rightarrow> string \<Rightarrow> Subnet \<Rightarrow> CatalogType \<Rightarrow> Market
    \<Rightarrow> FleetOffer option" where
  "market_offer p need reserve inp region subnet t market =
     (case (if market = MarketSpot then spot_price p inp region subnet t
            else map_option (\<lambda>m. (m, 0)) (OnDemandMicros t region)) of
        None \<Rightarrow> None
      | Some (price, penalty) \<Rightarrow>
          let o' = offer_of p need reserve inp region subnet t market price penalty
          in if cooled (oiCooldowns inp) (oiNow inp) region (snZoneID subnet) (ctName t) market
                \<or> (case quotaRoom (oiQuotas inp) (oiQuotaUsed inp) (foQuota o') of
                     None \<Rightarrow> False | Some left \<Rightarrow> left < CatalogType_VCPUs t)
             then None
             else (case marginRejection p (indexRates (oiRates inp)) o' need of
                     None \<Rightarrow> Some o'
                   | Some why \<Rightarrow>
                       if \<not> oiOwnerPays inp \<and> (\<not> oiWaiveMargin inp \<or> why \<noteq> rejectInsufficientMargin) then None
                       else Some o'))"

definition need_markets :: "Requirement \<Rightarrow> Market list" where
  "need_markets need = (if rPreemptible need then [MarketSpot, MarketOnDemand] else [MarketOnDemand])"

definition zone_offers :: "Policy \<Rightarrow> Requirement \<Rightarrow> bool \<Rightarrow> OfferInputs \<Rightarrow> string \<Rightarrow> Subnet \<Rightarrow> FleetOffer list" where
  "zone_offers p need reserve inp region subnet =
     concat (map (\<lambda>t. List.map_filter (market_offer p need reserve inp region subnet t) (need_markets need))
       (filter (type_offered p need reserve inp region subnet) (oiCatalog inp)))"

definition listed_offers :: "Policy \<Rightarrow> Requirement \<Rightarrow> bool \<Rightarrow> OfferInputs \<Rightarrow> FleetOffer list" where
  "listed_offers p need reserve inp =
     concat (map (\<lambda>(region, network).
       if rRegion need \<noteq> [] \<and> ProductRegion region \<noteq> rRegion need then []
       else concat (map (zone_offers p need reserve inp region)
              (filter (\<lambda>subnet. \<not> (rZone need \<noteq> [] \<and> snZone subnet \<noteq> rZone need \<and> snZoneID subnet \<noteq> rZone need))
                 (nwSubnets network))))
     (sort_key fst (oiNetworks inp)))"

definition offer_rank :: "Policy \<Rightarrow> Requirement \<Rightarrow> bool \<Rightarrow> OfferInputs \<Rightarrow> FleetOffer \<Rightarrow> int \<times> int \<times> int \<times> int \<times> string" where
  "offer_rank p need reserve inp o' =
     (GPURank (rGPUs need) (ctGPU (foType o')), if reserve then reserveCost p o' else 0, ranked o' (running o'),
      oiZoneHosts inp (foZoneID o'), offer_key o')"

definition RankOffers :: "Policy \<Rightarrow> Requirement \<Rightarrow> bool \<Rightarrow> OfferInputs \<Rightarrow> FleetOffer list" where
  "RankOffers p need reserve inp = sort_key (offer_rank p need reserve inp) (listed_offers p need reserve inp)"

definition sizeRefs :: "Policy \<Rightarrow> Requirement \<Rightarrow> bool \<Rightarrow> OfferInputs \<Rightarrow> FleetOffer list" where
  "sizeRefs p need reserve inp =
     (if rGPUs need = [] then []
      else foldl (\<lambda>refs o'.
             if list_ex (\<lambda>r. ctName (foType r) = ctName (foType o') \<and> foMarket r = foMarket o') refs then refs else refs @ [o'])
           [] (RankOffers p need reserve (inp\<lparr>oiCooldowns := [], oiQuotas := []\<rparr>)))"

definition availableSoon :: "Policy \<Rightarrow> OfferInputs \<Rightarrow> OfferInputs" where
  "availableSoon p inp = inp\<lparr>oiNow := oiNow inp + bwMax (pBatch p)\<rparr>"

definition outsized_by :: "Policy \<Rightarrow> FleetOffer \<Rightarrow> FleetCapacity \<Rightarrow> int \<Rightarrow> FleetOffer list \<Rightarrow> FleetOffer \<Rightarrow> bool" where
  "outsized_by p o' holds disks available r \<longleftrightarrow>
     (let limit = Upper (lsCap (pLargestShape p)) holds
      in if ctName (foType r) = ctName (foType o') \<or> foMarket r \<noteq> foMarket o' \<or> ctGPU (foType r) \<noteq> ctGPU (foType o')
            \<or> \<not> Covers (foUsable r) holds \<or> DiskSlots (foType r) < disks
         then False
         else ctGPUCount (foType r) < ctGPUCount (foType o')
              \<or> Covers limit (foUsable r) \<and> \<not> Covers limit (foUsable o')
              \<or> Covers (foUsable o') (foUsable r)
                \<and> list_ex (\<lambda>a. ctName (foType a) = ctName (foType r) \<and> foMarket a = foMarket r) available)"

definition sized :: "Policy \<Rightarrow> FleetOffer \<Rightarrow> FleetCapacity \<Rightarrow> int \<Rightarrow> FleetOffer list \<Rightarrow> FleetOffer list \<Rightarrow> bool" where
  "sized p o' holds disks refs available \<longleftrightarrow>
     ctGPU (foType o') = [] \<or> \<not> list_ex (outsized_by p o' holds disks available) refs"

subsection \<open>Facts\<close>

lemma market_offer_Some:
  assumes "market_offer p need reserve inp region subnet t market = Some o'"
  shows "\<exists>price penalty. o' = offer_of p need reserve inp region subnet t market price penalty
      \<and> (market \<noteq> MarketSpot \<longrightarrow> OnDemandMicros t region = Some price \<and> penalty = 0)
      \<and> (market = MarketSpot \<longrightarrow> spot_price p inp region subnet t = Some (price, penalty))"
    and "\<not> cooled (oiCooldowns inp) (oiNow inp) region (snZoneID subnet) (ctName t) market"
    and "\<And>left. quotaRoom (oiQuotas inp) (oiQuotaUsed inp) (foQuota o') = Some left \<Longrightarrow> CatalogType_VCPUs t \<le> left"
    and "\<not> oiOwnerPays inp \<Longrightarrow> marginRejection p (indexRates (oiRates inp)) o' need \<noteq> Some rejectUnpricedCapacity"
    and "\<not> oiOwnerPays inp \<Longrightarrow> \<not> oiWaiveMargin inp \<Longrightarrow> marginRejection p (indexRates (oiRates inp)) o' need = None"
proof -
  let ?o = "offer_of p need reserve inp region subnet t market"
  let ?price = "if market = MarketSpot then spot_price p inp region subnet t
                else map_option (\<lambda>m. (m, 0)) (OnDemandMicros t region)"
  obtain price penalty where pp: "?price = Some (price, penalty)"
    using assms unfolding market_offer_def by (cases "?price") auto
  have m: "(if cooled (oiCooldowns inp) (oiNow inp) region (snZoneID subnet) (ctName t) market
                \<or> (case quotaRoom (oiQuotas inp) (oiQuotaUsed inp) (foQuota (?o price penalty)) of
                     None \<Rightarrow> False | Some left \<Rightarrow> left < CatalogType_VCPUs t)
             then None
             else (case marginRejection p (indexRates (oiRates inp)) (?o price penalty) need of
                     None \<Rightarrow> Some (?o price penalty)
                   | Some why \<Rightarrow>
                       if \<not> oiOwnerPays inp \<and> (\<not> oiWaiveMargin inp \<or> why \<noteq> rejectInsufficientMargin) then None
                       else Some (?o price penalty))) = Some o'"
    using assms unfolding market_offer_def pp Let_def by simp
  then have o: "o' = ?o price penalty"
    by (simp split: if_splits option.splits)
  with pp show "\<exists>price penalty. o' = ?o price penalty
      \<and> (market \<noteq> MarketSpot \<longrightarrow> OnDemandMicros t region = Some price \<and> penalty = 0)
      \<and> (market = MarketSpot \<longrightarrow> spot_price p inp region subnet t = Some (price, penalty))"
    by (intro exI [of _ price] exI [of _ penalty]) (auto split: if_splits)
  show "\<not> cooled (oiCooldowns inp) (oiNow inp) region (snZoneID subnet) (ctName t) market"
    using m by (simp split: if_splits)
  show "CatalogType_VCPUs t \<le> left" if "quotaRoom (oiQuotas inp) (oiQuotaUsed inp) (foQuota o') = Some left" for left
    using m that unfolding o [symmetric] by (simp split: if_splits)
  show "marginRejection p (indexRates (oiRates inp)) o' need \<noteq> Some rejectUnpricedCapacity" if "\<not> oiOwnerPays inp"
    using m that unfolding o [symmetric] by (auto split: if_splits)
  show "marginRejection p (indexRates (oiRates inp)) o' need = None" if "\<not> oiOwnerPays inp" "\<not> oiWaiveMargin inp"
    using m that unfolding o [symmetric] by (auto split: if_splits option.splits)
qed

lemma offer_of_fields [simp]:
  "foType (offer_of p need reserve inp region subnet t market price penalty) = t"
  "foRegion (offer_of p need reserve inp region subnet t market price penalty) = region"
  "foZone (offer_of p need reserve inp region subnet t market price penalty) = snZone subnet"
  "foZoneID (offer_of p need reserve inp region subnet t market price penalty) = snZoneID subnet"
  "foMarket (offer_of p need reserve inp region subnet t market price penalty) = market"
  "foUsable (offer_of p need reserve inp region subnet t market price penalty) = Usable t (oiReportedMemory inp (ctName t))"
  "foHibernate (offer_of p need reserve inp region subnet t market price penalty) = (reserve \<and> hibernates t)"
  "foQuota (offer_of p need reserve inp region subnet t market price penalty) = QK region (QuotaClassOf (ctName t)) market"
  by (simp_all add: offer_of_def Let_def)

lemma set_RankOffers: "set (RankOffers p need reserve inp) = set (listed_offers p need reserve inp)"
  by (simp add: RankOffers_def)

lemma map_filter_set: "y \<in> set (List.map_filter f xs) \<longleftrightarrow> (\<exists>x\<in>set xs. f x = Some y)"
  by (induction xs) (auto simp: map_filter_simps split: option.splits)

lemma zone_offer:
  "o' \<in> set (zone_offers p need reserve inp region subnet) \<longleftrightarrow>
     (\<exists>t\<in>set (oiCatalog inp). type_offered p need reserve inp region subnet t
        \<and> (\<exists>market\<in>set (need_markets need). market_offer p need reserve inp region subnet t market = Some o'))"
  unfolding zone_offers_def by (auto simp: map_filter_set)

lemma type_offered_facts:
  assumes "type_offered p need reserve inp region subnet t"
  shows "Covers (Usable t (oiReportedMemory inp (ctName t))) (FC (rCPUMillis need) (rMemoryBytes need) (GPUsNeeded need))"
    and "rDisks need \<le> DiskSlots t"
    and "0 < GPUsNeeded need \<longleftrightarrow> 0 < ctGPUCount t"
    and "0 < GPUsNeeded need \<longrightarrow> GPUAccepted (rGPUs need) (ctGPU t)"
    and "reserve \<longrightarrow> Covers (lsCap (pLargestShape p)) (Usable t (oiReportedMemory inp (ctName t)))"
    and "\<not> oiOwnerPays inp \<longrightarrow> ctGPU t = [] \<or> GPUEnabled (ctGPU t)"
  using assms unfolding type_offered_def Let_def de_Morgan_disj not_not not_less by blast+

lemma listed_offer:
  "o' \<in> set (listed_offers p need reserve inp) \<longleftrightarrow>
     (\<exists>(region, network)\<in>set (oiNetworks inp). (rRegion need = [] \<or> ProductRegion region = rRegion need)
        \<and> (\<exists>subnet\<in>set (nwSubnets network). (rZone need = [] \<or> snZone subnet = rZone need \<or> snZoneID subnet = rZone need)
             \<and> o' \<in> set (zone_offers p need reserve inp region subnet)))"
  unfolding listed_offers_def
  by (simp only: set_concat set_map UN_iff set_sort) (force split: if_splits)

lemma need_markets_iff: "market \<in> set (need_markets need) \<longleftrightarrow> market = MarketOnDemand \<or> rPreemptible need \<and> market = MarketSpot"
  by (auto simp: need_markets_def)

text \<open>What the planner may rely on of an offer for a need.\<close>

definition hosts_need :: "Policy \<Rightarrow> Requirement \<Rightarrow> bool \<Rightarrow> OfferInputs \<Rightarrow> FleetOffer \<Rightarrow> bool" where
  "hosts_need p need reserve inp o' \<longleftrightarrow>
     foType o' \<in> set (oiCatalog inp)
     \<and> (foMarket o' = MarketOnDemand \<or> rPreemptible need \<and> foMarket o' = MarketSpot)
     \<and> Covers (foUsable o') (FC (rCPUMillis need) (rMemoryBytes need) (GPUsNeeded need))
     \<and> rDisks need \<le> DiskSlots (foType o')
     \<and> (0 < GPUsNeeded need \<longleftrightarrow> 0 < ctGPUCount (foType o'))
     \<and> (0 < GPUsNeeded need \<longrightarrow> GPUAccepted (rGPUs need) (ctGPU (foType o')))
     \<and> (rRegion need = [] \<or> ProductRegion (foRegion o') = rRegion need)
     \<and> (rZone need = [] \<or> foZone o' = rZone need \<or> foZoneID o' = rZone need)
     \<and> \<not> cooled (oiCooldowns inp) (oiNow inp) (foRegion o') (foZoneID o') (ctName (foType o')) (foMarket o')
     \<and> (case quotaRoom (oiQuotas inp) (oiQuotaUsed inp) (foQuota o') of
          None \<Rightarrow> True | Some left \<Rightarrow> CatalogType_VCPUs (foType o') \<le> left)
     \<and> (reserve \<longrightarrow> Covers (lsCap (pLargestShape p)) (foUsable o'))
     \<and> (\<not> oiOwnerPays inp \<longrightarrow> ctGPU (foType o') = [] \<or> GPUEnabled (ctGPU (foType o')))
     \<and> (\<not> oiOwnerPays inp \<longrightarrow> \<not> oiWaiveMargin inp \<longrightarrow> marginRejection p (indexRates (oiRates inp)) o' need = None)"

lemma RankOffers_hosts_need:
  assumes "o' \<in> set (RankOffers p need reserve inp)"
  shows "hosts_need p need reserve inp o'"
proof -
  obtain region network subnet where
      z: "rRegion need = [] \<or> ProductRegion region = rRegion need"
        "rZone need = [] \<or> snZone subnet = rZone need \<or> snZoneID subnet = rZone need"
        "o' \<in> set (zone_offers p need reserve inp region subnet)"
    using assms [unfolded set_RankOffers listed_offer] by (elim bexE case_prodE conjE) blast
  obtain t market where f: "t \<in> set (oiCatalog inp)" and t: "type_offered p need reserve inp region subnet t"
      and m: "market \<in> set (need_markets need)" and o: "market_offer p need reserve inp region subnet t market = Some o'"
    using z(3) [unfolded zone_offer] by (elim bexE conjE)
  note f = f z(1,2) m [unfolded need_markets_iff]
  obtain price penalty where e: "o' = offer_of p need reserve inp region subnet t market price penalty"
    using market_offer_Some(1) [OF o] by blast
  have e': "foType o' = t" "foRegion o' = region" "foZone o' = snZone subnet" "foZoneID o' = snZoneID subnet" "foMarket o' = market"
      "foUsable o' = Usable t (oiReportedMemory inp (ctName t))"
    by (simp_all add: e)
  have q: "case quotaRoom (oiQuotas inp) (oiQuotaUsed inp) (foQuota o') of None \<Rightarrow> True | Some left \<Rightarrow> CatalogType_VCPUs t \<le> left"
    using market_offer_Some(3) [OF o] by (simp split: option.splits)
  show ?thesis
    unfolding hosts_need_def e'
    using f q market_offer_Some(2,5) [OF o] type_offered_facts [OF t] by (intro conjI) simp_all
qed

lemma margin_kept:
  assumes "marginRejection p rates o' need = None" and "0 \<le> pMarginPercent p" and "pMarginPercent p \<le> 100"
  shows "\<exists>rate. rates (RateClassFor (rRegion need \<noteq> [] \<or> rZone need \<noteq> []) (rPreemptible need \<or> foMarket o' = MarketSpot))
                  (ctGPU (foType o')) = Some rate
           \<and> 0 < hourRevenue rate (foUsable o')
           \<and> foHourlyMicros o' * 100000 \<le> hourRevenue rate (foUsable o') * (100 - pMarginPercent p)"
proof -
  obtain rate where r: "rates (RateClassFor (rRegion need \<noteq> [] \<or> rZone need \<noteq> []) (rPreemptible need \<or> foMarket o' = MarketSpot))
                  (ctGPU (foType o')) = Some rate"
    and pos: "0 < hourRevenue rate (foUsable o')"
    and m: "foHourlyMicros o' \<le> hourRevenue rate (foUsable o') * (100 - pMarginPercent p) sdiv 100000"
    using assms(1) by (auto simp: marginRejection_def Let_def split: option.splits if_splits)
  have "foHourlyMicros o' \<le> (hourRevenue rate (foUsable o') * (100 - pMarginPercent p)) div 100000"
    using m pos assms by (simp add: sdiv_div)
  then have "foHourlyMicros o' * 100000 \<le> hourRevenue rate (foUsable o') * (100 - pMarginPercent p)"
    by (rule le_div_mult) simp
  with r pos show ?thesis by blast
qed

lemma least_key:
  fixes key :: "'a \<Rightarrow> 'k::linorder"
  assumes "finite S" and "x \<in> S"
  obtains m where "m \<in> S" "\<And>y. y \<in> S \<Longrightarrow> key m \<le> key y"
proof -
  have "Min (key ` S) \<in> key ` S" using assms by (intro Min_in) auto
  then obtain m where "m \<in> S" "key m = Min (key ` S)" by auto
  with assms(1) show thesis by (intro that [of m]) auto
qed

lemma sized_minimal:
  assumes fit: "\<forall>r\<in>set refs. Covers (foUsable r) holds \<and> disks \<le> DiskSlots (foType r)"
    and cards: "\<forall>r\<in>set refs. ctGPUCount (foType r) = fcGPUs (foUsable r) \<and> fcGPUs (lsCap (pLargestShape p)) \<le> fcGPUs (foUsable r)"
    and same: "\<forall>r\<in>set refs. \<forall>r'\<in>set refs. foUsable r = foUsable r' \<longrightarrow> ctName (foType r) = ctName (foType r')"
    and m: "m \<in> set refs"
    and least: "\<And>r. r \<in> set refs \<Longrightarrow>
       (fcGPUs (foUsable m), \<not> Covers (Upper (lsCap (pLargestShape p)) holds) (foUsable m), fcCPUMillis (foUsable m) + fcMemoryBytes (foUsable m))
       \<le> (fcGPUs (foUsable r), \<not> Covers (Upper (lsCap (pLargestShape p)) holds) (foUsable r), fcCPUMillis (foUsable r) + fcMemoryBytes (foUsable r))"
  shows "\<not> list_ex (outsized_by p m holds disks available) refs"
proof
  let ?limit = "Upper (lsCap (pLargestShape p)) holds"
  assume "list_ex (outsized_by p m holds disks available) refs"
  then obtain r where r: "r \<in> set refs" and out: "outsized_by p m holds disks available r"
    by (auto simp: list_ex_iff)
  have g: "fcGPUs (foUsable m) \<le> fcGPUs (foUsable r)"
    using least [OF r] by auto
  have name: "ctName (foType r) \<noteq> ctName (foType m)"
    and cases: "ctGPUCount (foType r) < ctGPUCount (foType m) \<or> Covers ?limit (foUsable r) \<and> \<not> Covers ?limit (foUsable m)
              \<or> Covers (foUsable m) (foUsable r)"
    using out by (auto simp: outsized_by_def Let_def split: if_splits)
  from cases show False
  proof (elim disjE conjE)
    assume "ctGPUCount (foType r) < ctGPUCount (foType m)"
    with g cards r m show False by simp
  next
    assume lim: "Covers ?limit (foUsable r)" "\<not> Covers ?limit (foUsable m)"
    have "fcGPUs holds \<le> fcGPUs (foUsable m)" and "fcGPUs (lsCap (pLargestShape p)) \<le> fcGPUs (foUsable m)"
      using fit cards m by (auto simp: Covers_def)
    moreover have "fcGPUs (foUsable r) \<le> max (fcGPUs (lsCap (pLargestShape p))) (fcGPUs holds)"
      using lim(1) by (simp add: Covers_def Upper_def)
    ultimately have "fcGPUs (foUsable r) = fcGPUs (foUsable m)" using g by linarith
    with least [OF r] lim show False by auto
  next
    assume c: "Covers (foUsable m) (foUsable r)"
    then have eq: "fcGPUs (foUsable r) = fcGPUs (foUsable m)" using g by (simp add: Covers_def)
    have "Covers ?limit (foUsable m) \<Longrightarrow> Covers ?limit (foUsable r)"
      using c by (auto simp: Covers_def)
    with least [OF r] eq
    have "fcCPUMillis (foUsable m) + fcMemoryBytes (foUsable m) \<le> fcCPUMillis (foUsable r) + fcMemoryBytes (foUsable r)"
      by auto
    with c eq have "foUsable m = foUsable r"
      by (intro FleetCapacity.equality) (auto simp: Covers_def)
    with same r m name show False by metis
  qed
qed

subsection \<open>Properties\<close>

text \<open>
  C33: every offer \<open>RankOffers\<close> lists can host the need: a catalog type in a market the need
  allows, in the region and zone it is pinned to, with usable room, disk slots and GPUs that
  cover it, of a model it accepts, not cooling, within its vCPU quota, and within the size cap
  for a reserve. Unless the owner pays or the margin is waived, its hourly price keeps the purchase margin: at most
  100 - MarginPercent percent of what its usable room bills an hour at the work's rate class.
\<close>

theorem RankOffers_sound:
  assumes "o' \<in> set (RankOffers p need reserve inp)"
  shows "hosts_need p need reserve inp o'
     \<and> (\<not> oiOwnerPays inp \<and> \<not> oiWaiveMargin inp \<and> 0 \<le> pMarginPercent p \<and> pMarginPercent p \<le> 100 \<longrightarrow>
         (\<exists>rate. indexRates (oiRates inp)
               (RateClassFor (rRegion need \<noteq> [] \<or> rZone need \<noteq> []) (rPreemptible need \<or> foMarket o' = MarketSpot))
               (ctGPU (foType o')) = Some rate
           \<and> foHourlyMicros o' * 100000 \<le> hourRevenue rate (foUsable o') * (100 - pMarginPercent p)))"
proof (intro conjI impI)
  show h: "hosts_need p need reserve inp o'" using assms by (rule RankOffers_hosts_need)
  assume a: "\<not> oiOwnerPays inp \<and> \<not> oiWaiveMargin inp \<and> 0 \<le> pMarginPercent p \<and> pMarginPercent p \<le> 100"
  then have "marginRejection p (indexRates (oiRates inp)) o' need = None"
    using h by (simp add: hosts_need_def)
  from margin_kept [OF this] a
  show "\<exists>rate. indexRates (oiRates inp)
               (RateClassFor (rRegion need \<noteq> [] \<or> rZone need \<noteq> []) (rPreemptible need \<or> foMarket o' = MarketSpot))
               (ctGPU (foType o')) = Some rate
           \<and> foHourlyMicros o' * 100000 \<le> hourRevenue rate (foUsable o') * (100 - pMarginPercent p)" by blast
qed

text \<open>One zone, one type and one rate.\<close>

definition demo_inputs :: OfferInputs where
  "demo_inputs =
     \<lparr>oiNow = 0, oiCatalog = [cpuType ''m7i.large'' 2 8 True [100800, 117600, 100800, 100800]],
      oiNetworks = [(''us-east-1'', \<lparr>nwSubnets = [\<lparr>snZone = ''us-east-1a'', snZoneID = ''use1-az1''\<rparr>]\<rparr>)],
      oiSpot = [], oiCooldowns = [],
      oiRates = [\<lparr>crOwner = OwnerPlatformFleet, crClass = ClassNonPreemptible, crGPU = [], crContainerHour = 0,
                  crCPUHour = 132000000, crMemoryGiBHour = 22500000, crGPUCardHour = 0\<rparr>],
      oiReportedMemory = (\<lambda>_. 0), oiZoneHosts = (\<lambda>_. 0), oiZoneTypes = (\<lambda>_. None), oiQuotas = [], oiQuotaUsed = (\<lambda>_. 0),
      oiOwnerPays = False, oiWaiveMargin = False, oiStorageRegion = ''us-east-1'', oiReadBytes = (\<lambda>_. None)\<rparr>"

definition demo_work :: Requirement where
  "demo_work = \<lparr>rWorkspace = 0, rConnection = None, rMachine = [], rRegion = [], rZone = [], rPreemptible = False, rGPUs = [],
     rGPUCount = 0, rCPUMillis = 1000, rMemoryBytes = gib, rDisks = 0, rPrefer = None, rRead = None, rPacks = False\<rparr>"

lemma demo_offer:
  "map (\<lambda>o'. (foRegion o', foMarket o', foHourlyMicros o')) (RankOffers DefaultPolicy demo_work False demo_inputs)
     = [(''us-east-1'', MarketOnDemand, 121356)]"
  by code_simp

theorem RankOffers_sound_witness:
  "\<exists>o'. o' \<in> set (RankOffers DefaultPolicy demo_work False demo_inputs) \<and> hosts_need DefaultPolicy demo_work False demo_inputs o'"
proof -
  obtain o' where "o' \<in> set (RankOffers DefaultPolicy demo_work False demo_inputs)"
    using demo_offer by (cases "RankOffers DefaultPolicy demo_work False demo_inputs") auto
  with RankOffers_sound show ?thesis by blast
qed

text \<open>
  When a type can be offered in a zone and market at an hourly \<open>price\<close>, spelled out: the market is one the need takes, the
  type has an on-demand price in the region, and in the Spot market a fresh quote, the newest of its pool, whose placement
  score is unknown or above the floor; the zone sells the type where its types are known; its cards are those of the need,
  of a model the need accepts and the platform sells; its usable room, disk slots and size suit the need; no cooldown that
  still runs names the type, or a quota of its class, in the zone or the whole region; every quota of its class has its vCPUs
  left; and, unless the owner pays, the work's rate class prices its room, and the hourly cost keeps the margin unless it is waived.
\<close>

definition sold_at :: "Policy \<Rightarrow> OfferInputs \<Rightarrow> string \<Rightarrow> Subnet \<Rightarrow> CatalogType \<Rightarrow> Market \<Rightarrow> int \<Rightarrow> bool" where
  "sold_at p inp region subnet t market price \<longleftrightarrow>
     (\<exists>od. OnDemandMicros t region = Some od \<and> (market \<noteq> MarketSpot \<longrightarrow> price = od))
     \<and> (market = MarketSpot \<longrightarrow>
          (\<exists>q\<in>set (oiSpot inp). sqHourlyMicros q = price \<and> (sqPlacementScore q = 0 \<or> 1 < sqPlacementScore q)
             \<and> sqRegion q = region \<and> sqZoneID q = snZoneID subnet \<and> sqInstanceType q = ctName t
             \<and> oiNow inp - sqObservedAt q \<le> pSpotPriceAge p
             \<and> (\<forall>q'\<in>set (oiSpot inp). sqRegion q' = region \<and> sqZoneID q' = snZoneID subnet \<and> sqInstanceType q' = ctName t
                  \<longrightarrow> q' = q \<or> sqObservedAt q' < sqObservedAt q)))
     \<and> (\<forall>zones. oiZoneTypes inp region = Some zones \<longrightarrow> ctName t \<in> set (zones (snZoneID subnet)))"

definition suits :: "Policy \<Rightarrow> Requirement \<Rightarrow> bool \<Rightarrow> OfferInputs \<Rightarrow> CatalogType \<Rightarrow> Market \<Rightarrow> bool" where
  "suits p need reserve inp t market \<longleftrightarrow>
     (market = MarketOnDemand \<or> rPreemptible need \<and> market = MarketSpot)
     \<and> (if GPUsNeeded need = 0 then ctGPUCount t = 0
        else 0 < GPUsNeeded need \<and> GPUsNeeded need \<le> ctGPUCount t \<and> GPUAccepted (rGPUs need) (ctGPU t))
     \<and> (ctGPU t = [] \<or> oiOwnerPays inp \<or> GPUEnabled (ctGPU t))
     \<and> Covers (Usable t (oiReportedMemory inp (ctName t))) (FC (rCPUMillis need) (rMemoryBytes need) (GPUsNeeded need))
     \<and> rDisks need \<le> DiskSlots t
     \<and> (reserve \<longrightarrow> Covers (lsCap (pLargestShape p)) (Usable t (oiReportedMemory inp (ctName t))))"

definition buyable :: "OfferInputs \<Rightarrow> string \<Rightarrow> Subnet \<Rightarrow> CatalogType \<Rightarrow> Market \<Rightarrow> bool" where
  "buyable inp region subnet t market \<longleftrightarrow>
     (\<forall>c\<in>set (oiCooldowns inp). ocRegion c = region \<and> ocMarket c = market \<and> (ocZoneID c = [] \<or> ocZoneID c = snZoneID subnet)
        \<and> oiNow inp < ocUntil c \<longrightarrow>
        ocInstanceType c \<noteq> ctName t
        \<and> (ocQuota c \<longrightarrow> QuotaClassOf (ocInstanceType c) = None \<or> QuotaClassOf (ocInstanceType c) \<noteq> QuotaClassOf (ctName t)))
     \<and> (\<forall>q\<in>set (oiQuotas inp). vqKey q = QK region (QuotaClassOf (ctName t)) market \<longrightarrow>
          oiQuotaUsed inp (vqKey q) + CatalogType_VCPUs t \<le> vqVCPUs q)"

definition pays :: "Policy \<Rightarrow> Requirement \<Rightarrow> OfferInputs \<Rightarrow> CatalogType \<Rightarrow> Market \<Rightarrow> int \<Rightarrow> bool" where
  "pays p need inp t market hourly \<longleftrightarrow>
     oiOwnerPays inp
     \<or> (\<exists>rate. indexRates (oiRates inp) (RateClassFor (rRegion need \<noteq> [] \<or> rZone need \<noteq> []) (rPreemptible need \<or> market = MarketSpot)) (ctGPU t) = Some rate
          \<and> 0 < fcCPUMillis (Usable t (oiReportedMemory inp (ctName t))) \<and> 0 < fcMemoryBytes (Usable t (oiReportedMemory inp (ctName t)))
          \<and> 0 < hourRevenue rate (Usable t (oiReportedMemory inp (ctName t)))
          \<and> (oiWaiveMargin inp
             \<or> hourly * 100000 \<le> hourRevenue rate (Usable t (oiReportedMemory inp (ctName t))) * (100 - pMarginPercent p)))"

text \<open>The order offers are ranked in: GPU preference, the cost of a reserve, the hourly cost raised by the placement penalty, hosts in the zone, the key.\<close>

definition ranks_before :: "Policy \<Rightarrow> Requirement \<Rightarrow> bool \<Rightarrow> OfferInputs \<Rightarrow> FleetOffer \<Rightarrow> FleetOffer \<Rightarrow> bool" where
  "ranks_before p need reserve inp a b \<longleftrightarrow>
     (let gpu = (\<lambda>x. GPURank (rGPUs need) (ctGPU (foType x)));
          cost = (\<lambda>x. (foHourlyMicros x + foTransferMicros x + foReadMicros x) * (100 + foPlacementPenalty x) sdiv 100);
          peers = (\<lambda>x. oiZoneHosts inp (foZoneID x))
      in gpu a < gpu b
         \<or> gpu a = gpu b \<and> reserve \<and> reserveCost p a < reserveCost p b
         \<or> gpu a = gpu b \<and> (reserve \<longrightarrow> reserveCost p a = reserveCost p b)
           \<and> (cost a < cost b \<or> cost a = cost b \<and> (peers a < peers b \<or> peers a = peers b \<and> offer_key a \<le> offer_key b)))"

lemma sdiv_ge: "x * d \<le> y \<Longrightarrow> 0 < d \<Longrightarrow> x \<le> y sdiv d" for x y d :: int
proof (cases "0 \<le> y")
  case True
  assume a: "x * d \<le> y" "0 < d"
  then have "(x * d) div d \<le> y div d" by (intro zdiv_mono1)
  with True a show ?thesis by (simp add: sdiv_div)
next
  case False
  assume a: "x * d \<le> y" "0 < d"
  then have "(- y) div d \<le> - x"
    by (metis False mult_minus_left neg_le_iff_le nonzero_mult_div_cancel_right not_less_iff_gr_or_eq zdiv_mono1)
  then show ?thesis using False a by (simp add: signed_divide_int_def)
qed

lemma sold_price:
  assumes "sold_at p inp region subnet t market price"
  shows "(if market = MarketSpot then spot_price p inp region subnet t else map_option (\<lambda>m. (m, 0)) (OnDemandMicros t region))
      \<in> {Some (price, penalty) |penalty. True}"
proof (cases "market = MarketSpot")
  case False
  with assms show ?thesis by (auto simp: sold_at_def)
next
  case True
  let ?pool = "(region, snZoneID subnet, ctName t)"
  from True assms obtain q where q: "q \<in> set (oiSpot inp)" "sqHourlyMicros q = price" "sqPlacementScore q = 0 \<or> 1 < sqPlacementScore q"
    and pool: "(sqRegion q, sqZoneID q, sqInstanceType q) = ?pool" and fresh: "\<not> oiNow inp - sqObservedAt q > pSpotPriceAge p"
    and newest: "\<And>q'. q' \<in> set (oiSpot inp) \<Longrightarrow> (sqRegion q', sqZoneID q', sqInstanceType q') = ?pool \<Longrightarrow> q' = q \<or> sqObservedAt q' < sqObservedAt q"
    unfolding sold_at_def by auto
  have "if q \<in> set (oiSpot inp) then freshSpot p (oiSpot inp) (oiNow inp) ?pool = Some q
     else (case freshSpot p (oiSpot inp) (oiNow inp) ?pool of None \<Rightarrow> True | Some b \<Rightarrow> sqObservedAt b < sqObservedAt q)"
    unfolding freshSpot_def
  proof (rule foldl_prefix_invariant [where P = "\<lambda>xs m. if q \<in> set xs then m ?pool = Some q
      else (case m ?pool of None \<Rightarrow> True | Some b \<Rightarrow> sqObservedAt b < sqObservedAt q)"], goal_cases)
    case (2 ys r zs m)
    have r: "r \<in> set (oiSpot inp)" using 2(1) by auto
    show ?case
      using 2(2) newest [OF r] pool fresh
      by (cases "r = q"; cases "m ?pool") (auto simp: Let_def split: option.splits if_splits)
  qed simp
  with q fresh True show ?thesis by (auto simp: spot_price_def placementFloor_def)
qed

lemma suits_offered:
  assumes "suits p need reserve inp t market" and "sold_at p inp region subnet t market price"
  shows "type_offered p need reserve inp region subnet t"
  using assms unfolding type_offered_def suits_def sold_at_def Let_def
  by (auto split: option.splits if_splits)

lemma buyable_left:
  assumes "buyable inp region subnet t market"
  shows "\<not> cooled (oiCooldowns inp) (oiNow inp) region (snZoneID subnet) (ctName t) market"
    and "quotaRoom (oiQuotas inp) (oiQuotaUsed inp) (QK region (QuotaClassOf (ctName t)) market) = Some left \<Longrightarrow> CatalogType_VCPUs t \<le> left"
proof -
  show "\<not> cooled (oiCooldowns inp) (oiNow inp) region (snZoneID subnet) (ctName t) market"
    using assms by (auto simp: buyable_def cooled_def list_ex_iff split: if_splits)
  have "case quotaRoom (oiQuotas inp) (oiQuotaUsed inp) k of None \<Rightarrow> True
      | Some left \<Rightarrow> \<exists>q\<in>set (oiQuotas inp). vqKey q = k \<and> left = vqVCPUs q - oiQuotaUsed inp k" for k
    unfolding quotaRoom_def
    by (rule foldl_invariant [where P = "\<lambda>m. case m k of None \<Rightarrow> True
      | Some left \<Rightarrow> \<exists>q\<in>set (oiQuotas inp). vqKey q = k \<and> left = vqVCPUs q - oiQuotaUsed inp k"]) (auto split: option.splits)
  from this [of "QK region (QuotaClassOf (ctName t)) market"] assms
  show "quotaRoom (oiQuotas inp) (oiQuotaUsed inp) (QK region (QuotaClassOf (ctName t)) market) = Some left \<Longrightarrow> CatalogType_VCPUs t \<le> left"
    by (auto simp: buyable_def)
qed

lemma pays_listed:
  assumes "pays p need inp t market (foHourlyMicros o')" and "foType o' = t" and "foMarket o' = market"
    and "foUsable o' = Usable t (oiReportedMemory inp (ctName t))"
  shows "oiOwnerPays inp \<or> marginRejection p (indexRates (oiRates inp)) o' need = None
     \<or> oiWaiveMargin inp \<and> marginRejection p (indexRates (oiRates inp)) o' need = Some rejectInsufficientMargin"
  using assms by (auto simp: pays_def marginRejection_def Let_def dest: sdiv_ge split: if_splits)

lemma ranks_before_iff: "offer_rank p need reserve inp a \<le> offer_rank p need reserve inp b \<longleftrightarrow> ranks_before p need reserve inp a b"
  by (auto simp: offer_rank_def ranks_before_def ranked_def running_def Let_def)

lemma can_be_listed:
  assumes "suits p need reserve inp t market" and "sold_at p inp region subnet t market price" and "buyable inp region subnet t market"
    and "pays p need inp t market (price + volumesMicros t region (reserve \<and> hibernates t) reserve + rrIpv4Hour (ratesIn region))"
  obtains penalty where "market_offer p need reserve inp region subnet t market = Some (offer_of p need reserve inp region subnet t market price penalty)"
proof -
  obtain penalty where pp: "(if market = MarketSpot then spot_price p inp region subnet t
      else map_option (\<lambda>m. (m, 0)) (OnDemandMicros t region)) = Some (price, penalty)"
    using sold_price [OF assms(2)] by auto
  let ?o = "offer_of p need reserve inp region subnet t market price penalty"
  have h: "foHourlyMicros ?o = price + volumesMicros t region (reserve \<and> hibernates t) reserve + rrIpv4Hour (ratesIn region)"
    by (simp add: offer_of_def Let_def)
  have "\<not> (case quotaRoom (oiQuotas inp) (oiQuotaUsed inp) (foQuota ?o) of None \<Rightarrow> False | Some left \<Rightarrow> left < CatalogType_VCPUs t)"
    using buyable_left(2) [OF assms(3)] by (auto split: option.splits)
  with pp buyable_left(1) [OF assms(3)] pays_listed [of p need inp t market ?o] assms(4) h
  have "market_offer p need reserve inp region subnet t market = Some ?o"
    unfolding market_offer_def pp by (auto simp: Let_def split: option.splits)
  then show thesis by (rule that)
qed

text \<open>
  C34: \<open>RankOffers\<close> misses nothing and ranks by preference, then cost. A catalog type that suits the need, that is sold in a
  launchable zone the need may run in and a market it takes, that no cooldown or quota holds back and that pays, as these are
  spelled out above, is listed, in that zone and market and at that price with its disks and address; and the offers are listed
  by GPU preference, then the cost of a reserve, the hourly cost raised by the placement penalty, the hosts in the zone and the key.
\<close>

theorem RankOffers_complete_best_first:
  assumes "(region, network) \<in> set (oiNetworks inp)" and "subnet \<in> set (nwSubnets network)" and "t \<in> set (oiCatalog inp)"
    and "rRegion need = [] \<or> ProductRegion region = rRegion need"
    and "rZone need = [] \<or> snZone subnet = rZone need \<or> snZoneID subnet = rZone need"
    and "suits p need reserve inp t market" and "sold_at p inp region subnet t market price" and "buyable inp region subnet t market"
    and "pays p need inp t market hourly"
    and "hourly = price + volumesMicros t region (reserve \<and> hibernates t) reserve + rrIpv4Hour (ratesIn region)"
  shows "(\<exists>o'\<in>set (RankOffers p need reserve inp). foType o' = t \<and> foRegion o' = region \<and> foZoneID o' = snZoneID subnet
            \<and> foMarket o' = market \<and> foHourlyMicros o' = hourly)
     \<and> sorted_wrt (ranks_before p need reserve inp) (RankOffers p need reserve inp)"
proof
  obtain penalty where "market_offer p need reserve inp region subnet t market = Some (offer_of p need reserve inp region subnet t market price penalty)"
    (is "_ = Some ?o") using can_be_listed [OF assms(6-8)] assms(9,10) by blast
  moreover have "market \<in> set (need_markets need)"
    using assms(6) by (auto simp: suits_def need_markets_iff)
  ultimately have "?o \<in> set (zone_offers p need reserve inp region subnet)"
    unfolding zone_offer using assms(3) suits_offered [OF assms(6,7)] by blast
  then have "?o \<in> set (RankOffers p need reserve inp)"
    unfolding set_RankOffers listed_offer using assms(1,2,4,5) by blast
  then show "\<exists>o'\<in>set (RankOffers p need reserve inp). foType o' = t \<and> foRegion o' = region \<and> foZoneID o' = snZoneID subnet
            \<and> foMarket o' = market \<and> foHourlyMicros o' = hourly"
    using assms(10) by (intro bexI [of _ ?o]) (simp_all add: offer_of_def Let_def)
  have "sorted (map (offer_rank p need reserve inp) (RankOffers p need reserve inp))"
    by (simp add: RankOffers_def)
  then show "sorted_wrt (ranks_before p need reserve inp) (RankOffers p need reserve inp)"
    by (simp add: sorted_map ranks_before_iff)
qed

text \<open>A quote of five minutes ago for the type, and work that may run on Spot.\<close>

definition demo_spot_inputs :: OfferInputs where
  "demo_spot_inputs = demo_inputs\<lparr>
     oiSpot := [\<lparr>sqRegion = ''us-east-1'', sqZoneID = ''use1-az1'', sqInstanceType = ''m7i.large'', sqHourlyMicros = 40000,
                 sqObservedAt = - 300 * second, sqPlacementScore = 7\<rparr>],
     oiRates := [\<lparr>crOwner = OwnerPlatformFleet, crClass = ClassAuto, crGPU = [], crContainerHour = 0,
                  crCPUHour = 132000000, crMemoryGiBHour = 22500000, crGPUCardHour = 0\<rparr>]\<rparr>"

theorem RankOffers_complete_best_first_witness:
  "list_ex (\<lambda>o'. foMarket o' = MarketSpot \<and> foHourlyMicros o' = 60556)
     (RankOffers DefaultPolicy (demo_work\<lparr>rPreemptible := True\<rparr>) False demo_spot_inputs)"
proof -
  let ?s = "\<lparr>snZone = ''us-east-1a'', snZoneID = ''use1-az1''\<rparr>" and ?t = "hd (oiCatalog demo_spot_inputs)" and ?w = "demo_work\<lparr>rPreemptible := True\<rparr>"
  have at: "(''us-east-1'', \<lparr>nwSubnets = [?s]\<rparr>) \<in> set (oiNetworks demo_spot_inputs)" "?s \<in> set (nwSubnets \<lparr>nwSubnets = [?s]\<rparr>)"
    "?t \<in> set (oiCatalog demo_spot_inputs)" "rRegion ?w = []" "rZone ?w = []"
    by (simp_all add: demo_spot_inputs_def demo_inputs_def demo_work_def)
  have "suits DefaultPolicy ?w False demo_spot_inputs ?t MarketSpot"
    by code_simp
  moreover have "OnDemandMicros ?t ''us-east-1'' = Some 100800" "ctName ?t = ''m7i.large''" "- (300 * second) + pSpotPriceAge DefaultPolicy \<ge> 0"
    by code_simp+
  then have "sold_at DefaultPolicy demo_spot_inputs ''us-east-1'' ?s ?t MarketSpot 40000"
    unfolding sold_at_def by (simp add: demo_spot_inputs_def demo_inputs_def)
  moreover have "buyable demo_spot_inputs ''us-east-1'' ?s ?t MarketSpot"
    by code_simp
  moreover have "pays DefaultPolicy ?w demo_spot_inputs ?t MarketSpot 60556"
    unfolding pays_def
  proof (intro disjI2 exI conjI)
    show "indexRates (oiRates demo_spot_inputs) (RateClassFor (rRegion ?w \<noteq> [] \<or> rZone ?w \<noteq> []) (rPreemptible ?w \<or> MarketSpot = MarketSpot)) (ctGPU ?t)
        = Some (hd (oiRates demo_spot_inputs))"
      by code_simp
  qed code_simp+
  moreover have "60556 = 40000 + volumesMicros ?t ''us-east-1'' (False \<and> hibernates ?t) False + rrIpv4Hour (ratesIn ''us-east-1'')"
    by code_simp
  ultimately show ?thesis
    using RankOffers_complete_best_first [OF at(1-3) _ _, of ?w DefaultPolicy False MarketSpot 40000 60556] at(4,5)
    by (auto simp: list_ex_iff)
qed

text \<open>
  The size rule always leaves a size. Among the offers of one model and market that fit what
  a host must hold, at least one passes \<open>sized\<close>, whatever is available: the rule never rejects all of
  them. It needs that no two types have the same usable room, that a type's cards are its
  usable GPUs, and that the size cap has no more cards than any of the types.
\<close>

theorem sized_leaves_a_size:
  assumes "r \<in> set refs"
    and "\<forall>r\<in>set refs. Covers (foUsable r) holds \<and> disks \<le> DiskSlots (foType r)"
    and "\<forall>r\<in>set refs. ctGPUCount (foType r) = fcGPUs (foUsable r) \<and> fcGPUs (lsCap (pLargestShape p)) \<le> fcGPUs (foUsable r)"
    and "\<forall>r\<in>set refs. \<forall>r'\<in>set refs. foUsable r = foUsable r' \<longrightarrow> ctName (foType r) = ctName (foType r')"
  shows "\<exists>o'\<in>set refs. sized p o' holds disks refs available"
proof -
  let ?key = "\<lambda>r. (fcGPUs (foUsable r), \<not> Covers (Upper (lsCap (pLargestShape p)) holds) (foUsable r),
                 fcCPUMillis (foUsable r) + fcMemoryBytes (foUsable r))"
  obtain m where m: "m \<in> set refs" and least: "\<And>r. r \<in> set refs \<Longrightarrow> ?key m \<le> ?key r"
    using least_key [of "set refs" r ?key] assms(1) by auto
  from sized_minimal [OF assms(2-4) m least] have "sized p m holds disks refs available"
    by (simp add: sized_def)
  with m show ?thesis by blast
qed

definition demo_gpu_offer :: "CatalogType \<Rightarrow> FleetOffer" where
  "demo_gpu_offer t = \<lparr>foType = t, foRegion = ''us-east-1'', foZone = ''us-east-1a'', foZoneID = ''use1-az1'', foMarket = MarketSpot,
     foUsable = Usable t 0, foHibernate = False, foHourlyMicros = 1, foStoppedMicros = 1, foTransferMicros = 0, foReadMicros = 0,
     foPlacementPenalty = 0, foQuota = QK ''us-east-1'' (Some QuotaG) MarketSpot\<rparr>"

definition demo_refs :: "FleetOffer list" where
  "demo_refs = map demo_gpu_offer
     [gpu_type ''g6.xlarge'' 4 16 ''L4'' 1 [804800, 0, 804800, 804800], gpu_type ''g6.2xlarge'' 8 32 ''L4'' 1 [977600, 0, 977600, 977600]]"

theorem sized_leaves_a_size_witness:
  "list_ex (\<lambda>o'. sized DefaultPolicy o' (FC 1000 gib 1) 1 demo_refs demo_refs) demo_refs"
proof -
  have fit: "list_all (\<lambda>r. Covers (foUsable r) (FC 1000 gib 1) \<and> 1 \<le> DiskSlots (foType r)) demo_refs"
    and cards: "list_all (\<lambda>r. ctGPUCount (foType r) = fcGPUs (foUsable r)
            \<and> fcGPUs (lsCap (pLargestShape DefaultPolicy)) \<le> fcGPUs (foUsable r)) demo_refs"
    and same: "list_all (\<lambda>r. list_all (\<lambda>r'. foUsable r = foUsable r' \<longrightarrow> ctName (foType r) = ctName (foType r')) demo_refs) demo_refs"
    by code_simp+
  have "hd demo_refs \<in> set demo_refs" by (simp add: demo_refs_def)
  from sized_leaves_a_size [OF this fit [unfolded list_all_iff] cards [unfolded list_all_iff] same [unfolded list_all_iff]]
  show ?thesis unfolding list_ex_iff .
qed

end
