(* ===== verification/Cover.thy ===== *)
theory Cover
  imports Offers
begin

text \<open>
  \<open>internal/compute/fleet_cover.go\<close>: the bounded beam search that picks the nodes to buy.

  \<open>Cover\<close> keeps the partial covers of a depth in a Go map and ranges over it. Go leaves that
  order open, so the search is written for any \<open>iter\<close> that turns the entries into a list
  (\<open>Cover_iter\<close>), and \<open>Cover\<close> is the one that takes them as inserted; that the order does not
  matter is proved. The keys of the map, which print a state's remaining counts, supply and quota
  use, are the tuple of those. The limited quotas are listed in the order of the candidates; Go
  lists them in map order, which only permutes the columns of a state's quota use.
\<close>

definition coverWidth :: nat where "coverWidth = 128"

record CoverItem =
  ciShape :: FleetCapacity
  ciDisks :: int
  ciCount :: int
  ciMarket :: "Market option"
  ciRides :: bool

definition item_takes :: "CoverItem \<Rightarrow> FleetOffer \<Rightarrow> bool" where
  "item_takes i o' \<longleftrightarrow> (case ciMarket i of None \<Rightarrow> True | Some m \<Rightarrow> m = foMarket o')"

definition item_fits :: "CoverItem \<Rightarrow> FleetCapacity \<Rightarrow> int \<Rightarrow> int \<Rightarrow> int" where
  "item_fits i free disks limit =
     fits_cap free (ciShape i) (if ciDisks i > 0 then min limit (disks sdiv ciDisks i) else limit)"

record CoverNeed =
  cnItems :: "CoverItem list"
  cnAggregate :: FleetCapacity

record CoverNode =
  cvOffer :: FleetOffer
  cvPlaced :: "int list"

record CoverLimits =
  clNodes :: int
  clVCPUs :: "QuotaKey \<Rightarrow> int option"
  clSized :: "(FleetOffer \<Rightarrow> FleetCapacity \<Rightarrow> int \<Rightarrow> bool) option"

record CoverResult =
  rsNodes :: "CoverNode list"
  rsUnmetItems :: "CoverItem list"
  rsSupplied :: FleetCapacity

definition Complete :: "CoverResult \<Rightarrow> CoverNeed \<Rightarrow> bool" where
  "Complete r need \<longleftrightarrow> \<not> list_ex (\<lambda>i. \<not> ciRides i) (rsUnmetItems r) \<and> Covers (rsSupplied r) (cnAggregate need)"

record coverState =
  csCost :: int
  csRemaining :: "int list"
  csSupplied :: FleetCapacity
  csNodes :: "nat list"
  csPlaced :: "int list list"
  csProgress :: rat
  csQuota :: "int list"

subsection \<open>Candidates\<close>

definition contributes :: "CoverNeed \<Rightarrow> FleetOffer \<Rightarrow> bool" where
  "contributes need o' \<longleftrightarrow>
     \<not> (Empty_cap (cnAggregate need)
        \<and> \<not> list_ex (\<lambda>i. item_takes i o' \<and> item_fits i (foUsable o') (DiskSlots (foType o')) 1 > 0) (cnItems need))"

definition same_candidate :: "CoverNeed \<Rightarrow> CoverLimits \<Rightarrow> FleetOffer \<Rightarrow> FleetOffer \<Rightarrow> bool" where
  "same_candidate need limits o' c \<longleftrightarrow>
     (let marketed = list_ex (\<lambda>i. ciMarket i \<noteq> None) (cnItems need);
          limited = (clVCPUs limits (foQuota o') \<noteq> None); cLimited = (clVCPUs limits (foQuota c) \<noteq> None)
      in foUsable c = foUsable o' \<and> (\<not> marketed \<or> foMarket c = foMarket o')
         \<and> (\<not> limited \<and> \<not> cLimited \<or> foQuota c = foQuota o'))"

definition add_candidate :: "CoverNeed \<Rightarrow> (FleetOffer \<Rightarrow> int) \<Rightarrow> CoverLimits \<Rightarrow> FleetOffer list \<Rightarrow> FleetOffer \<Rightarrow> FleetOffer list" where
  "add_candidate need cost limits out o' =
     (if \<not> contributes need o' then out
      else (case index_func (same_candidate need limits o') out of
              None \<Rightarrow> out @ [o']
            | Some n \<Rightarrow> if cost o' < cost (out ! n) then out[n := o'] else out))"

definition coverCandidates :: "FleetOffer list \<Rightarrow> CoverNeed \<Rightarrow> (FleetOffer \<Rightarrow> int) \<Rightarrow> CoverLimits \<Rightarrow> FleetOffer list" where
  "coverCandidates offers need cost limits = foldl (add_candidate need cost limits) [] offers"

subsection \<open>Adding a node\<close>

record node_fill =
  nfFree :: FleetCapacity
  nfDisks :: int
  nfPlaced :: "int list"
  nfRemaining :: "int list"
  nfMoved :: bool
  nfHolds :: bool

definition place_item :: "FleetOffer \<Rightarrow> CoverNeed \<Rightarrow> bool \<Rightarrow> node_fill \<Rightarrow> nat \<Rightarrow> node_fill" where
  "place_item o' need rides f i =
     (let item = cnItems need ! i
      in if ciRides item \<noteq> rides \<or> rides \<and> \<not> nfHolds f \<or> \<not> item_takes item o' then f
         else let n = item_fits item (nfFree f) (nfDisks f) (nfRemaining f ! i)
              in if n > 0
                 then \<lparr>nfFree = Minus_cap (nfFree f) (Times_cap (ciShape item) n),
                       nfDisks = nfDisks f - n * ciDisks item,
                       nfPlaced = (nfPlaced f)[i := n],
                       nfRemaining = (nfRemaining f)[i := nfRemaining f ! i - n],
                       nfMoved = True, nfHolds = nfHolds f \<or> \<not> rides\<rparr>
                 else f)"

definition fill_node :: "FleetOffer \<Rightarrow> CoverNeed \<Rightarrow> nat list \<Rightarrow> int list \<Rightarrow> node_fill" where
  "fill_node o' need order remaining =
     (let start = \<lparr>nfFree = foUsable o', nfDisks = DiskSlots (foType o'), nfPlaced = replicate (length (cnItems need)) 0,
                   nfRemaining = remaining, nfMoved = False, nfHolds = False\<rparr>
      in foldl (\<lambda>f rides. foldl (place_item o' need rides) f order) start [False, True])"

definition supply_share :: "int \<Rightarrow> int \<Rightarrow> rat \<Rightarrow> rat" where
  "supply_share d0 d1 progress = (if d1 > 0 then fadd progress (fdiv (float_of_int d0) (float_of_int d1)) else progress)"

definition coverage :: "coverState \<Rightarrow> CoverNeed \<Rightarrow> int \<Rightarrow> rat" where
  "coverage s need tot =
     supply_share (fcGPUs (csSupplied s)) (fcGPUs (cnAggregate need))
       (supply_share (fcMemoryBytes (csSupplied s)) (fcMemoryBytes (cnAggregate need))
         (supply_share (fcCPUMillis (csSupplied s)) (fcCPUMillis (cnAggregate need))
           (float_of_int (tot - sum_list (csRemaining s)))))"

definition state_add :: "coverState \<Rightarrow> nat \<Rightarrow> FleetOffer \<Rightarrow> int \<Rightarrow> CoverNeed \<Rightarrow> nat list \<Rightarrow> int
    \<Rightarrow> (FleetOffer \<Rightarrow> FleetCapacity \<Rightarrow> int \<Rightarrow> bool) option \<Rightarrow> coverState \<times> bool" where
  "state_add s c o' price need order tot szd =
     (let f = fill_node o' need order (csRemaining s);
          supplied = Lower (Plus_cap (csSupplied s) (nfFree f)) (cnAggregate need);
          moved = (nfMoved f \<or> supplied \<noteq> csSupplied s);
          rejected = (case szd of
             None \<Rightarrow> False
           | Some admits \<Rightarrow> moved \<and> \<not> admits o' (Plus_cap (Minus_cap (foUsable o') (nfFree f)) (Minus_cap supplied (csSupplied s)))
                                     (DiskSlots (foType o') - nfDisks f));
          next = \<lparr>csCost = csCost s + price, csRemaining = nfRemaining f, csSupplied = supplied, csNodes = csNodes s @ [c],
                  csPlaced = csPlaced s @ [nfPlaced f], csProgress = 0, csQuota = csQuota s\<rparr>
      in (next\<lparr>csProgress := coverage next need tot\<rparr>, moved \<and> \<not> rejected))"

definition state_ratio :: "coverState \<Rightarrow> rat" where
  "state_ratio s = fdiv (float_of_int (csCost s)) (max (csProgress s) (fl (1 / 1000)))"

definition state_complete :: "coverState \<Rightarrow> CoverNeed \<Rightarrow> bool" where
  "state_complete s need \<longleftrightarrow>
     list_all (\<lambda>(n, item). \<not> (n > 0 \<and> \<not> ciRides item)) (zip (csRemaining s) (cnItems need))
     \<and> Covers (csSupplied s) (cnAggregate need)"

type_synonym state_key = "int list \<times> FleetCapacity \<times> int list"

definition state_key :: "coverState \<Rightarrow> state_key" where
  "state_key s = (csRemaining s, csSupplied s, csQuota s)"

definition betterPartial :: "coverState \<Rightarrow> coverState \<Rightarrow> bool" where
  "betterPartial s other \<longleftrightarrow>
     (sum_list (csRemaining other), fcCPUMillis (csSupplied s), fcMemoryBytes (csSupplied s), fcGPUs (csSupplied s), csCost other)
     > (sum_list (csRemaining s), fcCPUMillis (csSupplied other), fcMemoryBytes (csSupplied other), fcGPUs (csSupplied other), csCost s)"

definition unmet_items :: "coverState \<Rightarrow> CoverNeed \<Rightarrow> CoverItem list" where
  "unmet_items s need =
     map (\<lambda>(left, item). item\<lparr>ciCount := left\<rparr>) (filter (\<lambda>(left, item). left > 0) (zip (csRemaining s) (cnItems need)))"

definition state_result :: "coverState \<Rightarrow> FleetOffer list \<Rightarrow> CoverNeed \<Rightarrow> CoverResult" where
  "state_result s candidates need =
     \<lparr>rsNodes = map (\<lambda>(c, placed). \<lparr>cvOffer = candidates ! c, cvPlaced = placed\<rparr>) (zip (csNodes s) (csPlaced s)),
      rsUnmetItems = unmet_items s need, rsSupplied = csSupplied s\<rparr>"

subsection \<open>The search\<close>

text \<open>What one run of the search holds fixed.\<close>

record search =
  seCandidates :: "FleetOffer list"
  seQuotas :: "QuotaKey list"
  seOrder :: "nat list"
  seTotal :: int
  seNeed :: CoverNeed
  seCost :: "FleetOffer \<Rightarrow> int"
  seLimits :: CoverLimits

definition search_of :: "FleetOffer list \<Rightarrow> CoverNeed \<Rightarrow> (FleetOffer \<Rightarrow> int) \<Rightarrow> CoverLimits \<Rightarrow> search" where
  "search_of offers need cost limits =
     (let candidates = coverCandidates offers need cost limits
      in \<lparr>seCandidates = candidates,
          seQuotas = remdups (filter (\<lambda>k. clVCPUs limits k \<noteq> None) (map foQuota candidates)),
          seOrder = sort_key (\<lambda>i. let (g, m, c) = shape_key (ciShape (cnItems need ! i)) in (- g, - m, - c)) [0..<length (cnItems need)],
          seTotal = sum_list (map ciCount (cnItems need)),
          seNeed = need, seCost = cost, seLimits = limits\<rparr>)"

definition start_state :: "search \<Rightarrow> coverState" where
  "start_state se =
     \<lparr>csCost = 0, csRemaining = map ciCount (cnItems (seNeed se)), csSupplied = NoCapacity, csNodes = [], csPlaced = [],
      csProgress = 0, csQuota = replicate (length (seQuotas se)) 0\<rparr>"

definition quota_index :: "search \<Rightarrow> nat \<Rightarrow> nat option" where
  "quota_index se c = index_func (\<lambda>k. k = foQuota (seCandidates se ! c)) (seQuotas se)"

definition over_quota :: "search \<Rightarrow> coverState \<Rightarrow> nat \<Rightarrow> bool" where
  "over_quota se s c \<longleftrightarrow>
     (let o' = seCandidates se ! c
      in case quota_index se c of
           None \<Rightarrow> False
         | Some q \<Rightarrow> csQuota s ! q + CatalogType_VCPUs (foType o') > the (clVCPUs (seLimits se) (foQuota o')))"

definition extend :: "search \<Rightarrow> coverState \<Rightarrow> nat \<Rightarrow> coverState \<times> bool" where
  "extend se s c =
     (let o' = seCandidates se ! c;
          (next, moved) = state_add s c o' (seCost se o') (seNeed se) (seOrder se) (seTotal se) (clSized (seLimits se))
      in (case quota_index se c of
            None \<Rightarrow> next
          | Some q \<Rightarrow> next\<lparr>csQuota := (csQuota next)[q := csQuota next ! q + CatalogType_VCPUs (foType o')]\<rparr>, moved))"

type_synonym expansion = "coverState option \<times> (state_key \<times> coverState) list"

definition insert_state :: "coverState \<Rightarrow> (state_key \<times> coverState) list \<Rightarrow> (state_key \<times> coverState) list" where
  "insert_state s expanded =
     (case map_of expanded (state_key s) of
        None \<Rightarrow> expanded @ [(state_key s, s)]
      | Some prev \<Rightarrow>
          if csCost s < csCost prev then map (\<lambda>(k, v). (k, if k = state_key s then s else v)) expanded else expanded)"

definition try_candidate :: "search \<Rightarrow> coverState \<Rightarrow> expansion \<Rightarrow> nat \<Rightarrow> expansion" where
  "try_candidate se s e c =
     (if over_quota se s c then e
      else let (next, moved) = extend se s c; (best, expanded) = e
           in if \<not> moved \<or> (case best of None \<Rightarrow> False | Some b \<Rightarrow> csCost next \<ge> csCost b) then e
              else if state_complete next (seNeed se) then (Some next, expanded)
              else (best, insert_state next expanded))"

definition expand :: "search \<Rightarrow> coverState option \<Rightarrow> coverState list \<Rightarrow> expansion" where
  "expand se best states =
     foldl (\<lambda>e s. foldl (try_candidate se s) e [0..<length (seCandidates se)]) (best, []) states"

definition beam :: "coverState list \<Rightarrow> coverState list" where
  "beam states = take coverWidth (sort_key (\<lambda>s. (state_ratio s, csCost s, csNodes s)) states)"

definition keep_partial :: "coverState \<Rightarrow> coverState \<Rightarrow> coverState" where
  "keep_partial partial s = (if betterPartial s partial then s else partial)"

fun search_loop :: "((state_key \<times> coverState) list \<Rightarrow> (state_key \<times> coverState) list) \<Rightarrow> search \<Rightarrow> nat
    \<Rightarrow> coverState list \<Rightarrow> coverState \<Rightarrow> coverState option \<Rightarrow> coverState \<times> coverState option" where
  "search_loop iter se 0 states partial best = (partial, best)"
| "search_loop iter se (Suc n) states partial best =
     (if states = [] then (partial, best)
      else let (best', expanded) = expand se best states;
               states' = beam (map snd (iter expanded))
           in search_loop iter se n states' (foldl keep_partial partial states') best')"

definition Cover_iter :: "((state_key \<times> coverState) list \<Rightarrow> (state_key \<times> coverState) list)
    \<Rightarrow> FleetOffer list \<Rightarrow> CoverNeed \<Rightarrow> (FleetOffer \<Rightarrow> int) \<Rightarrow> CoverLimits \<Rightarrow> CoverResult" where
  "Cover_iter iter offers need cost limits =
     (let se = search_of offers need cost limits;
          (partial, best) = search_loop iter se (nat (clNodes limits)) [start_state se] (start_state se) None;
          chosen = (case best of None \<Rightarrow> partial | Some b \<Rightarrow> b)
      in state_result chosen (seCandidates se) need)"

definition Cover :: "FleetOffer list \<Rightarrow> CoverNeed \<Rightarrow> (FleetOffer \<Rightarrow> int) \<Rightarrow> CoverLimits \<Rightarrow> CoverResult" where
  "Cover = Cover_iter (\<lambda>expanded. expanded)"

subsection \<open>Filling a node\<close>

definition need_ok :: "CoverNeed \<Rightarrow> bool" where
  "need_ok need \<longleftrightarrow> (\<forall>i\<in>set (cnItems need). nonneg_cap (ciShape i) \<and> 0 \<le> ciDisks i \<and> 0 \<le> ciCount i)
     \<and> nonneg_cap (cnAggregate need)"

definition load_of :: "CoverItem list \<Rightarrow> int list \<Rightarrow> FleetCapacity" where
  "load_of items placed = total_cap (map (\<lambda>(item, n). Times_cap (ciShape item) n) (zip items placed))"

definition disks_of :: "CoverItem list \<Rightarrow> int list \<Rightarrow> int" where
  "disks_of items placed = sum_list (map (\<lambda>(item, n). n * ciDisks item) (zip items placed))"

text \<open>
  A node's fill is sound: every item it holds is one its offer takes, an item that rides sits
  beside one that does not, and its free room and slots are what the placed items leave.
\<close>

definition fill_ok :: "FleetOffer \<Rightarrow> CoverNeed \<Rightarrow> int list \<Rightarrow> node_fill \<Rightarrow> bool" where
  "fill_ok o' need remaining f \<longleftrightarrow>
     length (nfPlaced f) = length (cnItems need) \<and> length (nfRemaining f) = length (cnItems need)
     \<and> nonneg_cap (nfFree f) \<and> 0 \<le> nfDisks f
     \<and> Plus_cap (nfFree f) (load_of (cnItems need) (nfPlaced f)) = foUsable o'
     \<and> nfDisks f + disks_of (cnItems need) (nfPlaced f) = DiskSlots (foType o')
     \<and> (\<forall>i<length (cnItems need). 0 \<le> nfPlaced f ! i \<and> 0 \<le> nfRemaining f ! i
           \<and> nfRemaining f ! i + nfPlaced f ! i = remaining ! i
           \<and> (0 < nfPlaced f ! i \<longrightarrow> nfMoved f \<and> item_takes (cnItems need ! i) o'
                \<and> (ciRides (cnItems need ! i) \<longrightarrow> nfHolds f)))
     \<and> (nfHolds f \<longrightarrow> (\<exists>i<length (cnItems need). 0 < nfPlaced f ! i \<and> \<not> ciRides (cnItems need ! i)))
     \<and> (nfMoved f \<longrightarrow> (\<exists>i<length (cnItems need). 0 < nfPlaced f ! i))"

lemma load_of_update:
  assumes "i < length items" and "length placed = length items" and "placed ! i = 0"
  shows "load_of items (placed[i := n]) = Plus_cap (load_of items placed) (Times_cap (ciShape (items ! i)) n)"
proof -
  let ?f = "\<lambda>(item, n). Times_cap (ciShape item) n"
  have "map ?f (zip items (placed[i := n])) = (map ?f (zip items placed))[i := Times_cap (ciShape (items ! i)) n]"
    using assms by (intro nth_equalityI) (auto simp: nth_list_update)
  then show ?thesis
    using assms unfolding load_of_def by (simp add: total_cap_update) (simp add: cap_simps)
qed

lemma disks_of_update:
  assumes "i < length items" and "length placed = length items" and "placed ! i = 0"
  shows "disks_of items (placed[i := n]) = disks_of items placed + n * ciDisks (items ! i)"
proof -
  let ?f = "\<lambda>(item, n). n * ciDisks item"
  have "map ?f (zip items (placed[i := n])) = (map ?f (zip items placed))[i := n * ciDisks (items ! i)]"
    using assms by (intro nth_equalityI) (auto simp: nth_list_update)
  then show ?thesis
    using assms unfolding disks_of_def by (simp add: sum_list_update_int)
qed

lemma load_of_zero: "length items = n \<Longrightarrow> load_of items (replicate n 0) = NoCapacity"
  by (induction items arbitrary: n) (auto simp: load_of_def cap_simps)

lemma disks_of_zero: "length items = n \<Longrightarrow> disks_of items (replicate n 0) = 0"
  by (induction items arbitrary: n) (auto simp: disks_of_def)

lemma item_fits_bounds:
  assumes "0 \<le> limit" and "nonneg_cap free" and "nonneg_cap (ciShape i)" and "0 \<le> ciDisks i" and "0 \<le> disks"
    and "n = item_fits i free disks limit"
  shows "0 \<le> n" and "n \<le> limit" and "Covers free (Times_cap (ciShape i) n)" and "n * ciDisks i \<le> disks"
proof -
  let ?l = "if ciDisks i > 0 then min limit (disks sdiv ciDisks i) else limit"
  have l: "0 \<le> ?l" "?l \<le> limit"
    using assms(1,4,5) by (auto simp: sdiv_nonneg)
  have n: "n = fits_cap free (ciShape i) ?l"
    using assms(6) by (simp add: item_fits_def)
  show "0 \<le> n" and "Covers free (Times_cap (ciShape i) n)"
    using fits_cap_bounds(1) [OF l(1) assms(2)] fits_cap_covers [OF l(1) assms(2,3)] by (simp_all add: n)
  have nl: "n \<le> ?l" using fits_cap_bounds(2) [OF l(1) assms(2)] by (simp add: n)
  with l show "n \<le> limit" by linarith
  show "n * ciDisks i \<le> disks"
  proof (cases "ciDisks i > 0")
    case True
    then have "n \<le> disks div ciDisks i"
      using nl assms(4,5) by (simp add: sdiv_div)
    then show ?thesis using True by (rule le_div_mult)
  qed (use assms in auto)
qed

lemma place_item_other:
  "j \<noteq> i \<Longrightarrow> nfPlaced (place_item o' need rides f i) ! j = nfPlaced f ! j"
  by (simp add: place_item_def Let_def)

lemma place_item_rides:
  "ciRides (cnItems need ! i) \<noteq> rides \<Longrightarrow> place_item o' need rides f i = f"
  by (simp add: place_item_def Let_def)

lemma place_item_ok:
  assumes ok: "fill_ok o' need remaining f" and need: "need_ok need"
    and i: "i < length (cnItems need)" and zero: "ciRides (cnItems need ! i) = rides \<longrightarrow> nfPlaced f ! i = 0"
  shows "fill_ok o' need remaining (place_item o' need rides f i)"
proof (cases "ciRides (cnItems need ! i) \<noteq> rides \<or> rides \<and> \<not> nfHolds f \<or> \<not> item_takes (cnItems need ! i) o'
    \<or> \<not> item_fits (cnItems need ! i) (nfFree f) (nfDisks f) (nfRemaining f ! i) > 0")
  case True
  then have "place_item o' need rides f i = f"
    by (auto simp: place_item_def Let_def)
  with ok show ?thesis by simp
next
  case False
  let ?item = "cnItems need ! i"
  define n where "n = item_fits ?item (nfFree f) (nfDisks f) (nfRemaining f ! i)"
  have z: "nfPlaced f ! i = 0" using False zero by simp
  have item: "nonneg_cap (ciShape ?item)" "0 \<le> ciDisks ?item"
    using need i by (simp_all add: need_ok_def)
  have lens: "length (nfPlaced f) = length (cnItems need)" "length (nfRemaining f) = length (cnItems need)"
    and free: "nonneg_cap (nfFree f)" "0 \<le> nfDisks f"
    and sums: "Plus_cap (nfFree f) (load_of (cnItems need) (nfPlaced f)) = foUsable o'"
      "nfDisks f + disks_of (cnItems need) (nfPlaced f) = DiskSlots (foType o')"
    and per: "\<And>j. j < length (cnItems need) \<Longrightarrow> 0 \<le> nfPlaced f ! j \<and> 0 \<le> nfRemaining f ! j
           \<and> nfRemaining f ! j + nfPlaced f ! j = remaining ! j
           \<and> (0 < nfPlaced f ! j \<longrightarrow> nfMoved f \<and> item_takes (cnItems need ! j) o'
                \<and> (ciRides (cnItems need ! j) \<longrightarrow> nfHolds f))"
    and holds: "nfHolds f \<Longrightarrow> \<exists>j<length (cnItems need). 0 < nfPlaced f ! j \<and> \<not> ciRides (cnItems need ! j)"
    using ok by (auto simp: fill_ok_def)
  have n: "0 < n" "n \<le> nfRemaining f ! i" "Covers (nfFree f) (Times_cap (ciShape ?item) n)" "n * ciDisks ?item \<le> nfDisks f"
    using item_fits_bounds [OF _ free(1) item free(2) n_def] per [OF i] False by (auto simp: n_def)
  have e: "place_item o' need rides f i =
      \<lparr>nfFree = Minus_cap (nfFree f) (Times_cap (ciShape ?item) n), nfDisks = nfDisks f - n * ciDisks ?item,
       nfPlaced = (nfPlaced f)[i := n], nfRemaining = (nfRemaining f)[i := nfRemaining f ! i - n],
       nfMoved = True, nfHolds = nfHolds f \<or> \<not> rides\<rparr>"
    using False by (auto simp: place_item_def Let_def n_def)
  have load: "Plus_cap (Minus_cap (nfFree f) (Times_cap (ciShape ?item) n)) (load_of (cnItems need) ((nfPlaced f)[i := n])) = foUsable o'"
    using sums(1) load_of_update [OF i lens(1) z] by (simp add: cap_simps)
  have dsk: "nfDisks f - n * ciDisks ?item + disks_of (cnItems need) ((nfPlaced f)[i := n]) = DiskSlots (foType o')"
    using sums(2) disks_of_update [OF i lens(1) z] by simp
  have each: "0 \<le> (nfPlaced f)[i := n] ! j \<and> 0 \<le> (nfRemaining f)[i := nfRemaining f ! i - n] ! j
           \<and> (nfRemaining f)[i := nfRemaining f ! i - n] ! j + (nfPlaced f)[i := n] ! j = remaining ! j
           \<and> (0 < (nfPlaced f)[i := n] ! j \<longrightarrow> item_takes (cnItems need ! j) o'
                \<and> (ciRides (cnItems need ! j) \<longrightarrow> nfHolds f \<or> \<not> rides))" if "j < length (cnItems need)" for j
    using per [OF that] per [OF i] n z False lens i by (cases "j = i") auto
  have hold: "\<exists>j<length (cnItems need). 0 < (nfPlaced f)[i := n] ! j \<and> \<not> ciRides (cnItems need ! j)" if "nfHolds f \<or> \<not> rides"
  proof (cases "\<not> rides")
    case True
    then show ?thesis using False n i lens by (intro exI [of _ i]) simp
  next
    case rides: False
    then have "nfHolds f" using that by simp
    from holds [OF this] obtain j where "j < length (cnItems need)" "0 < nfPlaced f ! j" "\<not> ciRides (cnItems need ! j)"
      by blast
    then show ?thesis using z by (intro exI [of _ j]) (cases "j = i"; simp)
  qed
  have moved: "\<exists>j<length (cnItems need). 0 < (nfPlaced f)[i := n] ! j"
    using n i lens by (intro exI [of _ i]) simp
  show ?thesis
    unfolding fill_ok_def e using lens Minus_nonneg [OF n(3)] n(4) load dsk each hold moved by simp
qed

lemma place_items_ok:
  assumes "fill_ok o' need remaining f" and "need_ok need" and "distinct is" and "\<forall>i\<in>set is. i < length (cnItems need)"
    and "\<forall>i\<in>set is. ciRides (cnItems need ! i) = rides \<longrightarrow> nfPlaced f ! i = 0"
  shows "fill_ok o' need remaining (foldl (place_item o' need rides) f is)
     \<and> (\<forall>i. ciRides (cnItems need ! i) \<noteq> rides \<longrightarrow> nfPlaced (foldl (place_item o' need rides) f is) ! i = nfPlaced f ! i)"
  using assms
proof (induction "is" arbitrary: f)
  case Nil
  then show ?case by simp
next
  case (Cons i "is")
  let ?f = "place_item o' need rides f i"
  have ok: "fill_ok o' need remaining ?f"
    using Cons.prems by (intro place_item_ok) auto
  have other: "nfPlaced ?f ! j = nfPlaced f ! j" if "j \<noteq> i" for j
    using that by (rule place_item_other)
  have zero: "\<forall>j\<in>set is. ciRides (cnItems need ! j) = rides \<longrightarrow> nfPlaced ?f ! j = 0"
  proof (intro ballI impI)
    fix j
    assume j: "j \<in> set is" "ciRides (cnItems need ! j) = rides"
    with Cons.prems(3) have "j \<noteq> i" by auto
    with other Cons.prems(5) j show "nfPlaced ?f ! j = 0" by simp
  qed
  have same: "nfPlaced ?f ! j = nfPlaced f ! j" if "ciRides (cnItems need ! j) \<noteq> rides" for j
    using that other [of j] place_item_rides [of need i rides o' f] by (cases "j = i") auto
  have "distinct is" and "\<forall>i\<in>set is. i < length (cnItems need)"
    using Cons.prems by auto
  from Cons.IH [OF ok Cons.prems(2) this zero] same show ?case by simp
qed

lemma fill_node_ok:
  assumes need: "need_ok need" and len: "length remaining = length (cnItems need)" and rem: "\<forall>r\<in>set remaining. 0 \<le> r"
    and usable: "nonneg_cap (foUsable o')" and order: "distinct order" "\<forall>i\<in>set order. i < length (cnItems need)"
  shows "fill_ok o' need remaining (fill_node o' need order remaining)"
proof -
  let ?start = "\<lparr>nfFree = foUsable o', nfDisks = DiskSlots (foType o'), nfPlaced = replicate (length (cnItems need)) 0,
                   nfRemaining = remaining, nfMoved = False, nfHolds = False\<rparr>"
  let ?mid = "foldl (place_item o' need False) ?start order"
  have zero: "\<forall>i\<in>set order. nfPlaced ?start ! i = 0"
    using order(2) by simp
  have "fill_ok o' need remaining ?start"
    using len rem usable DiskSlots_pos [of "foType o'"]
    by (auto simp: fill_ok_def load_of_zero disks_of_zero)
  then have mid: "fill_ok o' need remaining ?mid"
    and same: "\<forall>i. ciRides (cnItems need ! i) \<noteq> False \<longrightarrow> nfPlaced ?mid ! i = nfPlaced ?start ! i"
    using place_items_ok [OF _ need order, of o' remaining ?start False] zero by auto
  have "fill_ok o' need remaining (foldl (place_item o' need True) ?mid order)"
    using place_items_ok [OF mid need order, of True] same zero by simp
  then show ?thesis by (simp add: fill_node_def)
qed

subsection \<open>Partial covers\<close>

text \<open>What a run of the search starts from.\<close>

definition search_ok :: "search \<Rightarrow> bool" where
  "search_ok se \<longleftrightarrow> need_ok (seNeed se) \<and> (\<forall>o'\<in>set (seCandidates se). nonneg_cap (foUsable o'))
     \<and> distinct (seOrder se) \<and> (\<forall>i\<in>set (seOrder se). i < length (cnItems (seNeed se)))
     \<and> distinct (seQuotas se)
     \<and> (\<forall>o'\<in>set (seCandidates se). clVCPUs (seLimits se) (foQuota o') \<noteq> None \<longrightarrow> foQuota o' \<in> set (seQuotas se))"

text \<open>
  A node that holds what was placed on it: whole items its offer takes, within its room and
  disk slots, riding items only beside others, and, where a size rule is set, a size it admits
  for the items and a share of the aggregate within the room they leave.
\<close>

definition node_ok :: "CoverNeed \<Rightarrow> CoverLimits \<Rightarrow> FleetOffer \<Rightarrow> int list \<Rightarrow> bool" where
  "node_ok need limits o' placed \<longleftrightarrow>
     length placed = length (cnItems need)
     \<and> Covers (foUsable o') (load_of (cnItems need) placed)
     \<and> disks_of (cnItems need) placed \<le> DiskSlots (foType o')
     \<and> (\<forall>i<length (cnItems need). 0 \<le> placed ! i
          \<and> (0 < placed ! i \<longrightarrow> item_takes (cnItems need ! i) o'
               \<and> (ciRides (cnItems need ! i) \<longrightarrow>
                    (\<exists>j<length (cnItems need). 0 < placed ! j \<and> \<not> ciRides (cnItems need ! j)))))
     \<and> (case clSized limits of
          None \<Rightarrow> True
        | Some admits \<Rightarrow> \<exists>share. nonneg_cap share
             \<and> Covers (Minus_cap (foUsable o') (load_of (cnItems need) placed)) share
             \<and> admits o' (Plus_cap (load_of (cnItems need) placed) share) (disks_of (cnItems need) placed))"

text \<open>The vCPUs a list of nodes counts against a quota.\<close>

definition quota_use :: "search \<Rightarrow> nat list \<Rightarrow> QuotaKey \<Rightarrow> int" where
  "quota_use se nodes k =
     sum_list (map (\<lambda>c. CatalogType_VCPUs (foType (seCandidates se ! c)))
       (filter (\<lambda>c. foQuota (seCandidates se ! c) = k) nodes))"

definition spare :: "search \<Rightarrow> nat \<times> int list \<Rightarrow> FleetCapacity" where
  "spare se = (\<lambda>(c, placed). Minus_cap (foUsable (seCandidates se ! c)) (load_of (cnItems (seNeed se)) placed))"

definition state_ok :: "search \<Rightarrow> coverState \<Rightarrow> bool" where
  "state_ok se s \<longleftrightarrow>
     length (csPlaced s) = length (csNodes s) \<and> (\<forall>c\<in>set (csNodes s). c < length (seCandidates se))
     \<and> length (csRemaining s) = length (cnItems (seNeed se)) \<and> (\<forall>r\<in>set (csRemaining s). 0 \<le> r)
     \<and> (\<forall>i<length (cnItems (seNeed se)).
          csRemaining s ! i + sum_list (map (\<lambda>p. p ! i) (csPlaced s)) = ciCount (cnItems (seNeed se) ! i))
     \<and> csCost s = sum_list (map (\<lambda>c. seCost se (seCandidates se ! c)) (csNodes s))
     \<and> nonneg_cap (csSupplied s) \<and> Covers (cnAggregate (seNeed se)) (csSupplied s)
     \<and> Covers (total_cap (map (spare se) (zip (csNodes s) (csPlaced s)))) (csSupplied s)
     \<and> (\<forall>(c, p)\<in>set (zip (csNodes s) (csPlaced s)). node_ok (seNeed se) (seLimits se) (seCandidates se ! c) p)
     \<and> length (csQuota s) = length (seQuotas se)
     \<and> (\<forall>q<length (seQuotas se). csQuota s ! q = quota_use se (csNodes s) (seQuotas se ! q))
     \<and> (\<forall>c\<in>set (csNodes s). case clVCPUs (seLimits se) (foQuota (seCandidates se ! c)) of
          None \<Rightarrow> True | Some limit \<Rightarrow> quota_use se (csNodes s) (foQuota (seCandidates se ! c)) \<le> limit)"

lemma total_cap_snoc: "total_cap (xs @ [x]) = Plus_cap (total_cap xs) x"
  by (induction xs) (simp_all add: cap_plus.assoc)

lemma fill_ok_node:
  assumes f: "fill_ok o' need remaining f" and s: "Covers (cnAggregate need) supplied" "nonneg_cap supplied"
    and sup: "supplied' = Lower (Plus_cap supplied (nfFree f)) (cnAggregate need)"
    and sized: "\<forall>admits. clSized limits = Some admits \<longrightarrow>
      admits o' (Plus_cap (Minus_cap (foUsable o') (nfFree f)) (Minus_cap supplied' supplied)) (DiskSlots (foType o') - nfDisks f)"
  shows "node_ok need limits o' (nfPlaced f)"
    and "nonneg_cap supplied'" and "Covers (cnAggregate need) supplied'"
    and "Covers (Plus_cap supplied (Minus_cap (foUsable o') (load_of (cnItems need) (nfPlaced f)))) supplied'"
proof -
  have free: "nonneg_cap (nfFree f)" and load: "Plus_cap (nfFree f) (load_of (cnItems need) (nfPlaced f)) = foUsable o'"
    and dsk: "nfDisks f + disks_of (cnItems need) (nfPlaced f) = DiskSlots (foType o')" "0 \<le> nfDisks f"
    using f by (simp_all add: fill_ok_def)
  have eqs: "Minus_cap (foUsable o') (nfFree f) = load_of (cnItems need) (nfPlaced f)"
    "Minus_cap (foUsable o') (load_of (cnItems need) (nfPlaced f)) = nfFree f"
    "DiskSlots (foType o') - nfDisks f = disks_of (cnItems need) (nfPlaced f)"
    using load [symmetric] dsk by (simp_all add: cap_simps)
  show "nonneg_cap supplied'" and "Covers (cnAggregate need) supplied'"
    using s free by (auto simp: sup cap_simps)
  show "Covers (Plus_cap supplied (Minus_cap (foUsable o') (load_of (cnItems need) (nfPlaced f)))) supplied'"
    unfolding eqs by (simp add: sup Covers_Lower)
  have share: "nonneg_cap (Minus_cap supplied' supplied)" "Covers (nfFree f) (Minus_cap supplied' supplied)"
    using s free by (auto simp: sup cap_simps)
  have holds: "Covers (foUsable o') (load_of (cnItems need) (nfPlaced f))"
    using load [symmetric] free by (auto simp: cap_simps)
  have "\<exists>share. nonneg_cap share \<and> Covers (nfFree f) share
      \<and> admits o' (Plus_cap (load_of (cnItems need) (nfPlaced f)) share) (disks_of (cnItems need) (nfPlaced f))"
    if "clSized limits = Some admits" for admits
    using sized that share unfolding eqs by blast
  then show "node_ok need limits o' (nfPlaced f)"
    unfolding node_ok_def eqs using f holds dsk by (auto simp: fill_ok_def split: option.splits)
qed

lemma quota_use_snoc:
  "quota_use se (nodes @ [c]) k =
     quota_use se nodes k + (if foQuota (seCandidates se ! c) = k then CatalogType_VCPUs (foType (seCandidates se ! c)) else 0)"
  by (simp add: quota_use_def)

lemma quota_index_Some:
  "quota_index se c = Some q \<Longrightarrow> q < length (seQuotas se) \<and> seQuotas se ! q = foQuota (seCandidates se ! c)"
  unfolding quota_index_def using index_func_less index_func_holds by fast

lemma quota_index_None: "quota_index se c = None \<longleftrightarrow> foQuota (seCandidates se ! c) \<notin> set (seQuotas se)"
  unfolding quota_index_def index_func_None by auto

text \<open>The parts of a state after one more node.\<close>

lemma extend_parts:
  assumes "extend se s c = (s', moved)"
  defines "o' \<equiv> seCandidates se ! c"
  defines "f \<equiv> fill_node o' (seNeed se) (seOrder se) (csRemaining s)"
  shows "csNodes s' = csNodes s @ [c]" and "csPlaced s' = csPlaced s @ [nfPlaced f]" and "csRemaining s' = nfRemaining f"
    and "csCost s' = csCost s + seCost se o'"
    and "csSupplied s' = Lower (Plus_cap (csSupplied s) (nfFree f)) (cnAggregate (seNeed se))"
    and "csQuota s' = (case quota_index se c of None \<Rightarrow> csQuota s
          | Some q \<Rightarrow> (csQuota s)[q := csQuota s ! q + CatalogType_VCPUs (foType o')])"
    and "moved \<longleftrightarrow> (nfMoved f \<or> csSupplied s' \<noteq> csSupplied s)
          \<and> (case clSized (seLimits se) of None \<Rightarrow> True
             | Some admits \<Rightarrow> admits o' (Plus_cap (Minus_cap (foUsable o') (nfFree f)) (Minus_cap (csSupplied s') (csSupplied s)))
                                 (DiskSlots (foType o') - nfDisks f))"
  using assms(1) unfolding o'_def f_def extend_def state_add_def Let_def
  by (auto split: option.splits)

lemma extend_quota:
  assumes ok: "state_ok se s" and se: "search_ok se" and ext: "extend se s c = (s', moved)" and over: "\<not> over_quota se s c"
  shows "length (csQuota s') = length (seQuotas se)"
    and "\<forall>q<length (seQuotas se). csQuota s' ! q = quota_use se (csNodes s') (seQuotas se ! q)"
    and "c < length (seCandidates se) \<Longrightarrow> \<forall>c'\<in>set (csNodes s'). case clVCPUs (seLimits se) (foQuota (seCandidates se ! c')) of
          None \<Rightarrow> True | Some limit \<Rightarrow> quota_use se (csNodes s') (foQuota (seCandidates se ! c')) \<le> limit"
proof -
  note parts = extend_parts(1,6) [OF ext]
  let ?v = "CatalogType_VCPUs (foType (seCandidates se ! c))" and ?k = "foQuota (seCandidates se ! c)"
  have len: "length (csQuota s) = length (seQuotas se)"
    and use: "\<forall>q<length (seQuotas se). csQuota s ! q = quota_use se (csNodes s) (seQuotas se ! q)"
    and lim: "\<forall>c'\<in>set (csNodes s). case clVCPUs (seLimits se) (foQuota (seCandidates se ! c')) of
          None \<Rightarrow> True | Some limit \<Rightarrow> quota_use se (csNodes s) (foQuota (seCandidates se ! c')) \<le> limit"
    using ok by (simp_all add: state_ok_def)
  show "length (csQuota s') = length (seQuotas se)"
    using len by (simp add: parts split: option.splits)
  show "\<forall>q<length (seQuotas se). csQuota s' ! q = quota_use se (csNodes s') (seQuotas se ! q)"
  proof (cases "quota_index se c")
    case None
    then have "?k \<noteq> seQuotas se ! q" if "q < length (seQuotas se)" for q
      using that quota_index_None [of se c] by auto
    with None use show ?thesis by (simp add: parts quota_use_snoc)
  next
    case (Some n)
    then have n: "n < length (seQuotas se)" "seQuotas se ! n = ?k"
      using quota_index_Some by auto
    moreover have "distinct (seQuotas se)" using se by (simp add: search_ok_def)
    ultimately have "seQuotas se ! q = ?k \<longleftrightarrow> q = n" if "q < length (seQuotas se)" for q
      using that nth_eq_iff_index_eq by fastforce
    with Some use n len show ?thesis by (simp add: parts quota_use_snoc nth_list_update eq_commute [of ?k])
  qed
  show "\<forall>c'\<in>set (csNodes s'). case clVCPUs (seLimits se) (foQuota (seCandidates se ! c')) of
          None \<Rightarrow> True | Some limit \<Rightarrow> quota_use se (csNodes s') (foQuota (seCandidates se ! c')) \<le> limit"
    if c: "c < length (seCandidates se)"
  proof -
    have new: "quota_use se (csNodes s) ?k + ?v \<le> limit" if "clVCPUs (seLimits se) ?k = Some limit" for limit
    proof -
      have "?k \<in> set (seQuotas se)"
        using se c that by (simp add: search_ok_def)
      then obtain q where q: "quota_index se c = Some q"
        using quota_index_None [of se c] by (cases "quota_index se c") auto
      from quota_index_Some [OF q] use have "csQuota s ! q = quota_use se (csNodes s) ?k" by auto
      with over q that show ?thesis by (simp add: over_quota_def Let_def)
    qed
    show ?thesis
      using lim new by (auto simp: parts quota_use_snoc split: option.splits)
  qed
qed

lemma extend_ok:
  assumes ok: "state_ok se s" and se: "search_ok se" and c: "c < length (seCandidates se)"
    and over: "\<not> over_quota se s c" and ext: "extend se s c = (s', True)"
  shows "state_ok se s'"
proof -
  let ?o = "seCandidates se ! c"
  define f where "f = fill_node ?o (seNeed se) (seOrder se) (csRemaining s)"
  note parts = extend_parts [OF ext, folded f_def]
  have s: "length (csPlaced s) = length (csNodes s)" "length (csRemaining s) = length (cnItems (seNeed se))"
      "\<forall>r\<in>set (csRemaining s). 0 \<le> r" "nonneg_cap (csSupplied s)" "Covers (cnAggregate (seNeed se)) (csSupplied s)"
    using ok by (simp_all add: state_ok_def)
  have f: "fill_ok ?o (seNeed se) (csRemaining s) f"
    unfolding f_def using se c s by (intro fill_node_ok) (simp_all add: search_ok_def)
  have admits: "\<forall>admits. clSized (seLimits se) = Some admits \<longrightarrow>
      admits ?o (Plus_cap (Minus_cap (foUsable ?o) (nfFree f)) (Minus_cap (csSupplied s') (csSupplied s)))
        (DiskSlots (foType ?o) - nfDisks f)"
    using parts(7) by (auto split: option.splits)
  note node = fill_ok_node [OF f s(5,4) parts(5) admits]
  have len: "length (nfRemaining f) = length (cnItems (seNeed se))" "length (nfPlaced f) = length (cnItems (seNeed se))"
    and item: "\<And>i. i < length (cnItems (seNeed se)) \<Longrightarrow> 0 \<le> nfRemaining f ! i \<and> nfRemaining f ! i + nfPlaced f ! i = csRemaining s ! i"
    using f by (simp_all add: fill_ok_def)
  have rem: "\<forall>r\<in>set (nfRemaining f). 0 \<le> r"
    using len item by (auto simp: in_set_conv_nth)
  have counts: "\<forall>i<length (cnItems (seNeed se)).
      csRemaining s' ! i + sum_list (map (\<lambda>p. p ! i) (csPlaced s')) = ciCount (cnItems (seNeed se) ! i)"
  proof (intro allI impI)
    fix i
    assume i: "i < length (cnItems (seNeed se))"
    then have "csRemaining s ! i + sum_list (map (\<lambda>p. p ! i) (csPlaced s)) = ciCount (cnItems (seNeed se) ! i)"
      using ok by (simp add: state_ok_def)
    with item [OF i] show "csRemaining s' ! i + sum_list (map (\<lambda>p. p ! i) (csPlaced s')) = ciCount (cnItems (seNeed se) ! i)"
      by (simp add: parts(1-6))
  qed
  have zips: "zip (csNodes s') (csPlaced s') = zip (csNodes s) (csPlaced s) @ [(c, nfPlaced f)]"
    using s(1) by (simp add: parts(1-6))
  have room_left: "Covers (total_cap (map (spare se) (zip (csNodes s') (csPlaced s')))) (csSupplied s')"
  proof -
    have "Covers (total_cap (map (spare se) (zip (csNodes s) (csPlaced s)))) (csSupplied s)"
      using ok by (simp add: state_ok_def)
    then have "Covers (total_cap (map (spare se) (zip (csNodes s') (csPlaced s'))))
        (Plus_cap (csSupplied s) (Minus_cap (foUsable ?o) (load_of (cnItems (seNeed se)) (nfPlaced f))))"
      by (simp add: zips total_cap_snoc spare_def Plus_mono)
    then show ?thesis using node(4) by (rule Covers_trans)
  qed
  have nodes: "\<forall>(c, p)\<in>set (zip (csNodes s') (csPlaced s')). node_ok (seNeed se) (seLimits se) (seCandidates se ! c) p"
    using ok node(1) by (simp add: zips state_ok_def)
  have "csCost s' = sum_list (map (\<lambda>c. seCost se (seCandidates se ! c)) (csNodes s'))"
    and "\<forall>c\<in>set (csNodes s'). c < length (seCandidates se)" and "length (csPlaced s') = length (csNodes s')"
    using ok c by (simp_all add: parts(1-6) state_ok_def)
  then show ?thesis
    unfolding state_ok_def
    using len(1) rem counts room_left nodes node(2,3) extend_quota [OF ok se ext over] c
    by (simp add: parts(3))
qed

subsection \<open>The states the search explores\<close>

inductive reached :: "search \<Rightarrow> coverState \<Rightarrow> bool" for se where
  start: "reached se (start_state se)"
| step: "reached se s \<Longrightarrow> c < length (seCandidates se) \<Longrightarrow> \<not> over_quota se s c \<Longrightarrow> extend se s c = (s', True)
    \<Longrightarrow> reached se s'"

inductive_cases reached_cases: "reached se s"

lemma start_ok:
  assumes "search_ok se"
  shows "state_ok se (start_state se)"
  using assms by (auto simp: state_ok_def start_state_def search_ok_def need_ok_def quota_use_def)

lemma reached_ok: "reached se s \<Longrightarrow> search_ok se \<Longrightarrow> state_ok se s"
  by (induction rule: reached.induct) (auto intro: start_ok extend_ok)

text \<open>A state is what adding its nodes in order makes of the start, so its nodes determine it.\<close>

lemma reached_replay: "reached se s \<Longrightarrow> s = foldl (\<lambda>s c. fst (extend se s c)) (start_state se) (csNodes s)"
proof (induction rule: reached.induct)
  case start
  then show ?case by (simp add: start_state_def)
next
  case (step s c s')
  have "foldl (\<lambda>s c. fst (extend se s c)) (start_state se) (csNodes s') = fst (extend se s c)"
    unfolding extend_parts(1) [OF step.hyps(4)] foldl_append step.IH [symmetric] by simp
  with step.hyps(4) show ?case by simp
qed

lemma reached_inj:
  assumes "reached se s" and "reached se s'" and "csNodes s = csNodes s'"
  shows "s = s'"
proof -
  have "s = foldl (\<lambda>s c. fst (extend se s c)) (start_state se) (csNodes s)"
    using assms(1) by (rule reached_replay)
  also have "\<dots> = foldl (\<lambda>s c. fst (extend se s c)) (start_state se) (csNodes s')"
    by (simp only: assms(3))
  also have "\<dots> = s'"
    using assms(2) by (rule reached_replay [symmetric])
  finally show ?thesis .
qed

definition explored :: "search \<Rightarrow> nat \<Rightarrow> coverState \<Rightarrow> bool" where
  "explored se n s \<longleftrightarrow> reached se s \<and> length (csNodes s) \<le> n"

definition expansion_ok :: "search \<Rightarrow> nat \<Rightarrow> expansion \<Rightarrow> bool" where
  "expansion_ok se n e \<longleftrightarrow>
     (\<forall>b. fst e = Some b \<longrightarrow> explored se n b \<and> state_complete b (seNeed se))
     \<and> (\<forall>(k, s)\<in>set (snd e). explored se n s)"

lemma insert_state_set: "set (insert_state s expanded) \<subseteq> insert (state_key s, s) (set expanded)"
  by (auto simp: insert_state_def split: option.splits if_splits)

lemma try_candidate_ok:
  assumes e: "expansion_ok se (Suc n) e" and s: "explored se n s" and c: "c < length (seCandidates se)"
  shows "expansion_ok se (Suc n) (try_candidate se s e c)"
proof -
  obtain s' moved where ext: "extend se s c = (s', moved)" by fastforce
  obtain best expanded where e': "e = (best, expanded)" by fastforce
  show ?thesis
  proof (cases "over_quota se s c \<or> \<not> moved")
    case True
    then show ?thesis using e ext by (auto simp: try_candidate_def e' Let_def)
  next
    case False
    then have "reached se s'"
      using s c ext by (auto simp: explored_def intro: reached.step)
    then have new: "explored se (Suc n) s'"
      using s by (simp add: explored_def extend_parts(1) [OF ext])
    have "expansion_ok se (Suc n) (best, insert_state s' expanded)"
      using e new insert_state_set [of s' expanded] by (fastforce simp: expansion_ok_def e')
    then show ?thesis
      using e new ext False by (auto simp: try_candidate_def e' Let_def expansion_ok_def)
  qed
qed

lemma expand_ok:
  assumes "\<forall>b. best = Some b \<longrightarrow> explored se (Suc n) b \<and> state_complete b (seNeed se)" and "\<forall>s\<in>set states. explored se n s"
  shows "expansion_ok se (Suc n) (expand se best states)"
  unfolding expand_def
proof (rule foldl_invariant)
  show "expansion_ok se (Suc n) (best, [])"
    using assms(1) by (simp add: expansion_ok_def)
next
  fix e s
  assume e: "expansion_ok se (Suc n) e" and "s \<in> set states"
  then have s: "explored se n s" using assms(2) by simp
  show "expansion_ok se (Suc n) (foldl (try_candidate se s) e [0..<length (seCandidates se)])"
    by (rule foldl_invariant [where P = "expansion_ok se (Suc n)", OF e]) (simp add: try_candidate_ok [OF _ s])
qed

text \<open>An order of ranging over the map: any rearrangement of its entries.\<close>

definition map_order :: "('a list \<Rightarrow> 'a list) \<Rightarrow> bool" where
  "map_order iter \<longleftrightarrow> (\<forall>xs. mset (iter xs) = mset xs)"

lemma map_order_set: "map_order iter \<Longrightarrow> set (iter xs) = set xs"
  unfolding map_order_def by (metis set_mset_mset)

lemma beam_set: "set (beam states) \<subseteq> set states"
  unfolding beam_def using set_take_subset [of coverWidth] by fastforce

lemma keep_partial_in: "foldl keep_partial p states \<in> insert p (set states)"
proof (induction states arbitrary: p)
  case (Cons s states)
  have "foldl keep_partial (keep_partial p s) states \<in> insert (keep_partial p s) (set states)"
    by (rule Cons.IH)
  moreover have "keep_partial p s \<in> {p, s}" by (simp add: keep_partial_def)
  ultimately show ?case by auto
qed simp

lemma explored_mono: "explored se n s \<Longrightarrow> n \<le> m \<Longrightarrow> explored se m s"
  by (simp add: explored_def)

definition loop_ok :: "search \<Rightarrow> nat \<Rightarrow> coverState \<Rightarrow> coverState option \<Rightarrow> bool" where
  "loop_ok se n partial best \<longleftrightarrow>
     explored se n partial \<and> (\<forall>b. best = Some b \<longrightarrow> explored se n b \<and> state_complete b (seNeed se))"

lemma loop_ok_mono: "loop_ok se n p b \<Longrightarrow> n \<le> m \<Longrightarrow> loop_ok se m p b"
  by (auto simp: loop_ok_def intro: explored_mono)

lemma loop_step:
  assumes iter: "map_order iter" and states: "\<forall>s\<in>set states. explored se d s" and l: "loop_ok se d partial best"
    and e: "expand se best states = (best', expanded)"
  shows "\<forall>s\<in>set (beam (map snd (iter expanded))). explored se (Suc d) s"
    and "loop_ok se (Suc d) (foldl keep_partial partial (beam (map snd (iter expanded)))) best'"
proof -
  have eo: "expansion_ok se (Suc d) (best', expanded)"
    unfolding e [symmetric] using l states by (intro expand_ok) (auto simp: loop_ok_def intro: explored_mono)
  have "set (beam (map snd (iter expanded))) \<subseteq> snd ` set expanded"
    using beam_set [of "map snd (iter expanded)"] map_order_set [OF iter] by auto
  moreover have "\<forall>s\<in>snd ` set expanded. explored se (Suc d) s"
    using eo by (auto simp: expansion_ok_def)
  ultimately show st: "\<forall>s\<in>set (beam (map snd (iter expanded))). explored se (Suc d) s"
    by blast
  have "explored se (Suc d) partial"
    using l by (auto simp: loop_ok_def intro: explored_mono)
  with st keep_partial_in [of partial "beam (map snd (iter expanded))"]
  have "explored se (Suc d) (foldl keep_partial partial (beam (map snd (iter expanded))))" by auto
  with eo show "loop_ok se (Suc d) (foldl keep_partial partial (beam (map snd (iter expanded)))) best'"
    by (simp add: loop_ok_def expansion_ok_def)
qed

lemma search_loop_ok:
  assumes iter: "map_order iter" and "\<forall>s\<in>set states. explored se d s" and "loop_ok se d partial best"
    and "search_loop iter se n states partial best = (partial', best')"
  shows "loop_ok se (d + n) partial' best'"
  using assms(2-)
proof (induction n arbitrary: d states partial best)
  case 0
  then show ?case by simp
next
  case (Suc n)
  show ?case
  proof (cases "states = []")
    case True
    with Suc.prems show ?thesis by (auto intro: loop_ok_mono)
  next
    case False
    obtain b e where e: "expand se best states = (b, e)" by fastforce
    note step = loop_step [OF iter Suc.prems(1,2) e]
    from Suc.prems(3) False e have "search_loop iter se n (beam (map snd (iter e)))
        (foldl keep_partial partial (beam (map snd (iter e)))) b = (partial', best')"
      by (simp add: Let_def)
    from Suc.IH [OF step this] show ?thesis by simp
  qed
qed

text \<open>Sorting by a key that includes the nodes leaves no ties to break.\<close>

lemma beam_order:
  assumes "mset xs = mset ys" and "\<forall>s\<in>set xs. reached se s"
  shows "beam xs = beam ys"
proof -
  let ?key = "\<lambda>s. (state_ratio s, csCost s, csNodes s)"
  have "inj_on ?key (set xs)"
    using assms(2) by (auto simp: inj_on_def intro: reached_inj)
  then have "sort_key ?key xs = sort_key ?key ys"
    using assms(1) by (intro sort_key_inj_key_eq) simp_all
  then show ?thesis by (simp add: beam_def)
qed

lemma search_loop_order:
  assumes iter: "map_order iter" and "\<forall>s\<in>set states. explored se d s" and "loop_ok se d partial best"
  shows "search_loop iter se n states partial best = search_loop (\<lambda>xs. xs) se n states partial best"
  using assms(2-)
proof (induction n arbitrary: d states partial best)
  case 0
  then show ?case by simp
next
  case (Suc n)
  obtain b e where e: "expand se best states = (b, e)" by fastforce
  note step = loop_step [OF iter Suc.prems e]
  have "expansion_ok se (Suc d) (b, e)"
    unfolding e [symmetric] using Suc.prems by (intro expand_ok) (auto simp: loop_ok_def intro: explored_mono)
  then have "\<forall>s\<in>set (map snd (iter e)). reached se s"
    using map_order_set [OF iter] by (auto simp: expansion_ok_def explored_def)
  moreover have "mset (map snd (iter e)) = mset (map snd e)"
    using iter by (simp add: map_order_def)
  ultimately have same: "beam (map snd (iter e)) = beam (map snd e)"
    by (intro beam_order)
  show ?case
    using Suc.IH [OF step] e same by (simp add: Let_def)
qed

subsection \<open>Candidates are offers\<close>

lemma add_candidate_subset:
  "set (add_candidate need cost limits out o') \<subseteq> insert o' (set out)"
  using set_update_subset_insert [of out _ o'] by (fastforce simp: add_candidate_def split: option.splits if_splits)

lemma coverCandidates_subset: "set (coverCandidates offers need cost limits) \<subseteq> set offers"
  unfolding coverCandidates_def
  by (rule foldl_invariant [where P = "\<lambda>out. set out \<subseteq> set offers"]) (use add_candidate_subset in fastforce)+

lemma search_of_ok:
  assumes "need_ok need" and "\<forall>o'\<in>set offers. nonneg_cap (foUsable o')"
  shows "search_ok (search_of offers need cost limits)"
  using assms coverCandidates_subset [of offers need cost limits]
  by (auto simp: search_ok_def search_of_def Let_def)

lemma search_of_parts [simp]:
  "seCandidates (search_of offers need cost limits) = coverCandidates offers need cost limits"
  "seNeed (search_of offers need cost limits) = need" "seLimits (search_of offers need cost limits) = limits"
  "seCost (search_of offers need cost limits) = cost"
  by (simp_all add: search_of_def Let_def)

text \<open>What the search returns: an explored partial cover within the node limit.\<close>

lemma Cover_chosen:
  assumes iter: "map_order iter"
  obtains s best where "Cover_iter iter offers need cost limits = state_result s (coverCandidates offers need cost limits) need"
    and "explored (search_of offers need cost limits) (nat (clNodes limits)) s"
    and "snd (search_loop iter (search_of offers need cost limits) (nat (clNodes limits)) [start_state (search_of offers need cost limits)]
           (start_state (search_of offers need cost limits)) None) = best"
    and "best = None \<or> best = Some s \<and> state_complete s need"
proof -
  let ?se = "search_of offers need cost limits"
  obtain p best where l: "search_loop iter ?se (nat (clNodes limits)) [start_state ?se] (start_state ?se) None = (p, best)"
    by fastforce
  have "explored ?se 0 (start_state ?se)"
    using reached.start [of ?se] by (simp add: explored_def) (simp add: start_state_def)
  then have ok: "loop_ok ?se (nat (clNodes limits)) p best"
    using search_loop_ok [OF iter _ _ l, of 0] by (simp add: loop_ok_def)
  show thesis
  proof (rule that)
    show "Cover_iter iter offers need cost limits
        = state_result (case best of None \<Rightarrow> p | Some b \<Rightarrow> b) (coverCandidates offers need cost limits) need"
      using l by (simp add: Cover_iter_def Let_def)
  qed (use l ok in \<open>auto simp: loop_ok_def split: option.splits\<close>)
qed

lemma state_result_complete: "Complete (state_result s candidates need) need \<longleftrightarrow> state_complete s need"
  by (auto simp: Complete_def state_result_def unmet_items_def state_complete_def list_ex_iff list_all_iff)

lemma result_nodes:
  "length (csPlaced s) = length (csNodes s) \<Longrightarrow>
     map cvOffer (rsNodes (state_result s candidates need)) = map (\<lambda>c. candidates ! c) (csNodes s)
     \<and> map cvPlaced (rsNodes (state_result s candidates need)) = csPlaced s"
  by (intro conjI nth_equalityI) (simp_all add: state_result_def)

subsection \<open>The cost of the best cover\<close>

definition best_within :: "int \<Rightarrow> coverState option \<Rightarrow> bool" where
  "best_within k best \<longleftrightarrow> (\<exists>b. best = Some b \<and> csCost b \<le> k)"

lemma try_candidate_keeps:
  assumes "best_within k (fst e)"
  shows "best_within k (fst (try_candidate se s e c))"
proof -
  obtain b where b: "fst e = Some b" "csCost b \<le> k" using assms by (auto simp: best_within_def)
  obtain s' moved where ext: "extend se s c = (s', moved)" by fastforce
  from b show ?thesis
    by (cases e) (auto simp: try_candidate_def ext Let_def best_within_def)
qed

lemma try_candidates_keep: "best_within k (fst e) \<Longrightarrow> best_within k (fst (foldl (try_candidate se s) e cs))"
  by (rule foldl_invariant [where P = "\<lambda>e. best_within k (fst e)"]) (auto intro: try_candidate_keeps)

lemma expand_keeps:
  assumes "best_within k best"
  shows "best_within k (fst (expand se best states))"
  unfolding expand_def
  by (rule foldl_invariant [where P = "\<lambda>e. best_within k (fst e)"]) (auto simp: assms intro: try_candidates_keep)

lemma search_loop_keeps: "best_within k best \<Longrightarrow> best_within k (snd (search_loop iter se n states partial best))"
proof (induction n arbitrary: states partial best)
  case 0
  then show ?case by simp
next
  case (Suc n)
  obtain b e where e: "expand se best states = (b, e)" by fastforce
  with expand_keeps [OF Suc.prems, of se states] have "best_within k b" by simp
  then show ?case using Suc e by (simp add: Let_def)
qed

lemma try_candidate_complete:
  assumes "\<not> over_quota se s c" and "extend se s c = (s', True)" and "state_complete s' (seNeed se)"
  shows "best_within (csCost s') (fst (try_candidate se s e c))"
proof -
  obtain best expanded where e: "e = (best, expanded)" by fastforce
  show ?thesis
    using assms by (auto simp: try_candidate_def e Let_def best_within_def split: option.splits)
qed

lemma try_candidates_complete:
  assumes "\<not> over_quota se s c" and "extend se s c = (s', True)" and "state_complete s' (seNeed se)" and "c \<in> set cs"
  shows "best_within (csCost s') (fst (foldl (try_candidate se s) e cs))"
proof -
  obtain us vs where cs: "cs = us @ c # vs" using assms(4) by (meson split_list)
  have "best_within (csCost s') (fst (try_candidate se s (foldl (try_candidate se s) e us) c))"
    using assms(1-3) by (rule try_candidate_complete)
  then show ?thesis unfolding cs by (simp add: try_candidates_keep)
qed

lemma search_complete:
  assumes "\<not> over_quota se (start_state se) c" and "extend se (start_state se) c = (s', True)" and "state_complete s' (seNeed se)"
    and "c < length (seCandidates se)" and "0 < n"
  shows "best_within (csCost s') (snd (search_loop iter se n [start_state se] partial None))"
proof -
  obtain m where n: "n = Suc m" using assms(5) gr0_implies_Suc by blast
  obtain b e where e: "expand se None [start_state se] = (b, e)" by fastforce
  have "best_within (csCost s') (fst (expand se None [start_state se]))"
    unfolding expand_def using try_candidates_complete [OF assms(1-3)] assms(4) by simp
  then have "best_within (csCost s') b" by (simp add: e)
  then show ?thesis unfolding n by (simp add: e Let_def search_loop_keeps)
qed

subsection \<open>The contract of a cover\<close>

text \<open>The counts of each item a result leaves unplaced.\<close>

definition left_over :: "CoverNeed \<Rightarrow> CoverResult \<Rightarrow> nat \<Rightarrow> int" where
  "left_over need r i = ciCount (cnItems need ! i) - sum_list (map (\<lambda>v. cvPlaced v ! i) (rsNodes r))"

definition node_spare :: "CoverNeed \<Rightarrow> CoverNode \<Rightarrow> FleetCapacity" where
  "node_spare need v = Minus_cap (foUsable (cvOffer v)) (load_of (cnItems need) (cvPlaced v))"

definition counted_against :: "QuotaKey \<Rightarrow> CoverNode list \<Rightarrow> int" where
  "counted_against k nodes =
     sum_list (map (\<lambda>v. CatalogType_VCPUs (foType (cvOffer v))) (filter (\<lambda>v. foQuota (cvOffer v) = k) nodes))"

lemma Cover_state:
  assumes "need_ok need" and "\<forall>o'\<in>set offers. nonneg_cap (foUsable o')"
  obtains s where "Cover offers need cost limits = state_result s (coverCandidates offers need cost limits) need"
    and "state_ok (search_of offers need cost limits) s" and "length (csNodes s) \<le> nat (clNodes limits)"
proof -
  have "map_order (\<lambda>xs. xs)" by (simp add: map_order_def)
  from Cover_chosen [OF this, of offers need cost limits] obtain s where
    s: "Cover offers need cost limits = state_result s (coverCandidates offers need cost limits) need"
    "explored (search_of offers need cost limits) (nat (clNodes limits)) s"
    unfolding Cover_def by blast
  with that [of s] reached_ok search_of_ok [OF assms] show thesis
    by (auto simp: explored_def)
qed

lemma Cover_nodes:
  assumes "need_ok need" and "\<forall>o'\<in>set offers. nonneg_cap (foUsable o')" and v: "v \<in> set (rsNodes (Cover offers need cost limits))"
  shows "cvOffer v \<in> set offers" and "node_ok need limits (cvOffer v) (cvPlaced v)"
proof -
  let ?cs = "coverCandidates offers need cost limits"
  obtain s where s: "Cover offers need cost limits = state_result s ?cs need" "state_ok (search_of offers need cost limits) s"
    using assms(1,2) by (rule Cover_state)
  from v s(1) obtain c p where cp: "(c, p) \<in> set (zip (csNodes s) (csPlaced s))" "v = \<lparr>cvOffer = ?cs ! c, cvPlaced = p\<rparr>"
    by (auto simp: state_result_def)
  then have "c < length ?cs"
    using s(2) by (auto simp: state_ok_def dest: set_zip_leftD)
  then have "?cs ! c \<in> set ?cs" by simp
  then show "cvOffer v \<in> set offers"
    using coverCandidates_subset cp(2) by fastforce
  have "\<forall>(c, p)\<in>set (zip (csNodes s) (csPlaced s)). node_ok need limits (?cs ! c) p"
    using s(2) by (simp add: state_ok_def)
  with cp show "node_ok need limits (cvOffer v) (cvPlaced v)" by auto
qed

lemma Cover_counts:
  fixes offers need cost limits
  assumes "need_ok need" and "\<forall>o'\<in>set offers. nonneg_cap (foUsable o')"
  defines "r \<equiv> Cover offers need cost limits"
  shows "i < length (cnItems need) \<Longrightarrow> 0 \<le> left_over need r i"
    and "rsUnmetItems r = map (\<lambda>i. (cnItems need ! i)\<lparr>ciCount := left_over need r i\<rparr>)
           (filter (\<lambda>i. 0 < left_over need r i) [0..<length (cnItems need)])"
    and "Covers (cnAggregate need) (rsSupplied r)" and "nonneg_cap (rsSupplied r)"
    and "Covers (total_cap (map (node_spare need) (rsNodes r))) (rsSupplied r)"
proof -
  let ?cs = "coverCandidates offers need cost limits"
  obtain s where s: "r = state_result s ?cs need" and ok: "state_ok (search_of offers need cost limits) s"
    unfolding r_def using assms(1,2) by (rule Cover_state)
  have len: "length (csPlaced s) = length (csNodes s)" "length (csRemaining s) = length (cnItems need)"
    and sup: "Covers (cnAggregate need) (csSupplied s)" "nonneg_cap (csSupplied s)"
      "Covers (total_cap (map (spare (search_of offers need cost limits)) (zip (csNodes s) (csPlaced s)))) (csSupplied s)"
    using ok by (simp_all add: state_ok_def)
  have left: "left_over need r i = csRemaining s ! i" if "i < length (cnItems need)" for i
  proof -
    have "map (\<lambda>v. cvPlaced v ! i) (rsNodes r) = map (\<lambda>p. p ! i) (map cvPlaced (rsNodes r))"
      by simp
    also have "map cvPlaced (rsNodes r) = csPlaced s"
      using result_nodes [OF len(1), of ?cs need] by (simp add: s)
    finally have "map (\<lambda>v. cvPlaced v ! i) (rsNodes r) = map (\<lambda>p. p ! i) (csPlaced s)" .
    moreover have "csRemaining s ! i + sum_list (map (\<lambda>p. p ! i) (csPlaced s)) = ciCount (cnItems need ! i)"
      using ok that by (simp add: state_ok_def)
    ultimately show ?thesis by (simp add: left_over_def)
  qed
  show "0 \<le> left_over need r i" if "i < length (cnItems need)"
    using ok that left [OF that] len(2) by (simp add: state_ok_def)
  have unmet: "rsUnmetItems r = unmet_items s need"
    by (simp add: s state_result_def)
  have z: "zip (csRemaining s) (cnItems need) = map (\<lambda>i. (left_over need r i, cnItems need ! i)) [0..<length (cnItems need)]"
    using len(2) left by (intro nth_equalityI) simp_all
  show "rsUnmetItems r = map (\<lambda>i. (cnItems need ! i)\<lparr>ciCount := left_over need r i\<rparr>)
           (filter (\<lambda>i. 0 < left_over need r i) [0..<length (cnItems need)])"
    unfolding unmet unmet_items_def z by (simp add: filter_map comp_def)
  show "Covers (cnAggregate need) (rsSupplied r)" and "nonneg_cap (rsSupplied r)"
    using sup by (simp_all add: s state_result_def)
  have "map (node_spare need) (rsNodes r) = map (spare (search_of offers need cost limits)) (zip (csNodes s) (csPlaced s))"
    by (simp add: s state_result_def node_spare_def spare_def comp_def case_prod_unfold)
  moreover have "rsSupplied r = csSupplied s" by (simp add: s state_result_def)
  ultimately show "Covers (total_cap (map (node_spare need) (rsNodes r))) (rsSupplied r)"
    using sup(3) by (simp only:)
qed

lemma Cover_limits:
  fixes offers need cost limits
  assumes "need_ok need" and "\<forall>o'\<in>set offers. nonneg_cap (foUsable o')"
  defines "r \<equiv> Cover offers need cost limits"
  shows "int (length (rsNodes r)) \<le> max 0 (clNodes limits)"
    and "v \<in> set (rsNodes r) \<Longrightarrow> clVCPUs limits (foQuota (cvOffer v)) = Some limit \<Longrightarrow>
           counted_against (foQuota (cvOffer v)) (rsNodes r) \<le> limit"
proof -
  let ?cs = "coverCandidates offers need cost limits" and ?se = "search_of offers need cost limits"
  obtain s where s: "r = state_result s ?cs need" and ok: "state_ok ?se s" and n: "length (csNodes s) \<le> nat (clNodes limits)"
    unfolding r_def using assms(1,2) by (rule Cover_state)
  have len: "length (csPlaced s) = length (csNodes s)"
    using ok by (simp add: state_ok_def)
  show "int (length (rsNodes r)) \<le> max 0 (clNodes limits)"
    using n len by (simp add: s state_result_def)
  have use: "counted_against k (rsNodes r) = quota_use ?se (csNodes s) k" for k
  proof -
    have "counted_against k (rsNodes r)
        = sum_list (map (\<lambda>o'. CatalogType_VCPUs (foType o')) (filter (\<lambda>o'. foQuota o' = k) (map cvOffer (rsNodes r))))"
      by (simp add: counted_against_def filter_map comp_def)
    also have "map cvOffer (rsNodes r) = map (\<lambda>c. ?cs ! c) (csNodes s)"
      using result_nodes [OF len] by (simp add: s)
    finally show ?thesis by (simp add: quota_use_def filter_map comp_def)
  qed
  assume v: "v \<in> set (rsNodes r)" and lim: "clVCPUs limits (foQuota (cvOffer v)) = Some limit"
  from v obtain c where c: "c \<in> set (csNodes s)" "cvOffer v = ?cs ! c"
    by (auto simp: s state_result_def dest: set_zip_leftD)
  have "\<forall>c\<in>set (csNodes s). case clVCPUs limits (foQuota (?cs ! c)) of
          None \<Rightarrow> True | Some limit \<Rightarrow> quota_use ?se (csNodes s) (foQuota (?cs ! c)) \<le> limit"
    using ok unfolding state_ok_def search_of_parts by blast
  with c lim use show "counted_against (foQuota (cvOffer v)) (rsNodes r) \<le> limit" by auto
qed

text \<open>
  What the planner relies on when it buys a cover. Nothing here mentions the search: the planner's
  bounds hold for any provider of covers that keeps it.
\<close>

locale cover_provider =
  fixes cover :: "FleetOffer list \<Rightarrow> CoverNeed \<Rightarrow> (FleetOffer \<Rightarrow> int) \<Rightarrow> CoverLimits \<Rightarrow> CoverResult"
  assumes node_count: "need_ok need \<Longrightarrow> \<forall>o'\<in>set offers. nonneg_cap (foUsable o') \<Longrightarrow>
      int (length (rsNodes (cover offers need cost limits))) \<le> max 0 (clNodes limits)"
    and node_offer: "need_ok need \<Longrightarrow> \<forall>o'\<in>set offers. nonneg_cap (foUsable o') \<Longrightarrow>
      v \<in> set (rsNodes (cover offers need cost limits)) \<Longrightarrow> cvOffer v \<in> set offers"
    and node_holds: "need_ok need \<Longrightarrow> \<forall>o'\<in>set offers. nonneg_cap (foUsable o') \<Longrightarrow>
      v \<in> set (rsNodes (cover offers need cost limits)) \<Longrightarrow> node_ok need limits (cvOffer v) (cvPlaced v)"
    and node_quota: "need_ok need \<Longrightarrow> \<forall>o'\<in>set offers. nonneg_cap (foUsable o') \<Longrightarrow>
      v \<in> set (rsNodes (cover offers need cost limits)) \<Longrightarrow> clVCPUs limits (foQuota (cvOffer v)) = Some limit \<Longrightarrow>
      counted_against (foQuota (cvOffer v)) (rsNodes (cover offers need cost limits)) \<le> limit"
    and placed_counts: "need_ok need \<Longrightarrow> \<forall>o'\<in>set offers. nonneg_cap (foUsable o') \<Longrightarrow> i < length (cnItems need) \<Longrightarrow>
      0 \<le> left_over need (cover offers need cost limits) i"
begin

text \<open>No node takes more of an item than the need has.\<close>

lemma placed_at_most:
  assumes "need_ok need" and "\<forall>o'\<in>set offers. nonneg_cap (foUsable o')"
    and "v \<in> set (rsNodes (cover offers need cost limits))" and "i < length (cnItems need)"
  shows "0 \<le> cvPlaced v ! i" and "cvPlaced v ! i \<le> ciCount (cnItems need ! i)"
proof -
  let ?nodes = "rsNodes (cover offers need cost limits)"
  have pos: "0 \<le> cvPlaced u ! i" if "u \<in> set ?nodes" for u
    using node_holds [OF assms(1,2) that] assms(4) by (simp add: node_ok_def)
  show "0 \<le> cvPlaced v ! i" using pos assms(3) by blast
  have "cvPlaced v ! i \<le> sum_list (map (\<lambda>v. cvPlaced v ! i) ?nodes)"
    using assms(3) pos by (intro member_le_sum_list) auto
  then show "cvPlaced v ! i \<le> ciCount (cnItems need ! i)"
    using placed_counts [OF assms(1,2,4), of cost limits] by (simp add: left_over_def)
qed

text \<open>What a node holds fits in it, so the room it adds beyond its items is not negative.\<close>

lemma spare_nonneg:
  assumes "need_ok need" and "\<forall>o'\<in>set offers. nonneg_cap (foUsable o')"
    and "v \<in> set (rsNodes (cover offers need cost limits))"
  shows "nonneg_cap (node_spare need v)"
  using node_holds [OF assms] by (simp add: node_ok_def node_spare_def Minus_nonneg)

end

interpretation beam_cover: cover_provider Cover
  using Cover_limits Cover_nodes Cover_counts(1) by unfold_locales blast+

subsection \<open>Properties\<close>

text \<open>
  C13: every node \<open>Cover\<close> picks is one of the offers and holds what is placed on it: whole items
  of the market they ask for, within the node's usable room and disk slots, a riding item only
  beside one that does not ride, and of a size the size rule admits for the items and a share of the
  aggregate that the room they leave covers.
\<close>

theorem Cover_nodes_hold:
  assumes "need_ok need" and "\<forall>o'\<in>set offers. nonneg_cap (foUsable o')"
  shows "\<forall>v\<in>set (rsNodes (Cover offers need cost limits)).
           cvOffer v \<in> set offers \<and> node_ok need limits (cvOffer v) (cvPlaced v)"
  using beam_cover.node_offer [OF assms] beam_cover.node_holds [OF assms] by blast

text \<open>One instance type and a need of two containers.\<close>

definition demo_cover_offer :: FleetOffer where
  "demo_cover_offer = (demo_gpu_offer (cpuType ''m7i.large'' 2 8 True [100800, 117600, 100800, 100800]))
     \<lparr>foQuota := QK ''us-east-1'' (Some QuotaStandard) MarketSpot\<rparr>"

definition demo_cover_need :: CoverNeed where
  "demo_cover_need = \<lparr>cnItems = [\<lparr>ciShape = FC 500 gib 0, ciDisks = 1, ciCount = 2, ciMarket = None, ciRides = False\<rparr>],
     cnAggregate = NoCapacity\<rparr>"

definition demo_limits :: CoverLimits where
  "demo_limits = \<lparr>clNodes = 3, clVCPUs = (\<lambda>k. if k = foQuota demo_cover_offer then Some 4 else None), clSized = None\<rparr>"

lemma demo_cover_usable: "foUsable demo_cover_offer = FC 1000 7267084665 0"
  by (simp add: demo_cover_offer_def demo_gpu_offer_def Usable_def cpuType_def CatalogType_CPUMillis_def Topology_CPUMillis_def
      twoPerCore_def sdiv_div max_def)

lemma demo_cover_ok: "need_ok demo_cover_need" "\<forall>o'\<in>set [demo_cover_offer]. nonneg_cap (foUsable o')"
  by (simp_all add: need_ok_def demo_cover_need_def demo_cover_usable cap_simps)

lemma demo_cover: "map cvPlaced (rsNodes (Cover [demo_cover_offer] demo_cover_need foHourlyMicros demo_limits)) = [[2]]"
  by code_simp

theorem Cover_nodes_hold_witness:
  "\<exists>v. rsNodes (Cover [demo_cover_offer] demo_cover_need foHourlyMicros demo_limits) = [v]
     \<and> cvPlaced v = [2] \<and> node_ok demo_cover_need demo_limits (cvOffer v) (cvPlaced v)"
proof -
  obtain v where v: "rsNodes (Cover [demo_cover_offer] demo_cover_need foHourlyMicros demo_limits) = [v]" "cvPlaced v = [2]"
    using demo_cover by (auto simp: map_eq_Cons_conv)
  with Cover_nodes_hold [OF demo_cover_ok, of foHourlyMicros demo_limits] show ?thesis by auto
qed

text \<open>
  C15: \<open>Cover\<close> accounts for all it was asked: no item is placed more often than it was asked
  for, the unmet items are exactly the rest, in the need's order, and the supply it reports is within the
  aggregate asked for and within the room the items leave on the nodes.
\<close>

theorem Cover_accounts_for_need:
  assumes "need_ok need" and "\<forall>o'\<in>set offers. nonneg_cap (foUsable o')" and "r = Cover offers need cost limits"
  shows "(\<forall>i<length (cnItems need). 0 \<le> left_over need r i)
     \<and> rsUnmetItems r = map (\<lambda>i. (cnItems need ! i)\<lparr>ciCount := left_over need r i\<rparr>)
          (filter (\<lambda>i. 0 < left_over need r i) [0..<length (cnItems need)])
     \<and> Covers (cnAggregate need) (rsSupplied r)
     \<and> Covers (total_cap (map (node_spare need) (rsNodes r))) (rsSupplied r)"
  using Cover_counts [OF assms(1,2), where cost = cost and limits = limits] unfolding assms(3) by blast

theorem Cover_accounts_for_need_witness:
  "left_over demo_cover_need (Cover [demo_cover_offer] demo_cover_need foHourlyMicros demo_limits) 0 = 0
   \<and> rsUnmetItems (Cover [demo_cover_offer] demo_cover_need foHourlyMicros demo_limits) = []"
proof -
  let ?r = "Cover [demo_cover_offer] demo_cover_need foHourlyMicros demo_limits"
  have "sum_list (map (\<lambda>v. cvPlaced v ! 0) (rsNodes ?r)) = sum_list (map (\<lambda>p. p ! 0) (map cvPlaced (rsNodes ?r)))"
    by (simp add: comp_def)
  then have l: "left_over demo_cover_need ?r 0 = 0"
    unfolding demo_cover by (simp add: left_over_def demo_cover_need_def)
  with Cover_accounts_for_need [OF demo_cover_ok refl, of foHourlyMicros demo_limits] show ?thesis
    by (simp add: demo_cover_need_def)
qed

text \<open>
  \<open>Cover\<close> stays within its limits: it picks at most \<open>Nodes\<close> nodes, and the nodes of a known
  quota together count at most the vCPUs it has left.
\<close>

theorem Cover_within_limits:
  assumes "need_ok need" and "\<forall>o'\<in>set offers. nonneg_cap (foUsable o')" and "r = Cover offers need cost limits"
  shows "int (length (rsNodes r)) \<le> max 0 (clNodes limits)
     \<and> (\<forall>v\<in>set (rsNodes r). \<forall>limit. clVCPUs limits (foQuota (cvOffer v)) = Some limit
          \<longrightarrow> counted_against (foQuota (cvOffer v)) (rsNodes r) \<le> limit)"
  unfolding assms(3) using beam_cover.node_count [OF assms(1,2)] beam_cover.node_quota [OF assms(1,2)] by blast

theorem Cover_within_limits_witness:
  "int (length (rsNodes (Cover [demo_cover_offer] demo_cover_need foHourlyMicros demo_limits))) \<le> max 0 (clNodes demo_limits)"
  using Cover_within_limits [OF demo_cover_ok refl] by blast

text \<open>
  C36: whatever order Go ranges over the map of partial covers in, \<open>Cover\<close> returns the same nodes: sorting
  the covers by ratio, cost and nodes leaves no ties, since the nodes determine a cover.
\<close>

theorem Cover_map_order_irrelevant:
  assumes "map_order iter"
  shows "Cover_iter iter offers need cost limits = Cover offers need cost limits"
proof -
  let ?se = "search_of offers need cost limits"
  have start: "explored ?se 0 (start_state ?se)"
    using reached.start [of ?se] by (simp add: explored_def) (simp add: start_state_def)
  then have "search_loop iter ?se n [start_state ?se] (start_state ?se) None
      = search_loop (\<lambda>xs. xs) ?se n [start_state ?se] (start_state ?se) None" for n
    by (intro search_loop_order [OF assms, where d = 0]) (simp_all add: loop_ok_def)
  then show ?thesis by (simp add: Cover_def Cover_iter_def Let_def)
qed

theorem Cover_map_order_irrelevant_witness:
  "map_order (rev :: (state_key \<times> coverState) list \<Rightarrow> _)
   \<and> Cover_iter rev [demo_cover_offer] demo_cover_need foHourlyMicros demo_limits
     = Cover [demo_cover_offer] demo_cover_need foHourlyMicros demo_limits"
proof -
  have "map_order (rev :: (state_key \<times> coverState) list \<Rightarrow> _)" by (simp add: map_order_def)
  with Cover_map_order_irrelevant show ?thesis by blast
qed

text \<open>
  When one candidate alone meets the need within the limits, \<open>Cover\<close> returns a complete
  cover, and one that costs no more than that candidate: several cheaper nodes may beat it, a dearer cover
  never replaces it.
\<close>

theorem Cover_beats_single_node:
  assumes "1 \<le> clNodes limits" and "c < length (coverCandidates offers need cost limits)"
    and "\<not> over_quota (search_of offers need cost limits) (start_state (search_of offers need cost limits)) c"
    and "extend (search_of offers need cost limits) (start_state (search_of offers need cost limits)) c = (s, True)"
    and "state_complete s need" and "need_ok need" and "\<forall>o'\<in>set offers. nonneg_cap (foUsable o')"
  shows "Complete (Cover offers need cost limits) need
     \<and> sum_list (map (\<lambda>v. cost (cvOffer v)) (rsNodes (Cover offers need cost limits)))
       \<le> cost (coverCandidates offers need cost limits ! c)"
proof -
  let ?se = "search_of offers need cost limits" and ?cs = "coverCandidates offers need cost limits"
  have "map_order (\<lambda>xs. xs)" by (simp add: map_order_def)
  from Cover_chosen [OF this, of offers need cost limits] obtain t best where t: "Cover offers need cost limits = state_result t ?cs need"
      and ex: "explored ?se (nat (clNodes limits)) t"
      and b: "snd (search_loop (\<lambda>xs. xs) ?se (nat (clNodes limits)) [start_state ?se] (start_state ?se) None) = best"
      and best: "best = None \<or> best = Some t \<and> state_complete t need"
    unfolding Cover_def by blast
  have "best_within (csCost s) best"
    unfolding b [symmetric] using assms(1-5) by (intro search_complete) simp_all
  with best have c: "state_complete t need" "csCost t \<le> csCost s"
    by (auto simp: best_within_def)
  have ok: "state_ok ?se t"
    using ex reached_ok search_of_ok [OF assms(6,7)] by (auto simp: explored_def)
  have "sum_list (map (\<lambda>v. cost (cvOffer v)) (rsNodes (Cover offers need cost limits)))
      = sum_list (map cost (map cvOffer (rsNodes (Cover offers need cost limits))))"
    by (simp add: comp_def)
  also have "map cvOffer (rsNodes (Cover offers need cost limits)) = map (\<lambda>c. ?cs ! c) (csNodes t)"
    using result_nodes [of t ?cs need] ok by (simp add: t state_ok_def)
  also have "sum_list (map cost (map (\<lambda>c. ?cs ! c) (csNodes t))) = csCost t"
    using ok by (simp add: state_ok_def comp_def)
  finally have "sum_list (map (\<lambda>v. cost (cvOffer v)) (rsNodes (Cover offers need cost limits))) = csCost t" .
  moreover have "csCost s = cost (?cs ! c)"
    using extend_parts(4) [OF assms(4)] by (simp add: start_state_def)
  ultimately show ?thesis
    using c state_result_complete [of t ?cs need] t by simp
qed

theorem Cover_beats_single_node_witness:
  "Complete (Cover [demo_cover_offer] demo_cover_need foHourlyMicros demo_limits) demo_cover_need
   \<and> sum_list (map (\<lambda>v. foHourlyMicros (cvOffer v)) (rsNodes (Cover [demo_cover_offer] demo_cover_need foHourlyMicros demo_limits))) \<le> 1"
proof -
  let ?se = "search_of [demo_cover_offer] demo_cover_need foHourlyMicros demo_limits"
  obtain s moved where e: "extend ?se (start_state ?se) 0 = (s, moved)" by fastforce
  have "snd (extend ?se (start_state ?se) 0) \<and> state_complete (fst (extend ?se (start_state ?se) 0)) demo_cover_need
      \<and> \<not> over_quota ?se (start_state ?se) 0 \<and> 1 \<le> clNodes demo_limits
      \<and> map foHourlyMicros (coverCandidates [demo_cover_offer] demo_cover_need foHourlyMicros demo_limits) = [1]"
    by code_simp
  then have f: "moved" "state_complete s demo_cover_need" "\<not> over_quota ?se (start_state ?se) 0" "1 \<le> clNodes demo_limits"
    and cs: "map foHourlyMicros (coverCandidates [demo_cover_offer] demo_cover_need foHourlyMicros demo_limits) = [1]"
    by (simp_all add: e)
  then have c: "0 < length (coverCandidates [demo_cover_offer] demo_cover_need foHourlyMicros demo_limits)"
    "foHourlyMicros (coverCandidates [demo_cover_offer] demo_cover_need foHourlyMicros demo_limits ! 0) = 1"
    by auto
  show ?thesis
    using Cover_beats_single_node [OF f(4) c(1) f(3) _ f(2) demo_cover_ok] e f(1) c(2) by simp
qed

end
