(* ===== verification/Target.thy ===== *)
theory Target
  imports Cover
begin

text \<open>
  What one planning pass reads (\<open>FleetSnapshot\<close> and its parts, of
  \<open>internal/compute/fleet_plan.go\<close>) and the targets each market gets from it
  (\<open>internal/compute/fleet_target.go\<close>).

  The maps of the snapshot are functions whose value for an absent key is Go's zero value. A
  zero \<open>time.Time\<close>, the first instant of year 1, is \<open>zero_time\<close>, and \<open>ShortSince\<close>, which is only
  tested for zero, is an \<open>option\<close>. A market's view extends its target as the Go struct embeds it; the
  hosts it keeps, pointers into the pass's hosts, are indices.
\<close>

record LoadPeak =
  lpLoad :: FleetCapacity
  lpAt :: time

definition hold :: "LoadPeak \<Rightarrow> FleetCapacity \<Rightarrow> time \<Rightarrow> duration \<Rightarrow> LoadPeak" where
  "hold p v now window =
     (if v = lpLoad p then p
      else if Covers v (lpLoad p) \<or> now - lpAt p \<ge> window then \<lparr>lpLoad = v, lpAt = now\<rparr>
      else \<lparr>lpLoad = Upper (lpLoad p) v, lpAt = lpAt p\<rparr>)"

record MarketHolds =
  mhRunning :: LoadPeak
  mhStopped :: LoadPeak
  mhShortSince :: "time option"

definition NoPeak :: LoadPeak where
  "NoPeak = \<lparr>lpLoad = NoCapacity, lpAt = zero_time\<rparr>"

definition NoHolds :: MarketHolds where
  "NoHolds = \<lparr>mhRunning = NoPeak, mhStopped = NoPeak, mhShortSince = None\<rparr>"

record PendingContainer =
  pdID :: uuid
  pdSince :: time
  pdHost :: "HostID option"

record DemandGroup =
  dgNeed :: Requirement
  dgContainers :: "PendingContainer list"

record FleetSnapshot =
  fsNow :: time
  fsHosts :: "FleetHost list"
  fsPending :: "DemandGroup list"
  fsRecent :: "ReserveMarket \<Rightarrow> FleetCapacity"
  fsStarted :: "ReserveMarket \<Rightarrow> FleetCapacity"
  fsBurst :: "ReserveMarket \<Rightarrow> FleetCapacity"
  fsArrived :: "ReserveMarket \<Rightarrow> FleetCapacity"
  fsRecentDisks :: "ReserveMarket \<Rightarrow> int"
  fsOffers :: OfferInputs
  fsHostRoom :: int
  fsReserveRoom :: int
  fsBatchWait :: duration
  fsHolds :: "ReserveMarket \<Rightarrow> MarketHolds"
  fsAtLossSpent :: int

text \<open>\<open>coverItem\<close>: a pending container during the cover, and the index of its wait.\<close>

record pendingItem =
  itID :: uuid
  itSince :: time
  itNeed :: Requirement
  itMarket :: ReserveMarket
  itBought :: "HostID option"
  itWait :: nat

record marketTarget =
  mtM :: ReserveMarket
  mtLoad :: FleetCapacity
  mtWant :: FleetCapacity
  mtArriving :: bool
  mtHolds :: MarketHolds
  mtHeadroom :: FleetCapacity
  mtFloor :: FleetCapacity
  mtPart :: FleetCapacity
  mtHeldParts :: "FleetCapacity list"
  mtWantParts :: "FleetCapacity list"
  mtLargest :: FleetCapacity
  mtLargestDisks :: int
  mtLoaded :: bool

datatype CapacityWait =
    WaitNone | WaitProvisioning | WaitLimit | WaitBatch | WaitDeferred | WaitQuota | WaitCooldown | WaitMargin
  | WaitNoOffer | WaitDemand | WaitKeep | WaitReturning

record marketView = marketTarget +
  mvKept :: "nat list"
  mvCapacity :: FleetCapacity
  mvCovered :: FleetCapacity
  mvUnplaced :: "FleetCapacity list"
  mvRetired :: "HostID list"
  mvShortfall :: FleetCapacity
  mvStoppedShort :: FleetCapacity
  mvRunningReason :: CapacityWait
  mvStoppedReason :: CapacityWait

definition marketLoad :: "FleetHost list \<Rightarrow> ReserveMarket \<Rightarrow> FleetCapacity" where
  "marketLoad hosts m =
     foldl (\<lambda>load h.
       let load = (if host_market h = m then Plus_cap load (Minus_cap (fhLoad h) (fhPacked h)) else load)
       in if spotCPU m then Plus_cap load (fhPacked h) else load) NoCapacity hosts"

text \<open>The load, largest shape and most disks of a market once its pending containers are counted.\<close>

definition market_demand :: "FleetSnapshot \<Rightarrow> FleetHost list \<Rightarrow> ReserveMarket \<Rightarrow> pendingItem list
    \<Rightarrow> FleetCapacity \<times> FleetCapacity \<times> int" where
  "market_demand s hosts m items =
     foldl (\<lambda>(load, largest, disks) it.
       if itMarket it = m
       then (Plus_cap load (reservedShape (itNeed it)), Upper largest (reservedShape (itNeed it)), max disks (rDisks (itNeed it)))
       else (load, largest, disks))
     (marketLoad hosts m, fsRecent s m, fsRecentDisks s m) items"

text \<open>The floor and the headroom of a market, and whether arrivals set the headroom.\<close>

definition warm_headroom :: "Policy \<Rightarrow> FleetSnapshot \<Rightarrow> ReserveMarket \<Rightarrow> FleetCapacity \<Rightarrow> FleetCapacity \<times> FleetCapacity \<times> bool" where
  "warm_headroom p s m load =
     (let r = Policy_Reserve p m;
          base = htFloor (mrWarm r);
          share = Percent load (htLoadPercent (mrWarm r));
          flr = (if Empty_cap base then base else Upper base (Lower (fsStarted s m) (lsCap (pLargestShape p))));
          warm = (if Empty_cap base then Upper base share else Upper (Upper flr share) (fsBurst s m))
      in if spotCPU m \<and> mrWarm r \<noteq> NoTarget
         then let arrivals = Plus_cap flr (fsArrived s m)
              in (flr, Upper warm arrivals, \<not> Empty_cap (fsArrived s m) \<and> Covers arrivals warm)
         else (flr, warm, False))"

definition target :: "Policy \<Rightarrow> FleetSnapshot \<Rightarrow> FleetHost list \<Rightarrow> ReserveMarket \<Rightarrow> pendingItem list \<Rightarrow> marketTarget" where
  "target p s hosts m items =
     (let (load, largest0, disks) = market_demand s hosts m items;
          r = Policy_Reserve p m;
          (flr, warm, arriving) = warm_headroom p s m load;
          want = Plus_cap load warm;
          run = hold (mhRunning (fsHolds s m)) want (fsNow s) (pKeep p);
          (largest, largestDisks) = (if mrFitLargest r then LargestShape_of (pLargestShape p) m largest0 disks (oiCatalog (fsOffers s))
                                     else (NoCapacity, 0));
          stopped0 = HeadroomTarget_Of (mrStopped r) load;
          stopped = (if mrFitLargest r then Upper stopped0 (Plus_cap (htFloor (mrStopped r)) largest) else stopped0);
          held = hold (mhStopped (fsHolds s m)) stopped (fsNow s) (pCostHorizon p);
          part = (if Empty_cap largest then Lower flr (lsCap (pLargestShape p)) else largest)
      in \<lparr>mtM = m, mtLoad = load, mtWant = want, mtArriving = arriving,
          mtHolds = \<lparr>mhRunning = run, mhStopped = held, mhShortSince = mhShortSince (fsHolds s m)\<rparr>,
          mtHeadroom = warm, mtFloor = flr, mtPart = part,
          mtHeldParts = split_cap (Clamp (Minus_cap (lpLoad run) load)) part, mtWantParts = split_cap warm part,
          mtLargest = largest, mtLargestDisks = largestDisks,
          mtLoaded = (mrFitLargest r \<and> \<not> Covers (Plus_cap (htFloor (mrStopped r)) largest) (lpLoad held))\<rparr>)"

definition view_of_target :: "marketTarget \<Rightarrow> marketView" where
  "view_of_target t = marketTarget.extend t
     \<lparr>mvKept = [], mvCapacity = NoCapacity, mvCovered = NoCapacity, mvUnplaced = [], mvRetired = [],
      mvShortfall = NoCapacity, mvStoppedShort = NoCapacity, mvRunningReason = WaitNone, mvStoppedReason = WaitNone\<rparr>"

definition add_market :: "ReserveMarket list \<Rightarrow> ReserveMarket \<Rightarrow> ReserveMarket list" where
  "add_market ms m = (if m \<in> set ms then ms else ms @ [m])"

text \<open>The markets of a pass: the policy's in its order, then those only a host or a container names.\<close>

definition pass_markets :: "Policy \<Rightarrow> FleetHost list \<Rightarrow> pendingItem list \<Rightarrow> ReserveMarket list" where
  "pass_markets p hosts items =
     (let known = Policy_Markets p; all = foldl add_market (foldl add_market known (map host_market hosts)) (map itMarket items)
      in known @ sort_key ReserveMarket_String (drop (length known) all))"

definition market_targets :: "Policy \<Rightarrow> FleetSnapshot \<Rightarrow> FleetHost list \<Rightarrow> pendingItem list \<Rightarrow> (ReserveMarket \<times> marketView) list" where
  "market_targets p s hosts items =
     map (\<lambda>m. (m, view_of_target (target p s hosts m items))) (pass_markets p hosts items)"

subsection \<open>Held targets\<close>

lemma hold_covers_value: "Covers (lpLoad (hold p v now window)) v"
  by (simp add: hold_def Upper_covers)

lemma hold_keeps:
  assumes "now - lpAt p < window"
  shows "Covers (lpLoad (hold p v now window)) (lpLoad p)"
  using assms by (auto simp: hold_def Upper_covers)

lemma hold_at:
  assumes "lpAt p \<le> now"
  shows "lpAt p \<le> lpAt (hold p v now window)" and "lpAt (hold p v now window) \<le> now"
  using assms by (auto simp: hold_def)

text \<open>The peak after a sequence of passes, each with the value it computes and its time.\<close>

definition hold_all :: "LoadPeak \<Rightarrow> duration \<Rightarrow> (FleetCapacity \<times> time) list \<Rightarrow> LoadPeak" where
  "hold_all p window passes = foldl (\<lambda>p (v, now). hold p v now window) p passes"

lemma hold_all_keeps:
  assumes "\<forall>(v, now)\<in>set passes. lpAt p \<le> now \<and> now - lpAt p < window"
  shows "Covers (lpLoad (hold_all p window passes)) (lpLoad p)
     \<and> (\<forall>(v, now)\<in>set passes. Covers (lpLoad (hold_all p window passes)) v)
     \<and> lpAt p \<le> lpAt (hold_all p window passes)"
  using assms
proof (induction passes rule: rev_induct)
  case Nil
  then show ?case by (simp add: hold_all_def)
next
  case (snoc x passes)
  obtain v now where x: "x = (v, now)" by fastforce
  let ?q = "hold_all p window passes"
  have IH: "Covers (lpLoad ?q) (lpLoad p)" "\<forall>(v, now)\<in>set passes. Covers (lpLoad ?q) v" "lpAt p \<le> lpAt ?q"
    using snoc by auto
  have now: "lpAt p \<le> now" "now - lpAt p < window"
    using snoc.prems by (auto simp: x)
  have e: "hold_all p window (passes @ [x]) = hold ?q v now window"
    by (simp add: hold_all_def x)
  have k: "Covers (lpLoad (hold ?q v now window)) (lpLoad ?q)"
    using now IH(3) by (intro hold_keeps) simp
  show ?case
  proof (intro conjI)
    show "Covers (lpLoad (hold_all p window (passes @ [x]))) (lpLoad p)"
      unfolding e using k IH(1) by (rule Covers_trans)
    have "\<forall>(v', now')\<in>set passes. Covers (lpLoad (hold ?q v now window)) v'"
      using IH(2) Covers_trans [OF k] by auto
    then show "\<forall>(v', now')\<in>set (passes @ [x]). Covers (lpLoad (hold_all p window (passes @ [x]))) v'"
      unfolding e by (simp add: x hold_covers_value)
    show "lpAt p \<le> lpAt (hold_all p window (passes @ [x]))"
      unfolding e using now IH(3) by (auto simp: hold_def)
  qed
qed

subsection \<open>Markets\<close>

lemma add_market_all:
  "\<exists>new. foldl add_market ms xs = ms @ new \<and> set (ms @ new) = set ms \<union> set xs \<and> (distinct ms \<longrightarrow> distinct (ms @ new))"
proof (induction xs arbitrary: ms)
  case Nil
  then show ?case by simp
next
  case (Cons x xs)
  define old where "old = (if x \<in> set ms then [] else [x])"
  have a: "add_market ms x = ms @ old" by (simp add: add_market_def old_def)
  obtain new where n: "foldl add_market (ms @ old) xs = (ms @ old) @ new"
      "set ((ms @ old) @ new) = set (ms @ old) \<union> set xs" "distinct (ms @ old) \<longrightarrow> distinct ((ms @ old) @ new)"
    using Cons.IH by blast
  have o: "set ms \<union> set old = insert x (set ms)" "distinct ms \<longrightarrow> distinct (ms @ old)"
    by (auto simp: old_def)
  have "foldl add_market ms (x # xs) = ms @ (old @ new)"
    using n(1) by (simp add: a)
  moreover have "set (ms @ (old @ new)) = set ms \<union> set (x # xs)"
    using n(2) o(1) by (simp add: Un_assoc [symmetric])
  moreover have "distinct ms \<longrightarrow> distinct (ms @ (old @ new))"
    using n(3) o(2) by simp
  ultimately show ?case by blast
qed

lemma pass_markets_set:
  "set (pass_markets p hosts items) = set (Policy_Markets p) \<union> host_market ` set hosts \<union> itMarket ` set items"
  and pass_markets_distinct: "distinct (Policy_Markets p) \<Longrightarrow> distinct (pass_markets p hosts items)"
proof -
  let ?known = "Policy_Markets p"
  obtain n1 where n1: "foldl add_market ?known (map host_market hosts) = ?known @ n1"
      "set (?known @ n1) = set ?known \<union> set (map host_market hosts)" "distinct ?known \<longrightarrow> distinct (?known @ n1)"
    using add_market_all by blast
  obtain n2 where n2: "foldl add_market (?known @ n1) (map itMarket items) = (?known @ n1) @ n2"
      "set ((?known @ n1) @ n2) = set (?known @ n1) \<union> set (map itMarket items)"
      "distinct (?known @ n1) \<longrightarrow> distinct ((?known @ n1) @ n2)"
    using add_market_all by blast
  have e: "pass_markets p hosts items = ?known @ sort_key ReserveMarket_String (n1 @ n2)"
    by (simp add: pass_markets_def Let_def n1(1) n2(1))
  show "set (pass_markets p hosts items) = set ?known \<union> host_market ` set hosts \<union> itMarket ` set items"
    using n1(2) n2(2) by (simp add: e Un_assoc)
  show "distinct (pass_markets p hosts items)" if "distinct ?known"
    using n1(3) n2(3) that by (simp add: e)
qed

lemma market_targets_lookup:
  assumes "distinct (Policy_Markets p)" and "m \<in> set (pass_markets p hosts items)"
  shows "map_of (market_targets p s hosts items) m = Some (view_of_target (target p s hosts m items))"
proof -
  have look: "map_of (map (\<lambda>m. (m, f m)) ms) m = Some (f m)" if "m \<in> set ms" for f and ms :: "ReserveMarket list"
    using that by (induction ms) auto
  show ?thesis unfolding market_targets_def by (rule look [OF assms(2)])
qed

lemma view_of_target_sel [simp]:
  "mtM (view_of_target t) = mtM t" "mtLoad (view_of_target t) = mtLoad t" "mtWant (view_of_target t) = mtWant t"
  by (simp_all add: view_of_target_def marketTarget.extend_def)

lemma warm_headroom_covers:
  assumes "warm_headroom p s m load = (flr, warm, arriving)"
  shows "Covers warm flr" and "\<not> Empty_cap (htFloor (mrWarm (Policy_Reserve p m))) \<Longrightarrow> Covers warm (fsBurst s m)"
proof -
  let ?r = "Policy_Reserve p m"
  let ?base = "htFloor (mrWarm ?r)" and ?share = "Percent load (htLoadPercent (mrWarm ?r))"
  define f where "f = (if Empty_cap ?base then ?base else Upper ?base (Lower (fsStarted s m) (lsCap (pLargestShape p))))"
  define w where "w = (if Empty_cap ?base then Upper ?base ?share else Upper (Upper f ?share) (fsBurst s m))"
  have wf: "Covers w f" and wb: "\<not> Empty_cap ?base \<Longrightarrow> Covers w (fsBurst s m)"
    unfolding w_def f_def using Covers_trans [OF Upper_covers(1) Upper_covers(1)] Upper_covers by (simp_all split: if_splits)
  have e: "flr = f" "warm = w \<or> warm = Upper w (Plus_cap f (fsArrived s m))"
    using assms unfolding warm_headroom_def Let_def f_def [symmetric] w_def [symmetric] by (auto split: if_splits)
  then have "Covers warm w" using Upper_covers(1) by auto
  with wf wb e(1) show "Covers warm flr" and "\<not> Empty_cap ?base \<Longrightarrow> Covers warm (fsBurst s m)"
    by (auto intro: Covers_trans)
qed

subsection \<open>Properties\<close>

text \<open>
  A held target rises at once and falls only after its window. Through any sequence of passes
  within the window of a peak, the held capacity covers the peak and every value a pass computed.
\<close>

theorem hold_within_window:
  assumes "\<forall>(v, now)\<in>set passes. lpAt p \<le> now \<and> now - lpAt p < window"
  shows "Covers (lpLoad (hold_all p window passes)) (lpLoad p)
     \<and> (\<forall>(v, now)\<in>set passes. Covers (lpLoad (hold_all p window passes)) v)"
  using hold_all_keeps [OF assms] by blast

theorem hold_within_window_witness:
  "Covers (lpLoad (hold_all \<lparr>lpLoad = FC 4 4 0, lpAt = 0\<rparr> 10 [(FC 1 8 0, 3), (FC 2 2 0, 9)])) (FC 4 4 0)
   \<and> lpLoad (hold_all \<lparr>lpLoad = FC 4 4 0, lpAt = 0\<rparr> 10 [(FC 1 8 0, 3), (FC 2 2 0, 9)]) = FC 4 8 0"
proof -
  have "\<forall>(v, now)\<in>set [(FC 1 8 0, 3), (FC 2 2 0, 9)]. lpAt \<lparr>lpLoad = FC 4 4 0, lpAt = 0\<rparr> \<le> now \<and> now - lpAt \<lparr>lpLoad = FC 4 4 0, lpAt = 0\<rparr> < 10"
    by simp
  from hold_within_window [OF this] show ?thesis
    by (simp add: hold_all_def hold_def cap_simps)
qed

text \<open>
  The window counts from the last change of the peak, not from when the market last needed what
  it holds: a load that stays at its peak past the window and then dips falls at once, however recently
  the whole peak was needed.
\<close>

theorem hold_steady_peak_falls_at_once:
  assumes "lpAt p + window \<le> t2" and "t1 \<le> t2" and "v \<noteq> lpLoad p"
  shows "lpLoad (hold (hold p (lpLoad p) t1 window) v t2 window) = v"
  using assms by (simp add: hold_def)

theorem hold_steady_peak_falls_at_once_witness:
  "lpLoad (hold (hold \<lparr>lpLoad = FC 8 8 0, lpAt = 0\<rparr> (FC 8 8 0) 10 10) (FC 1 1 0) 11 10) = FC 1 1 0"
  using hold_steady_peak_falls_at_once [of "\<lparr>lpLoad = FC 8 8 0, lpAt = 0\<rparr>" 10 11 10 "FC 1 1 0"] by simp

text \<open>
  A market's targets cover what it needs. The running target asked for is the load and its
  headroom, and the held one covers it; the headroom covers the floor and, in a market with a
  floor, the largest recent batch; the parts the headroom is held in together cover it; and every market a host or a
  pending container belongs to has a target.
\<close>

theorem target_covers_load_and_headroom:
  assumes "nonneg_cap (mtHeadroom (target p s hosts m items))" and "\<not> Empty_cap (mtHeadroom (target p s hosts m items))"
    and "m \<in> host_market ` set hosts \<union> itMarket ` set items" and "distinct (Policy_Markets p)"
  defines "t \<equiv> target p s hosts m items"
  shows "mtWant t = Plus_cap (mtLoad t) (mtHeadroom t)
     \<and> Covers (lpLoad (mhRunning (mtHolds t))) (mtWant t)
     \<and> Covers (mtHeadroom t) (mtFloor t)
     \<and> (\<not> Empty_cap (htFloor (mrWarm (Policy_Reserve p m))) \<longrightarrow> Covers (mtHeadroom t) (fsBurst s m))
     \<and> Covers (total_cap (mtWantParts t)) (mtHeadroom t)
     \<and> map_of (market_targets p s hosts items) m = Some (view_of_target t)"
proof (intro conjI impI)
  obtain load largest disks where d: "market_demand s hosts m items = (load, largest, disks)"
    by (cases "market_demand s hosts m items") auto
  obtain flr warm arriving where w: "warm_headroom p s m load = (flr, warm, arriving)"
    by (cases "warm_headroom p s m load") auto
  obtain lg ld where l: "(if mrFitLargest (Policy_Reserve p m)
      then LargestShape_of (pLargestShape p) m largest disks (oiCatalog (fsOffers s)) else (NoCapacity, 0)) = (lg, ld)"
    by fastforce
  have t: "mtLoad t = load" "mtHeadroom t = warm" "mtFloor t = flr" "mtWant t = Plus_cap load warm"
      "mhRunning (mtHolds t) = hold (mhRunning (fsHolds s m)) (Plus_cap load warm) (fsNow s) (pKeep p)"
      "mtWantParts t = split_cap warm (mtPart t)"
    unfolding t_def target_def d w prod.case Let_def l by simp_all
  show "mtWant t = Plus_cap (mtLoad t) (mtHeadroom t)" by (simp add: t)
  show "Covers (lpLoad (mhRunning (mtHolds t))) (mtWant t)" by (simp add: t hold_covers_value)
  show "Covers (mtHeadroom t) (mtFloor t)"
    using warm_headroom_covers(1) [OF w] by (simp add: t)
  show "Covers (mtHeadroom t) (fsBurst s m)" if "\<not> Empty_cap (htFloor (mrWarm (Policy_Reserve p m)))"
    using warm_headroom_covers(2) [OF w that] by (simp add: t)
  show "Covers (total_cap (mtWantParts t)) (mtHeadroom t)"
    using split_cap_covers assms(1,2) unfolding t_def [symmetric] t by blast
  have "m \<in> set (pass_markets p hosts items)"
    using assms(3) by (auto simp: pass_markets_set)
  then show "map_of (market_targets p s hosts items) m = Some (view_of_target t)"
    unfolding t_def using assms(4) by (intro market_targets_lookup)
qed

definition demo_snapshot :: FleetSnapshot where
  "demo_snapshot =
     \<lparr>fsNow = 0, fsHosts = [], fsPending = [], fsRecent = (\<lambda>_. NoCapacity), fsStarted = (\<lambda>_. NoCapacity), fsBurst = (\<lambda>_. NoCapacity),
      fsArrived = (\<lambda>_. NoCapacity), fsRecentDisks = (\<lambda>_. 0), fsOffers = demo_inputs, fsHostRoom = 4, fsReserveRoom = 4,
      fsBatchWait = 0, fsHolds = (\<lambda>_. NoHolds), fsAtLossSpent = 0\<rparr>"

definition demo_item :: pendingItem where
  "demo_item = \<lparr>itID = 1, itSince = 0, itNeed = demo_work, itMarket = RM False [], itBought = None, itWait = 0\<rparr>"

theorem target_covers_load_and_headroom_witness:
  "mtWant (target DefaultPolicy demo_snapshot [] (RM False []) [demo_item]) = FC 2000 (5 * gib) 0
   \<and> Covers (lpLoad (mhRunning (mtHolds (target DefaultPolicy demo_snapshot [] (RM False []) [demo_item])))) (FC 2000 (5 * gib) 0)"
proof -
  let ?t = "target DefaultPolicy demo_snapshot [] (RM False []) [demo_item]"
  have w: "mtWant ?t = FC 2000 (5 * gib) 0" "nonneg_cap (mtHeadroom ?t)" "\<not> Empty_cap (mtHeadroom ?t)"
    by code_simp+
  have "distinct (Policy_Markets DefaultPolicy)" by (simp add: default_markets)
  moreover have "RM False [] \<in> host_market ` set [] \<union> itMarket ` set [demo_item]" by (simp add: demo_item_def)
  ultimately have "Covers (lpLoad (mhRunning (mtHolds ?t))) (mtWant ?t)"
    using target_covers_load_and_headroom [OF w(2,3)] by blast
  with w(1) show ?thesis by simp
qed

end
