(* ===== verification/PlanState.thy ===== *)
theory PlanState
  imports Target
begin

text \<open>
  The state of one planning pass (\<open>pass\<close> of \<open>internal/compute/fleet_plan.go\<close>), what a pass reads from it and the
  steps that record a decision in it.

  Hosts are updated in place, so a pointer to one is its index in \<open>paHosts\<close>. \<open>byMarket\<close> is the
  association list \<open>paViews\<close>, which has an entry for the market of every host and pending container; reading
  another one is the nil dereference of the code. The maps \<open>offers\<close> and \<open>spotOffers\<close> only hold on to answers
  that depend on what is fixed for the pass, so the model computes the answer again. An id is a
  number, and the order of ids as text is the order of the numbers.
\<close>

subsection \<open>Actions and plans\<close>

datatype FleetActionKind =
    ActionResume | ActionBuy | ActionBuyReserve | ActionReturnToReserve | ActionDrain | ActionRetireReserve
  | ActionCancel | ActionRightsize | ActionHandBack | ActionLend

datatype ActionReason =
    ReasonWork | ReasonFloor | ReasonLoad | ReasonSpotWait | ReasonReserve | ReasonLargest | ReasonCheaper
  | ReasonIdle | ReasonInterrupted | ReasonSurplus | ReasonUnclaimed | ReasonSpotHosts | ReasonSpotRefuses

definition reason_message :: "ActionReason \<Rightarrow> string" where
  "reason_message r =
     (case r of
        ReasonWork \<Rightarrow> ''pending work''
      | ReasonFloor \<Rightarrow> ''the warm floor''
      | ReasonLoad \<Rightarrow> ''headroom for load and arrivals''
      | ReasonSpotWait \<Rightarrow> ''Spot refused past the Spot wait''
      | ReasonReserve \<Rightarrow> ''the stopped target''
      | ReasonLargest \<Rightarrow> ''a reserve that fits the largest shape''
      | ReasonCheaper \<Rightarrow> ''a cheaper type pays back''
      | ReasonIdle \<Rightarrow> ''idle past its timeout''
      | ReasonInterrupted \<Rightarrow> ''stopped after its reclaim notice''
      | ReasonSurplus \<Rightarrow> ''beyond the stopped target''
      | ReasonUnclaimed \<Rightarrow> ''nothing waits for it''
      | ReasonSpotHosts \<Rightarrow> ''Spot can host its work''
      | ReasonSpotRefuses \<Rightarrow> ''Spot cannot host its work'')"

record FleetAction =
  faKind :: FleetActionKind
  faReason :: ActionReason
  faMarket :: ReserveMarket
  faHost :: "HostID option"
  faOffer :: "FleetOffer option"
  faMode :: "ReserveMode option"
  faContainers :: "uuid list"
  faHolds :: FleetCapacity

record ContainerWait =
  cwContainer :: uuid
  cwWait :: "CapacityWait option"
  cwHost :: "HostID option"
  cwAction :: "nat option"

record FleetStateCapacity =
  scState :: FleetState
  scMachines :: int
  scCapacity :: FleetCapacity
  scAllocated :: FleetCapacity

record MarketPlan =
  mpMarket :: ReserveMarket
  mpLoad :: FleetCapacity
  mpWarmTarget :: FleetCapacity
  mpWarmFree :: FleetCapacity
  mpWarmPending :: FleetCapacity
  mpStoppedTarget :: FleetCapacity
  mpReserveReady :: FleetCapacity
  mpReservePending :: FleetCapacity
  mpShortfall :: FleetCapacity
  mpStoppedShortfall :: FleetCapacity
  mpHolds :: MarketHolds
  mpReason :: CapacityWait
  mpStates :: "FleetStateCapacity list"

record FleetPlan =
  pnMarkets :: "MarketPlan list"
  pnActions :: "FleetAction list"
  pnWaits :: "ContainerWait list"
  pnBatchWait :: duration

record plannedHost =
  phMarket :: ReserveMarket
  phOffer :: FleetOffer
  phReserve :: bool
  phHolds :: FleetCapacity

record pass =
  paP :: Policy
  paS :: FleetSnapshot
  paHosts :: "FleetHost list"
  paPlan :: FleetPlan
  paPlanned :: "plannedHost list"
  paUsed :: "ReserveMarket \<Rightarrow> int"
  paWaiting :: "ReserveMarket \<Rightarrow> bool"
  paLimited :: "ReserveMarket \<Rightarrow> bool"
  paBatched :: "ReserveMarket \<Rightarrow> bool"
  paHostRoom :: int
  paReserveRoom :: int
  paClassReads :: "string \<Rightarrow> int"
  paViews :: "(ReserveMarket \<times> marketView) list"
  paClaimed :: "HostID list"
  paPartsShort :: "ReserveMarket \<Rightarrow> FleetCapacity list"
  paQuotaUsed :: "QuotaKey \<Rightarrow> int"
  paSpot :: "spotPool \<Rightarrow> SpotQuote option"

abbreviation paNow :: "pass \<Rightarrow> time" where "paNow ps \<equiv> fsNow (paS ps)"
abbreviation paOffers :: "pass \<Rightarrow> OfferInputs" where "paOffers ps \<equiv> fsOffers (paS ps)"
abbreviation paActions :: "pass \<Rightarrow> FleetAction list" where "paActions ps \<equiv> pnActions (paPlan ps)"
abbreviation paWaits :: "pass \<Rightarrow> ContainerWait list" where "paWaits ps \<equiv> pnWaits (paPlan ps)"

definition view_at :: "pass \<Rightarrow> ReserveMarket \<Rightarrow> marketView" where
  "view_at ps m = the (map_of (paViews ps) m)"

definition set_view :: "ReserveMarket \<Rightarrow> marketView \<Rightarrow> pass \<Rightarrow> pass" where
  "set_view m v ps = ps\<lparr>paViews := map (\<lambda>(k, w). (k, if k = m then v else w)) (paViews ps)\<rparr>"

definition set_host :: "nat \<Rightarrow> (FleetHost \<Rightarrow> FleetHost) \<Rightarrow> pass \<Rightarrow> pass" where
  "set_host i f ps = ps\<lparr>paHosts := (paHosts ps)[i := f (paHosts ps ! i)]\<rparr>"

definition inMarket :: "pass \<Rightarrow> ReserveMarket \<Rightarrow> (FleetHost \<Rightarrow> bool) \<Rightarrow> nat list" where
  "inMarket ps m keep =
     filter (\<lambda>i. host_market (paHosts ps ! i) = m \<and> keep (paHosts ps ! i)) [0..<length (paHosts ps)]"

definition hosts_total :: "pass \<Rightarrow> nat list \<Rightarrow> (FleetHost \<Rightarrow> FleetCapacity) \<Rightarrow> FleetCapacity" where
  "hosts_total ps is f = totalOf is (\<lambda>i. f (paHosts ps ! i))"

subsection \<open>Requirements of markets and classes\<close>

definition marketNeed :: "ReserveMarket \<Rightarrow> Requirement" where
  "marketNeed m =
     \<lparr>rWorkspace = 0, rConnection = None, rMachine = [], rRegion = [], rZone = [], rPreemptible = rmPreemptible m,
      rGPUs = (if rmGPU m \<noteq> [] then [rmGPU m] else []), rGPUCount = 0, rCPUMillis = 0, rMemoryBytes = 0, rDisks = 0,
      rPrefer = None, rRead = None, rPacks = False\<rparr>"

definition needOf :: "Requirement \<Rightarrow> FleetCapacity \<Rightarrow> Requirement" where
  "needOf cls shape =
     cls\<lparr>rCPUMillis := fcCPUMillis shape, rMemoryBytes := fcMemoryBytes shape, rGPUCount := fcGPUs shape\<rparr>"

definition shapeNeed :: "ReserveMarket \<Rightarrow> FleetCapacity \<Rightarrow> Requirement" where
  "shapeNeed m shape = needOf (marketNeed m) shape"

definition size_of_need :: "Requirement \<Rightarrow> int" where
  "size_of_need r = GPUsNeeded r * 2 ^ 40 + rCPUMillis r + (rMemoryBytes r div 2 ^ 20) sdiv 4"

definition boolKey :: "bool \<Rightarrow> string" where
  "boolKey b = (if b then ''1'' else ''0'')"

fun join_comma :: "string list \<Rightarrow> string" where
  "join_comma [] = []"
| "join_comma [x] = x"
| "join_comma (x # xs) = x @ '','' @ join_comma xs"

text \<open>The key of a requirement's class, and what offers depend on in it.\<close>

definition class_key :: "Requirement \<Rightarrow> string" where
  "class_key need =
     ''demand/'' @ rRegion need @ ''/'' @ rZone need @ ''/'' @ boolKey (rPreemptible need) @ ''/'' @ join_comma (rGPUs need)
     @ (case rRead need of None \<Rightarrow> [] | Some r \<Rightarrow> ''/'' @ vrRegion r)"

definition classKey :: "pass \<Rightarrow> Requirement \<Rightarrow> Requirement \<times> string" where
  "classKey ps need =
     (\<lparr>rWorkspace = 0, rConnection = None, rMachine = [], rRegion = rRegion need, rZone = rZone need,
       rPreemptible = rPreemptible need, rGPUs = rGPUs need, rGPUCount = 0, rCPUMillis = 0, rMemoryBytes = 0, rDisks = 0,
       rPrefer = None,
       rRead = (case rRead need of
                  None \<Rightarrow> None
                | Some r \<Rightarrow> Some \<lparr>vrRegion = vrRegion r, vrBytes = paClassReads ps (class_key need)\<rparr>),
       rPacks = False\<rparr>,
      class_key need)"

subsection \<open>Rankings\<close>

record ranking =
  rkOffers :: "FleetOffer list"
  rkRefs :: "FleetOffer list"
  rkSoon :: "FleetOffer list"

definition marketRanking :: "pass \<Rightarrow> ReserveMarket \<Rightarrow> bool \<Rightarrow> ranking" where
  "marketRanking ps m reserve =
     (let need = (marketNeed m)\<lparr>rRead := marketRead (paOffers ps) m\<rparr>;
          refs = sizeRefs (paP ps) need reserve (paOffers ps)
      in \<lparr>rkOffers = filter (\<lambda>o'. \<not> (foMarket o' \<noteq> buyMarket m \<or> ctGPU (foType o') \<noteq> rmGPU m))
                       (RankOffers (paP ps) need reserve (paOffers ps)),
          rkRefs = refs,
          rkSoon = (if refs \<noteq> [] then RankOffers (paP ps) need reserve (availableSoon (paP ps) (paOffers ps)) else [])\<rparr>)"

definition marketOffers :: "pass \<Rightarrow> ReserveMarket \<Rightarrow> bool \<Rightarrow> FleetOffer list" where
  "marketOffers ps m reserve = rkOffers (marketRanking ps m reserve)"

definition classOffers :: "pass \<Rightarrow> Requirement \<Rightarrow> ranking" where
  "classOffers ps need =
     (let c = fst (classKey ps need); refs = sizeRefs (paP ps) c False (paOffers ps)
      in \<lparr>rkOffers = RankOffers (paP ps) c False (paOffers ps),
          rkRefs = refs,
          rkSoon = (if refs \<noteq> [] then RankOffers (paP ps) c False (availableSoon (paP ps) (paOffers ps)) else [])\<rparr>)"

record gpu_model =
  mdName :: string
  mdRank :: int
  mdStocked :: bool
  mdPerCard :: int

definition add_model :: "pass \<Rightarrow> Requirement \<Rightarrow> gpu_model list \<Rightarrow> FleetOffer \<Rightarrow> gpu_model list" where
  "add_model ps need models o' =
     (let gpu = ctGPU (foType o'); rank = GPURank (rGPUs need) gpu
      in if gpu = [] \<or> rank < 0 then models
         else if rGPUs need ! nat rank = GPUAny \<and> map_of (pGPU (paP ps)) gpu = None then models
         else let per = foHourlyMicros o' sdiv ctGPUCount (foType o')
              in case index_func (\<lambda>m. mdName m = gpu) models of
                   Some i \<Rightarrow> models[i := (models ! i)\<lparr>mdPerCard := min (mdPerCard (models ! i)) per\<rparr>]
                 | None \<Rightarrow>
                     models @ [\<lparr>mdName = gpu, mdRank = rank,
                        mdStocked = list_ex (\<lambda>h. fhGPU h = gpu \<and> fhState h \<noteq> FleetTerminating) (paHosts ps),
                        mdPerCard = per\<rparr>])"

definition gpuModels :: "pass \<Rightarrow> Requirement \<Rightarrow> FleetOffer list \<Rightarrow> string list" where
  "gpuModels ps need offers =
     map mdName (sort_key (\<lambda>m. (mdRank m, \<not> mdStocked m, mdPerCard m, mdName m)) (foldl (add_model ps need) [] offers))"

definition demandMarket :: "pass \<Rightarrow> Requirement \<Rightarrow> ReserveMarket" where
  "demandMarket ps need =
     (if GPUsNeeded need = 0 then RM (rPreemptible need) []
      else RM (rPreemptible need)
        (case gpuModels ps need (rkOffers (classOffers ps need)) of
           model # _ \<Rightarrow> model
         | [] \<Rightarrow> (case index_func (\<lambda>model. model \<noteq> GPUAny) (rGPUs need) of
                    Some i \<Rightarrow> rGPUs need ! i
                  | None \<Rightarrow> GPUAny)))"

definition spotOffered :: "pass \<Rightarrow> Requirement \<Rightarrow> bool" where
  "spotOffered ps need =
     (let r = classOffers ps need; models = gpuModels ps need (rkOffers r); shape = reservedShape need
      in list_ex (\<lambda>o'. foMarket o' = MarketSpot \<and> (fcGPUs shape = 0 \<or> ctGPU (foType o') \<in> set models)
             \<and> Covers (foUsable o') shape \<and> DiskSlots (foType o') \<ge> rDisks need
             \<and> sized (paP ps) o' shape (rDisks need) (rkRefs r) (rkSoon r))
           (rkOffers r))"

subsection \<open>Types, quotas and room\<close>

definition typeNamed :: "pass \<Rightarrow> string \<Rightarrow> CatalogType option" where
  "typeNamed ps name = map_option (\<lambda>i. oiCatalog (paOffers ps) ! i)
     (index_func (\<lambda>t. ctName t = name) (oiCatalog (paOffers ps)))"

text \<open>The zero \<open>CatalogType\<close> a failed lookup returns beside its flag.\<close>

definition NoType :: CatalogType where
  "NoType = \<lparr>ctName = [], ctArchitecture = [], ctTopology = \<lparr>Threads = 0, Cores = 0\<rparr>, ctMemoryBytes = 0, ctGPU = [],
     ctGPUCount = 0, ctHibernates = False, ctInstanceStore = False, ctPrices = [0, 0, 0, 0]\<rparr>"

definition type_or_zero :: "pass \<Rightarrow> string \<Rightarrow> CatalogType" where
  "type_or_zero ps name = (case typeNamed ps name of None \<Rightarrow> NoType | Some t \<Rightarrow> t)"

definition stoppedMicros :: "pass \<Rightarrow> FleetHost \<Rightarrow> int" where
  "stoppedMicros ps h =
     (case typeNamed ps (fhInstanceType h) of
        None \<Rightarrow> 0
      | Some t \<Rightarrow> volumesMicros t (fhRegion h) (fhReserveMode h = Some ReserveHibernate) (fhReserveMode h \<noteq> None))"

definition host_cooled :: "pass \<Rightarrow> FleetHost \<Rightarrow> bool" where
  "host_cooled ps h = cooled (oiCooldowns (paOffers ps)) (paNow ps) (fhRegion h) (fhZoneID h) (fhInstanceType h) (fhMarket h)"

definition pass_room :: "pass \<Rightarrow> ReserveMarket \<Rightarrow> int" where
  "pass_room ps m = pMaxGrowthActions (paP ps) - paUsed ps m"

definition batching :: "pass \<Rightarrow> bool \<times> pass" where
  "batching ps =
     (if fsBatchWait (paS ps) \<le> 0 then (False, ps)
      else (True, ps\<lparr>paPlan := (paPlan ps)\<lparr>pnBatchWait := fsBatchWait (paS ps)\<rparr>\<rparr>))"

definition pass_limits :: "pass \<Rightarrow> int \<Rightarrow> ranking \<Rightarrow> CoverLimits" where
  "pass_limits ps nodes r =
     \<lparr>clNodes = nodes, clVCPUs = quotaRoom (oiQuotas (paOffers ps)) (paQuotaUsed ps),
      clSized = Some (\<lambda>o' holds disks. sized (paP ps) o' holds disks (rkRefs r) (rkSoon r))\<rparr>"

definition quotaOf :: "pass \<Rightarrow> string \<Rightarrow> string \<Rightarrow> Market \<Rightarrow> QuotaKey \<times> int" where
  "quotaOf ps region instanceType market =
     (QK region (QuotaClassOf instanceType) market, CatalogType_VCPUs (type_or_zero ps instanceType))"

definition startable :: "pass \<Rightarrow> FleetHost \<Rightarrow> bool" where
  "startable ps h =
     (let (key, vcpus) = quotaOf ps (fhRegion h) (fhInstanceType h) (fhMarket h)
      in case quotaRoom (oiQuotas (paOffers ps)) (paQuotaUsed ps) key of
           None \<Rightarrow> True
         | Some left \<Rightarrow> left \<ge> vcpus)"

subsection \<open>Recording decisions\<close>

definition pass_start :: "string \<Rightarrow> string \<Rightarrow> Market \<Rightarrow> pass \<Rightarrow> pass" where
  "pass_start region instanceType market ps =
     (let (key, vcpus) = quotaOf ps region instanceType market
      in ps\<lparr>paQuotaUsed := (paQuotaUsed ps)(key := paQuotaUsed ps key + vcpus)\<rparr>)"

definition grows :: "FleetActionKind \<Rightarrow> bool" where
  "grows k \<longleftrightarrow> k \<in> {ActionResume, ActionBuy, ActionBuyReserve, ActionRightsize}"

definition pass_act :: "FleetAction \<Rightarrow> pass \<Rightarrow> pass" where
  "pass_act a ps =
     (let ps = (if grows (faKind a) then ps\<lparr>paUsed := (paUsed ps)(faMarket a := paUsed ps (faMarket a) + 1)\<rparr> else ps)
      in ps\<lparr>paPlan := (paPlan ps)\<lparr>pnActions := paActions ps @ [a]\<rparr>\<rparr>)"

text \<open>\<open>buy\<close> also returns the index of the action, which is the number of actions before it.\<close>

definition pass_buy :: "ReserveMarket \<Rightarrow> FleetOffer \<Rightarrow> FleetActionKind \<Rightarrow> ActionReason \<Rightarrow> FleetCapacity \<Rightarrow> uuid list
    \<Rightarrow> HostID option \<Rightarrow> pass \<Rightarrow> pass" where
  "pass_buy m o' kind reason holds containers replaces ps =
     (let reserve = (kind = ActionBuyReserve);
          mode = (if reserve then Some (if foHibernate o' then ReserveHibernate else ReserveStop) else None);
          ps = (if reserve then ps\<lparr>paReserveRoom := paReserveRoom ps - 1\<rparr> else ps);
          ps = ps\<lparr>paHostRoom := paHostRoom ps - 1,
                  paPlanned := paPlanned ps @ [\<lparr>phMarket = reserveMarketOf (foMarket o') (ctGPU (foType o')), phOffer = o',
                                                phReserve = reserve, phHolds = holds\<rparr>]\<rparr>;
          ps = pass_start (foRegion o') (ctName (foType o')) (foMarket o') ps
      in pass_act \<lparr>faKind = kind, faReason = reason, faMarket = m, faHost = replaces, faOffer = Some o', faMode = mode,
                   faContainers = containers, faHolds = holds\<rparr> ps)"

definition plain_action :: "FleetActionKind \<Rightarrow> ActionReason \<Rightarrow> ReserveMarket \<Rightarrow> HostID \<Rightarrow> FleetAction" where
  "plain_action kind reason m h =
     \<lparr>faKind = kind, faReason = reason, faMarket = m, faHost = Some h, faOffer = None, faMode = None,
      faContainers = [], faHolds = NoCapacity\<rparr>"

definition pass_resume :: "ReserveMarket \<Rightarrow> nat \<Rightarrow> ActionReason \<Rightarrow> uuid list \<Rightarrow> pass \<Rightarrow> pass" where
  "pass_resume m i reason containers ps =
     (let h = paHosts ps ! i;
          ps = (if fhState h \<noteq> FleetStopping
                then pass_start (fhRegion h) (fhInstanceType h) (fhMarket h) (ps\<lparr>paHostRoom := paHostRoom ps - 1\<rparr>) else ps);
          ps = set_host i (\<lambda>h. h\<lparr>fhState := FleetStarting\<rparr>) ps;
          ps = ps\<lparr>paReserveRoom := paReserveRoom ps + 1\<rparr>
      in pass_act ((plain_action ActionResume reason m (fhID h))\<lparr>faContainers := containers\<rparr>) ps)"

definition set_wait :: "nat \<Rightarrow> (ContainerWait \<Rightarrow> ContainerWait) \<Rightarrow> pass \<Rightarrow> pass" where
  "set_wait i f ps = ps\<lparr>paPlan := (paPlan ps)\<lparr>pnWaits := (paWaits ps)[i := f (paWaits ps ! i)]\<rparr>\<rparr>"

definition provisioning :: "pendingItem \<Rightarrow> HostID option \<Rightarrow> nat option \<Rightarrow> pass \<Rightarrow> pass" where
  "provisioning it h action ps =
     set_wait (itWait it) (\<lambda>w. w\<lparr>cwWait := Some WaitProvisioning, cwHost := h, cwAction := action\<rparr>) ps"

definition pass_waits :: "pendingItem \<Rightarrow> CapacityWait \<Rightarrow> pass \<Rightarrow> pass" where
  "pass_waits it wait ps =
     (set_wait (itWait it) (\<lambda>w. w\<lparr>cwWait := Some wait\<rparr>) ps)\<lparr>paWaiting := (paWaiting ps)(itMarket it := True)\<rparr>"

end
