(* ===== verification/PlanCover.thy ===== *)
theory PlanCover
  imports PlanState
begin

text \<open>
  How a pass covers pending containers (\<open>cover\<close>, \<open>resumeFor\<close>, \<open>buyFor\<close> and what they call in
  \<open>internal/compute/fleet_plan.go\<close>): they take ready room as placement would, then the room of hosts that
  start, then reserves that resume, then purchases. \<open>counted\<close> and \<open>holdsLargest\<close>, which lending a
  reserve asks for, are of \<open>fleet_keep.go\<close>.
\<close>

subsection \<open>Reserves and what hosts cost\<close>

definition stalled :: "pass \<Rightarrow> FleetHost \<Rightarrow> bool" where
  "stalled ps h \<longleftrightarrow>
     (case fhStoppedAt h of None \<Rightarrow> False | Some at' \<Rightarrow> paNow ps - at' > stSpotDisableMax (pStarts (paP ps)))"

definition pass_ready :: "pass \<Rightarrow> FleetHost \<Rightarrow> bool \<Rightarrow> bool" where
  "pass_ready ps h work =
     (if fhProtected h \<or> fhStartRefused h then False
      else if resumable h then startable ps h
      else case fhStoppedAt h of
             None \<Rightarrow> False
           | Some at' \<Rightarrow>
               if \<not> (fhState h = FleetStopping \<and> \<not> stalled ps h) then False
               else let st = pStarts (paP ps);
                        (launch, serves) = (if fhGPU h \<noteq> [] then (stGPULaunch st, stGPUResume st) else (stLaunch st, stResume st))
                    in work \<and> serves + max 0 (at' + stSpotDisable st - paNow ps) < launch)"

definition view_fits :: "marketView \<Rightarrow> FleetCapacity \<Rightarrow> CatalogType \<Rightarrow> bool" where
  "view_fits v usable t \<longleftrightarrow> Covers usable (mtLargest v) \<and> DiskSlots t \<ge> mtLargestDisks v"

definition fitsLargest :: "pass \<Rightarrow> marketView \<Rightarrow> FleetHost \<Rightarrow> bool" where
  "fitsLargest ps v h = view_fits v (fhUsable h) (type_or_zero ps (fhInstanceType h))"

definition counted :: "marketView \<Rightarrow> FleetHost \<Rightarrow> bool" where
  "counted v h \<longleftrightarrow> reserve_host h \<and> \<not> fhProtected h \<and> fhID h \<notin> set (mvRetired v)"

definition holdsLargest :: "pass \<Rightarrow> marketView \<Rightarrow> HostID \<Rightarrow> bool" where
  "holdsLargest ps v skip \<longleftrightarrow>
     Empty_cap (mtLargest v)
     \<or> list_ex (\<lambda>i. fhID (paHosts ps ! i) \<noteq> skip \<and> fitsLargest ps v (paHosts ps ! i)) (inMarket ps (mtM v) (counted v))
     \<or> list_ex (\<lambda>n. phMarket n = mtM v \<and> phReserve n \<and> view_fits v (foUsable (phOffer n)) (foType (phOffer n))) (paPlanned ps)"

definition leavesLarge :: "pass \<Rightarrow> FleetHost \<Rightarrow> bool" where
  "leavesLarge ps h \<longleftrightarrow>
     (let v = view_at ps (host_market h) in \<not> fitsLargest ps v h \<or> holdsLargest ps v (fhID h))"

text \<open>The zero \<open>FleetOffer\<close> that \<open>hostCost\<close> prices a host with.\<close>

definition NoOffer :: FleetOffer where
  "NoOffer = \<lparr>foType = NoType, foRegion = [], foZone = [], foZoneID = [], foMarket = MarketNone, foUsable = NoCapacity,
     foHibernate = False, foHourlyMicros = 0, foStoppedMicros = 0, foTransferMicros = 0, foReadMicros = 0,
     foPlacementPenalty = 0, foQuota = QK [] None MarketNone\<rparr>"

definition host_price :: "pass \<Rightarrow> FleetHost \<Rightarrow> CatalogType \<Rightarrow> int option" where
  "host_price ps h t =
     (if fhMarket h = MarketSpot
      then map_option sqHourlyMicros (paSpot ps (fhRegion h, fhZoneID h, fhInstanceType h))
      else OnDemandMicros t (fhRegion h))"

definition hostCost :: "pass \<Rightarrow> FleetHost \<Rightarrow> int option" where
  "hostCost ps h =
     (let transfer = (case typeNamed ps (fhInstanceType h) of
                        None \<Rightarrow> 0
                      | Some t \<Rightarrow> transferMicros (oiStorageRegion (paOffers ps)) (fhRegion h) t);
          o' = NoOffer\<lparr>foTransferMicros := transfer,
                       foReadMicros := readMicros (paP ps) (marketRead (paOffers ps) (host_market h)) (fhRegion h)\<rparr>;
          current = (case typeNamed ps (fhInstanceType h) of
                       None \<Rightarrow> None
                     | Some t \<Rightarrow> map_option (\<lambda>price. price + volumesMicros t (fhRegion h) (fhHibernationConfigured h) False
                                                     + rrIpv4Hour (ratesIn (fhRegion h))) (host_price ps h t))
      in case (case current of Some c \<Rightarrow> Some c | None \<Rightarrow> fhHourlyMicros h) of
           None \<Rightarrow> None
         | Some hourly \<Rightarrow> Some (servingCost (paP ps) (o'\<lparr>foHourlyMicros := hourly\<rparr>)))"

text \<open>\<open>retention\<close> compares by this key; an unknown cost reads as 0 beside its flag.\<close>

definition retention_key :: "pass \<Rightarrow> FleetHost \<Rightarrow> bool \<times> int \<times> int \<times> int \<times> HostID" where
  "retention_key ps h =
     (hostCost ps h = None, (case hostCost ps h of None \<Rightarrow> 0 | Some c \<Rightarrow> c), fcCPUMillis (fhUsable h),
      fcMemoryBytes (fhUsable h), fhID h)"

definition lendable :: "pass \<Rightarrow> FleetHost \<Rightarrow> bool" where
  "lendable ps h \<longleftrightarrow>
     (let v = view_at ps (host_market h);
          ready = hosts_total ps (inMarket ps (mtM v) (\<lambda>r. fhID r \<noteq> fhID h \<and> resumable r \<and> counted v r)) fhUsable
      in Covers ready (lpLoad (mhStopped (mtHolds v))) \<and> leavesLarge ps h)"

definition resumePays :: "pass \<Rightarrow> FleetHost \<Rightarrow> CoverNeed \<Rightarrow> bool" where
  "resumePays ps h need =
     (let m = host_market h; r = marketRanking ps m False;
          res = Cover (rkOffers r) need (servingCost (paP ps)) (pass_limits ps (min (pass_room ps m) (paHostRoom ps)) r)
      in if \<not> Complete res need then True
         else let purchase = sum_list (map (\<lambda>n. servingCost (paP ps) (cvOffer n)
                                + foHourlyMicros (cvOffer n) * (pProvision (paP ps) sdiv second)) (rsNodes res))
              in case hostCost ps h of
                   None \<Rightarrow> False
                 | Some c \<Rightarrow> c - stoppedMicros ps h * (pCostHorizon (paP ps) sdiv second) \<le> purchase)"

subsection \<open>Lending on-demand room\<close>

definition spotCooling :: "pass \<Rightarrow> FleetHost \<Rightarrow> bool" where
  "spotCooling ps h =
     list_ex (\<lambda>c. ocMarket c = MarketSpot \<and> ocRegion c = fhRegion h \<and> ocUntil c > paNow ps
        \<and> (case typeNamed ps (ocInstanceType c) of None \<Rightarrow> False | Some t \<Rightarrow> ctGPU t = fhGPU h))
       (oiCooldowns (paOffers ps))"

definition hands_back :: "pass \<Rightarrow> FleetHost \<Rightarrow> bool" where
  "hands_back ps h \<longleftrightarrow>
     list_all (spotOffered ps) (fhMoves h) \<and> \<not> fhStays h
     \<and> (fhHandsBack h \<or> fhMoves h \<noteq> [] \<and> \<not> spotCooling ps h)"

definition handBack_host :: "pass \<Rightarrow> nat \<Rightarrow> pass" where
  "handBack_host ps i =
     (let h = paHosts ps ! i
      in if fhMarket h \<noteq> MarketOnDemand \<or> fhState h \<noteq> FleetServing then ps
         else let back = hands_back ps h
              in if back = fhHandsBack h then ps
                 else let (kind, reason) = (if back then (ActionHandBack, ReasonSpotHosts) else (ActionLend, ReasonSpotRefuses))
                      in pass_act (plain_action kind reason (host_market h) (fhID h))
                           (set_host i (\<lambda>h. h\<lparr>fhHandsBack := back\<rparr>) ps))"

definition handBack :: "pass \<Rightarrow> pass" where
  "handBack ps = foldl handBack_host ps [0..<length (paHosts ps)]"

subsection \<open>Pending containers\<close>

definition add_item :: "Requirement \<Rightarrow> ReserveMarket \<Rightarrow> pass \<times> pendingItem list \<Rightarrow> PendingContainer \<Rightarrow> pass \<times> pendingItem list" where
  "add_item need m st c =
     (let (ps, items) = st
      in (ps\<lparr>paPlan := (paPlan ps)\<lparr>pnWaits := paWaits ps @ [\<lparr>cwContainer = pdID c, cwWait = None, cwHost = None, cwAction = None\<rparr>]\<rparr>\<rparr>,
          items @ [\<lparr>itID = pdID c, itSince = pdSince c, itNeed = need, itMarket = m, itBought = pdHost c,
                    itWait = length (paWaits ps)\<rparr>]))"

definition item_order :: "pendingItem \<Rightarrow> bool \<times> bool \<times> int" where
  "item_order it = (itBought it = None, rPreemptible (itNeed it), - size_of_need (itNeed it))"

definition pendingItems :: "pass \<Rightarrow> pass \<times> pendingItem list" where
  "pendingItems ps =
     (let (ps', items) = foldl (\<lambda>st g. foldl (add_item (dgNeed g) (demandMarket ps (dgNeed g))) st (dgContainers g))
                           (ps, []) (fsPending (paS ps))
      in (ps', sort_key item_order items))"

subsection \<open>Running and starting hosts\<close>

record bin =
  bnHost :: nat
  bnRoom :: HostCapacity

record cover_state =
  cqPass :: pass
  cqReady :: "bin list"
  cqReadyRooms :: "HostCapacity list"
  cqComing :: "bin list"
  cqComingRooms :: "HostCapacity list"
  cqLeft :: "pendingItem list"

definition binRooms :: "pass \<Rightarrow> bin list \<Rightarrow> HostCapacity list" where
  "binRooms ps bins = map (\<lambda>b. forWork (paHosts ps ! bnHost b) (bnRoom b)) bins"

definition reserve_bin :: "pass \<Rightarrow> Requirement \<Rightarrow> nat \<Rightarrow> bin list \<times> HostCapacity list \<Rightarrow> bin list \<times> HostCapacity list" where
  "reserve_bin ps need i br =
     (let (bins, rooms) = br; b = (bins ! i)\<lparr>bnRoom := Reserve (bnRoom (bins ! i)) need\<rparr>
      in (bins[i := b], rooms[i := forWork (paHosts ps ! bnHost b) (bnRoom b)]))"

text \<open>The load a container adds to the host it is given, which pending work then claims.\<close>

definition give :: "nat \<Rightarrow> Requirement \<Rightarrow> pass \<Rightarrow> pass" where
  "give i need ps =
     (let ps = set_host i (\<lambda>h. h\<lparr>fhLoad := Plus_cap (fhLoad h) (reservedShape need)\<rparr>) ps
      in ps\<lparr>paClaimed := fhID (paHosts ps ! i) # paClaimed ps\<rparr>)"

definition remaining_time :: "pass \<Rightarrow> FleetHost \<Rightarrow> duration" where
  "remaining_time ps h =
     (let launch = (if fhGPU h \<noteq> [] then stGPULaunch (pStarts (paP ps)) else stLaunch (pStarts (paP ps)))
      in max 0 (launch - (paNow ps - fhPhaseAt h)))"

definition resumeTime :: "pass \<Rightarrow> Requirement \<Rightarrow> duration" where
  "resumeTime ps need = (if GPUsNeeded need > 0 then stGPUResume (pStarts (paP ps)) else stResume (pStarts (paP ps)))"

definition reserveFits :: "pass \<Rightarrow> pendingItem \<Rightarrow> bool" where
  "reserveFits ps it =
     list_ex (\<lambda>h. host_market h = itMarket it \<and> pass_ready ps h True \<and> Covers (fhUsable h) (reservedShape (itNeed it))
        \<and> pass_room ps (itMarket it) > 0) (paHosts ps)"

definition boughtBin :: "pass \<Rightarrow> pendingItem \<Rightarrow> bin list \<Rightarrow> HostCapacity list \<Rightarrow> nat option" where
  "boughtBin ps it ready rooms =
     (case itBought it of
        None \<Rightarrow> None
      | Some h \<Rightarrow>
          (case index_func (\<lambda>b. fhID (paHosts ps ! bnHost b) = h) ready of
             None \<Rightarrow> None
           | Some i \<Rightarrow> if Fits (rooms ! i) (itNeed it) then Some i else None))"

definition comingFor :: "pass \<Rightarrow> bin list \<Rightarrow> HostCapacity list \<Rightarrow> pendingItem \<Rightarrow> FleetCapacity \<Rightarrow> nat option" where
  "comingFor ps coming rooms it flr =
     (case ChooseHost rooms (itNeed it) flr of
        None \<Rightarrow> None
      | Some i \<Rightarrow>
          if remaining_time ps (paHosts ps ! bnHost (coming ! i)) > resumeTime ps (itNeed it) \<and> reserveFits ps it
          then None else Some i)"

definition take_ready :: "pendingItem \<Rightarrow> nat \<Rightarrow> cover_state \<Rightarrow> cover_state" where
  "take_ready it i q =
     (let (bins, rooms) = reserve_bin (cqPass q) (itNeed it) i (cqReady q, cqReadyRooms q)
      in q\<lparr>cqReady := bins, cqReadyRooms := rooms, cqPass := give (bnHost (cqReady q ! i)) (itNeed it) (cqPass q)\<rparr>)"

definition take_coming :: "pendingItem \<Rightarrow> Requirement \<Rightarrow> nat \<Rightarrow> cover_state \<Rightarrow> cover_state" where
  "take_coming it need i q =
     (let (bins, rooms) = reserve_bin (cqPass q) need i (cqComing q, cqComingRooms q);
          h = bnHost (cqComing q ! i); ps = give h (itNeed it) (cqPass q)
      in q\<lparr>cqComing := bins, cqComingRooms := rooms, cqPass := provisioning it (Some (fhID (paHosts ps ! h))) None ps\<rparr>)"

text \<open>One container of the loop: the first of these that takes it.\<close>

definition bought_host :: "pendingItem \<Rightarrow> (FleetHost \<Rightarrow> bool) \<Rightarrow> pass \<Rightarrow> bin list \<Rightarrow> nat option" where
  "bought_host it P ps bins =
     (case itBought it of
        None \<Rightarrow> None
      | Some h \<Rightarrow> index_func (\<lambda>b. fhID (paHosts ps ! bnHost b) = h \<and> P (paHosts ps ! bnHost b)) bins)"

definition cover_coming :: "FleetCapacity \<Rightarrow> pendingItem \<Rightarrow> cover_state \<Rightarrow> cover_state" where
  "cover_coming flr it q =
     (let booting = it\<lparr>itNeed := (itNeed it)\<lparr>rPacks := False\<rparr>\<rparr>
      in case comingFor (cqPass q) (cqComing q) (cqComingRooms q) booting flr of
           Some i \<Rightarrow> take_coming it (itNeed booting) i q
         | None \<Rightarrow> q\<lparr>cqLeft := cqLeft q @ [it]\<rparr>)"

definition cover_item :: "FleetCapacity \<Rightarrow> cover_state \<Rightarrow> pendingItem \<Rightarrow> cover_state" where
  "cover_item flr q it =
     (if rMachine (itNeed it) \<noteq> [] \<or> rConnection (itNeed it) \<noteq> None then q
      else case boughtBin (cqPass q) it (cqReady q) (cqReadyRooms q) of
             Some i \<Rightarrow> let q = take_ready it i q
                       in q\<lparr>cqPass := set_wait (itWait it) (\<lambda>w. w\<lparr>cwHost := itBought it\<rparr>) (cqPass q)\<rparr>
           | None \<Rightarrow>
      (case ChooseHost (cqReadyRooms q) (itNeed it) flr of
         Some i \<Rightarrow> take_ready it i q
       | None \<Rightarrow>
      (case bought_host it (\<lambda>_. True) (cqPass q) (cqComing q) of
         Some i \<Rightarrow> take_coming it (itNeed it) i q
       | None \<Rightarrow>
      (case bought_host it fhUpdateDue (cqPass q) (cqReady q) of
         Some i \<Rightarrow> q\<lparr>cqPass := provisioning it (Some (fhID (paHosts (cqPass q) ! bnHost (cqReady q ! i)))) None (cqPass q)\<rparr>
       | None \<Rightarrow> cover_coming flr it q))))"

definition cover_start :: "pass \<Rightarrow> cover_state" where
  "cover_start ps =
     (let bins = (\<lambda>is. map (\<lambda>i. \<lparr>bnHost = i, bnRoom = capacity_of_host (paHosts ps ! i)\<rparr>) is);
          ready = bins (filter (\<lambda>i. fhState (paHosts ps ! i) = FleetServing) [0..<length (paHosts ps)]);
          coming = bins (filter (\<lambda>i. fhState (paHosts ps ! i) = FleetStarting \<and> \<not> stalled ps (paHosts ps ! i)) [0..<length (paHosts ps)])
      in \<lparr>cqPass = ps, cqReady = ready, cqReadyRooms = binRooms ps ready, cqComing = coming, cqComingRooms = binRooms ps coming,
          cqLeft = []\<rparr>)"

definition parts_short :: "cover_state \<Rightarrow> ReserveMarket \<Rightarrow> FleetCapacity list" where
  "parts_short q m =
     (case map_of (paViews (cqPass q)) m of
        None \<Rightarrow> []
      | Some v \<Rightarrow>
          unplaced (map (\<lambda>(b, rm). roomOf rm)
                      (filter (\<lambda>(b, rm). host_market (paHosts (cqPass q) ! bnHost b) = m) (zip (cqReady q) (cqReadyRooms q))))
            (mtWantParts v))"

subsection \<open>Resuming reserves for work\<close>

text \<open>The containers, by index, that a reserve takes first fit, and the room they leave on it.\<close>

definition reserve_lends :: "pass \<Rightarrow> pendingItem list \<Rightarrow> FleetHost \<Rightarrow> Requirement \<Rightarrow> bool" where
  "reserve_lends ps items h need =
     (let onDemand = (fhMarket h = MarketOnDemand);
          lendsCPU = (list_ex (\<lambda>it. rPreemptible (itNeed it)) items \<and> onDemand \<and> fhGPU h = [] \<and> lendable ps h)
      in \<not> onDemand \<or> (lendsCPU \<or> fhGPU h \<noteq> []) \<and> \<not> spotOffered ps need)"

definition reserve_takes :: "pass \<Rightarrow> pendingItem list \<Rightarrow> FleetHost \<Rightarrow> HostCapacity \<times> nat list" where
  "reserve_takes ps items h =
     foldl (\<lambda>(rm, taken) (n, it).
       if pass_room ps (itMarket it) \<le> 0 \<or> \<not> Fits rm (itNeed it)
          \<or> rPreemptible (itNeed it) \<and> \<not> reserve_lends ps items h (itNeed it)
       then (rm, taken) else (Reserve rm (itNeed it), taken @ [n]))
     (capacity_of_host h, []) (zip [0..<length items] items)"

type_synonym reserve_rank =
  "bool \<times> bool \<times> int \<times> bool \<times> int \<times> bool \<times> (int \<times> int \<times> int) \<times> bool \<times> int \<times> int \<times> int \<times> HostID"

definition reserve_rank :: "pass \<Rightarrow> pendingItem list \<Rightarrow> FleetHost \<Rightarrow> reserve_rank option" where
  "reserve_rank ps items h =
     (if \<not> pass_ready ps h True then None
      else let (rm, taken) = reserve_takes ps items h
           in if taken = [] then None
              else let short = paPartsShort ps (host_market h);
                       flr = (short \<noteq> [] \<and> placesAll [roomOf rm] short)
                   in Some (host_market h \<noteq> itMarket (items ! hd taken), fhState h = FleetStopping, - int (length taken), \<not> flr,
                            sum_list (map (\<lambda>n. readMicros (paP ps) (rRead (itNeed (items ! n))) (fhRegion h)) taken),
                            length taken < length items, shape_key (fhUsable h), retention_key ps h))"

definition bestReserve :: "pass \<Rightarrow> pendingItem list \<Rightarrow> (nat \<times> nat list) option" where
  "bestReserve ps items =
     (case scan_best (reserve_rank ps items) 0 None (paHosts ps) of
        None \<Rightarrow> None
      | Some (i, _) \<Rightarrow> Some (i, snd (reserve_takes ps items (paHosts ps ! i))))"

lemma reserve_takes_less: "n \<in> set (snd (reserve_takes ps items h)) \<Longrightarrow> n < length items"
proof -
  have "\<forall>n\<in>set (snd (reserve_takes ps items h)). n < length items"
    unfolding reserve_takes_def
    by (rule foldl_invariant [where P = "\<lambda>st. \<forall>n\<in>set (snd st). n < length items"])
       (auto split: prod.splits dest: set_zip_leftD)
  then show "n \<in> set (snd (reserve_takes ps items h)) \<Longrightarrow> n < length items" by blast
qed

lemma bestReserve_takes:
  assumes "bestReserve ps items = Some (i, taken)"
  shows "i < length (paHosts ps)" and "taken = snd (reserve_takes ps items (paHosts ps ! i))" and "taken \<noteq> []"
    and "pass_ready ps (paHosts ps ! i) True"
proof -
  obtain k where s: "scan_best (reserve_rank ps items) 0 None (paHosts ps) = Some (i, k)"
    and t: "taken = snd (reserve_takes ps items (paHosts ps ! i))"
    using assms by (auto simp: bestReserve_def split: option.splits)
  show "i < length (paHosts ps)" "taken = snd (reserve_takes ps items (paHosts ps ! i))"
    using scan_best_Some(1) [OF s] t by auto
  have "reserve_rank ps items (paHosts ps ! i) = Some k" by (rule scan_best_Some(2) [OF s])
  then show "taken \<noteq> []" "pass_ready ps (paHosts ps ! i) True"
    using t by (auto simp: reserve_rank_def Let_def split: if_splits prod.splits)
qed

definition without :: "nat list \<Rightarrow> 'a list \<Rightarrow> 'a list" where
  "without taken xs = map snd (filter (\<lambda>(n, x). n \<notin> set taken) (zip [0..<length xs] xs))"

lemma without_shorter: "taken \<noteq> [] \<Longrightarrow> hd taken < length xs \<Longrightarrow> length (without taken xs) < length xs"
proof -
  assume a: "taken \<noteq> []" "hd taken < length xs"
  let ?z = "zip [0..<length xs] xs"
  have m: "(hd taken, xs ! hd taken) \<in> set ?z" using a(2) by (force simp: in_set_zip)
  have "length (filter (\<lambda>(n, x). n \<notin> set taken) ?z) < length ?z"
    by (rule length_filter_less [OF m]) (use a(1) in simp)
  then show ?thesis by (simp add: without_def)
qed

text \<open>Every resume takes at least one container, so the loop ends.\<close>

function resumeFor :: "pass \<Rightarrow> pendingItem list \<Rightarrow> pass \<times> pendingItem list" where
  "resumeFor ps items =
     (if items = [] \<or> paHostRoom ps \<le> 0 then (ps, items)
      else case bestReserve ps items of
             None \<Rightarrow> (ps, items)
           | Some (i, taken) \<Rightarrow>
               let h = fhID (paHosts ps ! i);
                   ps' = pass_resume (itMarket (items ! hd taken)) i ReasonWork (map (\<lambda>n. itID (items ! n)) taken) ps;
                   ps' = foldl (\<lambda>ps n. provisioning (items ! n) (Some h) None ps) ps' taken
               in resumeFor ps' (without taken items))"
  by pat_completeness auto
termination
proof (relation "measure (\<lambda>(ps, items). length items)", goal_cases)
  case (2 ps items z i taken)
  then have b: "bestReserve ps items = Some (i, taken)" by simp
  have "hd taken < length items"
    using bestReserve_takes(2,3) [OF b] hd_in_set reserve_takes_less by metis
  then show ?case using bestReserve_takes(3) [OF b] without_shorter by auto
qed simp

declare resumeFor.simps [simp del]

subsection \<open>Purchases for work\<close>

record itemGroup =
  igShape :: FleetCapacity
  igDisks :: int
  igItems :: "pendingItem list"

record demandClass =
  dcNeed :: Requirement
  dcKey :: string
  dcMarket :: ReserveMarket
  dcGroups :: "itemGroup list"

definition coverNeed :: "demandClass \<Rightarrow> (itemGroup \<Rightarrow> bool) option \<Rightarrow> CoverNeed \<times> nat list" where
  "coverNeed c only =
     (let at' = filter (\<lambda>i. let g = dcGroups c ! i
                        in \<not> (igItems g = [] \<or> (case only of None \<Rightarrow> False | Some P \<Rightarrow> \<not> P g))) [0..<length (dcGroups c)]
      in (\<lparr>cnItems = map (\<lambda>i. let g = dcGroups c ! i
                          in \<lparr>ciShape = igShape g, ciDisks = igDisks g, ciCount = int (length (igItems g)), ciMarket = None,
                              ciRides = False\<rparr>) at',
           cnAggregate = NoCapacity\<rparr>, at'))"

text \<open>The containers a bought node takes from the front of each group, and the groups left.\<close>

definition take_group :: "itemGroup list \<times> pendingItem list \<Rightarrow> nat \<times> int \<Rightarrow> itemGroup list \<times> pendingItem list" where
  "take_group st at_n =
     (let (groups, taken) = st; (k, n) = at_n; g = groups ! k
      in (groups[k := g\<lparr>igItems := drop (nat n) (igItems g)\<rparr>], taken @ List.take (nat n) (igItems g)))"

definition buy_node :: "ReserveMarket \<Rightarrow> nat list \<Rightarrow> bool \<Rightarrow> pass \<times> demandClass \<Rightarrow> CoverNode \<Rightarrow> pass \<times> demandClass" where
  "buy_node m at' atLoss st node =
     (let (ps, c) = st;
          (groups, taken) = foldl take_group (dcGroups c, []) (zip at' (cvPlaced node));
          holds = totalOf taken (\<lambda>it. reservedShape (itNeed it));
          action = length (paActions ps);
          ps = pass_buy m (cvOffer node) ActionBuy (if atLoss then ReasonSpotWait else ReasonWork) holds (map itID taken) None ps
      in (foldl (\<lambda>ps it. provisioning it None (Some action) ps) ps taken, c\<lparr>dcGroups := groups\<rparr>))"

definition coverClass :: "ReserveMarket \<Rightarrow> FleetOffer list \<Rightarrow> ranking \<Rightarrow> (itemGroup \<Rightarrow> bool) option \<Rightarrow> bool
    \<Rightarrow> pass \<times> demandClass \<Rightarrow> pass \<times> demandClass" where
  "coverClass m offers r only atLoss st =
     (let (ps, c) = st; (need, at') = coverNeed c only
      in if at' = [] then (ps, c)
         else let res = Cover offers need (servingCost (paP ps)) (pass_limits ps (min (pass_room ps m) (paHostRoom ps)) r)
              in foldl (buy_node m at' atLoss) (ps, c) (rsNodes res))"

definition loss_over_cap :: "pass \<Rightarrow> pendingItem \<Rightarrow> FleetOffer \<Rightarrow> bool" where
  "loss_over_cap ps it o' =
     (if oiOwnerPays (paOffers ps) then False
      else case indexRates (oiRates (paOffers ps))
                  (RateClassFor (rRegion (itNeed it) \<noteq> [] \<or> rZone (itNeed it) \<noteq> []) True) (ctGPU (foType o')) of
             None \<Rightarrow> True
           | Some rate \<Rightarrow> hourRevenue rate (reservedShape (itNeed it)) * 100
                            < foHourlyMicros o' * (100 - pLossCapPercent (paP ps)) * 1000)"

definition spot_waited :: "pass \<Rightarrow> pendingItem \<Rightarrow> bool" where
  "spot_waited ps it \<longleftrightarrow> paNow ps - itSince it \<ge> pSpotWait (paP ps) \<and> \<not> spotOffered ps (itNeed it)"

definition loss_ranking :: "pass \<Rightarrow> Requirement \<Rightarrow> ranking" where
  "loss_ranking ps need =
     (let inp = (paOffers ps)\<lparr>oiWaiveMargin := True\<rparr>
      in \<lparr>rkOffers = RankOffers (paP ps) need False inp, rkRefs = sizeRefs (paP ps) need False inp,
          rkSoon = RankOffers (paP ps) need False (availableSoon (paP ps) inp)\<rparr>)"

definition buy_alone :: "ranking \<Rightarrow> nat \<Rightarrow> pass \<times> demandClass \<Rightarrow> pendingItem \<Rightarrow> pass \<times> demandClass" where
  "buy_alone r k st it =
     (let (ps, c) = st
      in if \<not> spot_waited ps it then (ps, c)
         else let g = dcGroups c ! k;
                  alone = c\<lparr>dcGroups := [g\<lparr>igItems := [it]\<rparr>]\<rparr>;
                  (ps, alone) = foldl (\<lambda>st market.
                     foldl (\<lambda>st model.
                       coverClass (RM True model)
                         (filter (\<lambda>o'. \<not> (ctGPU (foType o') \<noteq> model \<or> foMarket o' \<noteq> market \<or> loss_over_cap ps it o')) (rkOffers r))
                         r None True st)
                     st (gpuModels ps (dcNeed c) (rkOffers r))) (ps, alone) [MarketSpot, MarketOnDemand]
              in (ps, if igItems (hd (dcGroups alone)) = []
                      then c\<lparr>dcGroups := (dcGroups c)[k := g\<lparr>igItems := filter (\<lambda>x. itID x \<noteq> itID it) (igItems g)\<rparr>]\<rparr>
                      else c))"

definition buyAtLoss :: "pass \<times> demandClass \<Rightarrow> pass \<times> demandClass" where
  "buyAtLoss st =
     (let (ps, c) = st
      in if \<not> list_ex (\<lambda>g. list_ex (spot_waited ps) (igItems g)) (dcGroups c) then (ps, c)
         else if \<not> oiOwnerPays (paOffers ps)
                 \<and> fsAtLossSpent (paS ps) * pLossCapPercent (paP ps) sdiv 100 \<ge> pLossBudget (paP ps) then (ps, c)
         else let r = loss_ranking ps (dcNeed c)
              in foldl (\<lambda>(ps, c) k. foldl (buy_alone r k) (ps, c) (igItems (dcGroups c ! k))) (ps, c) [0..<length (dcGroups c)])"

definition buy_models :: "ranking \<Rightarrow> ReserveMarket \<Rightarrow> string list \<Rightarrow> Market \<Rightarrow> (itemGroup \<Rightarrow> bool) option
    \<Rightarrow> pass \<times> demandClass \<Rightarrow> pass \<times> demandClass" where
  "buy_models r m models market only st =
     foldl (\<lambda>st model.
       coverClass (RM (rmPreemptible m) model)
         (filter (\<lambda>o'. \<not> (ctGPU (foType o') \<noteq> model \<or> foMarket o' \<noteq> market)) (rkOffers r)) r only False st) st models"

definition buyClass :: "ranking \<Rightarrow> pass \<times> demandClass \<Rightarrow> pass \<times> demandClass" where
  "buyClass r st =
     (let (ps, c) = st; m = dcMarket c; offers = rkOffers r
      in if rmGPU m \<noteq> []
         then let models = gpuModels ps (dcNeed c) offers
              in if \<not> rmPreemptible m then buy_models r m models MarketOnDemand None (ps, c)
                 else buyAtLoss (buy_models r m models MarketOnDemand
                        (Some (\<lambda>g. \<not> spotOffered ps (itNeed (hd (igItems g)))))
                        (buy_models r m models MarketSpot None (ps, c)))
         else coverClass m offers r None False
                (case map_of (paViews ps) m of
                   None \<Rightarrow> (ps, c)
                 | Some v \<Rightarrow>
                     if spotCPU m
                     then let least = Lower (mtHeadroom v) (lsCap (pLargestShape (paP ps)))
                          in coverClass m (filter (\<lambda>o'. \<not> (foMarket o' \<noteq> MarketSpot \<or> \<not> Covers (foUsable o') least)) offers)
                               r None False (ps, c)
                     else (ps, c)))"

definition offered_when :: "pass \<Rightarrow> ReserveMarket \<Rightarrow> Requirement \<Rightarrow> bool \<Rightarrow> (OfferInputs \<Rightarrow> OfferInputs) \<Rightarrow> bool" where
  "offered_when ps m need reserve relax =
     list_ex (\<lambda>o'. foMarket o' = buyMarket m \<and> ctGPU (foType o') = rmGPU m)
       (RankOffers (paP ps) need reserve (relax (paOffers ps)))"

definition shortReason :: "pass \<Rightarrow> ReserveMarket \<Rightarrow> Requirement \<Rightarrow> bool \<Rightarrow> CapacityWait" where
  "shortReason ps m need reserve =
     (if paHostRoom ps \<le> 0 \<or> reserve \<and> paReserveRoom ps \<le> 0 then WaitLimit
      else if fsBatchWait (paS ps) > 0 then WaitBatch
      else if pass_room ps m \<le> 0 then WaitDeferred
      else if offered_when ps m need reserve (\<lambda>inp. inp) then WaitQuota
      else if offered_when ps m need reserve (\<lambda>inp. inp\<lparr>oiCooldowns := []\<rparr>) then WaitCooldown
      else if offered_when ps m need reserve (\<lambda>inp. inp\<lparr>oiQuotas := []\<rparr>) then WaitQuota
      else if offered_when ps m need reserve (\<lambda>inp. inp\<lparr>oiOwnerPays := True\<rparr>) then WaitMargin
      else WaitNoOffer)"

definition group_item :: "itemGroup list \<Rightarrow> pendingItem \<Rightarrow> itemGroup list" where
  "group_item groups it =
     (let shape = reservedShape (itNeed it); disks = rDisks (itNeed it)
      in case index_func (\<lambda>g. igShape g = shape \<and> igDisks g = disks) groups of
           Some i \<Rightarrow> groups[i := (groups ! i)\<lparr>igItems := igItems (groups ! i) @ [it]\<rparr>]
         | None \<Rightarrow> groups @ [\<lparr>igShape = shape, igDisks = disks, igItems = [it]\<rparr>])"

definition class_item :: "pass \<Rightarrow> demandClass list \<Rightarrow> pendingItem \<Rightarrow> demandClass list" where
  "class_item ps classes it =
     (let (need, key) = classKey ps (itNeed it)
      in case index_func (\<lambda>c. dcKey c = key) classes of
           Some n \<Rightarrow> classes[n := (classes ! n)\<lparr>dcGroups := group_item (dcGroups (classes ! n)) it\<rparr>]
         | None \<Rightarrow> classes @ [\<lparr>dcNeed = need, dcKey = key, dcMarket = itMarket it, dcGroups = group_item [] it\<rparr>])"

text \<open>Why a container of a class that stays unbought waits.\<close>

definition item_waits :: "bool \<Rightarrow> demandClass \<Rightarrow> itemGroup \<Rightarrow> pass \<Rightarrow> pendingItem \<Rightarrow> pass" where
  "item_waits held c g ps it =
     (if paHostRoom ps \<le> 0
      then (pass_waits it WaitLimit ps)\<lparr>paLimited := (paLimited ps)(dcMarket c := True)\<rparr>
      else if held then (pass_waits it WaitBatch ps)\<lparr>paBatched := (paBatched ps)(dcMarket c := True)\<rparr>
      else pass_waits it (shortReason ps (dcMarket c) (needOf (dcNeed c) (igShape g)) False) ps)"

definition buy_demand :: "pass \<Rightarrow> demandClass \<Rightarrow> pass" where
  "buy_demand ps c =
     (let (held, ps) = (if paHostRoom ps > 0 then batching ps else (False, ps));
          (ps, c) = (if paHostRoom ps > 0 \<and> \<not> held then buyClass (classOffers ps (dcNeed c)) (ps, c) else (ps, c))
      in foldl (\<lambda>ps g. foldl (item_waits held c g) ps (igItems g)) ps (dcGroups c))"

definition buyFor :: "pass \<Rightarrow> pendingItem list \<Rightarrow> pass" where
  "buyFor ps items = foldl buy_demand ps (foldl (class_item ps) [] items)"

definition pass_cover :: "pass \<Rightarrow> pendingItem list \<Rightarrow> pass" where
  "pass_cover ps items =
     (let q = foldl (cover_item (htFloor (mrWarm (pOnDemand (paP ps))))) (cover_start ps) items;
          (ps, left) = resumeFor ((cqPass q)\<lparr>paPartsShort := parts_short q\<rparr>) (cqLeft q)
      in buyFor ps left)"

end
