(* ===== verification/Keep.thy ===== *)
theory Keep
  imports PlanCover
begin

text \<open>
  What a pass does with one market once pending work is covered (\<open>internal/compute/fleet_keep.go\<close>): which
  running hosts it keeps, how it grows, which reserves it keeps, buys or retires, and whether it replaces a host.
  The market's view is read from and written back to the pass.
\<close>

subsection \<open>Keeping hosts\<close>

definition stays :: "pass \<Rightarrow> FleetHost \<Rightarrow> bool" where
  "stays ps h \<longleftrightarrow> busy h \<or> fhID h \<in> set (paClaimed ps) \<or> starting h \<and> \<not> fhRequested h \<or> fhUpdateDue h
     \<or> fhRequested h \<and> fhReplaces h \<noteq> None"

definition leaving :: "pass \<Rightarrow> marketView \<Rightarrow> FleetHost \<Rightarrow> bool" where
  "leaving ps v h \<longleftrightarrow> fhSlept h \<and> stays ps h \<or> inMarket ps (mtM v) (\<lambda>r. fhReplaces r = Some (fhID h)) \<noteq> []"

definition keepOrder :: "pass \<Rightarrow> marketView \<Rightarrow> nat list" where
  "keepOrder ps v =
     sort_key (\<lambda>i. let h = paHosts ps ! i in (\<not> stays ps h, fhRequested h, fhSlept h, retention_key ps h))
       (inMarket ps (mtM v) (\<lambda>h. \<not> reserve_host h \<and> (serving h \<or> starting h \<or> fhRequested h)))"

definition returnable :: "pass \<Rightarrow> FleetHost \<Rightarrow> bool" where
  "returnable ps h \<longleftrightarrow> typeNamed ps (fhInstanceType h) \<noteq> None \<and> fhStoppable h \<and> \<not> fhProtected h"

definition reserveSupply :: "pass \<Rightarrow> marketView \<Rightarrow> HostID \<Rightarrow> FleetCapacity" where
  "reserveSupply ps v skip = hosts_total ps (inMarket ps (mtM v) (\<lambda>h. fhID h \<noteq> skip \<and> counted v h)) fhUsable"

definition return_reason :: "pass \<Rightarrow> marketView \<Rightarrow> FleetHost \<Rightarrow> ActionReason option" where
  "return_reason ps v h =
     (if \<not> returnable ps h then None
      else if \<not> Covers (reserveSupply ps v (fhID h)) (lpLoad (mhStopped (mtHolds v))) then Some ReasonReserve
      else if fitsLargest ps v h \<and> \<not> holdsLargest ps v (fhID h) then Some ReasonLargest
      else None)"

definition leave :: "marketView \<Rightarrow> nat \<Rightarrow> pass \<Rightarrow> pass" where
  "leave v i ps =
     (let h = paHosts ps ! i
      in if fhRequested h then pass_act (plain_action ActionCancel ReasonUnclaimed (mtM v) (fhID h)) ps
         else case (if paReserveRoom ps > 0 then return_reason ps v h else None) of
                Some short \<Rightarrow>
                  let mode = (if fhHibernationConfigured h \<and> hibernates (type_or_zero ps (fhInstanceType h))
                              then ReserveHibernate else ReserveStop);
                      ps = set_host i (\<lambda>h. h\<lparr>fhState := FleetPreparing, fhReserveMode := Some mode\<rparr>) ps;
                      ps = ps\<lparr>paReserveRoom := paReserveRoom ps - 1\<rparr>
                  in pass_act ((plain_action ActionReturnToReserve short (mtM v) (fhID h))\<lparr>faMode := Some mode\<rparr>) ps
              | None \<Rightarrow>
                  pass_act (plain_action ActionDrain ReasonIdle (mtM v) (fhID h))
                    (set_host i (\<lambda>h. h\<lparr>fhState := FleetDraining\<rparr>) ps))"

record keep_state =
  ksPass :: pass
  ksView :: marketView
  ksReady :: "FleetCapacity list"
  ksRooms :: "FleetCapacity list"

definition keep_planned :: "pass \<Rightarrow> marketView \<Rightarrow> keep_state" where
  "keep_planned ps v =
     (let planned = filter (\<lambda>n. phMarket n = mtM v \<and> \<not> phReserve n) (paPlanned ps)
      in \<lparr>ksPass = ps,
          ksView = v\<lparr>mvCapacity := foldl (\<lambda>c n. Plus_cap c (foUsable (phOffer n))) (mvCapacity v) planned\<rparr>,
          ksReady = [], ksRooms = map (\<lambda>n. Clamp (Minus_cap (foUsable (phOffer n)) (phHolds n))) planned\<rparr>)"

definition surplus :: "keep_state \<Rightarrow> FleetHost \<Rightarrow> bool" where
  "surplus k h =
     (let v = ksView k
      in if fhRequested h then Covers (mvCapacity v) (mtWant v) \<and> placesAll (ksRooms k) (mtWantParts v)
         else Covers (mvCovered v) (lpLoad (mhRunning (mtHolds v))) \<and> placesAll (ksReady k) (mtHeldParts v))"

definition keep_host :: "keep_state \<Rightarrow> nat \<Rightarrow> keep_state" where
  "keep_host k i =
     (let ps = ksPass k; v = ksView k; h = paHosts ps ! i
      in if \<not> stays ps h \<and> surplus k h then k\<lparr>ksPass := leave v i ps\<rparr>
         else let v = v\<lparr>mvKept := mvKept v @ [i], mvCapacity := Plus_cap (mvCapacity v) (fhUsable h)\<rparr>;
                  k = k\<lparr>ksView := v, ksRooms := ksRooms k @ [room_of_host h]\<rparr>
              in if \<not> serving h then k
                 else if leaving ps v h then k\<lparr>ksView := v\<lparr>mvCovered := Plus_cap (mvCovered v) (fhLoad h)\<rparr>\<rparr>
                 else k\<lparr>ksView := v\<lparr>mvCovered := Plus_cap (mvCovered v) (fhUsable h)\<rparr>, ksReady := ksReady k @ [room_of_host h]\<rparr>)"

definition keep_loop :: "pass \<Rightarrow> ReserveMarket \<Rightarrow> keep_state" where
  "keep_loop ps m = foldl keep_host (keep_planned ps (view_at ps m)) (keepOrder ps (view_at ps m))"

definition pass_keep :: "ReserveMarket \<Rightarrow> pass \<Rightarrow> pass" where
  "pass_keep m ps =
     (let k = keep_loop ps m
      in set_view m ((ksView k)\<lparr>mvUnplaced := unplaced (ksRooms k) (mtWantParts (ksView k))\<rparr>) (ksPass k))"

subsection \<open>Growing\<close>

definition needMet :: "CoverNeed \<Rightarrow> bool" where
  "needMet need \<longleftrightarrow> cnItems need = [] \<and> Empty_cap (cnAggregate need)"

definition growReason :: "CoverNeed \<Rightarrow> ActionReason" where
  "growReason need = (if cnItems need \<noteq> [] then ReasonFloor else ReasonLoad)"

text \<open>What of a need a reserve's room takes: its items first fit, then the room left off the aggregate.\<close>

definition take_items :: "FleetCapacity \<Rightarrow> CoverItem list \<Rightarrow> FleetCapacity \<times> CoverItem list" where
  "take_items usable items =
     foldl (\<lambda>(rm, rest) it. if Covers rm (ciShape it) then (Minus_cap rm (ciShape it), rest) else (rm, rest @ [it]))
       (usable, []) items"

fun resumes_loop :: "pass \<Rightarrow> marketView \<Rightarrow> CoverNeed \<Rightarrow> nat list \<Rightarrow> CoverNeed \<times> nat list" where
  "resumes_loop ps v need [] = (need, [])"
| "resumes_loop ps v need (i # is) =
     (if needMet need \<or> paHostRoom ps \<le> 0 \<or> pass_room ps (mtM v) \<le> 0 then (need, [])
      else let h = paHosts ps ! i; (rm, rest) = take_items (fhUsable h) (cnItems need)
           in if length rest = length (cnItems need) \<and> Empty_cap (cnAggregate need) \<or> \<not> leavesLarge ps h \<or> \<not> resumePays ps h need
              then resumes_loop ps v need is
              else let (need', out) = resumes_loop ps v \<lparr>cnItems = rest, cnAggregate = Clamp (Minus_cap (cnAggregate need) rm)\<rparr> is
                   in (need', i # out))"

definition resumesFor :: "pass \<Rightarrow> marketView \<Rightarrow> CoverNeed \<Rightarrow> CoverNeed \<times> nat list" where
  "resumesFor ps v need =
     resumes_loop ps v need
       (sort_key (\<lambda>i. retention_key ps (paHosts ps ! i)) (inMarket ps (mtM v) (\<lambda>h. pass_ready ps h False)))"

text \<open>What a bought node must hold: its share of the aggregate and the items placed on it.\<close>

definition node_need :: "CoverNeed \<Rightarrow> CoverNode \<Rightarrow> FleetCapacity" where
  "node_need need node =
     foldl (\<lambda>holds (item, n). if n > 0 then Upper holds (ciShape item) else holds)
       (Lower (foUsable (cvOffer node)) (cnAggregate need)) (zip (cnItems need) (cvPlaced node))"

definition buy_cover :: "ReserveMarket \<Rightarrow> ranking \<Rightarrow> FleetOffer list \<Rightarrow> CoverNeed \<Rightarrow> pass \<Rightarrow> pass \<times> CoverResult" where
  "buy_cover m r offers need ps =
     (let res = Cover offers need (servingCost (paP ps)) (pass_limits ps (min (pass_room ps m) (paHostRoom ps)) r)
      in (foldl (\<lambda>ps node. pass_buy m (cvOffer node) ActionBuy (growReason need) (node_need need node) [] None ps) ps (rsNodes res),
          res))"

text \<open>What a first cover leaves, and both covers together.\<close>

definition rest_need :: "CoverNeed \<Rightarrow> CoverResult \<Rightarrow> CoverNeed" where
  "rest_need need res = \<lparr>cnItems = rsUnmetItems res, cnAggregate = Clamp (Minus_cap (cnAggregate need) (rsSupplied res))\<rparr>"

definition both_covers :: "CoverResult \<Rightarrow> CoverResult \<Rightarrow> CoverResult" where
  "both_covers res rest = \<lparr>rsNodes = rsNodes res @ rsNodes rest, rsUnmetItems = rsUnmetItems rest,
     rsSupplied = Plus_cap (rsSupplied res) (rsSupplied rest)\<rparr>"

definition buyHeadroom :: "marketView \<Rightarrow> CoverNeed \<Rightarrow> pass \<Rightarrow> pass \<times> CoverResult" where
  "buyHeadroom v need ps =
     (let m = mtM v; r = marketRanking ps m False
      in if rmGPU m \<noteq> []
         then buy_cover m r (filter (\<lambda>o'. sized (paP ps) o' (mtLargest v) (mtLargestDisks v) (rkRefs r) (rkSoon r)) (rkOffers r)) need ps
         else if \<not> spotCPU m then buy_cover m r (rkOffers r) need ps
         else let least = Lower (mtHeadroom v) (lsCap (pLargestShape (paP ps)));
                  (ps, res) = buy_cover m r (filter (\<lambda>o'. Covers (foUsable o') least) (rkOffers r)) need ps
              in if Complete res need then (ps, res)
                 else let (ps, rest) = buy_cover m r (rkOffers r) (rest_need need res) ps
                      in (ps, both_covers res rest))"

definition grow_need :: "marketView \<Rightarrow> CoverNeed" where
  "grow_need v =
     \<lparr>cnItems = map (\<lambda>part. \<lparr>ciShape = part, ciDisks = 0, ciCount = 1, ciMarket = None, ciRides = False\<rparr>) (mvUnplaced v),
      cnAggregate = Clamp (Minus_cap (Clamp (Minus_cap (mtWant v) (mvCapacity v))) (total_cap (mvUnplaced v)))\<rparr>"

definition set_short_since :: "time option \<Rightarrow> marketView \<Rightarrow> marketView" where
  "set_short_since t v = v\<lparr>mtHolds := (mtHolds v)\<lparr>mhShortSince := t\<rparr>\<rparr>"

text \<open>Why headroom that falls short waits, before anything is resumed or bought for it.\<close>

definition grow_waits :: "pass \<Rightarrow> marketView \<Rightarrow> CapacityWait option" where
  "grow_waits ps v =
     (let running = hosts_total ps (mvKept v) fhLoad;
          taken = (Covers (mtFloor v) (mvShortfall v) \<and> Covers (mvCapacity v) (Clamp (Minus_cap (mtWant v) running)));
          since = (case mhShortSince (mtHolds v) of None \<Rightarrow> paNow ps | Some t \<Rightarrow> t)
      in if paWaiting ps (mtM v) then Some WaitDemand
         else if taken \<and> \<not> mtArriving v \<and> paNow ps - since < pKeep (paP ps) then Some WaitKeep
         else if paHostRoom ps \<le> 0 \<or> pass_room ps (mtM v) \<le> 0
         then Some (shortReason ps (mtM v) (shapeNeed (mtM v) (mvShortfall v)) False)
         else None)"

definition grow_buys :: "marketView \<Rightarrow> CoverNeed \<Rightarrow> pass \<Rightarrow> pass \<times> marketView" where
  "grow_buys v need ps =
     (let (ps, res) = buyHeadroom v need ps;
          short = foldl (\<lambda>s it. Plus_cap s (Times_cap (ciShape it) (ciCount it)))
                    (Clamp (Minus_cap (cnAggregate need) (rsSupplied res))) (rsUnmetItems res);
          v = v\<lparr>mvShortfall := short\<rparr>
      in (ps, if Empty_cap short then v
              else v\<lparr>mvRunningReason := shortReason ps (mtM v) (shapeNeed (mtM v) short) False\<rparr>))"

text \<open>The view of a market that falls short: since when, and by how much.\<close>

definition short_view :: "pass \<Rightarrow> marketView \<Rightarrow> marketView" where
  "short_view ps v =
     (let v = (if mhShortSince (mtHolds v) = None then set_short_since (Some (paNow ps)) v else v)
      in v\<lparr>mvShortfall := Plus_cap (cnAggregate (grow_need v)) (total_cap (mvUnplaced v))\<rparr>)"

text \<open>Reserves resume for the shortfall, and purchases cover the rest.\<close>

definition grow_covers :: "ReserveMarket \<Rightarrow> marketView \<Rightarrow> CoverNeed \<Rightarrow> pass \<Rightarrow> pass" where
  "grow_covers m v need ps =
     (let (need, out) = resumesFor ps v need;
          ps = foldl (\<lambda>ps i. pass_resume m i (growReason need) [] ps) ps out
      in if needMet need then set_view m (v\<lparr>mvShortfall := NoCapacity\<rparr>) ps
         else let (held, ps) = batching ps
              in if held then set_view m (v\<lparr>mvRunningReason := WaitBatch\<rparr>) ps
                 else let (ps, v) = grow_buys v need ps in set_view m v ps)"

definition pass_grow :: "ReserveMarket \<Rightarrow> pass \<Rightarrow> pass" where
  "pass_grow m ps =
     (let v = view_at ps m; need = grow_need v
      in if needMet need then set_view m (set_short_since None v) ps
         else let v = short_view ps v
              in case grow_waits ps v of
                   Some why \<Rightarrow> set_view m (v\<lparr>mvRunningReason := why\<rparr>) ps
                 | None \<Rightarrow> grow_covers m v need ps)"

subsection \<open>Reserves\<close>

definition dueBack :: "pass \<Rightarrow> marketView \<Rightarrow> FleetHost \<Rightarrow> bool" where
  "dueBack ps v h =
     (if \<not> serving h \<and> \<not> starting h \<or> \<not> returnable ps h then False
      else if mrAwaitReturn (Policy_Reserve (paP ps) (mtM v)) then True
      else fhSlept h \<and> (\<not> busy h \<and> fhID h \<notin> set (paClaimed ps) \<or> paNow ps - fhPhaseAt h < pKeep (paP ps)))"

definition dueBackSupply :: "pass \<Rightarrow> marketView \<Rightarrow> FleetCapacity" where
  "dueBackSupply ps v = hosts_total ps (inMarket ps (mtM v) (dueBack ps v)) fhUsable"

definition lacksLargest :: "pass \<Rightarrow> marketView \<Rightarrow> bool" where
  "lacksLargest ps v \<longleftrightarrow> \<not> holdsLargest ps v 0
     \<and> \<not> list_ex (\<lambda>i. fitsLargest ps v (paHosts ps ! i)) (inMarket ps (mtM v) (dueBack ps v))"

definition preferHibernating :: "FleetOffer list \<Rightarrow> FleetCapacity \<Rightarrow> int \<Rightarrow> FleetOffer list" where
  "preferHibernating offers shape disks =
     (let fits = (\<lambda>o'. Covers (foUsable o') shape \<and> DiskSlots (foType o') \<ge> disks)
      in if list_ex (\<lambda>o'. foHibernate o' \<and> fits o') offers then filter (\<lambda>o'. \<not> (\<not> foHibernate o' \<and> fits o')) offers else offers)"

definition misplaced :: "pass \<Rightarrow> marketView \<Rightarrow> string \<Rightarrow> bool" where
  "misplaced ps v region =
     (case marketRead (paOffers ps) (mtM v) of
        None \<Rightarrow> False
      | Some r \<Rightarrow>
          if region = vrRegion r then False
          else let offers = preferHibernating (marketOffers ps (mtM v) True) (mtLargest v) (mtLargestDisks v);
                   saved = readMicros (paP ps) (Some r) region * (pCostHorizon (paP ps) sdiv second)
               in case index_func (\<lambda>o'. view_fits v (foUsable o') (foType o')) offers of
                    None \<Rightarrow> False
                  | Some i \<Rightarrow> foRegion (offers ! i) = vrRegion r
                               \<and> foHourlyMicros (offers ! i) * (pProvision (paP ps) sdiv second) < saved)"

definition coverReserves :: "marketView \<Rightarrow> CoverNeed \<Rightarrow> FleetOffer list \<Rightarrow> pass \<Rightarrow> pass \<times> CoverResult" where
  "coverReserves v need offers ps =
     (let m = mtM v;
          res = Cover offers need (reserveCost (paP ps))
                  (pass_limits ps (min (min (pass_room ps m) (paReserveRoom ps)) (paHostRoom ps)) (marketRanking ps m True))
      in (foldl (\<lambda>ps node.
            pass_buy m (cvOffer node) ActionBuyReserve
              (if list_ex (\<lambda>(item, n). n > 0) (zip (cnItems need) (cvPlaced node)) then ReasonLargest else ReasonReserve)
              (node_need need node) [] None ps) ps (rsNodes res),
          res))"

definition buyReserves :: "marketView \<Rightarrow> CoverNeed \<Rightarrow> FleetCapacity \<Rightarrow> FleetCapacity \<Rightarrow> pass \<Rightarrow> pass \<times> CoverResult" where
  "buyReserves v need shape least ps =
     (let offers = marketOffers ps (mtM v) True;
          offers = (if Empty_cap shape then offers else preferHibernating offers shape (mtLargestDisks v));
          large = filter (\<lambda>o'. Covers (foUsable o') least) offers
      in if Empty_cap least \<or> large = [] then coverReserves v need offers ps
         else let (ps, res) = coverReserves v need large ps
              in if Complete res need then (ps, res)
                 else let (ps, rest) = coverReserves v (rest_need need res) offers ps
                      in (ps, both_covers res rest))"

definition reserveReason :: "pass \<Rightarrow> FleetCapacity \<Rightarrow> marketView \<Rightarrow> marketView" where
  "reserveReason ps item v =
     (if Empty_cap (mvStoppedShort v) then v
      else v\<lparr>mvStoppedReason := shortReason ps (mtM v) (shapeNeed (mtM v) item) True\<rparr>)"

definition retire_reserve :: "ActionReason \<Rightarrow> pass \<times> marketView \<Rightarrow> nat \<Rightarrow> pass \<times> marketView" where
  "retire_reserve why st i =
     (let (ps, v) = st; h = fhID (paHosts ps ! i)
      in (pass_act (plain_action ActionRetireReserve why (mtM v) h) (ps\<lparr>paReserveRoom := paReserveRoom ps + 1\<rparr>),
          v\<lparr>mvRetired := h # mvRetired v\<rparr>))"

definition reserve_order :: "pass \<Rightarrow> marketView \<Rightarrow> nat list" where
  "reserve_order ps v =
     sort_key (\<lambda>i. let h = paHosts ps ! i
         in (\<not> counted v h, misplaced ps v (fhRegion h), \<not> fitsLargest ps v h, \<not> resumable h,
             typeNamed ps (fhInstanceType h) \<noteq> None \<and> \<not> host_cooled ps h, stoppedMicros ps h, fcCPUMillis (fhUsable h), fhID h))
       (inMarket ps (mtM v) (\<lambda>h. reserve_host h \<and> \<not> fhProtected h \<and> fhState h \<noteq> FleetStopping))"

record reserve_walk =
  rwPass :: pass
  rwView :: marketView
  rwCovered :: FleetCapacity
  rwReady :: FleetCapacity
  rwReadyLargest :: bool

text \<open>\<open>hasLargest\<close> of the code is set and never read.\<close>

definition walk_reserve :: "reserve_walk \<Rightarrow> nat \<Rightarrow> reserve_walk" where
  "walk_reserve w i =
     (let ps = rwPass w; v = rwView w; h = paHosts ps ! i
      in if Covers (rwReady w) (lpLoad (mhStopped (mtHolds v))) \<and> rwReadyLargest w
         then let (ps, v) = retire_reserve ReasonSurplus (ps, v) i in w\<lparr>rwPass := ps, rwView := v\<rparr>
         else if counted v h
         then let w = w\<lparr>rwCovered := Plus_cap (rwCovered w) (fhUsable h)\<rparr>
              in if resumable h
                 then w\<lparr>rwReady := Plus_cap (rwReady w) (fhUsable h), rwReadyLargest := rwReadyLargest w \<or> fitsLargest ps v h\<rparr>
                 else w
         else w)"

definition walk_reserves :: "pass \<Rightarrow> marketView \<Rightarrow> reserve_walk" where
  "walk_reserves ps v =
     (let (ps, v) = foldl (retire_reserve ReasonInterrupted) (ps, v) (inMarket ps (mtM v) (\<lambda>h. resumable h \<and> fhProtected h))
      in foldl walk_reserve
           \<lparr>rwPass = ps, rwView = v, rwCovered = NoCapacity, rwReady = NoCapacity, rwReadyLargest = Empty_cap (mtLargest v)\<rparr>
           (reserve_order ps v))"

definition largest_item :: "marketView \<Rightarrow> FleetCapacity \<Rightarrow> CoverItem" where
  "largest_item v item = \<lparr>ciShape = item, ciDisks = mtLargestDisks v, ciCount = 1, ciMarket = None, ciRides = False\<rparr>"

text \<open>A share of load sets the target: one cover holds it, the largest shape among it.\<close>

definition reserves_loaded :: "marketView \<Rightarrow> FleetCapacity \<Rightarrow> FleetCapacity \<Rightarrow> pass \<Rightarrow> pass \<times> marketView" where
  "reserves_loaded v item short ps =
     (let need = (if Empty_cap item then \<lparr>cnItems = [], cnAggregate = short\<rparr>
                  else \<lparr>cnItems = [largest_item v item], cnAggregate = Clamp (Minus_cap short item)\<rparr>);
          least = (if spotCPU (mtM v) then Lower (lpLoad (mhStopped (mtHolds v))) (lsDefault (pLargestShape (paP ps))) else NoCapacity);
          (ps, res) = buyReserves v need least least ps;
          v = v\<lparr>mvStoppedShort := (if rsUnmetItems res \<noteq> [] then Upper (Clamp (Minus_cap short (rsSupplied res))) item
                                    else Clamp (Minus_cap (cnAggregate need) (rsSupplied res)))\<rparr>
      in (ps, reserveReason ps item v))"

text \<open>At the floor: the reserve that fits the largest shape first, then the rest in the cheapest room.\<close>

definition reserves_floor :: "marketView \<Rightarrow> FleetCapacity \<Rightarrow> FleetCapacity \<Rightarrow> pass \<Rightarrow> pass \<times> marketView" where
  "reserves_floor v item short ps =
     (let (ps, supplied, unmet) =
            (if Empty_cap item then (ps, NoCapacity, False)
             else let (ps, res) = buyReserves v \<lparr>cnItems = [largest_item v item], cnAggregate = NoCapacity\<rparr> item NoCapacity ps
                  in (ps, totalOf (rsNodes res) (\<lambda>n. foUsable (cvOffer n)), rsUnmetItems res \<noteq> []));
          rest = Clamp (Minus_cap short (Upper supplied item));
          (ps, supplied) =
            (if Empty_cap rest then (ps, supplied)
             else let (ps, res) = buyReserves v \<lparr>cnItems = [], cnAggregate = rest\<rparr> NoCapacity NoCapacity ps
                  in (ps, Plus_cap supplied (rsSupplied res)));
          v = v\<lparr>mvStoppedShort := (let s = Clamp (Minus_cap short supplied) in if unmet then Upper s item else s)\<rparr>
      in (ps, reserveReason ps item v))"

definition pass_reserves :: "ReserveMarket \<Rightarrow> pass \<Rightarrow> pass" where
  "pass_reserves m ps =
     (let w = walk_reserves ps (view_at ps m); ps = set_view m (rwView w) (rwPass w); v = rwView w;
          target' = lpLoad (mhStopped (mtHolds v));
          item = (if holdsLargest ps v 0 then NoCapacity else mtLargest v);
          v = v\<lparr>mvStoppedShort := Upper (Clamp (Minus_cap target' (rwCovered w))) item\<rparr>;
          short = Clamp (Minus_cap (Minus_cap target' (reserveSupply ps v 0)) (dueBackSupply ps v))
      in if Empty_cap (mvStoppedShort v) then set_view m v ps
         else if paWaiting ps m then set_view m (v\<lparr>mvStoppedReason := WaitDemand\<rparr>) ps
         else if Empty_cap short \<and> \<not> lacksLargest ps v then set_view m (v\<lparr>mvStoppedReason := WaitReturning\<rparr>) ps
         else let (held, ps) = batching ps
              in if held then set_view m (v\<lparr>mvStoppedReason := WaitBatch\<rparr>) ps
                 else let (ps, v) = (if mtLoaded v then reserves_loaded v item short ps else reserves_floor v item short ps)
                      in set_view m v ps)"

subsection \<open>Replacing a host\<close>

definition holdsOf :: "pass \<Rightarrow> marketView \<Rightarrow> FleetHost \<Rightarrow> FleetCapacity" where
  "holdsOf ps v h =
     (let holds = Lower (Clamp (Minus_cap (mtWant v) (Minus_cap (mvCapacity v) (fhUsable h)))) (fhUsable h);
          others = filter (\<lambda>k. fhID k \<noteq> fhID h \<and> serving k \<and> \<not> leaving ps v k) (map (\<lambda>i. paHosts ps ! i) (mvKept v))
      in Upper holds (total_cap (unplaced (map room_of_host others) (mtWantParts v))))"

definition better_payback :: "pass \<Rightarrow> FleetHost \<Rightarrow> int \<Rightarrow> FleetCapacity \<Rightarrow> (FleetOffer \<times> int) option \<Rightarrow> FleetOffer \<Rightarrow> (FleetOffer \<times> int) option" where
  "better_payback ps h c need best o' =
     (let payback = c - servingCost (paP ps) o' - foHourlyMicros o' * (pProvision (paP ps) sdiv second)
      in if ctName (foType o') \<noteq> fhInstanceType h \<and> Covers (foUsable o') need
            \<and> payback > (case best of None \<Rightarrow> 0 | Some (_, b) \<Rightarrow> b)
         then Some (o', payback) else best)"

definition replacement :: "pass \<Rightarrow> marketView \<Rightarrow> FleetHost \<Rightarrow> (FleetOffer \<times> int) option" where
  "replacement ps v h =
     (let refused = (case fhRightsizeRefusedAt h of None \<Rightarrow> False | Some t \<Rightarrow> paNow ps - t < pCostHorizon (paP ps))
      in case hostCost ps h of
           None \<Rightarrow> None
         | Some c \<Rightarrow>
             if \<not> serving h \<or> busy h \<or> fhID h \<in> set (paClaimed ps) \<or> fhProtected h \<or> refused then None
             else let need = holdsOf ps v h
                  in if Empty_cap need then None
                     else foldl (better_payback ps h c need) None (marketOffers ps (mtM v) False))"

definition best_replacement :: "pass \<Rightarrow> marketView \<Rightarrow> (FleetOffer \<times> nat \<times> int) option" where
  "best_replacement ps v =
     foldl (\<lambda>best i.
       case replacement ps v (paHosts ps ! i) of
         None \<Rightarrow> best
       | Some (o', payback) \<Rightarrow>
           if payback > (case best of None \<Rightarrow> 0 | Some (_, _, b) \<Rightarrow> b) then Some (o', i, payback) else best)
     None (mvKept v)"

definition rightsizes :: "pass \<Rightarrow> marketView \<Rightarrow> bool" where
  "rightsizes ps v \<longleftrightarrow>
     \<not> (paWaiting ps (mtM v) \<or> fsBatchWait (paS ps) > 0
        \<or> list_ex (\<lambda>a. faMarket a = mtM v \<and> faKind a \<noteq> ActionRetireReserve) (paActions ps)
        \<or> list_ex (\<lambda>i. \<not> serving (paHosts ps ! i) \<or> paNow ps - fhPhaseAt (paHosts ps ! i) < pKeep (paP ps)) (mvKept v)
        \<or> lpLoad (mhRunning (mtHolds v)) \<noteq> mtWant v \<or> pass_room ps (mtM v) \<le> 0 \<or> paHostRoom ps \<le> 0)"

definition pass_rightsize :: "ReserveMarket \<Rightarrow> pass \<Rightarrow> pass" where
  "pass_rightsize m ps =
     (let v = view_at ps m
      in if \<not> rightsizes ps v then ps
         else case best_replacement ps v of
                None \<Rightarrow> ps
              | Some (o', i, _) \<Rightarrow>
                  pass_buy m o' ActionRightsize ReasonCheaper (holdsOf ps v (paHosts ps ! i)) [] (Some (fhID (paHosts ps ! i))) ps)"

end
