(* ===== verification/Plan.thy ===== *)
theory Plan
  imports Keep
begin

text \<open>
  \<open>PlanFleet\<close> of \<open>internal/compute/fleet_plan.go\<close>: one pass over a snapshot, and the plan it publishes.
\<close>

subsection \<open>The published plan\<close>

definition warmFree :: "pass \<Rightarrow> marketView \<Rightarrow> FleetCapacity" where
  "warmFree ps v = hosts_total ps (inMarket ps (mtM v) serving) free_of_host"

definition warmPending :: "pass \<Rightarrow> marketView \<Rightarrow> FleetCapacity" where
  "warmPending ps v =
     foldl (\<lambda>c n. if phMarket n = mtM v \<and> \<not> phReserve n then Plus_cap c (foUsable (phOffer n)) else c)
       (hosts_total ps (inMarket ps (mtM v) starting) fhUsable) (paPlanned ps)"

definition add_state :: "FleetStateCapacity list \<Rightarrow> FleetHost \<Rightarrow> FleetStateCapacity list" where
  "add_state out h =
     (let (out, i) = (case index_func (\<lambda>s. scState s = fhState h) out of
                        Some i \<Rightarrow> (out, i)
                      | None \<Rightarrow> (out @ [\<lparr>scState = fhState h, scMachines = 0, scCapacity = NoCapacity, scAllocated = NoCapacity\<rparr>],
                                  length out));
          s = out ! i
      in out[i := s\<lparr>scMachines := scMachines s + 1, scCapacity := Plus_cap (scCapacity s) (fhUsable h),
                    scAllocated := Plus_cap (scAllocated s) (fhLoad h)\<rparr>])"

definition pass_states :: "pass \<Rightarrow> ReserveMarket \<Rightarrow> FleetStateCapacity list" where
  "pass_states ps m =
     sort_key (\<lambda>s. fleet_state_name (scState s)) (foldl add_state [] (filter (\<lambda>h. host_market h = m) (fsHosts (paS ps))))"

definition pass_report :: "pass \<Rightarrow> marketView \<Rightarrow> MarketPlan" where
  "pass_report ps v =
     (let m = mtM v;
          kept = inMarket ps m (\<lambda>h. reserve_host h \<and> fhID h \<notin> set (mvRetired v));
          reserve = hosts_total ps kept fhUsable;
          ready = hosts_total ps (filter (\<lambda>i. resumable (paHosts ps ! i)) kept) fhUsable
      in \<lparr>mpMarket = m, mpLoad = mtLoad v, mpWarmTarget = mtHeadroom v, mpWarmFree = warmFree ps v,
          mpWarmPending = warmPending ps v, mpStoppedTarget = lpLoad (mhStopped (mtHolds v)), mpReserveReady = ready,
          mpReservePending = Clamp (Minus_cap reserve ready), mpShortfall = mvShortfall v,
          mpStoppedShortfall = mvStoppedShort v, mpHolds = mtHolds v,
          mpReason = (if paLimited ps m then WaitLimit
                      else if paBatched ps m then WaitBatch
                      else if \<not> Empty_cap (mvShortfall v) then mvRunningReason v
                      else if \<not> Empty_cap (mvStoppedShort v) then mvStoppedReason v
                      else WaitNone),
          mpStates = pass_states ps m\<rparr>)"

definition publish_report :: "ReserveMarket \<Rightarrow> pass \<Rightarrow> pass" where
  "publish_report m ps =
     ps\<lparr>paPlan := (paPlan ps)\<lparr>pnMarkets := pnMarkets (paPlan ps) @ [pass_report ps (view_at ps m)]\<rparr>\<rparr>"

subsection \<open>The pass\<close>

definition class_reads :: "DemandGroup list \<Rightarrow> string \<Rightarrow> int" where
  "class_reads groups =
     foldl (\<lambda>reads g.
       case rRead (dgNeed g) of
         None \<Rightarrow> reads
       | Some r \<Rightarrow> let key = class_key (dgNeed g) in reads(key := max (reads key) (vrBytes r))) (\<lambda>_. 0) groups"

definition new_pass :: "Policy \<Rightarrow> FleetSnapshot \<Rightarrow> pass" where
  "new_pass p s =
     (let used = QuotaUse (fsHosts s) (oiCatalog (fsOffers s))
      in \<lparr>paP = p, paS = s\<lparr>fsOffers := (fsOffers s)\<lparr>oiQuotaUsed := used\<rparr>\<rparr>, paHosts = fsHosts s,
          paPlan = \<lparr>pnMarkets = [], pnActions = [], pnWaits = [], pnBatchWait = 0\<rparr>, paPlanned = [],
          paUsed = (\<lambda>_. 0), paWaiting = (\<lambda>_. False), paLimited = (\<lambda>_. False), paBatched = (\<lambda>_. False),
          paHostRoom = fsHostRoom s, paReserveRoom = fsReserveRoom s, paClassReads = class_reads (fsPending s),
          paViews = [], paClaimed = [], paPartsShort = (\<lambda>_. []), paQuotaUsed = used,
          paSpot = freshSpot p (oiSpot (fsOffers s)) (fsNow s)\<rparr>)"

definition plan_market :: "pass \<Rightarrow> ReserveMarket \<Rightarrow> pass" where
  "plan_market ps m = publish_report m (pass_rightsize m (pass_reserves m (pass_grow m (pass_keep m ps))))"

definition plan_pass :: "Policy \<Rightarrow> FleetSnapshot \<Rightarrow> pass" where
  "plan_pass p s =
     (let ps = handBack (new_pass p s);
          (ps, items) = pendingItems ps;
          views = market_targets p (paS ps) (paHosts ps) items;
          ps = pass_cover (ps\<lparr>paViews := views\<rparr>) items
      in foldl plan_market ps (map fst views))"

definition PlanFleet :: "Policy \<Rightarrow> FleetSnapshot \<Rightarrow> FleetPlan" where
  "PlanFleet p s = paPlan (plan_pass p s)"

subsection \<open>The states of a market\<close>

text \<open>What a report should say of one state, given a market's hosts.\<close>

definition state_totals :: "FleetHost list \<Rightarrow> FleetState \<Rightarrow> FleetStateCapacity" where
  "state_totals hosts st =
     (let hs = filter (\<lambda>h. fhState h = st) hosts
      in \<lparr>scState = st, scMachines = int (length hs), scCapacity = totalOf hs fhUsable, scAllocated = totalOf hs fhLoad\<rparr>)"

lemma state_totals_state [simp]: "scState (state_totals hosts st) = st"
  by (simp add: state_totals_def Let_def)

lemma state_totals_add:
  "state_totals (hosts @ [h]) st =
     (let s = state_totals hosts st
      in if st = fhState h
         then s\<lparr>scMachines := scMachines s + 1, scCapacity := Plus_cap (scCapacity s) (fhUsable h), scAllocated := Plus_cap (scAllocated s) (fhLoad h)\<rparr>
         else s)"
  by (simp add: state_totals_def Let_def totalOf_append)

lemma state_totals_absent:
  "st \<notin> fhState ` set hosts \<Longrightarrow> state_totals hosts st = \<lparr>scState = st, scMachines = 0, scCapacity = NoCapacity, scAllocated = NoCapacity\<rparr>"
proof -
  assume "st \<notin> fhState ` set hosts"
  then have "filter (\<lambda>h. fhState h = st) hosts = []" by (auto simp: filter_empty_conv)
  then show ?thesis by (simp add: state_totals_def)
qed

lemma add_state_totals:
  assumes "distinct sts" and "set sts = fhState ` set hosts"
  shows "\<exists>sts'. add_state (map (state_totals hosts) sts) h = map (state_totals (hosts @ [h])) sts'
     \<and> distinct sts' \<and> set sts' = fhState ` set (hosts @ [h])"
proof (cases "index_func (\<lambda>s. scState s = fhState h) (map (state_totals hosts) sts)")
  case None
  then have new: "fhState h \<notin> set sts" by (auto simp: index_func_None)
  have "map (state_totals (hosts @ [h])) sts = map (state_totals hosts) sts" using new by (auto simp: state_totals_add Let_def)
  moreover have "add_state (map (state_totals hosts) sts) h = map (state_totals hosts) sts @ [state_totals (hosts @ [h]) (fhState h)]"
    using new assms None
    by (simp add: add_state_def nth_append list_update_append state_totals_add [of hosts h "fhState h"] Let_def state_totals_absent)
  ultimately have "add_state (map (state_totals hosts) sts) h = map (state_totals (hosts @ [h])) (sts @ [fhState h])" by simp
  then show ?thesis using new assms by (intro exI [of _ "sts @ [fhState h]"]) auto
next
  case (Some i)
  have i: "i < length sts" "sts ! i = fhState h"
    using index_func_less [OF Some] index_func_holds [OF Some] by auto
  have "add_state (map (state_totals hosts) sts) h = map (state_totals (hosts @ [h])) sts"
  proof (rule nth_equalityI)
    fix j assume "j < length (add_state (map (state_totals hosts) sts) h)"
    then have j: "j < length sts" using Some by (simp add: add_state_def Let_def)
    then have "sts ! j = fhState h \<longleftrightarrow> i = j" using i assms(1) by (metis nth_eq_iff_index_eq)
    then show "add_state (map (state_totals hosts) sts) h ! j = map (state_totals (hosts @ [h])) sts ! j"
      using Some i j by (auto simp: add_state_def Let_def state_totals_add nth_list_update)
  qed (use Some in \<open>simp add: add_state_def Let_def\<close>)
  moreover have "fhState h \<in> set sts" using i nth_mem by metis
  ultimately show ?thesis using assms by (intro exI [of _ sts]) auto
qed

lemma add_states_totals:
  "\<exists>sts. foldl add_state [] hosts = map (state_totals hosts) sts \<and> distinct sts \<and> set sts = fhState ` set hosts"
proof (induction hosts rule: rev_induct)
  case (snoc h hosts)
  then obtain sts where "foldl add_state [] hosts = map (state_totals hosts) sts" "distinct sts" "set sts = fhState ` set hosts" by blast
  then show ?case using add_state_totals [of sts hosts h] by simp
qed simp

lemma fleet_state_name_inj: "inj fleet_state_name"
proof (rule injI)
  fix a b assume "fleet_state_name a = fleet_state_name b"
  then show "a = b" by (cases a; cases b) (simp_all add: fleet_state_name_def)
qed

text \<open>
  The states a market's plan reports partition its hosts: every state a host of the market has is
  listed once, in the order of the names, with the number of its hosts, what they hold and what their
  work reserves.
\<close>

theorem pass_states_totals:
  "pass_states ps m =
     (let hosts = filter (\<lambda>h. host_market h = m) (fsHosts (paS ps))
      in map (state_totals hosts) (sort_key fleet_state_name (remdups (map fhState hosts))))"
proof -
  let ?hosts = "filter (\<lambda>h. host_market h = m) (fsHosts (paS ps))"
  let ?sorted = "sort_key fleet_state_name (remdups (map fhState ?hosts))"
  obtain sts where sts: "foldl add_state [] ?hosts = map (state_totals ?hosts) sts" "distinct sts" "set sts = fhState ` set ?hosts"
    using add_states_totals [of ?hosts] by blast
  have "sort_key (\<lambda>s. fleet_state_name (scState s)) (map (state_totals ?hosts) sts) = map (state_totals ?hosts) ?sorted"
  proof (rule sort_key_inj_key_eq)
    have "mset sts = mset ?sorted" using sts(2,3) by (simp add: set_eq_iff_mset_eq_distinct [symmetric])
    then show "mset (map (state_totals ?hosts) sts) = mset (map (state_totals ?hosts) ?sorted)"
      unfolding mset_map by simp
    show "inj_on (\<lambda>s. fleet_state_name (scState s)) (set (map (state_totals ?hosts) sts))"
      using fleet_state_name_inj by (auto simp: inj_on_def dest: injD)
    show "sorted (map (\<lambda>s. fleet_state_name (scState s)) (map (state_totals ?hosts) ?sorted))"
      by (simp add: comp_def)
  qed
  then show ?thesis by (simp add: pass_states_def sts(1) Let_def)
qed

end
