(* ===== verification/Keeping.thy ===== *)
theory Keeping
  imports Plan
begin

text \<open>
  What keeping, retiring and replacing hosts promise (\<open>keep\<close>, \<open>reserves\<close> and \<open>rightsize\<close> of
  \<open>internal/compute/fleet_keep.go\<close>): a host leaves only when those kept are enough without it, work is never
  cut, and a replacement pays back.
\<close>

subsection \<open>What keeping does to the pass\<close>

definition sound_hosts :: "pass \<Rightarrow> bool" where
  "sound_hosts ps \<longleftrightarrow> list_all (\<lambda>h. nonneg_cap (fhLoad h) \<and> Covers (fhUsable h) (fhLoad h)) (paHosts ps)"

lemma sound_hosts_usable: "sound_hosts ps \<Longrightarrow> i < length (paHosts ps) \<Longrightarrow> nonneg_cap (fhUsable (paHosts ps ! i))"
  by (auto simp: sound_hosts_def list_all_length intro: Covers_trans)

abbreviation departs :: "FleetAction \<Rightarrow> bool" where
  "departs a \<equiv> faKind a \<in> {ActionDrain, ActionReturnToReserve}"

lemma leave_effect:
  assumes "i < length (paHosts ps)"
  shows "\<exists>a. paActions (leave v i ps) = paActions ps @ [a] \<and> faHost a = Some (fhID (paHosts ps ! i)) \<and> faMarket a = mtM v
       \<and> (if fhRequested (paHosts ps ! i) then faKind a = ActionCancel else departs a)"
    and "length (paHosts (leave v i ps)) = length (paHosts ps)"
    and "\<And>j. j \<noteq> i \<Longrightarrow> paHosts (leave v i ps) ! j = paHosts ps ! j"
    and "paClaimed (leave v i ps) = paClaimed ps"
    and "\<And>j. j < length (paHosts ps) \<Longrightarrow> fhUsable (paHosts (leave v i ps) ! j) = fhUsable (paHosts ps ! j)
           \<and> fhLoad (paHosts (leave v i ps) ! j) = fhLoad (paHosts ps ! j)"
  using assms
  by (auto simp: leave_def Let_def pass_act_def grows_def plain_action_def set_host_def nth_list_update split: option.splits)

text \<open>Keeping is a walk that lets go: a host that serves goes only once the kept serving hosts are enough.\<close>

definition keep_enough :: "keep_state \<Rightarrow> bool" where
  "keep_enough k \<longleftrightarrow> Covers (mvCovered (ksView k)) (lpLoad (mhRunning (mtHolds (ksView k))))
     \<and> placesAll (ksReady k) (mtHeldParts (ksView k))"

definition keep_sound :: "nat \<Rightarrow> keep_state \<Rightarrow> bool" where
  "keep_sound n k \<longleftrightarrow> length (paHosts (ksPass k)) = n \<and> sound_hosts (ksPass k)"

lemma leave_sound: "i < length (paHosts ps) \<Longrightarrow> sound_hosts ps \<Longrightarrow> sound_hosts (leave v i ps)"
  using leave_effect(2,5) by (auto simp: sound_hosts_def list_all_length)

lemma keep_host_keeps:
  assumes "\<not> (\<not> stays (ksPass k) h \<and> surplus k h)" and "h = paHosts (ksPass k) ! i"
  shows "ksPass (keep_host k i) = ksPass k" "mvKept (ksView (keep_host k i)) = mvKept (ksView k) @ [i]"
    and "mvCovered (ksView (keep_host k i)) = (if \<not> serving h then mvCovered (ksView k)
           else Plus_cap (mvCovered (ksView k))
             (if leaving (ksPass k) (ksView (keep_host k i)) h then fhLoad h else fhUsable h))"
    and "\<exists>extra. ksReady (keep_host k i) = ksReady k @ extra"
    and "mtHolds (ksView (keep_host k i)) = mtHolds (ksView k)" "mtHeldParts (ksView (keep_host k i)) = mtHeldParts (ksView k)"
    and "mtM (ksView (keep_host k i)) = mtM (ksView k)"
  using assms by (auto simp: keep_host_def Let_def leaving_def stays_def)

lemma keep_host_cuts:
  assumes "\<not> stays (ksPass k) h" and "surplus k h" and "h = paHosts (ksPass k) ! i"
  shows "keep_host k i = k\<lparr>ksPass := leave (ksView k) i (ksPass k)\<rparr>"
  using assms by (simp add: keep_host_def Let_def)

interpretation keeping: letting_go keep_host keep_enough "\<lambda>k. filter departs (paActions (ksPass k))" "keep_sound n" "\<lambda>i. i < n" for n
proof unfold_locales
  fix k i
  assume k: "keep_sound n k" and i: "i < n"
  let ?h = "paHosts (ksPass k) ! i"
  have n: "i < length (paHosts (ksPass k))" and sound: "sound_hosts (ksPass k)" using k i by (auto simp: keep_sound_def)
  show "keep_sound n (keep_host k i)"
  proof (cases "\<not> stays (ksPass k) ?h \<and> surplus k ?h")
    case True
    then show ?thesis using k keep_host_cuts [of k ?h i] leave_effect(2) [OF n] leave_sound [OF n sound] by (simp add: keep_sound_def)
  qed (use k keep_host_keeps(1) [of k ?h i] in \<open>simp add: keep_sound_def\<close>)
  show "keep_enough (keep_host k i)" if "keep_enough k"
  proof (cases "\<not> stays (ksPass k) ?h \<and> surplus k ?h")
    case True
    then show ?thesis using that keep_host_cuts [of k ?h i] by (simp add: keep_enough_def)
  next
    case False
    note kept = keep_host_keeps [OF False refl]
    have "nonneg_cap (fhUsable ?h)" "nonneg_cap (fhLoad ?h)"
      using sound sound_hosts_usable n by (auto simp: sound_hosts_def list_all_length)
    then have "Covers (mvCovered (ksView (keep_host k i))) (mvCovered (ksView k))" using kept(3) by (simp add: cap_simps)
    then show ?thesis using that kept(4,5,6) Covers_trans placesAll_more by (auto simp: keep_enough_def)
  qed
  show "keep_enough k" if "filter departs (paActions (ksPass (keep_host k i))) \<noteq> filter departs (paActions (ksPass k))"
  proof (cases "\<not> stays (ksPass k) ?h \<and> surplus k ?h")
    case True
    then have "\<not> fhRequested ?h"
      using that keep_host_cuts [of k ?h i] leave_effect(1) [OF n, of "ksView k"] by (auto split: if_splits)
    then show ?thesis using True by (simp add: surplus_def keep_enough_def Let_def)
  next
    case False
    then show ?thesis using that keep_host_keeps(1) [of k ?h i] by simp
  qed
qed

subsection \<open>What the walk has decided\<close>

text \<open>Why a host may be cut, and the action that cuts it.\<close>

definition cut_by :: "pass \<Rightarrow> ReserveMarket \<Rightarrow> nat \<Rightarrow> FleetAction \<Rightarrow> bool" where
  "cut_by ps m i a \<longleftrightarrow> faHost a = Some (fhID (paHosts ps ! i)) \<and> faMarket a = m \<and> \<not> stays ps (paHosts ps ! i)
     \<and> (if fhRequested (paHosts ps ! i) then faKind a = ActionCancel else departs a)"

definition walked :: "pass \<Rightarrow> marketView \<Rightarrow> nat list \<Rightarrow> keep_state \<Rightarrow> bool" where
  "walked ps v xs k \<longleftrightarrow> (\<exists>cut acts. mset xs = mset (mvKept (ksView k)) + mset cut
     \<and> paActions (ksPass k) = paActions ps @ acts \<and> list_all2 (cut_by ps (mtM v)) cut acts
     \<and> (\<forall>j. j \<notin> set cut \<longrightarrow> paHosts (ksPass k) ! j = paHosts ps ! j)
     \<and> length (paHosts (ksPass k)) = length (paHosts ps) \<and> paClaimed (ksPass k) = paClaimed ps
     \<and> mtM (ksView k) = mtM v \<and> mtHolds (ksView k) = mtHolds v
     \<and> Covers (Plus_cap (mvCovered v) (hosts_total ps (filter (\<lambda>i. serving (paHosts ps ! i)) (mvKept (ksView k))) fhUsable))
         (mvCovered (ksView k)))"

lemma walked_start: "mvKept v = [] \<Longrightarrow> walked ps v [] (keep_planned ps v)"
  by (auto simp: walked_def keep_planned_def Let_def hosts_total_def)

lemma walked_step:
  assumes w: "walked ps v xs k" and i: "i \<notin> set xs" "i < length (paHosts ps)" and sound: "sound_hosts ps"
  shows "walked ps v (xs @ [i]) (keep_host k i)"
proof -
  obtain cut acts where c: "mset xs = mset (mvKept (ksView k)) + mset cut" "paActions (ksPass k) = paActions ps @ acts"
      "list_all2 (cut_by ps (mtM v)) cut acts" "\<forall>j. j \<notin> set cut \<longrightarrow> paHosts (ksPass k) ! j = paHosts ps ! j"
      "length (paHosts (ksPass k)) = length (paHosts ps)" "paClaimed (ksPass k) = paClaimed ps"
      "mtM (ksView k) = mtM v" "mtHolds (ksView k) = mtHolds v"
    and cov: "Covers (Plus_cap (mvCovered v) (hosts_total ps (filter (\<lambda>i. serving (paHosts ps ! i)) (mvKept (ksView k))) fhUsable))
         (mvCovered (ksView k))"
    using w unfolding walked_def by blast
  have "set cut \<subseteq> set xs" using arg_cong [OF c(1), of set_mset] by auto
  then have h: "paHosts (ksPass k) ! i = paHosts ps ! i" using c(4) i(1) by blast
  let ?h = "paHosts ps ! i"
  have st: "stays (ksPass k) ?h = stays ps ?h" using c(6) by (simp add: stays_def)
  show ?thesis
  proof (cases "\<not> stays (ksPass k) ?h \<and> surplus k ?h")
    case True
    then have k: "keep_host k i = k\<lparr>ksPass := leave (ksView k) i (ksPass k)\<rparr>" using keep_host_cuts h by simp
    have i': "i < length (paHosts (ksPass k))" using i(2) c(5) by simp
    note eff = leave_effect [OF i', where v = "ksView k"]
    obtain a where "paActions (leave (ksView k) i (ksPass k)) = paActions (ksPass k) @ [a]" "cut_by ps (mtM v) i a"
      using eff(1) True st h c(7) by (auto simp: cut_by_def)
    then show ?thesis
      unfolding walked_def k using c cov eff(2,3,4) by (intro exI [of _ "cut @ [i]"] exI [of _ "acts @ [a]"]) (auto intro: list_all2_appendI)
  next
    case False
    note kept = keep_host_keeps [OF False h [symmetric]]
    have "Covers (fhUsable ?h) (fhLoad ?h)" using sound i(2) by (simp add: sound_hosts_def list_all_length)
    then have "Covers (Plus_cap (mvCovered v) (hosts_total ps (filter (\<lambda>i. serving (paHosts ps ! i)) (mvKept (ksView (keep_host k i)))) fhUsable))
         (mvCovered (ksView (keep_host k i)))"
      using cov kept(2,3) by (auto simp: hosts_total_def totalOf_append cap_simps)
    then show ?thesis
      unfolding walked_def using c kept by (intro exI [of _ cut] exI [of _ acts]) simp
  qed
qed

lemma keepOrder_set: "set (keepOrder ps v) \<subseteq> {..<length (paHosts ps)}" "distinct (keepOrder ps v)"
  by (auto simp: keepOrder_def inMarket_def)

lemma keep_loop_walked:
  assumes "sound_hosts ps" and "mvKept (view_at ps m) = []"
  shows "walked ps (view_at ps m) (keepOrder ps (view_at ps m)) (keep_loop ps m)"
  unfolding keep_loop_def
proof (rule foldl_prefix_invariant [where P = "walked ps (view_at ps m)"])
  fix ys y zs k
  assume o: "keepOrder ps (view_at ps m) = ys @ y # zs" and k: "walked ps (view_at ps m) ys k"
  have "y \<notin> set ys" "y < length (paHosts ps)" using keepOrder_set [of ps "view_at ps m"] o by auto
  then show "walked ps (view_at ps m) (ys @ [y]) (keep_host k y)" using walked_step [OF k] assms(1) by blast
qed (rule walked_start [OF assms(2)])

lemma view_at_set_view: "m \<in> fst ` set (paViews ps) \<Longrightarrow> view_at (set_view m v ps) m = v"
proof -
  have "map_of (map (\<lambda>(k, w). (k, if k = m then v else w)) xs) m = Some v" if "m \<in> fst ` set xs" for xs
    using that by (induction xs) auto
  then show "m \<in> fst ` set (paViews ps) \<Longrightarrow> view_at (set_view m v ps) m = v" by (simp add: view_at_def set_view_def)
qed

lemma leave_views: "paViews (leave v i ps) = paViews ps"
  by (simp add: leave_def Let_def pass_act_def set_host_def split: option.splits)

lemma keep_loop_views: "paViews (ksPass (keep_loop ps m)) = paViews ps"
  unfolding keep_loop_def
  by (rule foldl_invariant [where P = "\<lambda>k. paViews (ksPass k) = paViews ps"])
     (simp_all add: keep_planned_def keep_host_def Let_def leave_views)

lemma pass_keep_view:
  assumes "m \<in> fst ` set (paViews ps)"
  shows "mvKept (view_at (pass_keep m ps) m) = mvKept (ksView (keep_loop ps m))"
    and "paActions (pass_keep m ps) = paActions (ksPass (keep_loop ps m))"
proof -
  show "mvKept (view_at (pass_keep m ps) m) = mvKept (ksView (keep_loop ps m))"
    using assms by (simp add: pass_keep_def Let_def view_at_set_view keep_loop_views)
  show "paActions (pass_keep m ps) = paActions (ksPass (keep_loop ps m))" by (simp add: pass_keep_def Let_def set_view_def)
qed

subsection \<open>Properties of keeping\<close>

text \<open>
  Keeping splits a market's running hosts in two. Those it keeps and those it cuts are together
  the hosts it walked; each cut host has exactly one action, in the order of the walk, a cancellation when it was only
  requested and a drain or a return to the reserve otherwise; and no host that stays (it runs work, work
  waits for it, it starts, updates or replaces another) is cut.
\<close>

theorem keep_partitions:
  assumes "sound_hosts ps" and "m \<in> fst ` set (paViews ps)" and "mvKept (view_at ps m) = []"
  shows "\<exists>cut. mset (keepOrder ps (view_at ps m)) = mset (mvKept (view_at (pass_keep m ps) m)) + mset cut
     \<and> list_all2 (cut_by ps (mtM (view_at ps m))) cut (drop (length (paActions ps)) (paActions (pass_keep m ps)))"
  using keep_loop_walked [OF assms(1,3)] pass_keep_view [OF assms(2)] by (auto simp: walked_def)

text \<open>
  C10: keeping never lets the running target go. When it drains a host or returns one to the reserve, the serving
  hosts it keeps hold the market's held running target between them.
\<close>

theorem keep_leaves_target_covered:
  assumes sound: "sound_hosts ps" and m: "m \<in> fst ` set (paViews ps)" and new: "mvKept (view_at ps m) = []" "mvCovered (view_at ps m) = NoCapacity"
    and cut: "filter departs (paActions (pass_keep m ps)) \<noteq> filter departs (paActions ps)"
  shows "Covers (hosts_total ps (filter (\<lambda>i. serving (paHosts ps ! i)) (mvKept (view_at (pass_keep m ps) m))) fhUsable)
           (lpLoad (mhRunning (mtHolds (view_at ps m))))"
proof -
  let ?v = "view_at ps m" and ?k = "keep_loop ps m"
  have "keep_sound (length (paHosts ps)) (keep_planned ps ?v)" using sound by (simp add: keep_sound_def keep_planned_def Let_def)
  moreover have "\<forall>i\<in>set (keepOrder ps ?v). i < length (paHosts ps)" using keepOrder_set by auto
  ultimately have "keep_enough ?k"
    using keeping.walk_gone [of "length (paHosts ps)" "keep_planned ps ?v" "keepOrder ps ?v"] cut pass_keep_view(2) [OF m]
    by (simp add: keep_loop_def keep_planned_def Let_def)
  moreover have "mtHolds (ksView ?k) = mtHolds ?v"
    and "Covers (hosts_total ps (filter (\<lambda>i. serving (paHosts ps ! i)) (mvKept (ksView ?k))) fhUsable) (mvCovered (ksView ?k))"
    using keep_loop_walked [OF sound new(1)] new(2) by (auto simp: walked_def)
  ultimately show ?thesis using Covers_trans pass_keep_view(1) [OF m] by (auto simp: keep_enough_def)
qed

text \<open>A fleet of two idle hosts where one is enough, to run the walks on.\<close>

definition demo_fleet_host :: "HostID \<Rightarrow> FleetState \<Rightarrow> FleetHost" where
  "demo_fleet_host n st = \<lparr>fhID = n, fhInstanceType = ''r5.large'', fhRegion = ''us-east-1'', fhZone = ''us-east-1a'', fhZoneID = ''use1-az1'',
     fhMarket = MarketOnDemand, fhGPU = [], fhUsable = FC 1000 (7 * gib) 0, fhState = st, fhLoad = NoCapacity, fhPacked = NoCapacity,
     fhContainers = 0, fhUsedDisks = 0, fhProtected = False, fhStartRefused = False, fhRequested = False, fhUpdateDue = False,
     fhReserveMode = None, fhHibernationConfigured = False, fhStoppable = True, fhHourlyMicros = Some 200000, fhPhaseAt = - pKeep DefaultPolicy,
     fhReplaces = None, fhRightsizeRefusedAt = None, fhStoppedAt = None, fhSlept = False, fhHandsBack = False, fhMoves = [], fhStays = False\<rparr>"

definition demo_view :: "FleetCapacity \<Rightarrow> marketView" where
  "demo_view c = view_of_target
     \<lparr>mtM = RM False [], mtLoad = NoCapacity, mtWant = c, mtArriving = False,
      mtHolds = \<lparr>mhRunning = \<lparr>lpLoad = c, lpAt = 0\<rparr>, mhStopped = \<lparr>lpLoad = c, lpAt = 0\<rparr>, mhShortSince = None\<rparr>, mtHeadroom = c, mtFloor = c, mtPart = c,
      mtHeldParts = [c], mtWantParts = [c], mtLargest = NoCapacity, mtLargestDisks = 0, mtLoaded = False\<rparr>"

definition demo_pass :: "FleetState \<Rightarrow> pass" where
  "demo_pass st = (new_pass DefaultPolicy (demo_snapshot\<lparr>fsHosts := [demo_fleet_host 1 st, demo_fleet_host 2 st]\<rparr>))
     \<lparr>paViews := [(RM False [], demo_view (FC 500 gib 0))]\<rparr>"

lemma demo_pass_ok:
  "sound_hosts (demo_pass st)" "RM False [] \<in> fst ` set (paViews (demo_pass st))"
  "mvKept (view_at (demo_pass st) (RM False [])) = []" "mvCovered (view_at (demo_pass st) (RM False [])) = NoCapacity"
  by (simp_all add: sound_hosts_def demo_pass_def new_pass_def Let_def demo_fleet_host_def demo_view_def view_at_def demo_snapshot_def cap_simps
      view_of_target_def marketTarget.extend_def)

theorem keep_partitions_witness:
  "\<exists>cut. mset (keepOrder (demo_pass FleetServing) (view_at (demo_pass FleetServing) (RM False [])))
       = mset (mvKept (view_at (pass_keep (RM False []) (demo_pass FleetServing)) (RM False []))) + mset cut"
  using keep_partitions [OF demo_pass_ok(1,2,3), of FleetServing] by blast

theorem keep_leaves_target_covered_witness:
  "Covers (hosts_total (demo_pass FleetServing) (filter (\<lambda>i. serving (paHosts (demo_pass FleetServing) ! i))
       (mvKept (view_at (pass_keep (RM False []) (demo_pass FleetServing)) (RM False [])))) fhUsable) (FC 500 gib 0)"
proof -
  have "map faKind (filter departs (paActions (pass_keep (RM False []) (demo_pass FleetServing)))) = [ActionDrain]" by code_simp
  moreover have "filter departs (paActions (demo_pass FleetServing)) = []" by (simp add: demo_pass_def new_pass_def Let_def)
  moreover have "lpLoad (mhRunning (mtHolds (view_at (demo_pass FleetServing) (RM False [])))) = FC 500 gib 0"
    by (simp add: demo_pass_def view_at_def demo_view_def view_of_target_def marketTarget.extend_def)
  ultimately show ?thesis using keep_leaves_target_covered [OF demo_pass_ok, of FleetServing] by fastforce
qed

subsection \<open>Retiring reserves\<close>

definition reserves_enough :: "reserve_walk \<Rightarrow> bool" where
  "reserves_enough w \<longleftrightarrow> Covers (rwReady w) (lpLoad (mhStopped (mtHolds (rwView w)))) \<and> rwReadyLargest w"

definition walk_sound :: "nat \<Rightarrow> reserve_walk \<Rightarrow> bool" where
  "walk_sound n w \<longleftrightarrow> length (paHosts (rwPass w)) = n \<and> sound_hosts (rwPass w)"

lemma walk_reserve_retires:
  "reserves_enough w \<Longrightarrow> walk_reserve w i = w\<lparr>rwPass := fst (retire_reserve ReasonSurplus (rwPass w, rwView w) i),
     rwView := snd (retire_reserve ReasonSurplus (rwPass w, rwView w) i)\<rparr>"
  by (simp add: walk_reserve_def reserves_enough_def Let_def case_prod_unfold)

lemma walk_reserve_keeps:
  assumes "\<not> reserves_enough w" and "h = paHosts (rwPass w) ! i"
  shows "rwPass (walk_reserve w i) = rwPass w" "rwView (walk_reserve w i) = rwView w"
    and "rwReady (walk_reserve w i) = (if counted (rwView w) h \<and> resumable h then Plus_cap (rwReady w) (fhUsable h) else rwReady w)"
    and "rwReadyLargest (walk_reserve w i) \<longleftrightarrow> rwReadyLargest w \<or> counted (rwView w) h \<and> resumable h \<and> fitsLargest (rwPass w) (rwView w) h"
  using assms by (auto simp: walk_reserve_def reserves_enough_def Let_def)

lemma retire_reserve_effect:
  "retire_reserve why (ps, v) i =
     (let h = fhID (paHosts ps ! i)
      in (pass_act (plain_action ActionRetireReserve why (mtM v) h) (ps\<lparr>paReserveRoom := paReserveRoom ps + 1\<rparr>), v\<lparr>mvRetired := h # mvRetired v\<rparr>))"
  by (simp add: retire_reserve_def Let_def)

lemma retire_reserve_sel [simp]:
  "paHosts (fst (retire_reserve why (ps, v) i)) = paHosts ps" "paS (fst (retire_reserve why (ps, v) i)) = paS ps"
  "snd (retire_reserve why (ps, v) i) = v\<lparr>mvRetired := fhID (paHosts ps ! i) # mvRetired v\<rparr>"
  "paActions (fst (retire_reserve why (ps, v) i)) = paActions ps @ [plain_action ActionRetireReserve why (mtM v) (fhID (paHosts ps ! i))]"
  by (simp_all add: retire_reserve_effect Let_def pass_act_def grows_def plain_action_def)

interpretation retiring: letting_go walk_reserve reserves_enough "\<lambda>w. paActions (rwPass w)" "walk_sound n" "\<lambda>i. i < n" for n
proof unfold_locales
  fix w i
  assume w: "walk_sound n w" and i: "i < n"
  show "walk_sound n (walk_reserve w i)"
    using w walk_reserve_retires [of w i] walk_reserve_keeps(1) [of w _ i] by (cases "reserves_enough w") (auto simp: walk_sound_def sound_hosts_def)
  show "reserves_enough (walk_reserve w i)" if "reserves_enough w"
    using that walk_reserve_retires [OF that, of i] by (simp add: reserves_enough_def)
  show "reserves_enough w" if "paActions (rwPass (walk_reserve w i)) \<noteq> paActions (rwPass w)"
    using that walk_reserve_keeps(1) [OF _ refl] by metis
qed

text \<open>The reserves the walk holds to be ready are reserves it keeps.\<close>

definition reserves_walked :: "pass \<Rightarrow> marketView \<Rightarrow> nat list \<Rightarrow> reserve_walk \<Rightarrow> bool" where
  "reserves_walked ps v xs w \<longleftrightarrow> paHosts (rwPass w) = paHosts ps \<and> paS (rwPass w) = paS ps
     \<and> (\<exists>r held. rwView w = v\<lparr>mvRetired := r\<rparr> \<and> distinct held \<and> set held \<subseteq> set xs \<and> rwReady w = hosts_total ps held fhUsable
          \<and> (\<forall>i\<in>set held. resumable (paHosts ps ! i) \<and> counted (rwView w) (paHosts ps ! i))
          \<and> (rwReadyLargest w \<longrightarrow> Empty_cap (mtLargest v) \<or> (\<exists>i\<in>set held. fitsLargest ps v (paHosts ps ! i))))"

lemma fitsLargest_cong:
  "paS ps' = paS ps \<Longrightarrow> fitsLargest ps' (v\<lparr>mvRetired := r\<rparr>) h = fitsLargest ps v h"
  by (simp add: fitsLargest_def view_fits_def type_or_zero_def typeNamed_def)

lemma reserves_walked_step:
  assumes w: "reserves_walked ps v xs w" and i: "i \<notin> set xs" "i < length (paHosts ps)" and ids: "distinct (map fhID (paHosts ps))"
    and xs: "set xs \<subseteq> {..<length (paHosts ps)}"
  shows "reserves_walked ps v (xs @ [i]) (walk_reserve w i)"
proof -
  obtain r held where p: "paHosts (rwPass w) = paHosts ps" "paS (rwPass w) = paS ps" "rwView w = v\<lparr>mvRetired := r\<rparr>"
    and h: "distinct held" "set held \<subseteq> set xs" "rwReady w = hosts_total ps held fhUsable"
      "\<forall>i\<in>set held. resumable (paHosts ps ! i) \<and> counted (rwView w) (paHosts ps ! i)"
      "rwReadyLargest w \<longrightarrow> Empty_cap (mtLargest v) \<or> (\<exists>i\<in>set held. fitsLargest ps v (paHosts ps ! i))"
    using w unfolding reserves_walked_def by blast
  have other: "fhID (paHosts ps ! j) \<noteq> fhID (paHosts ps ! i)" if "j \<in> set held" for j
  proof -
    have "j < length (paHosts ps)" "j \<noteq> i" using that h(2) xs i(1) by auto
    then show ?thesis using ids i(2) nth_eq_iff_index_eq [OF ids, of j i] by simp
  qed
  show ?thesis
  proof (cases "reserves_enough w")
    case True
    then show ?thesis
      unfolding reserves_walked_def walk_reserve_retires [OF True]
      using p h other by (intro conjI exI [of _ "fhID (paHosts ps ! i) # r"] exI [of _ held]) (auto simp: counted_def)
  next
    case False
    note k = walk_reserve_keeps [OF False refl, of i]
    show ?thesis
    proof (cases "counted (rwView w) (paHosts ps ! i) \<and> resumable (paHosts ps ! i)")
      case True
      then have rd: "rwReady (walk_reserve w i) = hosts_total ps (held @ [i]) fhUsable"
        using k(3) p(1) h(3) by (simp add: hosts_total_def totalOf_append)
      have l: "rwReadyLargest (walk_reserve w i) \<longrightarrow> Empty_cap (mtLargest v) \<or> (\<exists>j\<in>set (held @ [i]). fitsLargest ps v (paHosts ps ! j))"
        using k(4) p h(5) fitsLargest_cong by auto
      show ?thesis
        unfolding reserves_walked_def k(1,2) rd using p h(1,2,4) i(1) True l
        by (intro conjI exI [of _ r] exI [of _ "held @ [i]"]) auto
    next
      case False
      then have "rwReady (walk_reserve w i) = rwReady w" "rwReadyLargest (walk_reserve w i) = rwReadyLargest w"
        using k(3,4) p(1) by auto
      then show ?thesis using w h(2) by (fastforce simp: reserves_walked_def k(1,2))
    qed
  qed
qed

lemma reserve_order_set:
  "set (reserve_order ps v) \<subseteq> {i. i < length (paHosts ps) \<and> host_market (paHosts ps ! i) = mtM v}" "distinct (reserve_order ps v)"
  by (auto simp: reserve_order_def inMarket_def)

text \<open>The first part of the walk retires the interrupted reserves.\<close>

abbreviation interrupted :: "pass \<Rightarrow> marketView \<Rightarrow> pass \<times> marketView" where
  "interrupted ps v \<equiv> foldl (retire_reserve ReasonInterrupted) (ps, v) (inMarket ps (mtM v) (\<lambda>h. resumable h \<and> fhProtected h))"

lemma interrupted_effect:
  "paHosts (fst (interrupted ps v)) = paHosts ps \<and> paS (fst (interrupted ps v)) = paS ps \<and> (\<exists>r. snd (interrupted ps v) = v\<lparr>mvRetired := r\<rparr>)
   \<and> filter (\<lambda>a. faReason a = ReasonSurplus) (paActions (fst (interrupted ps v))) = filter (\<lambda>a. faReason a = ReasonSurplus) (paActions ps)"
proof (rule foldl_invariant [where P = "\<lambda>st. paHosts (fst st) = paHosts ps \<and> paS (fst st) = paS ps \<and> (\<exists>r. snd st = v\<lparr>mvRetired := r\<rparr>)
   \<and> filter (\<lambda>a. faReason a = ReasonSurplus) (paActions (fst st)) = filter (\<lambda>a. faReason a = ReasonSurplus) (paActions ps)"])
  show "paHosts (fst (ps, v)) = paHosts ps \<and> paS (fst (ps, v)) = paS ps \<and> (\<exists>r. snd (ps, v) = v\<lparr>mvRetired := r\<rparr>)
    \<and> filter (\<lambda>a. faReason a = ReasonSurplus) (paActions (fst (ps, v))) = filter (\<lambda>a. faReason a = ReasonSurplus) (paActions ps)"
    by (auto intro!: exI [of _ "mvRetired v"])
qed (auto simp: plain_action_def)

lemma walk_reserves_walked:
  assumes ids: "distinct (map fhID (paHosts ps))"
  shows "reserves_walked ps v (reserve_order (fst (interrupted ps v)) (snd (interrupted ps v))) (walk_reserves ps v)"
proof -
  obtain p1 v1 where i: "interrupted ps v = (p1, v1)" by fastforce
  have p1: "paHosts p1 = paHosts ps" "paS p1 = paS ps" "\<exists>r. v1 = v\<lparr>mvRetired := r\<rparr>" using interrupted_effect [of ps v] i by auto
  have "reserves_walked ps v (reserve_order p1 v1) (foldl walk_reserve
      \<lparr>rwPass = p1, rwView = v1, rwCovered = NoCapacity, rwReady = NoCapacity, rwReadyLargest = Empty_cap (mtLargest v1)\<rparr> (reserve_order p1 v1))"
  proof (rule foldl_prefix_invariant [where P = "reserves_walked ps v"])
    show "reserves_walked ps v [] \<lparr>rwPass = p1, rwView = v1, rwCovered = NoCapacity, rwReady = NoCapacity, rwReadyLargest = Empty_cap (mtLargest v1)\<rparr>"
      using p1 by (auto simp: reserves_walked_def hosts_total_def)
    fix ys y zs w
    assume o: "reserve_order p1 v1 = ys @ y # zs" and w: "reserves_walked ps v ys w"
    have "y \<notin> set ys" "y < length (paHosts ps)" "set ys \<subseteq> {..<length (paHosts ps)}"
      using reserve_order_set [of p1 v1] o p1(1) by auto
    then show "reserves_walked ps v (ys @ [y]) (walk_reserve w y)" using reserves_walked_step [OF w] ids by blast
  qed
  then show ?thesis by (simp add: walk_reserves_def i)
qed

text \<open>
  A market gives up a reserve as surplus only when it does not need it. When a pass retires one, the
  ready reserves it keeps (stopped, not interrupted, not retired) hold the market's stopped target, and where the
  market has a largest shape one of them fits it.
\<close>

theorem reserves_retire_surplus:
  assumes sound: "sound_hosts ps" and ids: "distinct (map fhID (paHosts ps))" and w: "w = walk_reserves ps v"
    and gone: "filter (\<lambda>a. faReason a = ReasonSurplus) (paActions (rwPass w)) \<noteq> filter (\<lambda>a. faReason a = ReasonSurplus) (paActions ps)"
    and ready: "ready = inMarket ps (mtM v) (\<lambda>h. resumable h \<and> counted (rwView w) h)"
  shows "Covers (hosts_total ps ready fhUsable) (lpLoad (mhStopped (mtHolds v)))
     \<and> (Empty_cap (mtLargest v) \<or> list_ex (\<lambda>i. fitsLargest ps v (paHosts ps ! i)) ready)"
proof -
  let ?i = "interrupted ps v"
  let ?order = "reserve_order (fst ?i) (snd ?i)"
  let ?start = "\<lparr>rwPass = fst ?i, rwView = snd ?i, rwCovered = NoCapacity, rwReady = NoCapacity, rwReadyLargest = Empty_cap (mtLargest (snd ?i))\<rparr>"
  have fold: "w = foldl walk_reserve ?start ?order" by (simp add: w walk_reserves_def case_prod_unfold Let_def)
  have eff: "paHosts (fst ?i) = paHosts ps" "mtM (snd ?i) = mtM v" using interrupted_effect [of ps v] by auto
  have order: "\<forall>i\<in>set ?order. i < length (paHosts ps) \<and> host_market (paHosts ps ! i) = mtM v"
    using reserve_order_set(1) [of "fst ?i" "snd ?i"] eff by auto
  have "walk_sound (length (paHosts ps)) ?start" using sound eff by (simp add: walk_sound_def sound_hosts_def)
  moreover have "paActions (rwPass w) \<noteq> paActions (rwPass ?start)" using gone interrupted_effect [of ps v] by auto
  ultimately have enough: "reserves_enough w"
    using retiring.walk_gone [of "length (paHosts ps)" ?start ?order] order fold by simp
  obtain r held where v: "rwView w = v\<lparr>mvRetired := r\<rparr>" and h: "distinct held" "set held \<subseteq> set ?order"
      "rwReady w = hosts_total ps held fhUsable" "\<forall>i\<in>set held. resumable (paHosts ps ! i) \<and> counted (rwView w) (paHosts ps ! i)"
      "rwReadyLargest w \<longrightarrow> Empty_cap (mtLargest v) \<or> (\<exists>i\<in>set held. fitsLargest ps v (paHosts ps ! i))"
    using walk_reserves_walked [OF ids, of v] w unfolding reserves_walked_def by blast
  have "\<forall>i\<in>set held. i < length (paHosts ps) \<and> host_market (paHosts ps ! i) = mtM v" using h(2) order by blast
  then have sub: "set held \<subseteq> set ready" using h(4) by (auto simp: ready inMarket_def)
  have "Covers (hosts_total ps ready fhUsable) (rwReady w)"
    unfolding h(3) hosts_total_def using sound_hosts_usable [OF sound] by (intro totalOf_subset h(1) sub) (auto simp: ready inMarket_def)
  then show ?thesis
    using enough h(5) sub v Covers_trans by (fastforce simp: reserves_enough_def list_ex_iff)
qed

theorem reserves_retire_surplus_witness:
  "Covers (hosts_total (demo_pass FleetStopped) (inMarket (demo_pass FleetStopped) (RM False [])
       (\<lambda>h. resumable h \<and> counted (rwView (walk_reserves (demo_pass FleetStopped) (demo_view (FC 500 gib 0)))) h)) fhUsable) (FC 500 gib 0)"
proof -
  have "map faHost (filter (\<lambda>a. faReason a = ReasonSurplus) (paActions (rwPass (walk_reserves (demo_pass FleetStopped) (demo_view (FC 500 gib 0)))))) = [Some 2]"
    by code_simp
  moreover have "paActions (demo_pass FleetStopped) = []" "distinct (map fhID (paHosts (demo_pass FleetStopped)))"
    "mtM (demo_view (FC 500 gib 0)) = RM False []" "lpLoad (mhStopped (mtHolds (demo_view (FC 500 gib 0)))) = FC 500 gib 0"
    by (simp_all add: demo_pass_def new_pass_def Let_def demo_fleet_host_def demo_view_def view_of_target_def marketTarget.extend_def)
  ultimately show ?thesis
    using reserves_retire_surplus [OF demo_pass_ok(1) _ refl _ refl, of FleetStopped "demo_view (FC 500 gib 0)"] by fastforce
qed

subsection \<open>Replacing a host\<close>

text \<open>A scan that keeps the candidate with the highest gain above zero.\<close>

definition gain_scan :: "('a \<Rightarrow> ('b \<times> int) option) \<Rightarrow> ('a \<times> 'b \<times> int) option \<Rightarrow> 'a list \<Rightarrow> bool" where
  "gain_scan f best xs \<longleftrightarrow>
     (case best of
        None \<Rightarrow> (\<forall>x\<in>set xs. case f x of None \<Rightarrow> True | Some (_, g) \<Rightarrow> g \<le> 0)
      | Some (x, y, g) \<Rightarrow> x \<in> set xs \<and> f x = Some (y, g) \<and> 0 < g \<and> (\<forall>x\<in>set xs. case f x of None \<Rightarrow> True | Some (_, g') \<Rightarrow> g' \<le> g))"

lemma gain_scan_snoc:
  assumes "gain_scan f best xs"
  shows "gain_scan f (case f x of None \<Rightarrow> best
     | Some (y, g) \<Rightarrow> if g > (case best of None \<Rightarrow> 0 | Some (_, _, b) \<Rightarrow> b) then Some (x, y, g) else best) (xs @ [x])"
proof (cases "f x")
  case None
  with assms show ?thesis by (cases best) (auto simp: gain_scan_def)
next
  case (Some r)
  with assms show ?thesis by (cases best; cases r) (force simp: gain_scan_def split: option.splits)+
qed

lemma best_replacement_scan:
  "gain_scan (\<lambda>i. replacement ps v (paHosts ps ! i)) (map_option (\<lambda>(o', i, g). (i, o', g)) (best_replacement ps v)) (mvKept v)"
  (is "gain_scan ?f _ _")
  unfolding best_replacement_def
proof (rule foldl_prefix_invariant [where P = "\<lambda>xs best. gain_scan ?f (map_option (\<lambda>(o', i, g). (i, o', g)) best) xs"], goal_cases)
  case (2 ys i zs best)
  show ?case
    using gain_scan_snoc [OF 2(2), of i] by (cases best; cases "?f i") (simp_all split: prod.splits if_splits)
qed (simp add: gain_scan_def)

text \<open>
  Buying offer \<open>o'\<close> in place of host \<open>h\<close> saves \<open>gain\<close> over the cost horizon: the host serves, runs nothing, no work waits
  for it, it takes no part in an interruption, no replacement of it was refused within the horizon, and it holds a share of the
  running target; the offer is one the market can buy, of another type, and holds that share; and the gain is what the host
  costs less what serving from the offer costs and what it costs while it provisions.
\<close>

definition swap_saves :: "pass \<Rightarrow> marketView \<Rightarrow> FleetHost \<Rightarrow> FleetOffer \<Rightarrow> int \<Rightarrow> bool" where
  "swap_saves ps v h o' gain \<longleftrightarrow>
     serving h \<and> \<not> busy h \<and> fhID h \<notin> set (paClaimed ps) \<and> \<not> fhProtected h
     \<and> (\<forall>t. fhRightsizeRefusedAt h = Some t \<longrightarrow> pCostHorizon (paP ps) \<le> paNow ps - t)
     \<and> \<not> Empty_cap (holdsOf ps v h)
     \<and> o' \<in> set (marketOffers ps (mtM v) False) \<and> ctName (foType o') \<noteq> fhInstanceType h \<and> Covers (foUsable o') (holdsOf ps v h)
     \<and> hostCost ps h = Some (servingCost (paP ps) o' + foHourlyMicros o' * (pProvision (paP ps) sdiv second) + gain)"

text \<open>The scan over the offers of one host keeps the one with the highest gain above zero.\<close>

lemma better_payback_scan:
  fixes ps h c need
  defines "gain \<equiv> \<lambda>o'. c - servingCost (paP ps) o' - foHourlyMicros o' * (pProvision (paP ps) sdiv second)"
  shows "gain_scan (\<lambda>o'. if ctName (foType o') \<noteq> fhInstanceType h \<and> Covers (foUsable o') need then Some ((), gain o') else None)
     (map_option (\<lambda>(o', g). (o', (), g)) (foldl (better_payback ps h c need) None offers)) offers"
  (is "gain_scan ?f _ _")
proof (rule foldl_prefix_invariant [where P = "\<lambda>xs best. gain_scan ?f (map_option (\<lambda>(o', g). (o', (), g)) best) xs"], goal_cases)
  case (2 ys o' zs best)
  show ?case
    using gain_scan_snoc [OF 2(2), of o']
    by (cases best) (auto simp: better_payback_def Let_def gain_def split: prod.splits if_splits)
qed (simp add: gain_scan_def)

lemma replacement_best:
  "case replacement ps v h of
     None \<Rightarrow> \<forall>o' g. swap_saves ps v h o' g \<longrightarrow> g \<le> 0
   | Some (o', g) \<Rightarrow> swap_saves ps v h o' g \<and> 0 < g \<and> (\<forall>o'' g'. swap_saves ps v h o'' g' \<longrightarrow> g' \<le> g)"
proof (cases "serving h \<and> \<not> busy h \<and> fhID h \<notin> set (paClaimed ps) \<and> \<not> fhProtected h
    \<and> (\<forall>t. fhRightsizeRefusedAt h = Some t \<longrightarrow> pCostHorizon (paP ps) \<le> paNow ps - t)
    \<and> \<not> Empty_cap (holdsOf ps v h) \<and> hostCost ps h \<noteq> None")
  case False
  then have "replacement ps v h = None"
    by (auto simp: replacement_def Let_def split: option.splits)
  then show ?thesis using False by (auto simp: swap_saves_def)
next
  case True
  then obtain c where c: "hostCost ps h = Some c" by auto
  have saves: "swap_saves ps v h o' g \<longleftrightarrow> o' \<in> set (marketOffers ps (mtM v) False) \<and> ctName (foType o') \<noteq> fhInstanceType h
      \<and> Covers (foUsable o') (holdsOf ps v h) \<and> g = c - servingCost (paP ps) o' - foHourlyMicros o' * (pProvision (paP ps) sdiv second)" for o' g
    using True c by (auto simp: swap_saves_def)
  have "replacement ps v h = foldl (better_payback ps h c (holdsOf ps v h)) None (marketOffers ps (mtM v) False)"
    using True c by (auto simp: replacement_def Let_def not_less split: option.splits)
  with better_payback_scan [of h "holdsOf ps v h" c ps "marketOffers ps (mtM v) False"]
  show ?thesis unfolding saves by (auto simp: gain_scan_def split: option.splits if_splits)
qed

text \<open>
  C11: a replacement pays back, and the best one is made. Where a market may replace a host (nothing waits or grows in it, its
  kept hosts have served a while, its held target is the wanted one, and the pass has room left), the pass replaces one exactly
  when buying some offer of the market in place of some kept idle host saves money over the cost horizon, and then it makes the
  swap that saves the most of all offers for all kept hosts; otherwise it changes nothing.
\<close>

theorem rightsize_pays_back:
  assumes v: "v = view_at ps m" and m: "mtM v = m"
  shows "if rightsizes ps v \<and> (\<exists>j\<in>set (mvKept v). \<exists>o'' g. swap_saves ps v (paHosts ps ! j) o'' g \<and> 0 < g)
     then \<exists>i\<in>set (mvKept v). \<exists>o' gain. swap_saves ps v (paHosts ps ! i) o' gain \<and> 0 < gain
       \<and> (\<forall>j\<in>set (mvKept v). \<forall>o'' g. swap_saves ps v (paHosts ps ! j) o'' g \<longrightarrow> g \<le> gain)
       \<and> paActions (pass_rightsize m ps) = paActions ps @ [\<lparr>faKind = ActionRightsize, faReason = ReasonCheaper, faMarket = m,
            faHost = Some (fhID (paHosts ps ! i)), faOffer = Some o', faMode = None, faContainers = [], faHolds = holdsOf ps v (paHosts ps ! i)\<rparr>]
     else pass_rightsize m ps = ps"
proof (cases "rightsizes ps v")
  case False
  then show ?thesis using v by (simp add: pass_rightsize_def Let_def)
next
  case r: True
  note scan = best_replacement_scan [of ps v] and one = replacement_best [of ps v]
  show ?thesis
  proof (cases "best_replacement ps v")
    case None
    have "g \<le> 0" if "j \<in> set (mvKept v)" "swap_saves ps v (paHosts ps ! j) o' g" for j o' g
      using scan None that one [of "paHosts ps ! j"] by (fastforce simp: gain_scan_def split: option.splits)
    then have "\<not> (\<exists>j\<in>set (mvKept v). \<exists>o'' g. swap_saves ps v (paHosts ps ! j) o'' g \<and> 0 < g)"
      by fastforce
    moreover have "pass_rightsize m ps = ps" using None v by (simp add: pass_rightsize_def Let_def)
    ultimately show ?thesis by simp
  next
    case (Some b)
    then obtain o' i gain where b: "best_replacement ps v = Some (o', i, gain)" by (cases b) auto
    have s: "i \<in> set (mvKept v)" "replacement ps v (paHosts ps ! i) = Some (o', gain)" "0 < gain"
      using scan b by (auto simp: gain_scan_def)
    have w: "swap_saves ps v (paHosts ps ! i) o' gain" using one [of "paHosts ps ! i"] s(2) by simp
    have best: "g \<le> gain" if "j \<in> set (mvKept v)" "swap_saves ps v (paHosts ps ! j) o'' g" for j o'' g
      using scan b that one [of "paHosts ps ! j"] s(3) by (fastforce simp: gain_scan_def split: option.splits)
    have "paActions (pass_rightsize m ps) = paActions ps @ [\<lparr>faKind = ActionRightsize, faReason = ReasonCheaper, faMarket = m,
          faHost = Some (fhID (paHosts ps ! i)), faOffer = Some o', faMode = None, faContainers = [], faHolds = holdsOf ps v (paHosts ps ! i)\<rparr>]"
      using b r v by (simp add: pass_rightsize_def Let_def pass_buy_def pass_start_def pass_act_def quotaOf_def)
    with s w best have "\<exists>i\<in>set (mvKept v). \<exists>o' gain. swap_saves ps v (paHosts ps ! i) o' gain \<and> 0 < gain
       \<and> (\<forall>j\<in>set (mvKept v). \<forall>o'' g. swap_saves ps v (paHosts ps ! j) o'' g \<longrightarrow> g \<le> gain)
       \<and> paActions (pass_rightsize m ps) = paActions ps @ [\<lparr>faKind = ActionRightsize, faReason = ReasonCheaper, faMarket = m,
            faHost = Some (fhID (paHosts ps ! i)), faOffer = Some o', faMode = None, faContainers = [], faHolds = holdsOf ps v (paHosts ps ! i)\<rparr>]"
      by blast
    with r s w show ?thesis by auto
  qed
qed

definition demo_idle :: pass where
  "demo_idle = (demo_pass FleetServing)
     \<lparr>paViews := [(RM False [], (demo_view (FC 500 gib 0))\<lparr>mvKept := [0], mvCapacity := FC 1000 (7 * gib) 0\<rparr>)]\<rparr>"

theorem rightsize_pays_back_witness:
  "map faKind (paActions (pass_rightsize (RM False []) demo_idle)) = [ActionRightsize]
   \<and> (\<exists>o' gain. swap_saves demo_idle (view_at demo_idle (RM False [])) (paHosts demo_idle ! 0) o' gain \<and> 0 < gain
        \<and> (\<forall>o'' g. swap_saves demo_idle (view_at demo_idle (RM False [])) (paHosts demo_idle ! 0) o'' g \<longrightarrow> g \<le> gain))"
proof -
  have acts: "map faKind (paActions (pass_rightsize (RM False []) demo_idle)) = [ActionRightsize]" by code_simp
  moreover have "paActions demo_idle = []" by (simp add: demo_idle_def demo_pass_def new_pass_def Let_def)
  ultimately have "pass_rightsize (RM False []) demo_idle \<noteq> demo_idle" by auto
  moreover have "mtM (view_at demo_idle (RM False [])) = RM False []" "mvKept (view_at demo_idle (RM False [])) = [0]"
    by (simp_all add: demo_idle_def demo_pass_def demo_view_def view_at_def view_of_target_def marketTarget.extend_def)
  ultimately show ?thesis
    using rightsize_pays_back [OF refl, of demo_idle "RM False []"] acts by (auto split: if_splits)
qed

subsection \<open>Headroom resumes past the limits\<close>

lemma Cover_no_offers:
  "Cover [] need cost limits = \<lparr>rsNodes = [], rsUnmetItems = unmet_items (start_state (search_of [] need cost limits)) need, rsSupplied = NoCapacity\<rparr>"
proof -
  define se where "se = search_of [] need cost limits"
  have none: "seCandidates se = []" by (simp add: se_def search_of_def coverCandidates_def)
  then have "expand se None [start_state se] = (None, [])" by (simp add: expand_def)
  moreover have "beam [] = []" by (simp add: beam_def)
  ultimately have "search_loop (\<lambda>expanded. expanded) se n [start_state se] (start_state se) None = (start_state se, None)" for n
    by (cases n; cases "n - 1") auto
  then show ?thesis by (simp add: Cover_def Cover_iter_def Let_def se_def [symmetric] state_result_def start_state_def)
qed

text \<open>With nothing to buy, a resume is the only way.\<close>

lemma resumePays_no_offers:
  assumes "marketOffers ps (host_market h) False = []" and "cnItems need = i # items" and "\<not> ciRides i" and "0 < ciCount i"
  shows "resumePays ps h need"
  using assms by (simp add: resumePays_def Let_def marketOffers_def Cover_no_offers Complete_def unmet_items_def start_state_def search_of_def)
text \<open>Two stopped reserves, two parts of headroom to place, nothing to buy, and room for one host and one action.\<close>

definition short_market :: pass where
  "short_market =
     (let ps = demo_pass FleetStopped; part = FC 1000 (4 * gib) 0
      in ps\<lparr>paP := DefaultPolicy\<lparr>pMaxGrowthActions := 1\<rparr>, paHostRoom := 1, paS := (paS ps)\<lparr>fsOffers := demo_inputs\<lparr>oiNetworks := []\<rparr>\<rparr>,
            paViews := [(RM False [], (demo_view (Plus_cap part part))\<lparr>mtFloor := NoCapacity, mvUnplaced := [part, part]\<rparr>)]\<rparr>)"

lemma short_market_evals:
  "marketOffers short_market (RM False []) False = []"
  "sort_key (\<lambda>i. retention_key short_market (paHosts short_market ! i)) (inMarket short_market (RM False []) (\<lambda>h. pass_ready short_market h False)) = [0, 1]"
  "grow_waits short_market (short_view short_market (view_at short_market (RM False []))) = None"
  "leavesLarge short_market (paHosts short_market ! 0)" "leavesLarge short_market (paHosts short_market ! 1)"
  by code_simp+

lemma short_market_sel:
  "paHostRoom short_market = 1" "pass_room short_market (RM False []) = 1" "paActions short_market = []"
  "paHosts short_market = [demo_fleet_host 1 FleetStopped, demo_fleet_host 2 FleetStopped]"
  "mtM (short_view short_market (view_at short_market (RM False []))) = RM False []"
  by code_simp+

definition short_part :: CoverItem where
  "short_part = \<lparr>ciShape = FC 1000 (4 * gib) 0, ciDisks = 0, ciCount = 1, ciMarket = None, ciRides = False\<rparr>"

lemma short_market_need: "grow_need (view_at short_market (RM False [])) = \<lparr>cnItems = [short_part, short_part], cnAggregate = NoCapacity\<rparr>"
  by code_simp

lemma short_market_resumes:
  "resumesFor short_market (short_view short_market (view_at short_market (RM False []))) \<lparr>cnItems = [short_part, short_part], cnAggregate = NoCapacity\<rparr>
     = (\<lparr>cnItems = [], cnAggregate = NoCapacity\<rparr>, [0, 1])"
proof -
  have m: "host_market (demo_fleet_host n st) = RM False []" for n st
    by (simp add: host_market_def demo_fleet_host_def reserveMarketOf_def)
  have pays: "resumePays short_market (demo_fleet_host n st) \<lparr>cnItems = short_part # rest, cnAggregate = c\<rparr>" for n st rest c
    by (rule resumePays_no_offers [where i = short_part and items = rest]) (simp_all add: m short_market_evals(1) short_part_def)
  have "take_items (fhUsable (demo_fleet_host n st)) (short_part # rest) = (FC 0 (3 * gib) 0, rest)" if "rest = [] \<or> rest = [short_part]" for n st rest
    using that by (auto simp: take_items_def demo_fleet_host_def short_part_def cap_simps)
  then have loop: "resumes_loop short_market v \<lparr>cnItems = [short_part, short_part], cnAggregate = NoCapacity\<rparr> [0, 1]
      = (\<lparr>cnItems = [], cnAggregate = NoCapacity\<rparr>, [0, 1])" if "mtM v = RM False []" for v
    using short_market_evals(4,5) pays that by (simp add: short_market_sel needMet_def cap_simps)
  show ?thesis unfolding resumesFor_def short_market_sel(5) short_market_evals(2) by (rule loop) (rule short_market_sel(5))
qed

text \<open>
  Headroom resumes can pass the limits of the pass. The loop that picks the reserves to resume tests the
  host room and the growth actions, which only change once all are picked, so with room for one host and one action a market resumes both its
  reserves; and as the need is met by then, each is recorded as headroom for load although parts of the floor were short.
\<close>

theorem grow_resumes_past_limits:
  "paHostRoom short_market = 1 \<and> pass_room short_market (RM False []) = 1
   \<and> map faKind (paActions (pass_grow (RM False []) short_market)) = [ActionResume, ActionResume]
   \<and> map faReason (paActions (pass_grow (RM False []) short_market)) = [ReasonLoad, ReasonLoad]
   \<and> paHostRoom (pass_grow (RM False []) short_market) = - 1 \<and> pass_room (pass_grow (RM False []) short_market) (RM False []) = - 1"
proof -
  let ?m = "RM False []"
  have met: "needMet \<lparr>cnItems = [], cnAggregate = NoCapacity\<rparr>" by (simp add: needMet_def cap_simps)
  have "pass_grow ?m short_market = grow_covers ?m (short_view short_market (view_at short_market ?m)) \<lparr>cnItems = [short_part, short_part], cnAggregate = NoCapacity\<rparr> short_market"
    by (simp add: pass_grow_def Let_def short_market_need needMet_def short_market_evals(3))
  also have "\<dots> = set_view ?m ((short_view short_market (view_at short_market ?m))\<lparr>mvShortfall := NoCapacity\<rparr>)
      (pass_resume ?m 1 ReasonLoad [] (pass_resume ?m 0 ReasonLoad [] short_market))"
    by (simp add: grow_covers_def short_market_resumes met growReason_def)
  finally show ?thesis
    using short_market_sel
    by (simp add: set_view_def pass_resume_def Let_def pass_act_def grows_def plain_action_def set_host_def pass_start_def quotaOf_def demo_fleet_host_def pass_room_def)
qed

end
