(* ===== verification/Ledger.thy ===== *)
theory Ledger
  imports Plan
begin

text \<open>
  The promise of a planning pass about what it spends, as an abstract machine: a ledger of the host room left, the
  growth actions used per market, the vCPUs counted per quota and the purchases made. A step of it buys
  hosts within what is left, or starts a stopped one. Every operation of a pass is a sequence of such steps, so the bounds,
  proved once for the ledger by rule induction, hold of every plan.
\<close>

subsection \<open>The ledger\<close>

definition purchase :: "FleetAction \<Rightarrow> bool" where
  "purchase a \<longleftrightarrow> faKind a \<in> {ActionBuy, ActionBuyReserve, ActionRightsize}"

abbreviation act_offer :: "FleetAction \<Rightarrow> FleetOffer" where
  "act_offer a \<equiv> the (faOffer a)"

definition act_vcpus :: "FleetAction \<Rightarrow> int" where
  "act_vcpus a = CatalogType_VCPUs (foType (act_offer a))"

definition vcpus_against :: "QuotaKey \<Rightarrow> FleetAction list \<Rightarrow> int" where
  "vcpus_against k as = sum_list (map act_vcpus (filter (\<lambda>a. foQuota (act_offer a) = k) as))"

text \<open>
  A purchase is sound: its offer was ranked for some need, under the margin unless it serves work that
  waited for Spot, and holds what the host is bought for.
\<close>

definition purchase_ok :: "Policy \<Rightarrow> OfferInputs \<Rightarrow> FleetAction \<Rightarrow> bool" where
  "purchase_ok p inp a \<longleftrightarrow>
     purchase a \<and> faOffer a \<noteq> None \<and> Covers (foUsable (act_offer a)) (faHolds a)
     \<and> (\<exists>need reserve. act_offer a \<in> set (RankOffers p need reserve inp)
          \<or> faReason a = ReasonSpotWait \<and> act_offer a \<in> set (RankOffers p need reserve (inp\<lparr>oiWaiveMargin := True\<rparr>)))"

record ledger =
  lgHostRoom :: int
  lgUsed :: "ReserveMarket \<Rightarrow> int"
  lgQuotaUsed :: "QuotaKey \<Rightarrow> int"
  lgBought :: "FleetAction list"

definition ledger_of :: "pass \<Rightarrow> ledger" where
  "ledger_of ps = \<lparr>lgHostRoom = paHostRoom ps, lgUsed = paUsed ps, lgQuotaUsed = paQuotaUsed ps,
     lgBought = filter purchase (paActions ps)\<rparr>"

definition lg_buy :: "ledger \<Rightarrow> FleetAction \<Rightarrow> ledger" where
  "lg_buy l a =
     l\<lparr>lgHostRoom := lgHostRoom l - 1,
       lgUsed := (lgUsed l)(faMarket a := lgUsed l (faMarket a) + 1),
       lgQuotaUsed := (lgQuotaUsed l)(foQuota (act_offer a) := lgQuotaUsed l (foQuota (act_offer a)) + act_vcpus a),
       lgBought := lgBought l @ [a]\<rparr>"

inductive ledger_step :: "Policy \<Rightarrow> OfferInputs \<Rightarrow> ledger \<Rightarrow> ledger \<Rightarrow> bool" for p inp where
  buys: "ledger_step p inp l (foldl lg_buy l as)"
    if "\<forall>a\<in>set as. purchase_ok p inp a \<and> faKind a \<noteq> ActionRightsize \<and> faMarket a = m"
      and "int (length as) \<le> max 0 (min (pMaxGrowthActions p - lgUsed l m) (lgHostRoom l))"
      and "\<forall>a\<in>set as. \<forall>left. quotaRoom (oiQuotas inp) (lgQuotaUsed l) (foQuota (act_offer a)) = Some left
             \<longrightarrow> vcpus_against (foQuota (act_offer a)) as \<le> left"
| rightsizes: "ledger_step p inp l (lg_buy l a)"
    if "purchase_ok p inp a" and "faKind a = ActionRightsize" and "lgUsed l (faMarket a) < pMaxGrowthActions p" and "0 < lgHostRoom l"
| resumes: "ledger_step p inp l
       (l\<lparr>lgHostRoom := lgHostRoom l - room_taken, lgUsed := (lgUsed l)(m := lgUsed l m + 1),
          lgQuotaUsed := (lgQuotaUsed l)(k := lgQuotaUsed l k + vcpus)\<rparr>)"
    if "0 \<le> room_taken" and "0 \<le> vcpus"

abbreviation ledger_steps :: "Policy \<Rightarrow> OfferInputs \<Rightarrow> ledger \<Rightarrow> ledger \<Rightarrow> bool" where
  "ledger_steps p inp \<equiv> (ledger_step p inp)\<^sup>*\<^sup>*"

subsection \<open>Bounds of the ledger\<close>

lemma foldl_lg_buy:
  "lgHostRoom (foldl lg_buy l as) = lgHostRoom l - int (length as)"
  "lgUsed (foldl lg_buy l as) m = lgUsed l m + int (length (filter (\<lambda>a. faMarket a = m) as))"
  "lgQuotaUsed (foldl lg_buy l as) k = lgQuotaUsed l k + vcpus_against k as"
  "lgBought (foldl lg_buy l as) = lgBought l @ as"
  by (induction as arbitrary: l) (auto simp: lg_buy_def vcpus_against_def)

lemma vcpus_against_append: "vcpus_against k (as @ bs) = vcpus_against k as + vcpus_against k bs"
  by (simp add: vcpus_against_def)

lemma vcpus_against_none: "\<forall>a\<in>set as. foQuota (act_offer a) \<noteq> k \<Longrightarrow> vcpus_against k as = 0"
  by (simp add: vcpus_against_def)

lemma vcpus_against_nonneg: "\<forall>a\<in>set as. 0 \<le> act_vcpus a \<Longrightarrow> 0 \<le> vcpus_against k as"
  unfolding vcpus_against_def by (intro sum_list_nonneg) auto

text \<open>Purchases that keep to the quotas: all but replacements.\<close>

abbreviation in_quota :: "FleetAction list \<Rightarrow> FleetAction list" where
  "in_quota as \<equiv> filter (\<lambda>a. faKind a \<noteq> ActionRightsize) as"

definition inputs_ok :: "OfferInputs \<Rightarrow> bool" where
  "inputs_ok inp \<longleftrightarrow> distinct (map ctName (oiCatalog inp))
     \<and> (\<forall>t\<in>set (oiCatalog inp). nonneg_cap (Usable t (oiReportedMemory inp (ctName t))) \<and> 0 \<le> CatalogType_VCPUs t)"

definition ledger_ok :: "Policy \<Rightarrow> OfferInputs \<Rightarrow> ledger \<Rightarrow> ledger \<Rightarrow> bool" where
  "ledger_ok p inp l0 l \<longleftrightarrow>
     (\<forall>a\<in>set (lgBought l). purchase_ok p inp a)
     \<and> int (length (lgBought l)) + lgHostRoom l \<le> lgHostRoom l0
     \<and> int (length (lgBought l)) \<le> max 0 (lgHostRoom l0)
     \<and> (\<forall>m. int (length (filter (\<lambda>a. faMarket a = m) (lgBought l))) \<le> lgUsed l m - lgUsed l0 m
          \<and> int (length (filter (\<lambda>a. faMarket a = m) (lgBought l))) \<le> max 0 (pMaxGrowthActions p - lgUsed l0 m))
     \<and> (\<forall>k. vcpus_against k (in_quota (lgBought l)) \<le> lgQuotaUsed l k - lgQuotaUsed l0 k
          \<and> (\<forall>left. quotaRoom (oiQuotas inp) (lgQuotaUsed l0) k = Some left
               \<longrightarrow> vcpus_against k (in_quota (lgBought l)) \<le> max 0 left))"

lemma ledger_okI:
  assumes "\<And>a. a \<in> set (lgBought l) \<Longrightarrow> purchase_ok p inp a"
    and "int (length (lgBought l)) + lgHostRoom l \<le> lgHostRoom l0" and "int (length (lgBought l)) \<le> max 0 (lgHostRoom l0)"
    and "\<And>m. int (length (filter (\<lambda>a. faMarket a = m) (lgBought l))) \<le> lgUsed l m - lgUsed l0 m"
    and "\<And>m. int (length (filter (\<lambda>a. faMarket a = m) (lgBought l))) \<le> max 0 (pMaxGrowthActions p - lgUsed l0 m)"
    and "\<And>k. vcpus_against k (in_quota (lgBought l)) \<le> lgQuotaUsed l k - lgQuotaUsed l0 k"
    and "\<And>k left. quotaRoom (oiQuotas inp) (lgQuotaUsed l0) k = Some left \<Longrightarrow> vcpus_against k (in_quota (lgBought l)) \<le> max 0 left"
  shows "ledger_ok p inp l0 l"
  using assms unfolding ledger_ok_def by blast

lemma ledger_okD:
  assumes "ledger_ok p inp l0 l"
  shows "a \<in> set (lgBought l) \<Longrightarrow> purchase_ok p inp a"
    and "int (length (lgBought l)) + lgHostRoom l \<le> lgHostRoom l0" and "int (length (lgBought l)) \<le> max 0 (lgHostRoom l0)"
    and "int (length (filter (\<lambda>a. faMarket a = m) (lgBought l))) \<le> lgUsed l m - lgUsed l0 m"
    and "int (length (filter (\<lambda>a. faMarket a = m) (lgBought l))) \<le> max 0 (pMaxGrowthActions p - lgUsed l0 m)"
    and "vcpus_against k (in_quota (lgBought l)) \<le> lgQuotaUsed l k - lgQuotaUsed l0 k"
    and "quotaRoom (oiQuotas inp) (lgQuotaUsed l0) k = Some left \<Longrightarrow> vcpus_against k (in_quota (lgBought l)) \<le> max 0 left"
  using assms unfolding ledger_ok_def by blast+

lemma quotaRoom_value:
  "quotaRoom quotas used k =
     map_option (\<lambda>limit. limit - used k) (quotaRoom quotas (\<lambda>_. 0) k)"
proof -
  have "foldl (\<lambda>rm q. rm(vqKey q := Some (vqVCPUs q - used (vqKey q)))) r quotas k
      = map_option (\<lambda>limit. limit - used k) (foldl (\<lambda>rm q. rm(vqKey q := Some (vqVCPUs q - 0))) r0 quotas k)"
    if "r k = map_option (\<lambda>limit. limit - used k) (r0 k)" for r r0
    using that by (induction quotas arbitrary: r r0) auto
  then show ?thesis by (simp add: quotaRoom_def)
qed

lemma RankOffers_type:
  assumes "o' \<in> set (RankOffers p need reserve inp)"
  shows "foType o' \<in> set (oiCatalog inp)"
    and "foUsable o' = Usable (foType o') (oiReportedMemory inp (ctName (foType o')))"
    and "foQuota o' = QK (foRegion o') (QuotaClassOf (ctName (foType o'))) (foMarket o')"
proof -
  obtain region network subnet where z: "o' \<in> set (zone_offers p need reserve inp region subnet)"
    using assms [unfolded set_RankOffers listed_offer] by (elim bexE case_prodE conjE) blast
  obtain t market where f: "t \<in> set (oiCatalog inp)" and o: "market_offer p need reserve inp region subnet t market = Some o'"
    using z [unfolded zone_offer] by (elim bexE conjE)
  obtain price penalty where e: "o' = offer_of p need reserve inp region subnet t market price penalty"
    using market_offer_Some(1) [OF o] by blast
  show "foType o' \<in> set (oiCatalog inp)" "foUsable o' = Usable (foType o') (oiReportedMemory inp (ctName (foType o')))"
    "foQuota o' = QK (foRegion o') (QuotaClassOf (ctName (foType o'))) (foMarket o')"
    using f by (simp_all add: e)
qed

lemma purchase_ok_type:
  assumes "purchase_ok p inp a"
  shows "foType (act_offer a) \<in> set (oiCatalog inp)"
proof -
  obtain need reserve where "act_offer a \<in> set (RankOffers p need reserve inp)
      \<or> act_offer a \<in> set (RankOffers p need reserve (inp\<lparr>oiWaiveMargin := True\<rparr>))"
    using assms by (auto simp: purchase_ok_def)
  then show ?thesis using RankOffers_type(1) by fastforce
qed

lemma purchase_ok_vcpus: "inputs_ok inp \<Longrightarrow> purchase_ok p inp a \<Longrightarrow> 0 \<le> act_vcpus a"
  using purchase_ok_type by (auto simp: inputs_ok_def act_vcpus_def)

lemma ledger_ok_buys:
  assumes ok: "ledger_ok p inp l0 l"
    and as: "\<forall>a\<in>set as. purchase_ok p inp a \<and> faKind a \<noteq> ActionRightsize \<and> faMarket a = m"
    and n: "int (length as) \<le> max 0 (min (pMaxGrowthActions p - lgUsed l m) (lgHostRoom l))"
    and q: "\<forall>a\<in>set as. \<forall>left. quotaRoom (oiQuotas inp) (lgQuotaUsed l) (foQuota (act_offer a)) = Some left
             \<longrightarrow> vcpus_against (foQuota (act_offer a)) as \<le> left"
  shows "ledger_ok p inp l0 (foldl lg_buy l as)"
proof (rule ledger_okI, unfold foldl_lg_buy)
  note D = ledger_okD [OF ok]
  have keep: "in_quota as = as" using as by (intro filter_True) blast
  show "purchase_ok p inp a" if "a \<in> set (lgBought l @ as)" for a
    using that D(1) as by auto
  show "int (length (lgBought l @ as)) + (lgHostRoom l - int (length as)) \<le> lgHostRoom l0"
    using D(2) by simp
  show "int (length (lgBought l @ as)) \<le> max 0 (lgHostRoom l0)"
    using D(2,3) n by simp
  show "int (length (filter (\<lambda>a. faMarket a = m') (lgBought l @ as)))
      \<le> lgUsed l m' + int (length (filter (\<lambda>a. faMarket a = m') as)) - lgUsed l0 m'" for m'
    using D(4) [of m'] by simp
  show "int (length (filter (\<lambda>a. faMarket a = m') (lgBought l @ as))) \<le> max 0 (pMaxGrowthActions p - lgUsed l0 m')" for m'
  proof (cases "m' = m")
    case True
    have "filter (\<lambda>a. faMarket a = m) as = as" using as by (intro filter_True) blast
    then show ?thesis using n True D(4,5) [of m] by simp
  next
    case False
    then have "filter (\<lambda>a. faMarket a = m') as = []" using as by (auto simp: filter_empty_conv)
    then show ?thesis using D(5) [of m'] by simp
  qed
  show "vcpus_against k (in_quota (lgBought l @ as)) \<le> lgQuotaUsed l k + vcpus_against k as - lgQuotaUsed l0 k" for k
    using D(6) [of k] by (simp add: keep vcpus_against_append)
  show "vcpus_against k (in_quota (lgBought l @ as)) \<le> max 0 left"
    if left: "quotaRoom (oiQuotas inp) (lgQuotaUsed l0) k = Some left" for k left
  proof (cases "\<exists>a\<in>set as. foQuota (act_offer a) = k")
    case True
    obtain limit where lim: "quotaRoom (oiQuotas inp) (\<lambda>_. 0) k = Some limit" "left = limit - lgQuotaUsed l0 k"
      using left quotaRoom_value [of "oiQuotas inp" "lgQuotaUsed l0" k] by auto
    then have "quotaRoom (oiQuotas inp) (lgQuotaUsed l) k = Some (limit - lgQuotaUsed l k)"
      using quotaRoom_value [of "oiQuotas inp" "lgQuotaUsed l" k] by simp
    then have "vcpus_against k as \<le> limit - lgQuotaUsed l k" using q True by blast
    then show ?thesis using lim(2) D(6) [of k] by (simp add: keep vcpus_against_append)
  next
    case False
    then show ?thesis using D(7) [OF left] vcpus_against_none [of as k] by (simp add: keep vcpus_against_append)
  qed
qed

lemma ledger_ok_rightsizes:
  assumes inp: "inputs_ok inp" and ok: "ledger_ok p inp l0 l"
    and a: "purchase_ok p inp a" "faKind a = ActionRightsize" "lgUsed l (faMarket a) < pMaxGrowthActions p" "0 < lgHostRoom l"
  shows "ledger_ok p inp l0 (lg_buy l a)"
proof (rule ledger_okI, goal_cases)
  note D = ledger_okD [OF ok] and v = purchase_ok_vcpus [OF inp a(1)]
  { case (1 b) then show ?case using D(1) a(1) by (auto simp: lg_buy_def) }
  { case 2 then show ?case using D(2) by (simp add: lg_buy_def) }
  { case 3 then show ?case using D(2) a(4) by (simp add: lg_buy_def) }
  { case (4 m) then show ?case using D(4) [of m] by (auto simp: lg_buy_def) }
  { case (5 m) then show ?case using D(4,5) [of m] a(3) by (auto simp: lg_buy_def) }
  { case (6 k) then show ?case using D(6) [of k] v a(2) by (auto simp: lg_buy_def) }
  { case (7 k left) then show ?case using D(7) a(2) by (simp add: lg_buy_def) }
qed

lemma ledger_ok_resumes:
  assumes ok: "ledger_ok p inp l0 l" and pos: "0 \<le> taken" "0 \<le> vcpus"
  shows "ledger_ok p inp l0
       (l\<lparr>lgHostRoom := lgHostRoom l - taken, lgUsed := (lgUsed l)(m := lgUsed l m + 1),
          lgQuotaUsed := (lgQuotaUsed l)(k := lgQuotaUsed l k + vcpus)\<rparr>)"
proof (rule ledger_okI, goal_cases)
  note D = ledger_okD [OF ok]
  { case (1 a) then show ?case using D(1) by simp }
  { case 2 then show ?case using D(2) pos by simp }
  { case 3 then show ?case using D(3) by simp }
  { case (4 m') then show ?case using D(4) [of m'] by auto }
  { case (5 m') then show ?case using D(5) [of m'] by simp }
  { case (6 k') then show ?case using D(6) [of k'] pos by auto }
  { case (7 k' left) then show ?case using D(7) by simp }
qed

lemma ledger_steps_ok:
  assumes "ledger_steps p inp l l'" and inp: "inputs_ok inp" and "ledger_ok p inp l0 l"
  shows "ledger_ok p inp l0 l'"
  using assms(1,3)
proof (induction rule: rtranclp_induct)
  case base
  then show ?case .
next
  case (step l l')
  have ok: "ledger_ok p inp l0 l" using step by blast
  from step(2) show ?case
  proof cases
    case (buys as m)
    then show ?thesis using ledger_ok_buys [OF ok] by blast
  next
    case (rightsizes a)
    then show ?thesis using ledger_ok_rightsizes [OF inp ok] by blast
  next
    case (resumes room_taken vcpus m k)
    then show ?thesis using ledger_ok_resumes [OF ok] by blast
  qed
qed

end
