(* ===== verification/Spending.thy ===== *)
theory Spending
  imports Ledger
begin

text \<open>
  Every operation of a pass is a sequence of ledger steps: the simulation that carries the bounds of
  \<open>Ledger\<close> to \<open>PlanFleet\<close>.
\<close>

subsection \<open>Passes that move\<close>

definition view_ok :: "ReserveMarket \<Rightarrow> marketView \<Rightarrow> bool" where
  "view_ok m v \<longleftrightarrow> mtM v = m \<and> (\<forall>part\<in>set (mtWantParts v). nonneg_cap part) \<and> (\<forall>part\<in>set (mvUnplaced v). nonneg_cap part)
     \<and> nonneg_cap (mtLargest v) \<and> 0 \<le> mtLargestDisks v"

definition pass_ok :: "pass \<Rightarrow> bool" where
  "pass_ok ps \<longleftrightarrow> inputs_ok (paOffers ps) \<and> (\<forall>(m, v)\<in>set (paViews ps). view_ok m v)"

definition moves :: "pass \<Rightarrow> pass \<Rightarrow> bool" where
  "moves ps ps' \<longleftrightarrow> (pass_ok ps \<longrightarrow> pass_ok ps' \<and> paP ps' = paP ps \<and> paS ps' = paS ps
     \<and> map fst (paViews ps') = map fst (paViews ps)
     \<and> ledger_steps (paP ps) (paOffers ps) (ledger_of ps) (ledger_of ps'))"

definition quiet :: "pass \<Rightarrow> pass \<Rightarrow> bool" where
  "quiet ps ps' \<longleftrightarrow> paP ps' = paP ps \<and> paS ps' = paS ps \<and> paViews ps' = paViews ps \<and> ledger_of ps' = ledger_of ps"

lemma moves_refl [simp]: "moves ps ps"
  by (simp add: moves_def)

lemma moves_trans [trans]: "moves ps ps' \<Longrightarrow> moves ps' ps'' \<Longrightarrow> moves ps ps''"
  unfolding moves_def by (metis (no_types, lifting) rtranclp_trans)

lemma quiet_moves: "quiet ps ps' \<Longrightarrow> moves ps ps'"
  by (auto simp: quiet_def moves_def pass_ok_def)

lemma quiet_refl [simp]: "quiet ps ps"
  by (simp add: quiet_def)

lemma quiet_trans [trans]: "quiet ps ps' \<Longrightarrow> quiet ps' ps'' \<Longrightarrow> quiet ps ps''"
  by (simp add: quiet_def)

lemma foldl_moves:
  assumes "\<And>ps x. x \<in> set xs \<Longrightarrow> moves ps (f ps x)"
  shows "moves ps (foldl f ps xs)"
  using foldl_invariant [where P = "moves ps" and f = f and xs = xs, OF moves_refl] assms moves_trans by blast

lemma foldl_quiet:
  assumes "\<And>ps x. x \<in> set xs \<Longrightarrow> quiet ps (f ps x)"
  shows "quiet ps (foldl f ps xs)"
  using foldl_invariant [where P = "quiet ps" and f = f and xs = xs, OF quiet_refl] assms quiet_trans by blast

lemma moves_step:
  assumes "paP ps' = paP ps" and "paS ps' = paS ps" and "paViews ps' = paViews ps"
    and "pass_ok ps \<Longrightarrow> ledger_step (paP ps) (paOffers ps) (ledger_of ps) (ledger_of ps')"
  shows "moves ps ps'"
  using assms by (auto simp: moves_def pass_ok_def)

subsection \<open>Recording decisions\<close>

named_theorems quiet_intros "operations that leave the ledger and the views alone"

lemma quiet_set_host [quiet_intros]: "quiet ps (set_host i f ps)"
  by (simp add: quiet_def set_host_def ledger_of_def)

lemma quiet_set_wait [quiet_intros]: "quiet ps (set_wait i f ps)"
  by (simp add: quiet_def set_wait_def ledger_of_def)

lemma quiet_provisioning [quiet_intros]: "quiet ps (provisioning it h action ps)"
  by (simp add: provisioning_def quiet_set_wait)

lemma quiet_pass_waits [quiet_intros]: "quiet ps (pass_waits it w ps)"
  using quiet_set_wait by (simp add: quiet_def pass_waits_def ledger_of_def)

lemma quiet_give [quiet_intros]: "quiet ps (give i need ps)"
  using quiet_set_host by (simp add: quiet_def give_def Let_def ledger_of_def)

lemma quiet_batching [quiet_intros]: "quiet ps (snd (batching ps))"
  by (simp add: quiet_def batching_def ledger_of_def)

lemma quiet_reserve_room [quiet_intros]: "quiet ps (ps\<lparr>paReserveRoom := n\<rparr>)"
  by (simp add: quiet_def ledger_of_def)

lemma quiet_act:
  assumes "\<not> grows (faKind a)"
  shows "quiet ps (pass_act a ps)"
proof -
  have "\<not> purchase a" using assms by (auto simp: grows_def purchase_def)
  with assms show ?thesis by (simp add: quiet_def pass_act_def ledger_of_def)
qed

lemma plain_action_kind [simp]: "faKind (plain_action kind reason m h) = kind"
  by (simp add: plain_action_def)

text \<open>A type of the catalog is the one its name finds, so a purchase counts its own vCPUs.\<close>

lemma typeNamed_catalog:
  assumes "inputs_ok (paOffers ps)" and "t \<in> set (oiCatalog (paOffers ps))"
  shows "type_or_zero ps (ctName t) = t"
proof -
  let ?c = "oiCatalog (paOffers ps)"
  obtain n where n: "n < length ?c" "?c ! n = t" using assms(2) by (auto simp: in_set_conv_nth)
  have "index_func (\<lambda>t'. ctName t' = ctName t) ?c \<noteq> None" using assms(2) by (auto simp: index_func_None)
  then obtain i where i: "index_func (\<lambda>t'. ctName t' = ctName t) ?c = Some i" by blast
  have "map ctName ?c ! i = map ctName ?c ! n"
    using index_func_less [OF i] index_func_holds [OF i] n by simp
  then have "i = n"
    using assms(1) index_func_less [OF i] n(1) nth_eq_iff_index_eq [of "map ctName ?c" i n] by (simp add: inputs_ok_def)
  then show ?thesis using i n(2) by (simp add: type_or_zero_def typeNamed_def)
qed

lemma type_vcpus: "inputs_ok (paOffers ps) \<Longrightarrow> 0 \<le> CatalogType_VCPUs (type_or_zero ps name)"
  by (auto simp: inputs_ok_def type_or_zero_def typeNamed_def NoType_def CatalogType_VCPUs_def
      dest: index_func_less split: option.splits intro: nth_mem)

definition offerable :: "pass \<Rightarrow> bool \<Rightarrow> FleetOffer \<Rightarrow> bool" where
  "offerable ps atLoss o' \<longleftrightarrow>
     (\<exists>need reserve. o' \<in> set (RankOffers (paP ps) need reserve (paOffers ps))
        \<or> atLoss \<and> o' \<in> set (RankOffers (paP ps) need reserve ((paOffers ps)\<lparr>oiWaiveMargin := True\<rparr>)))"

lemma offerable_facts:
  assumes "inputs_ok (paOffers ps)" and "offerable ps atLoss o'"
  shows "foQuota o' = QK (foRegion o') (QuotaClassOf (ctName (foType o'))) (foMarket o')"
    and "type_or_zero ps (ctName (foType o')) = foType o'" and "nonneg_cap (foUsable o')"
proof -
  obtain need reserve inp where r: "o' \<in> set (RankOffers (paP ps) need reserve inp)"
    and inp: "inp = paOffers ps \<or> inp = (paOffers ps)\<lparr>oiWaiveMargin := True\<rparr>"
    using assms(2) by (auto simp: offerable_def)
  have t: "foType o' \<in> set (oiCatalog (paOffers ps))"
    "foUsable o' = Usable (foType o') (oiReportedMemory (paOffers ps) (ctName (foType o')))"
    using RankOffers_type(1,2) [OF r] inp by auto
  show "foQuota o' = QK (foRegion o') (QuotaClassOf (ctName (foType o'))) (foMarket o')" by (rule RankOffers_type(3) [OF r])
  show "type_or_zero ps (ctName (foType o')) = foType o'" by (rule typeNamed_catalog [OF assms(1) t(1)])
  show "nonneg_cap (foUsable o')" using assms(1) t by (simp add: inputs_ok_def)
qed

definition buy_action :: "ReserveMarket \<Rightarrow> FleetOffer \<Rightarrow> FleetActionKind \<Rightarrow> ActionReason \<Rightarrow> FleetCapacity \<Rightarrow> uuid list
    \<Rightarrow> HostID option \<Rightarrow> FleetAction" where
  "buy_action m o' kind reason holds containers replaces =
     \<lparr>faKind = kind, faReason = reason, faMarket = m, faHost = replaces, faOffer = Some o',
      faMode = (if kind = ActionBuyReserve then Some (if foHibernate o' then ReserveHibernate else ReserveStop) else None),
      faContainers = containers, faHolds = holds\<rparr>"

lemma pass_buy_moves:
  assumes "inputs_ok (paOffers ps)" and "offerable ps atLoss o'" and "kind \<in> {ActionBuy, ActionBuyReserve, ActionRightsize}"
  shows "ledger_of (pass_buy m o' kind reason holds cs rep ps) = lg_buy (ledger_of ps) (buy_action m o' kind reason holds cs rep)"
    and "paP (pass_buy m o' kind reason holds cs rep ps) = paP ps" and "paS (pass_buy m o' kind reason holds cs rep ps) = paS ps"
    and "paViews (pass_buy m o' kind reason holds cs rep ps) = paViews ps"
proof -
  note f = offerable_facts [OF assms(1,2)]
  have g: "grows kind" "purchase (buy_action m o' kind reason holds cs rep)"
    using assms(3) by (auto simp: grows_def purchase_def buy_action_def)
  have t: "type_or_zero (ps'\<lparr>paHostRoom := n, paPlanned := pl\<rparr>) name = type_or_zero ps' name"
    "type_or_zero (ps'\<lparr>paReserveRoom := r\<rparr>) name = type_or_zero ps' name" for ps' n pl r name
    by (simp_all add: type_or_zero_def typeNamed_def)
  show "ledger_of (pass_buy m o' kind reason holds cs rep ps) = lg_buy (ledger_of ps) (buy_action m o' kind reason holds cs rep)"
    using g by (simp add: pass_buy_def Let_def pass_start_def quotaOf_def pass_act_def ledger_of_def lg_buy_def t f(2) buy_action_def
        purchase_def act_vcpus_def f(1))
  show "paP (pass_buy m o' kind reason holds cs rep ps) = paP ps" "paS (pass_buy m o' kind reason holds cs rep ps) = paS ps"
    "paViews (pass_buy m o' kind reason holds cs rep ps) = paViews ps"
    by (simp_all add: pass_buy_def Let_def pass_start_def quotaOf_def pass_act_def)
qed

lemma pass_resume_moves: "moves ps (pass_resume m i reason cs ps)"
proof (rule moves_step)
  let ?h = "paHosts ps ! i"
  let ?k = "QK (fhRegion ?h) (QuotaClassOf (fhInstanceType ?h)) (fhMarket ?h)"
  let ?v = "if fhState ?h \<noteq> FleetStopping then CatalogType_VCPUs (type_or_zero ps (fhInstanceType ?h)) else 0"
  let ?taken = "if fhState ?h \<noteq> FleetStopping then 1 else 0 :: int"
  show "paP (pass_resume m i reason cs ps) = paP ps" "paS (pass_resume m i reason cs ps) = paS ps"
    "paViews (pass_resume m i reason cs ps) = paViews ps"
    by (simp_all add: pass_resume_def Let_def pass_start_def quotaOf_def pass_act_def set_host_def)
  assume ok: "pass_ok ps"
  have t: "type_or_zero (ps\<lparr>paHostRoom := n\<rparr>) name = type_or_zero ps name" for n name
    by (simp add: type_or_zero_def typeNamed_def)
  have "ledger_of (pass_resume m i reason cs ps)
      = (ledger_of ps)\<lparr>lgHostRoom := lgHostRoom (ledger_of ps) - ?taken,
          lgUsed := (lgUsed (ledger_of ps))(m := lgUsed (ledger_of ps) m + 1),
          lgQuotaUsed := (lgQuotaUsed (ledger_of ps))(?k := lgQuotaUsed (ledger_of ps) ?k + ?v)\<rparr>"
    by (simp add: pass_resume_def Let_def pass_start_def quotaOf_def pass_act_def set_host_def ledger_of_def grows_def purchase_def t
        plain_action_def)
  then show "ledger_step (paP ps) (paOffers ps) (ledger_of ps) (ledger_of (pass_resume m i reason cs ps))"
    using ledger_step.resumes [of ?taken ?v "paP ps" "paOffers ps" "ledger_of ps" ?k m] type_vcpus ok
    by (simp add: pass_ok_def)
qed

subsection \<open>Buying a cover\<close>

lemma against_offers:
  "vcpus_against k as = sum_list (map (\<lambda>o'. CatalogType_VCPUs (foType o')) (filter (\<lambda>o'. foQuota o' = k) (map act_offer as)))"
  "counted_against k ns = sum_list (map (\<lambda>o'. CatalogType_VCPUs (foType o')) (filter (\<lambda>o'. foQuota o' = k) (map cvOffer ns)))"
  by (simp_all add: vcpus_against_def counted_against_def act_vcpus_def [abs_def] filter_map comp_def)

definition buys_node :: "ReserveMarket \<Rightarrow> FleetActionKind \<Rightarrow> bool \<Rightarrow> CoverNode \<Rightarrow> pass \<Rightarrow> pass \<Rightarrow> bool" where
  "buys_node m kind atLoss v ps ps' \<longleftrightarrow>
     (\<exists>reason holds cs. quiet (pass_buy m (cvOffer v) kind reason holds cs None ps) ps'
        \<and> Covers (foUsable (cvOffer v)) holds \<and> (atLoss \<longrightarrow> reason = ReasonSpotWait))"

lemma buys_node_ledger:
  assumes "pass_ok ps" and "offerable ps atLoss (cvOffer v)" and kind: "kind \<in> {ActionBuy, ActionBuyReserve}"
    and "buys_node m kind atLoss v ps ps'"
  obtains a where "ledger_of ps' = lg_buy (ledger_of ps) a" "purchase_ok (paP ps) (paOffers ps) a" "faKind a = kind"
    "faMarket a = m" "faOffer a = Some (cvOffer v)" "paP ps' = paP ps" "paS ps' = paS ps" "paViews ps' = paViews ps"
proof -
  obtain reason holds cs where q: "quiet (pass_buy m (cvOffer v) kind reason holds cs None ps) ps'"
      and h: "Covers (foUsable (cvOffer v)) holds" "atLoss \<longrightarrow> reason = ReasonSpotWait"
    using assms(4) by (auto simp: buys_node_def)
  let ?a = "buy_action m (cvOffer v) kind reason holds cs None"
  have inp: "inputs_ok (paOffers ps)" using assms(1) by (simp add: pass_ok_def)
  have k: "kind \<in> {ActionBuy, ActionBuyReserve, ActionRightsize}" using kind by blast
  note b = pass_buy_moves [OF inp assms(2) k, of m reason holds cs None]
  have "purchase_ok (paP ps) (paOffers ps) ?a"
    using assms(2) h kind by (auto simp: purchase_ok_def buy_action_def purchase_def offerable_def)
  then show thesis using q b by (intro that [of ?a]) (auto simp: quiet_def buy_action_def)
qed

text \<open>A loop that buys the nodes of a cover keeps to what the cover was limited to.\<close>

lemma buy_nodes_moves:
  fixes get :: "'s \<Rightarrow> pass" and f :: "'s \<Rightarrow> CoverNode \<Rightarrow> 's"
  assumes ok: "pass_ok (get st)" and need: "need_ok need" and offers: "\<forall>o'\<in>set offers. offerable (get st) atLoss o'"
    and res: "ns = rsNodes (Cover offers need cost (pass_limits (get st) nodes r))"
    and nodes: "nodes \<le> min (pass_room (get st) m) (paHostRoom (get st))" and kind: "kind \<in> {ActionBuy, ActionBuyReserve}"
    and J: "J st"
    and step: "\<And>st' v. v \<in> set ns \<Longrightarrow> J st' \<Longrightarrow> J (f st' v) \<and> buys_node m kind atLoss v (get st') (get (f st' v))"
  shows "J (foldl f st ns) \<and> moves (get st) (get (foldl f st ns))"
proof -
  let ?ps = "get st"
  have inp: "inputs_ok (paOffers ?ps)" using ok by (simp add: pass_ok_def)
  have nonneg: "\<forall>o'\<in>set offers. nonneg_cap (foUsable o')" using offers offerable_facts(3) [OF inp] by blast
  have sub: "cvOffer v \<in> set offers" if "v \<in> set ns" for v
    using beam_cover.node_offer [OF need nonneg] that res by blast
  have run: "\<exists>as. J (foldl f st xs) \<and> ledger_of (get (foldl f st xs)) = foldl lg_buy (ledger_of ?ps) as
      \<and> map act_offer as = map cvOffer xs
      \<and> (\<forall>a\<in>set as. purchase_ok (paP ?ps) (paOffers ?ps) a \<and> faKind a \<noteq> ActionRightsize \<and> faMarket a = m)
      \<and> paP (get (foldl f st xs)) = paP ?ps \<and> paS (get (foldl f st xs)) = paS ?ps \<and> paViews (get (foldl f st xs)) = paViews ?ps"
    if "set xs \<subseteq> set ns" for xs
    using that
  proof (induction xs rule: rev_induct)
    case Nil
    then show ?case using J by (intro exI [of _ "[]"]) simp
  next
    case (snoc v xs)
    let ?st = "foldl f st xs"
    obtain as where as: "J ?st" "ledger_of (get ?st) = foldl lg_buy (ledger_of ?ps) as" "map act_offer as = map cvOffer xs"
        "\<forall>a\<in>set as. purchase_ok (paP ?ps) (paOffers ?ps) a \<and> faKind a \<noteq> ActionRightsize \<and> faMarket a = m"
        "paP (get ?st) = paP ?ps" "paS (get ?st) = paS ?ps" "paViews (get ?st) = paViews ?ps"
      using snoc by auto
    have v: "v \<in> set ns" using snoc by simp
    have ok': "pass_ok (get ?st)" using ok as by (simp add: pass_ok_def)
    have off: "offerable (get ?st) atLoss (cvOffer v)" using offers sub [OF v] as by (simp add: offerable_def)
    from step [OF v as(1)] have s: "J (f ?st v)" "buys_node m kind atLoss v (get ?st) (get (f ?st v))" by auto
    from s(2) obtain a where a: "ledger_of (get (f ?st v)) = lg_buy (ledger_of (get ?st)) a"
        "purchase_ok (paP (get ?st)) (paOffers (get ?st)) a" "faKind a = kind" "faMarket a = m" "faOffer a = Some (cvOffer v)"
        "paP (get (f ?st v)) = paP (get ?st)" "paS (get (f ?st v)) = paS (get ?st)" "paViews (get (f ?st v)) = paViews (get ?st)"
      by (rule buys_node_ledger [OF ok' off kind])
    then show ?case using as s kind by (intro exI [of _ "as @ [a]"]) auto
  qed
  from run [OF subset_refl] obtain as where as: "J (foldl f st ns)" "ledger_of (get (foldl f st ns)) = foldl lg_buy (ledger_of ?ps) as"
      "map act_offer as = map cvOffer ns"
      "\<forall>a\<in>set as. purchase_ok (paP ?ps) (paOffers ?ps) a \<and> faKind a \<noteq> ActionRightsize \<and> faMarket a = m"
      "paP (get (foldl f st ns)) = paP ?ps" "paS (get (foldl f st ns)) = paS ?ps" "paViews (get (foldl f st ns)) = paViews ?ps"
    by blast
  have "length as = length ns" using arg_cong [OF as(3), of length] by simp
  moreover have "int (length ns) \<le> max 0 nodes"
    using beam_cover.node_count [OF need nonneg, of cost "pass_limits ?ps nodes r"] res by (simp add: pass_limits_def)
  ultimately have n: "int (length as) \<le> max 0 (min (pMaxGrowthActions (paP ?ps) - lgUsed (ledger_of ?ps) m) (lgHostRoom (ledger_of ?ps)))"
    using nodes by (auto simp: ledger_of_def pass_room_def)
  have q: "\<forall>a\<in>set as. \<forall>left. quotaRoom (oiQuotas (paOffers ?ps)) (lgQuotaUsed (ledger_of ?ps)) (foQuota (act_offer a)) = Some left
      \<longrightarrow> vcpus_against (foQuota (act_offer a)) as \<le> left"
  proof (intro ballI allI impI)
    fix a left
    assume a: "a \<in> set as" and l: "quotaRoom (oiQuotas (paOffers ?ps)) (lgQuotaUsed (ledger_of ?ps)) (foQuota (act_offer a)) = Some left"
    have "act_offer a \<in> set (map cvOffer ns)" using a as(3) [symmetric] by simp
    then obtain v where v: "v \<in> set ns" "act_offer a = cvOffer v" by auto
    have "counted_against (foQuota (cvOffer v)) ns \<le> left"
      using beam_cover.node_quota [OF need nonneg, of v cost "pass_limits ?ps nodes r" left] v l res
      by (simp add: pass_limits_def ledger_of_def)
    then show "vcpus_against (foQuota (act_offer a)) as \<le> left" using as(3) v(2) by (simp add: against_offers)
  qed
  have "moves ?ps (get (foldl f st ns))"
    using ledger_step.buys [OF as(4) n q] as(2) by (intro moves_step [OF as(5-7)]) simp
  with as(1) show ?thesis by blast
qed

subsection \<open>Purchases for work\<close>

definition group_ok :: "itemGroup \<Rightarrow> bool" where
  "group_ok g \<longleftrightarrow> nonneg_cap (igShape g) \<and> 0 \<le> igDisks g \<and> (\<forall>it\<in>set (igItems g). reservedShape (itNeed it) = igShape g)"

definition class_ok :: "demandClass \<Rightarrow> bool" where
  "class_ok c \<longleftrightarrow> (\<forall>g\<in>set (dcGroups c). group_ok g)"

abbreviation shapes_of :: "pendingItem list \<Rightarrow> FleetCapacity" where
  "shapes_of items \<equiv> totalOf items (\<lambda>it. reservedShape (itNeed it))"

lemma shapes_of_group:
  assumes "group_ok g" and "0 \<le> n"
  shows "Covers (Times_cap (igShape g) n) (shapes_of (List.take (nat n) (igItems g)))"
proof -
  have "shapes_of xs = Times_cap (igShape g) (int (length xs))" if "\<forall>it\<in>set xs. reservedShape (itNeed it) = igShape g" for xs
    using that by (induction xs) (auto simp: cap_simps algebra_simps)
  then have t: "shapes_of (List.take (nat n) (igItems g)) = Times_cap (igShape g) (int (length (List.take (nat n) (igItems g))))"
    using assms(1) by (meson group_ok_def in_set_takeD)
  have "int (length (List.take (nat n) (igItems g))) \<le> n" using assms(2) by simp
  then show ?thesis unfolding t using assms(1) by (auto simp: group_ok_def cap_simps intro: mult_left_mono)
qed

lemma take_group_pair:
  "take_group (groups, taken) (k, n)
     = (groups[k := (groups ! k)\<lparr>igItems := drop (nat n) (igItems (groups ! k))\<rparr>], taken @ List.take (nat n) (igItems (groups ! k)))"
  by (simp add: take_group_def Let_def)

lemma take_groups:
  assumes "foldl take_group (groups, taken) kns = (groups', taken')" and "\<forall>g\<in>set groups. group_ok g"
    and "\<forall>(k, n)\<in>set kns. k < length groups \<and> 0 \<le> n"
  shows "(\<forall>g\<in>set groups'. group_ok g) \<and> map igShape groups' = map igShape groups
    \<and> Covers (Plus_cap (shapes_of taken) (total_cap (map (\<lambda>(k, n). Times_cap (igShape (groups ! k)) n) kns))) (shapes_of taken')"
  using assms
proof (induction kns arbitrary: groups taken)
  case Nil
  then show ?case by (auto simp: cap_simps)
next
  case (Cons kn kns)
  obtain k n where kn: "kn = (k, n)" by fastforce
  let ?g = "groups ! k"
  let ?groups = "groups[k := ?g\<lparr>igItems := drop (nat n) (igItems ?g)\<rparr>]" and ?taken = "taken @ List.take (nat n) (igItems ?g)"
  have k: "k < length groups" "0 \<le> n" and g: "group_ok ?g" using Cons.prems kn by auto
  have g': "group_ok (?g\<lparr>igItems := drop (nat n) (igItems ?g)\<rparr>)" using g by (auto simp: group_ok_def dest: in_set_dropD)
  have s: "map igShape ?groups = map igShape groups" using k by (intro map_update_same) simp_all
  have run: "foldl take_group (?groups, ?taken) kns = (groups', taken')"
    using Cons.prems(1) by (simp add: kn take_group_pair)
  have "\<forall>g\<in>set ?groups. group_ok g" by (rule all_set_update [OF Cons.prems(2) g'])
  moreover have "\<forall>(k, n)\<in>set kns. k < length ?groups \<and> 0 \<le> n" using Cons.prems(3) by auto
  ultimately have ih: "(\<forall>g\<in>set groups'. group_ok g) \<and> map igShape groups' = map igShape ?groups
    \<and> Covers (Plus_cap (shapes_of ?taken) (total_cap (map (\<lambda>(k, n). Times_cap (igShape (?groups ! k)) n) kns))) (shapes_of taken')"
    using Cons.IH [OF run] by blast
  have eqm: "map (\<lambda>(k, n). Times_cap (igShape (?groups ! k)) n) kns = map (\<lambda>(k, n). Times_cap (igShape (groups ! k)) n) kns"
    by (rule map_cong) (auto simp: nth_list_update k(1))
  have c: "Covers (Plus_cap (shapes_of ?taken) (total_cap (map (\<lambda>(k, n). Times_cap (igShape (groups ! k)) n) kns))) (shapes_of taken')"
    using ih unfolding eqm by blast
  have "Covers (Plus_cap (shapes_of taken) (Plus_cap (Times_cap (igShape ?g) n) (total_cap (map (\<lambda>(k, n). Times_cap (igShape (groups ! k)) n) kns))))
      (Plus_cap (shapes_of ?taken) (total_cap (map (\<lambda>(k, n). Times_cap (igShape (groups ! k)) n) kns)))"
    using shapes_of_group [OF g k(2)] by (auto simp: totalOf_append cap_simps)
  from Covers_trans [OF this c] ih s show ?case by (simp add: kn)
qed

lemma coverNeed_facts:
  assumes "class_ok c" and "coverNeed c only = (need, at')"
  shows "need_ok need" and "\<forall>k\<in>set at'. k < length (dcGroups c)"
    and "map ciShape (cnItems need) = map (\<lambda>k. igShape (dcGroups c ! k)) at'"
proof -
  have at': "at' = filter (\<lambda>i. let g = dcGroups c ! i
      in \<not> (igItems g = [] \<or> (case only of None \<Rightarrow> False | Some P \<Rightarrow> \<not> P g))) [0..<length (dcGroups c)]"
    and need: "need = \<lparr>cnItems = map (\<lambda>i. let g = dcGroups c ! i
                          in \<lparr>ciShape = igShape g, ciDisks = igDisks g, ciCount = int (length (igItems g)), ciMarket = None,
                              ciRides = False\<rparr>) at', cnAggregate = NoCapacity\<rparr>"
    using assms(2) by (auto simp: coverNeed_def Let_def)
  show lt: "\<forall>k\<in>set at'. k < length (dcGroups c)" by (auto simp: at')
  then have "\<forall>k\<in>set at'. group_ok (dcGroups c ! k)" using assms(1) by (auto simp: class_ok_def)
  then show "need_ok need" by (auto simp: need need_ok_def group_ok_def Let_def)
  show "map ciShape (cnItems need) = map (\<lambda>k. igShape (dcGroups c ! k)) at'" by (simp add: need Let_def)
qed

lemma load_of_shapes: "load_of items placed = total_cap (map (\<lambda>(s, n). Times_cap s n) (zip (map ciShape items) placed))"
  by (simp add: load_of_def zip_map1 comp_def case_prod_unfold)

lemma buy_node_step:
  assumes v: "node_ok need limits (cvOffer v) (cvPlaced v)" and at': "\<forall>k\<in>set at'. k < length (dcGroups c)"
    and sh: "map ciShape (cnItems need) = map (\<lambda>k. igShape (dcGroups c ! k)) at'"
    and J: "class_ok (snd st)" "map igShape (dcGroups (snd st)) = map igShape (dcGroups c)"
  shows "class_ok (snd (buy_node m at' atLoss st v)) \<and> map igShape (dcGroups (snd (buy_node m at' atLoss st v))) = map igShape (dcGroups c)
    \<and> buys_node m ActionBuy atLoss v (fst st) (fst (buy_node m at' atLoss st v))"
proof -
  obtain ps c' where st: "st = (ps, c')" by fastforce
  let ?kns = "zip at' (cvPlaced v)"
  obtain groups taken where t: "foldl take_group (dcGroups c', []) ?kns = (groups, taken)" by fastforce
  have len: "length (dcGroups c') = length (dcGroups c)" using arg_cong [OF J(2), of length] by (simp add: st)
  have l: "length at' = length (cnItems need)" using arg_cong [OF sh, of length] by simp
  have "\<forall>(k, n)\<in>set ?kns. k < length (dcGroups c') \<and> 0 \<le> n"
    using at' v l len by (auto simp: node_ok_def in_set_zip)
  moreover have "\<forall>g\<in>set (dcGroups c'). group_ok g" using J(1) by (simp add: st class_ok_def)
  ultimately have g: "\<forall>g\<in>set groups. group_ok g" "map igShape groups = map igShape (dcGroups c')"
      and c: "Covers (total_cap (map (\<lambda>(k, n). Times_cap (igShape (dcGroups c' ! k)) n) ?kns)) (shapes_of taken)"
    using take_groups [OF t] by auto
  have same: "igShape (dcGroups c' ! k) = igShape (dcGroups c ! k)" if "k \<in> set at'" for k
    using arg_cong [OF J(2), of "\<lambda>xs. xs ! k"] at' that len by (simp add: st)
  have "load_of (cnItems need) (cvPlaced v) = total_cap (map (\<lambda>(k, n). Times_cap (igShape (dcGroups c' ! k)) n) ?kns)"
    by (auto simp: load_of_shapes sh zip_map1 comp_def intro!: arg_cong [where f = total_cap] dest!: set_zip_leftD same)
  then have h: "Covers (foUsable (cvOffer v)) (shapes_of taken)"
    using c v Covers_trans by (auto simp: node_ok_def)
  let ?ps = "pass_buy m (cvOffer v) ActionBuy (if atLoss then ReasonSpotWait else ReasonWork) (shapes_of taken) (map itID taken) None ps"
  have b: "buy_node m at' atLoss st v
      = (foldl (\<lambda>q it. provisioning it None (Some (length (paActions ps))) q) ?ps taken, c'\<lparr>dcGroups := groups\<rparr>)"
    by (simp add: buy_node_def st t Let_def)
  have "quiet ?ps (foldl (\<lambda>q it. provisioning it None (Some (length (paActions ps))) q) ?ps taken)"
    by (rule foldl_quiet) (rule quiet_provisioning)
  then have "buys_node m ActionBuy atLoss v ps (foldl (\<lambda>q it. provisioning it None (Some (length (paActions ps))) q) ?ps taken)"
    unfolding buys_node_def using h by (intro exI [of _ "if atLoss then ReasonSpotWait else ReasonWork"] exI) auto
  moreover have "fst st = ps" by (simp add: st)
  ultimately show ?thesis unfolding b using g J(2) by (auto simp: class_ok_def st simp del: if_split)
qed

definition class_moves :: "pass \<times> demandClass \<Rightarrow> pass \<times> demandClass \<Rightarrow> bool" where
  "class_moves st st' \<longleftrightarrow> (pass_ok (fst st) \<and> class_ok (snd st) \<longrightarrow>
     class_ok (snd st') \<and> map igShape (dcGroups (snd st')) = map igShape (dcGroups (snd st)) \<and> moves (fst st) (fst st'))"

lemma class_moves_refl [simp]: "class_moves st st"
  by (simp add: class_moves_def)

lemma moves_ok: "moves ps ps' \<Longrightarrow> pass_ok ps \<Longrightarrow> pass_ok ps' \<and> paP ps' = paP ps \<and> paS ps' = paS ps"
  by (simp add: moves_def)

lemma class_moves_trans: "class_moves st st' \<Longrightarrow> class_moves st' st'' \<Longrightarrow> class_moves st st''"
  unfolding class_moves_def using moves_ok moves_trans by (metis (no_types, lifting))

lemma offerable_moves: "moves ps ps' \<Longrightarrow> pass_ok ps \<Longrightarrow> offerable ps atLoss o' \<longleftrightarrow> offerable ps' atLoss o'"
  using moves_ok by (simp add: offerable_def)

lemma foldl_class_moves:
  assumes "\<And>st x. x \<in> set xs \<Longrightarrow> \<forall>o'\<in>S. offerable (fst st) atLoss o' \<Longrightarrow> class_moves st (f st x)"
    and "\<forall>o'\<in>S. offerable (fst st) atLoss o'"
  shows "class_moves st (foldl f st xs)"
  using assms
proof (induction xs arbitrary: st)
  case Nil
  then show ?case by simp
next
  case (Cons x xs)
  have x: "class_moves st (f st x)" using Cons.prems by simp
  show ?case
  proof (cases "pass_ok (fst st) \<and> class_ok (snd st)")
    case True
    then have "\<forall>o'\<in>S. offerable (fst (f st x)) atLoss o'"
      using Cons.prems(2) x offerable_moves unfolding class_moves_def by blast
    then have "class_moves (f st x) (foldl f (f st x) xs)" using Cons.IH Cons.prems(1) by simp
    with x show ?thesis using class_moves_trans by simp
  next
    case False
    then show ?thesis by (auto simp: class_moves_def)
  qed
qed

lemma coverClass_moves:
  assumes "\<forall>o'\<in>set offers. offerable (fst st) atLoss o'"
  shows "class_moves st (coverClass m offers r only atLoss st)"
  unfolding class_moves_def
proof
  obtain ps c need at' where st: "st = (ps, c)" and n: "coverNeed c only = (need, at')" by fastforce
  assume "pass_ok (fst st) \<and> class_ok (snd st)"
  then have ok: "pass_ok (fst st)" "class_ok c" using st by auto
  let ?limits = "pass_limits (fst st) (min (pass_room (fst st) m) (paHostRoom (fst st))) r"
  let ?ns = "rsNodes (Cover offers need (servingCost (paP ps)) ?limits)"
  let ?J = "\<lambda>st' :: pass \<times> demandClass. class_ok (snd st') \<and> map igShape (dcGroups (snd st')) = map igShape (dcGroups c)"
  note f = coverNeed_facts [OF ok(2) n]
  have nonneg: "\<forall>o'\<in>set offers. nonneg_cap (foUsable o')"
    using assms offerable_facts(3) ok(1) unfolding pass_ok_def by blast
  show "class_ok (snd (coverClass m offers r only atLoss st))
    \<and> map igShape (dcGroups (snd (coverClass m offers r only atLoss st))) = map igShape (dcGroups (snd st))
    \<and> moves (fst st) (fst (coverClass m offers r only atLoss st))"
  proof (cases "at' = []")
    case True
    then show ?thesis using ok by (simp add: coverClass_def st n)
  next
    case False
    have "?J (foldl (buy_node m at' atLoss) st ?ns) \<and> moves (fst st) (fst (foldl (buy_node m at' atLoss) st ?ns))"
    proof (rule buy_nodes_moves [where J = ?J and get = fst and st = st, OF ok(1) f(1) assms refl order_refl])
      show "ActionBuy \<in> {ActionBuy, ActionBuyReserve}" by simp
      show "?J st" using ok(2) st by simp
    next
      fix st' v
      assume v: "v \<in> set ?ns" and J: "?J st'"
      have "node_ok need ?limits (cvOffer v) (cvPlaced v)" by (rule beam_cover.node_holds [OF f(1) nonneg v])
      from buy_node_step [OF this f(2,3)] J
      show "?J (buy_node m at' atLoss st' v) \<and> buys_node m ActionBuy atLoss v (fst st') (fst (buy_node m at' atLoss st' v))" by blast
    qed
    then show ?thesis using False by (simp add: coverClass_def st n Let_def)
  qed
qed

lemma classOffers_offerable: "o' \<in> set (rkOffers (classOffers ps need)) \<Longrightarrow> offerable ps atLoss o'"
  by (auto simp: classOffers_def Let_def offerable_def)

lemma marketOffers_offerable:
  "o' \<in> set (rkOffers (marketRanking ps m reserve)) \<Longrightarrow> offerable ps atLoss o'"
  "o' \<in> set (marketOffers ps m reserve) \<Longrightarrow> offerable ps atLoss o'"
  by (auto simp: marketRanking_def marketOffers_def Let_def offerable_def)

lemma loss_offerable: "o' \<in> set (rkOffers (loss_ranking ps need)) \<Longrightarrow> offerable ps True o'"
  by (auto simp: loss_ranking_def Let_def offerable_def)

lemma buy_models_moves:
  assumes "\<forall>o'\<in>set (rkOffers r). offerable (fst st) False o'"
  shows "class_moves st (buy_models r m models market only st)"
  unfolding buy_models_def
  by (rule foldl_class_moves [where S = "set (rkOffers r)" and atLoss = False, OF coverClass_moves assms]) auto

lemma buy_alone_moves:
  assumes r: "\<forall>o'\<in>set (rkOffers r). offerable (fst st) True o'" and k: "k < length (dcGroups (snd st))"
    and it: "reservedShape (itNeed it) = igShape (dcGroups (snd st) ! k)"
  shows "class_moves st (buy_alone r k st it)"
  unfolding class_moves_def
proof
  obtain ps c where st: "st = (ps, c)" by fastforce
  assume "pass_ok (fst st) \<and> class_ok (snd st)"
  then have ok: "pass_ok ps" "class_ok c" using st by auto
  let ?g = "dcGroups c ! k"
  let ?alone = "c\<lparr>dcGroups := [?g\<lparr>igItems := [it]\<rparr>]\<rparr>"
  define run where "run = foldl (\<lambda>st market. foldl (\<lambda>st model. coverClass (RM True model)
         (filter (\<lambda>o'. \<not> (ctGPU (foType o') \<noteq> model \<or> foMarket o' \<noteq> market \<or> loss_over_cap ps it o')) (rkOffers r)) r None True st)
       st (gpuModels ps (dcNeed c) (rkOffers r))) (ps, ?alone) [MarketSpot, MarketOnDemand]"
  have g: "group_ok ?g" using ok(2) k st by (simp add: class_ok_def)
  have a: "class_ok ?alone" using g it st by (simp add: class_ok_def group_ok_def)
  have c': "class_ok (c\<lparr>dcGroups := (dcGroups c)[k := ?g\<lparr>igItems := filter P (igItems ?g)\<rparr>]\<rparr>)" for P
  proof -
    have "group_ok (?g\<lparr>igItems := filter P (igItems ?g)\<rparr>)" using g by (simp add: group_ok_def)
    from all_set_update [OF ok(2) [unfolded class_ok_def] this, of k] show ?thesis by (simp add: class_ok_def)
  qed
  have sh: "map igShape ((dcGroups c)[k := ?g\<lparr>igItems := filter P (igItems ?g)\<rparr>]) = map igShape (dcGroups c)" for P
    using k st by (intro map_update_same) simp_all
  have "class_moves (ps, ?alone) run"
    unfolding run_def
  proof (rule foldl_class_moves [where S = "set (rkOffers r)" and atLoss = True])
    show "\<forall>o'\<in>set (rkOffers r). offerable (fst (ps, ?alone)) True o'" using r st by simp
  next
    fix st' :: "pass \<times> demandClass" and market
    assume o: "\<forall>o'\<in>set (rkOffers r). offerable (fst st') True o'"
    show "class_moves st' (foldl (\<lambda>st model. coverClass (RM True model)
         (filter (\<lambda>o'. \<not> (ctGPU (foType o') \<noteq> model \<or> foMarket o' \<noteq> market \<or> loss_over_cap ps it o')) (rkOffers r)) r None True st)
       st' (gpuModels ps (dcNeed c) (rkOffers r)))"
      by (rule foldl_class_moves [where S = "set (rkOffers r)" and atLoss = True, OF coverClass_moves o]) auto
  qed
  then have m: "moves ps (fst run)" using ok(1) a by (simp add: class_moves_def)
  have "buy_alone r k st it = (if \<not> spot_waited ps it then (ps, c) else (fst run, if igItems (hd (dcGroups (snd run))) = []
      then c\<lparr>dcGroups := (dcGroups c)[k := ?g\<lparr>igItems := filter (\<lambda>x. itID x \<noteq> itID it) (igItems ?g)\<rparr>]\<rparr> else c))"
    by (simp add: buy_alone_def st Let_def run_def case_prod_unfold)
  then show "class_ok (snd (buy_alone r k st it)) \<and> map igShape (dcGroups (snd (buy_alone r k st it))) = map igShape (dcGroups (snd st))
    \<and> moves (fst st) (fst (buy_alone r k st it))"
    using m ok(2) c' sh by (simp add: st)
qed

lemma alone_fold:
  assumes r: "\<forall>o'\<in>set (rkOffers r). offerable (fst st) True o'" and k: "k < length (dcGroups (snd st))"
    and its: "\<forall>it\<in>set its. reservedShape (itNeed it) = igShape (dcGroups (snd st) ! k)"
  shows "class_moves st (foldl (buy_alone r k) st its)"
  using assms
proof (induction its arbitrary: st)
  case Nil
  then show ?case by simp
next
  case (Cons it its)
  let ?st = "buy_alone r k st it"
  have m: "class_moves st ?st" using Cons.prems by (intro buy_alone_moves) simp_all
  show ?case
  proof (cases "pass_ok (fst st) \<and> class_ok (snd st)")
    case True
    then have s: "map igShape (dcGroups (snd ?st)) = map igShape (dcGroups (snd st))" "moves (fst st) (fst ?st)"
      using m by (simp_all add: class_moves_def)
    have len: "length (dcGroups (snd ?st)) = length (dcGroups (snd st))" using arg_cong [OF s(1), of length] by simp
    then have "igShape (dcGroups (snd ?st) ! k) = igShape (dcGroups (snd st) ! k)"
      using arg_cong [OF s(1), of "\<lambda>xs. xs ! k"] Cons.prems(2) by simp
    moreover have "\<forall>o'\<in>set (rkOffers r). offerable (fst ?st) True o'"
      using Cons.prems(1) offerable_moves [OF s(2)] True by blast
    ultimately have "class_moves ?st (foldl (buy_alone r k) ?st its)" using Cons.prems len by (intro Cons.IH) simp_all
    with m show ?thesis using class_moves_trans by simp
  next
    case False
    then show ?thesis by (auto simp: class_moves_def)
  qed
qed

lemma alone_groups_moves:
  assumes "\<forall>o'\<in>set (rkOffers r). offerable (fst st) True o'" and "\<forall>k\<in>set ks. k < length (dcGroups (snd st))"
  shows "class_moves st (foldl (\<lambda>(ps, c) k. foldl (buy_alone r k) (ps, c) (igItems (dcGroups c ! k))) st ks)"
  using assms
proof (induction ks arbitrary: st)
  case Nil
  then show ?case by simp
next
  case (Cons k ks)
  let ?st = "foldl (buy_alone r k) st (igItems (dcGroups (snd st) ! k))"
  show ?case
  proof (cases "pass_ok (fst st) \<and> class_ok (snd st)")
    case True
    then have "\<forall>it\<in>set (igItems (dcGroups (snd st) ! k)). reservedShape (itNeed it) = igShape (dcGroups (snd st) ! k)"
      using Cons.prems(2) by (auto simp: class_ok_def group_ok_def)
    then have m: "class_moves st ?st" using Cons.prems by (intro alone_fold) simp_all
    then have s: "map igShape (dcGroups (snd ?st)) = map igShape (dcGroups (snd st))" "moves (fst st) (fst ?st)"
      using True by (simp_all add: class_moves_def)
    have "\<forall>o'\<in>set (rkOffers r). offerable (fst ?st) True o'" using Cons.prems(1) offerable_moves [OF s(2)] True by blast
    moreover have "length (dcGroups (snd ?st)) = length (dcGroups (snd st))" using arg_cong [OF s(1), of length] by simp
    ultimately have "class_moves ?st (foldl (\<lambda>(ps, c) k. foldl (buy_alone r k) (ps, c) (igItems (dcGroups c ! k))) ?st ks)"
      using Cons.prems by (intro Cons.IH) simp_all
    with m class_moves_trans show ?thesis by (simp add: case_prod_unfold)
  next
    case False
    then show ?thesis by (auto simp: class_moves_def)
  qed
qed

lemma buyAtLoss_moves: "class_moves st (buyAtLoss st)"
proof -
  obtain ps c where st: "st = (ps, c)" by fastforce
  have "class_moves (ps, c) (foldl (\<lambda>(ps, c) k. foldl (buy_alone (loss_ranking ps' n) k) (ps, c) (igItems (dcGroups c ! k))) (ps, c)
      [0..<length (dcGroups c)])" if "ps' = ps" for ps' n
    by (rule alone_groups_moves) (use that loss_offerable in auto)
  then show ?thesis by (simp add: buyAtLoss_def st Let_def)
qed

lemma buyClass_moves:
  assumes "\<forall>o'\<in>set (rkOffers r). offerable (fst st) False o'"
  shows "class_moves st (buyClass r st)"
proof -
  obtain ps c where st: "st = (ps, c)" by fastforce
  let ?models = "gpuModels ps (dcNeed c) (rkOffers r)" and ?only = "Some (\<lambda>g. \<not> spotOffered ps (itNeed (hd (igItems g))))"
  have models: "class_moves st (buy_models r m ms market only st)" for m ms market only
    by (rule buy_models_moves [OF assms])
  have keep: "\<forall>o'\<in>set (rkOffers r). offerable (fst st') False o'"
    if "class_moves st st'" "pass_ok (fst st) \<and> class_ok (snd st)" for st'
    using assms offerable_moves that unfolding class_moves_def by blast
  have cover: "class_moves st (coverClass m (filter P (rkOffers r)) r None False st)" for m P
    by (rule coverClass_moves) (use assms in auto)
  show ?thesis
  proof (cases "pass_ok (fst st) \<and> class_ok (snd st)")
    case True
    let ?spot = "buy_models r (dcMarket c) ?models MarketSpot None st"
    let ?od = "buy_models r (dcMarket c) ?models MarketOnDemand ?only ?spot"
    have "class_moves ?spot ?od" using keep [OF models True] by (rule buy_models_moves)
    then have gpu: "class_moves st (buyAtLoss ?od)" using class_moves_trans models buyAtLoss_moves by blast
    let ?first = "\<lambda>v. if spotCPU (dcMarket c)
        then coverClass (dcMarket c) (filter (\<lambda>o'. \<not> (foMarket o' \<noteq> MarketSpot
               \<or> \<not> Covers (foUsable o') (Lower (mtHeadroom v) (lsCap (pLargestShape (paP ps)))))) (rkOffers r)) r None False (ps, c)
        else (ps, c)"
    have first: "class_moves st (?first v)" for v using cover st by simp
    have cpu: "class_moves st (coverClass (dcMarket c) (rkOffers r) r None False st')" if "class_moves st st'" for st'
      using class_moves_trans [OF that] coverClass_moves [OF keep [OF that True]] by blast
    show ?thesis
      using models gpu cpu [OF first] cpu [OF class_moves_refl]
      by (auto simp: buyClass_def st Let_def split: option.splits)
  next
    case False
    then show ?thesis by (auto simp: class_moves_def)
  qed
qed

definition item_ok :: "pendingItem \<Rightarrow> bool" where
  "item_ok it \<longleftrightarrow> nonneg_cap (reservedShape (itNeed it)) \<and> 0 \<le> rDisks (itNeed it)"

lemma group_item_ok:
  assumes "\<forall>g\<in>set groups. group_ok g" and "item_ok it"
  shows "\<forall>g\<in>set (group_item groups it). group_ok g"
proof (cases "index_func (\<lambda>g. igShape g = reservedShape (itNeed it) \<and> igDisks g = rDisks (itNeed it)) groups")
  case None
  then show ?thesis using assms by (auto simp: group_item_def Let_def item_ok_def group_ok_def)
next
  case (Some i)
  let ?g = "(groups ! i)\<lparr>igItems := igItems (groups ! i) @ [it]\<rparr>"
  have "group_ok (groups ! i)" using assms(1) index_func_in_set [OF Some] by blast
  then have "group_ok ?g" using index_func_holds [OF Some] by (simp add: group_ok_def)
  then show ?thesis using all_set_update [OF assms(1), of ?g i] Some by (simp add: group_item_def Let_def)
qed

lemma class_item_ok:
  assumes "\<forall>c\<in>set classes. class_ok c" and "item_ok it"
  shows "\<forall>c\<in>set (class_item ps classes it). class_ok c"
proof (cases "index_func (\<lambda>c. dcKey c = snd (classKey ps (itNeed it))) classes")
  case None
  then show ?thesis using assms group_item_ok [of "[]" it] by (auto simp: class_item_def case_prod_unfold class_ok_def Let_def)
next
  case (Some n)
  let ?c = "(classes ! n)\<lparr>dcGroups := group_item (dcGroups (classes ! n)) it\<rparr>"
  have "class_ok (classes ! n)" using assms(1) index_func_in_set [OF Some] by blast
  then have "class_ok ?c" using group_item_ok assms(2) by (simp add: class_ok_def)
  then show ?thesis using all_set_update [OF assms(1), of ?c n] Some by (simp add: class_item_def case_prod_unfold Let_def)
qed

lemma quiet_item_waits: "quiet ps (item_waits held c g ps it)"
  using quiet_pass_waits [of ps it] by (simp add: item_waits_def quiet_def ledger_of_def)

lemma buy_demand_moves:
  assumes "class_ok c"
  shows "moves ps (buy_demand ps c)"
proof -
  define hp where "hp = (if paHostRoom ps > 0 then batching ps else (False, ps))"
  define st where "st = (if paHostRoom (snd hp) > 0 \<and> \<not> fst hp then buyClass (classOffers (snd hp) (dcNeed c)) (snd hp, c) else (snd hp, c))"
  have q: "quiet ps (snd hp)" using quiet_batching by (simp add: hp_def)
  have w: "quiet (fst st) (foldl (\<lambda>ps g. foldl (item_waits (fst hp) (snd st) g) ps (igItems g)) (fst st) (dcGroups (snd st)))"
    by (intro foldl_quiet quiet_item_waits)
  have "class_moves (snd hp, c) st"
    using buyClass_moves [of "classOffers (snd hp) (dcNeed c)" "(snd hp, c)"] classOffers_offerable by (simp add: st_def)
  then have m: "moves (snd hp) (fst st)"
    using assms by (cases "pass_ok (snd hp)") (auto simp: class_moves_def moves_def)
  have "buy_demand ps c = foldl (\<lambda>ps g. foldl (item_waits (fst hp) (snd st) g) ps (igItems g)) (fst st) (dcGroups (snd st))"
    by (simp add: buy_demand_def hp_def st_def Let_def case_prod_unfold)
  then show ?thesis using moves_trans [OF moves_trans [OF quiet_moves [OF q] m] quiet_moves [OF w]] by simp
qed

lemma buyFor_moves:
  assumes "\<forall>it\<in>set items. item_ok it"
  shows "moves ps (buyFor ps items)"
proof -
  have "\<forall>c\<in>set (foldl (class_item ps) [] items). class_ok c"
    by (rule foldl_invariant [where P = "\<lambda>cs. \<forall>c\<in>set cs. class_ok c"]) (use assms class_item_ok in auto)
  then show ?thesis unfolding buyFor_def by (intro foldl_moves buy_demand_moves) blast
qed

subsection \<open>Resumes and room for work\<close>

lemma without_subset: "set (without taken xs) \<subseteq> set xs"
  by (auto simp: without_def dest: set_zip_rightD)

lemma resumeFor_moves: "moves ps (fst (resumeFor ps items)) \<and> set (snd (resumeFor ps items)) \<subseteq> set items"
proof (induction ps items rule: resumeFor.induct)
  case (1 ps items)
  show ?case
  proof (cases "items = [] \<or> paHostRoom ps \<le> 0 \<or> bestReserve ps items = None")
    case True
    then show ?thesis by (auto simp: resumeFor.simps [of ps items] split: option.splits)
  next
    case False
    then obtain i taken where b: "bestReserve ps items = Some (i, taken)" by auto
    let ?r = "pass_resume (itMarket (items ! hd taken)) i ReasonWork (map (\<lambda>n. itID (items ! n)) taken) ps"
    let ?ps = "foldl (\<lambda>q n. provisioning (items ! n) (Some (fhID (paHosts ps ! i))) None q) ?r taken"
    have run: "resumeFor ps items = resumeFor ?ps (without taken items)"
      using False b by (simp add: resumeFor.simps [of ps items] Let_def)
    have "quiet ?r ?ps" by (rule foldl_quiet) (rule quiet_provisioning)
    then have "moves ps ?ps" using moves_trans [OF pass_resume_moves quiet_moves] by blast
    moreover have "moves ?ps (fst (resumeFor ?ps (without taken items)))
        \<and> set (snd (resumeFor ?ps (without taken items))) \<subseteq> set (without taken items)"
      using "1.IH" [OF _ b refl refl refl refl] False by auto
    ultimately show ?thesis using moves_trans without_subset [of taken items] unfolding run by blast
  qed
qed

lemma take_quiet:
  "quiet (cqPass q) (cqPass (take_ready it i q))" "cqLeft (take_ready it i q) = cqLeft q"
  "quiet (cqPass q) (cqPass (take_coming it need i q))" "cqLeft (take_coming it need i q) = cqLeft q"
  using quiet_give quiet_trans [OF quiet_give quiet_provisioning]
  by (simp_all add: take_ready_def take_coming_def reserve_bin_def Let_def)

lemma cover_item_quiet:
  "quiet (cqPass q) (cqPass (cover_item flr q it)) \<and> set (cqLeft (cover_item flr q it)) \<subseteq> insert it (set (cqLeft q))"
proof -
  have c: "quiet (cqPass q) (cqPass (cover_coming flr it q)) \<and> set (cqLeft (cover_coming flr it q)) \<subseteq> insert it (set (cqLeft q))"
    by (auto simp: cover_coming_def Let_def take_quiet split: option.splits)
  have b: "quiet (cqPass q) (set_wait n f (cqPass (take_ready it i q)))" for n f i
    using quiet_trans [OF take_quiet(1) quiet_set_wait] .
  show ?thesis
    using c b quiet_provisioning
    by (auto simp: cover_item_def Let_def take_quiet split: option.splits)
qed

lemma pass_cover_moves:
  assumes "\<forall>it\<in>set items. item_ok it"
  shows "moves ps (pass_cover ps items)"
proof -
  define q where "q = foldl (cover_item (htFloor (mrWarm (pOnDemand (paP ps))))) (cover_start ps) items"
  have "quiet ps (cqPass q) \<and> set (cqLeft q) \<subseteq> set items"
    unfolding q_def
  proof (rule foldl_invariant [where P = "\<lambda>q. quiet ps (cqPass q) \<and> set (cqLeft q) \<subseteq> set items"])
    show "quiet ps (cqPass (cover_start ps)) \<and> set (cqLeft (cover_start ps)) \<subseteq> set items"
      by (simp add: cover_start_def Let_def)
  next
    fix q :: cover_state and it
    assume "quiet ps (cqPass q) \<and> set (cqLeft q) \<subseteq> set items" and "it \<in> set items"
    then show "quiet ps (cqPass (cover_item (htFloor (mrWarm (pOnDemand (paP ps)))) q it))
        \<and> set (cqLeft (cover_item (htFloor (mrWarm (pOnDemand (paP ps)))) q it)) \<subseteq> set items"
      using cover_item_quiet [of q "htFloor (mrWarm (pOnDemand (paP ps)))" it] quiet_trans by blast
  qed
  then have q: "quiet ps ((cqPass q)\<lparr>paPartsShort := parts_short q\<rparr>)" "set (cqLeft q) \<subseteq> set items"
    by (simp_all add: quiet_def ledger_of_def)
  obtain ps' left where r: "resumeFor ((cqPass q)\<lparr>paPartsShort := parts_short q\<rparr>) (cqLeft q) = (ps', left)" by fastforce
  have "moves ps ps'" "set left \<subseteq> set items"
    using resumeFor_moves [of "(cqPass q)\<lparr>paPartsShort := parts_short q\<rparr>" "cqLeft q"] quiet_moves [OF q(1)] moves_trans q(2) r by auto
  moreover have "pass_cover ps items = buyFor ps' left"
    by (simp add: pass_cover_def q_def [symmetric] r Let_def)
  ultimately show ?thesis using buyFor_moves [of left ps'] assms moves_trans by (metis subsetD)
qed

subsection \<open>Views\<close>

lemma view_ok_update [simp]:
  "view_ok m (v\<lparr>mvShortfall := c\<rparr>) = view_ok m v" "view_ok m (v\<lparr>mvStoppedShort := c\<rparr>) = view_ok m v"
  "view_ok m (v\<lparr>mvRunningReason := w\<rparr>) = view_ok m v" "view_ok m (v\<lparr>mvStoppedReason := w\<rparr>) = view_ok m v"
  "view_ok m (v\<lparr>mvRetired := hs\<rparr>) = view_ok m v" "view_ok m (set_short_since t v) = view_ok m v"
  by (simp_all add: view_ok_def set_short_since_def)

lemma view_at_ok:
  assumes "pass_ok ps" and "m \<in> fst ` set (paViews ps)"
  shows "view_ok m (view_at ps m)"
proof -
  obtain v where v: "map_of (paViews ps) m = Some v" using assms(2) by (metis map_of_eq_None_iff not_None_eq)
  then have "(m, v) \<in> set (paViews ps)" by (rule map_of_SomeD)
  then show ?thesis using assms(1) v by (auto simp: pass_ok_def view_at_def)
qed

lemma set_view_moves:
  assumes "pass_ok ps \<Longrightarrow> view_ok m v"
  shows "moves ps (set_view m v ps)"
proof -
  have "map fst (paViews (set_view m v ps)) = map fst (paViews ps)"
    by (simp add: set_view_def case_prod_unfold)
  then show ?thesis
    using assms by (auto simp: moves_def pass_ok_def set_view_def ledger_of_def)
qed

text \<open>A market's step moves: the pass moves and the view it writes back is sound.\<close>

lemma moves_then_view:
  assumes "moves ps ps'" and "pass_ok ps \<Longrightarrow> view_ok m v"
  shows "moves ps (set_view m v ps')"
  using assms set_view_moves [of ps' m v] moves_trans by (cases "pass_ok ps") (auto simp: moves_def)

lemma moves_keys: "moves ps ps' \<Longrightarrow> pass_ok ps \<Longrightarrow> fst ` set (paViews ps') = fst ` set (paViews ps)"
  unfolding moves_def by (metis list.set_map)

subsection \<open>Keeping hosts\<close>

lemma leave_quiet: "quiet ps (leave v i ps)"
proof -
  have act: "quiet ps (pass_act a ps')" if "\<not> grows (faKind a)" "quiet ps ps'" for a ps'
    using quiet_trans [OF that(2) quiet_act [OF that(1)]] .
  have host: "quiet ps ((set_host i f ps)\<lparr>paReserveRoom := n\<rparr>)" for f n
    using quiet_trans [OF quiet_set_host quiet_reserve_room] .
  show ?thesis
    unfolding leave_def Let_def
    by (auto split: option.splits intro!: act quiet_set_host host simp: grows_def plain_action_def)
qed

definition same_target :: "marketView \<Rightarrow> marketView \<Rightarrow> bool" where
  "same_target v v' \<longleftrightarrow> mtM v' = mtM v \<and> mtWantParts v' = mtWantParts v \<and> mtLargest v' = mtLargest v
     \<and> mtLargestDisks v' = mtLargestDisks v"

lemma keep_host_quiet: "quiet (ksPass k) (ksPass (keep_host k i)) \<and> same_target (ksView k) (ksView (keep_host k i))"
  using leave_quiet by (simp add: keep_host_def Let_def same_target_def)

lemma unplaced_nonneg: "\<forall>part\<in>set parts. nonneg_cap part \<Longrightarrow> \<forall>part\<in>set (unplaced rooms parts). nonneg_cap part"
proof -
  obtain rooms' where "first_fit Covers Minus_cap rooms parts = (rooms', unplaced rooms parts)" by (rule unplaced_rooms)
  then have "mset (unplaced rooms parts) \<subseteq># mset parts" using cap_room.first_fit_left_over by blast
  then show "\<forall>part\<in>set parts. nonneg_cap part \<Longrightarrow> \<forall>part\<in>set (unplaced rooms parts). nonneg_cap part"
    using set_mset_mono by fastforce
qed

lemma pass_keep_moves:
  assumes "m \<in> fst ` set (paViews ps)"
  shows "moves ps (pass_keep m ps)"
proof -
  let ?v = "view_at ps m"
  have k: "quiet ps (ksPass (keep_loop ps m)) \<and> same_target ?v (ksView (keep_loop ps m))"
    unfolding keep_loop_def
  proof (rule foldl_invariant [where P = "\<lambda>k. quiet ps (ksPass k) \<and> same_target ?v (ksView k)"])
    show "quiet ps (ksPass (keep_planned ps ?v)) \<and> same_target ?v (ksView (keep_planned ps ?v))"
      by (simp add: keep_planned_def Let_def same_target_def)
  next
    fix k :: keep_state and i
    assume "quiet ps (ksPass k) \<and> same_target ?v (ksView k)"
    then show "quiet ps (ksPass (keep_host k i)) \<and> same_target ?v (ksView (keep_host k i))"
      using keep_host_quiet [of k i] quiet_trans by (auto simp: same_target_def)
  qed
  have "view_ok m ((ksView (keep_loop ps m))\<lparr>mvUnplaced := unplaced (ksRooms (keep_loop ps m)) (mtWantParts (ksView (keep_loop ps m)))\<rparr>)"
    if "pass_ok ps"
    using view_at_ok [OF that assms] k unplaced_nonneg [of "mtWantParts ?v"] by (simp add: view_ok_def same_target_def)
  then show ?thesis
    unfolding pass_keep_def Let_def using k by (intro moves_then_view quiet_moves) simp_all
qed

subsection \<open>Growing\<close>

lemma total_cap_member: "\<forall>x\<in>set xs. nonneg_cap x \<Longrightarrow> x \<in> set xs \<Longrightarrow> Covers (total_cap xs) x"
proof (induction xs)
  case (Cons y ys)
  then show ?case using total_cap_nonneg [of ys] by (auto simp: cap_simps)
qed simp

lemma node_item_fits:
  assumes need: "need_ok need" and v: "node_ok need limits o' placed" and i: "i < length (cnItems need)" "0 < placed ! i"
  shows "Covers (foUsable o') (ciShape (cnItems need ! i))"
proof -
  let ?loads = "map (\<lambda>(item, n). Times_cap (ciShape item) n) (zip (cnItems need) placed)"
  have len: "length placed = length (cnItems need)" using v by (simp add: node_ok_def)
  have pos: "nonneg_cap (ciShape (cnItems need ! j))" "0 \<le> placed ! j" if "j < length (cnItems need)" for j
    using that need v by (auto simp: need_ok_def node_ok_def)
  then have "\<forall>x\<in>set ?loads. nonneg_cap x" using len by (auto simp: in_set_zip cap_simps)
  moreover have "?loads ! i \<in> set ?loads" using i len by (intro nth_mem) simp
  ultimately have "Covers (total_cap ?loads) (?loads ! i)" by (rule total_cap_member)
  moreover have "?loads ! i = Times_cap (ciShape (cnItems need ! i)) (placed ! i)" using i len by simp
  moreover have "Covers (Times_cap (ciShape (cnItems need ! i)) (placed ! i)) (ciShape (cnItems need ! i))"
  proof -
    have "x \<le> x * placed ! i" if "0 \<le> x" for x using that i(2) mult_left_mono [of 1 "placed ! i" x] by simp
    then show ?thesis using pos(1) [OF i(1)] by (simp add: cap_simps)
  qed
  ultimately show ?thesis using v Covers_trans by (auto simp: node_ok_def load_of_def)
qed

lemma node_need_covered:
  assumes need: "need_ok need" and v: "node_ok need limits (cvOffer v) (cvPlaced v)"
  shows "Covers (foUsable (cvOffer v)) (node_need need v)"
  unfolding node_need_def
proof (rule foldl_invariant [where P = "Covers (foUsable (cvOffer v))"])
  show "Covers (foUsable (cvOffer v)) (Lower (foUsable (cvOffer v)) (cnAggregate need))" by (rule Covers_Lower)
next
  fix holds x
  assume h: "Covers (foUsable (cvOffer v)) holds" and "x \<in> set (zip (cnItems need) (cvPlaced v))"
  then obtain i where i: "i < length (cnItems need)" "x = (cnItems need ! i, cvPlaced v ! i)" by (auto simp: in_set_zip)
  then show "Covers (foUsable (cvOffer v)) (case x of (item, n) \<Rightarrow> if n > 0 then Upper holds (ciShape item) else holds)"
    using h node_item_fits [OF need v i(1)] by (simp add: Upper_least)
qed

lemma buy_cover_moves:
  assumes need: "need_ok need" and offers: "\<forall>o'\<in>set offers. offerable ps False o'"
  shows "moves ps (fst (buy_cover m r offers need ps))"
proof (cases "pass_ok ps")
  case True
  let ?limits = "pass_limits ps (min (pass_room ps m) (paHostRoom ps)) r"
  let ?ns = "rsNodes (Cover offers need (servingCost (paP ps)) ?limits)"
  let ?f = "\<lambda>ps node. pass_buy m (cvOffer node) ActionBuy (growReason need) (node_need need node) [] None ps"
  have nonneg: "\<forall>o'\<in>set offers. nonneg_cap (foUsable o')"
    using offers offerable_facts(3) True unfolding pass_ok_def by blast
  have "True \<and> moves ps (foldl ?f ps ?ns)"
  proof (rule buy_nodes_moves [where J = "\<lambda>_. True" and get = "\<lambda>ps. ps" and st = ps, OF True need offers refl order_refl])
    fix ps' v
    assume "v \<in> set ?ns"
    then have "node_ok need ?limits (cvOffer v) (cvPlaced v)" by (rule beam_cover.node_holds [OF need nonneg])
    from node_need_covered [OF need this]
    show "True \<and> buys_node m ActionBuy False v ps' (?f ps' v)"
      unfolding buys_node_def by (intro conjI TrueI exI [of _ "growReason need"] exI [of _ "node_need need v"] exI [of _ "[]"]) simp_all
  qed simp_all
  then show ?thesis by (simp add: buy_cover_def Let_def)
next
  case False
  then show ?thesis by (simp add: moves_def)
qed

lemma rest_need_ok:
  assumes need: "need_ok need" and "\<forall>o'\<in>set offers. nonneg_cap (foUsable o')"
  shows "need_ok (rest_need need (Cover offers need cost limits))"
proof -
  let ?res = "Cover offers need cost limits"
  have "rsUnmetItems ?res = map (\<lambda>i. (cnItems need ! i)\<lparr>ciCount := left_over need ?res i\<rparr>)
          (filter (\<lambda>i. 0 < left_over need ?res i) [0..<length (cnItems need)])"
    using Cover_counts [OF assms, where cost = cost and limits = limits] by blast
  then show ?thesis using need by (auto simp: rest_need_def need_ok_def)
qed

lemma buyHeadroom_moves:
  assumes need: "need_ok need"
  shows "moves ps (fst (buyHeadroom v need ps))"
proof (cases "pass_ok ps")
  case True
  define m r least where "m = mtM v" and "r = marketRanking ps m False"
    and "least = Lower (mtHeadroom v) (lsCap (pLargestShape (paP ps)))"
  let ?first = "buy_cover m r (filter (\<lambda>o'. Covers (foUsable o') least) (rkOffers r)) need ps"
  have off: "\<forall>o'\<in>set (rkOffers r). offerable ps False o'" using marketOffers_offerable(1) by (simp add: r_def)
  have one: "moves ps (fst (buy_cover m r (filter P (rkOffers r)) need ps))" for P
    by (rule buy_cover_moves [OF need]) (use off in auto)
  have all: "moves ps (fst (buy_cover m r (rkOffers r) need ps))" by (rule buy_cover_moves [OF need off])
  have nonneg: "\<forall>o'\<in>set (filter P (rkOffers r)). nonneg_cap (foUsable o')" for P
    using off offerable_facts(3) True unfolding pass_ok_def by auto
  have "need_ok (rest_need need (snd ?first))"
    using rest_need_ok [OF need nonneg] by (simp add: buy_cover_def Let_def)
  moreover have "\<forall>o'\<in>set (rkOffers r). offerable (fst ?first) False o'" using off offerable_moves [OF one True] by blast
  ultimately have "moves (fst ?first) (fst (buy_cover m r (rkOffers r) (rest_need need (snd ?first)) (fst ?first)))"
    by (rule buy_cover_moves)
  then have two: "moves ps (fst (buy_cover m r (rkOffers r) (rest_need need (snd ?first)) (fst ?first)))"
    using moves_trans [OF one] by blast
  show ?thesis
    using one all two unfolding m_def r_def least_def by (simp add: buyHeadroom_def Let_def case_prod_unfold)
next
  case False
  then show ?thesis by (simp add: moves_def)
qed

lemma take_items_subset: "set (snd (take_items usable items)) \<subseteq> set items"
  unfolding take_items_def
  by (rule foldl_invariant [where P = "\<lambda>st. set (snd st) \<subseteq> set items"]) (auto split: prod.splits)

lemma resumes_loop_ok: "need_ok need \<Longrightarrow> need_ok (fst (resumes_loop ps v need is))"
proof (induction "is" arbitrary: need)
  case Nil
  then show ?case by simp
next
  case (Cons i "is")
  obtain rm rest where t: "take_items (fhUsable (paHosts ps ! i)) (cnItems need) = (rm, rest)" by fastforce
  have "need_ok \<lparr>cnItems = rest, cnAggregate = Clamp (Minus_cap (cnAggregate need) rm)\<rparr>"
    using Cons.prems take_items_subset [of "fhUsable (paHosts ps ! i)" "cnItems need"] t by (auto simp: need_ok_def)
  with Cons show ?case by (simp add: Let_def case_prod_unfold t)
qed

lemma grow_buys_moves:
  assumes "need_ok need" and "view_ok m v"
  shows "moves ps (fst (grow_buys v need ps)) \<and> view_ok m (snd (grow_buys v need ps))"
  using buyHeadroom_moves [OF assms(1), of ps v] assms(2)
  by (simp add: grow_buys_def Let_def case_prod_unfold)

lemma resume_all_moves: "moves ps (foldl (\<lambda>ps i. pass_resume m i reason cs ps) ps is)"
  by (intro foldl_moves pass_resume_moves)

lemma grow_covers_moves:
  assumes v: "view_ok m v" and need: "need_ok need"
  shows "moves ps (grow_covers m v need ps)"
proof -
  obtain need' out where r: "resumesFor ps v need = (need', out)" by fastforce
  have need': "need_ok need'" using resumes_loop_ok [OF need] r by (metis fst_conv resumesFor_def)
  define ps1 where "ps1 = foldl (\<lambda>ps i. pass_resume m i (growReason need') [] ps) ps out"
  obtain held ps2 where b: "batching ps1 = (held, ps2)" by fastforce
  obtain ps3 v' where g: "grow_buys v need' ps2 = (ps3, v')" by fastforce
  have m1: "moves ps ps1" unfolding ps1_def by (rule resume_all_moves)
  have m2: "moves ps ps2" using moves_trans [OF m1 quiet_moves [OF quiet_batching]] by (simp add: b)
  have m3: "moves ps ps3" "view_ok m v'" using grow_buys_moves [OF need' v, of ps2] moves_trans [OF m2] by (simp_all add: g)
  have "grow_covers m v need ps =
     (if needMet need' then set_view m (v\<lparr>mvShortfall := NoCapacity\<rparr>) ps1
      else if held then set_view m (v\<lparr>mvRunningReason := WaitBatch\<rparr>) ps2 else set_view m v' ps3)"
    by (simp add: grow_covers_def r ps1_def [symmetric] b g)
  then show ?thesis using m1 m2 m3 v by (simp add: moves_then_view)
qed

lemma pass_grow_moves:
  assumes m: "m \<in> fst ` set (paViews ps)"
  shows "moves ps (pass_grow m ps)"
proof (cases "pass_ok ps")
  case True
  have v: "view_ok m (view_at ps m)" by (rule view_at_ok [OF True m])
  then have v': "view_ok m (short_view ps (view_at ps m))" by (simp add: short_view_def Let_def)
  have need: "need_ok (grow_need (view_at ps m))" using v by (auto simp: need_ok_def grow_need_def view_ok_def)
  show ?thesis
    using v v' grow_covers_moves [OF v' need]
    by (simp add: pass_grow_def Let_def set_view_moves split: option.splits)
next
  case False
  then show ?thesis by (simp add: moves_def)
qed

subsection \<open>Reserves\<close>

lemma coverReserves_moves:
  assumes need: "need_ok need" and offers: "\<forall>o'\<in>set offers. offerable ps False o'"
  shows "moves ps (fst (coverReserves v need offers ps))"
proof (cases "pass_ok ps")
  case True
  define m where "m = mtM v"
  let ?r = "marketRanking ps m True" and ?nodes = "min (min (pass_room ps m) (paReserveRoom ps)) (paHostRoom ps)"
  let ?limits = "pass_limits ps ?nodes ?r"
  let ?ns = "rsNodes (Cover offers need (reserveCost (paP ps)) ?limits)"
  let ?why = "\<lambda>node. if list_ex (\<lambda>(item, n). n > 0) (zip (cnItems need) (cvPlaced node)) then ReasonLargest else ReasonReserve"
  let ?f = "\<lambda>ps node. pass_buy m (cvOffer node) ActionBuyReserve (?why node) (node_need need node) [] None ps"
  have nonneg: "\<forall>o'\<in>set offers. nonneg_cap (foUsable o')"
    using offers offerable_facts(3) True unfolding pass_ok_def by blast
  have nodes: "?nodes \<le> min (pass_room ps m) (paHostRoom ps)" by simp
  have "True \<and> moves ps (foldl ?f ps ?ns)"
  proof (rule buy_nodes_moves [where J = "\<lambda>_. True" and get = "\<lambda>ps. ps" and st = ps, OF True need offers refl nodes])
    fix ps' node
    assume "node \<in> set ?ns"
    then have "node_ok need ?limits (cvOffer node) (cvPlaced node)" by (rule beam_cover.node_holds [OF need nonneg])
    from node_need_covered [OF need this]
    show "True \<and> buys_node m ActionBuyReserve False node ps' (?f ps' node)"
      unfolding buys_node_def by (intro conjI TrueI exI [of _ "?why node"] exI [of _ "node_need need node"] exI [of _ "[]"]) simp_all
  qed simp_all
  then show ?thesis by (simp add: coverReserves_def Let_def m_def)
next
  case False
  then show ?thesis by (simp add: moves_def)
qed

lemma buyReserves_moves:
  assumes need: "need_ok need"
  shows "moves ps (fst (buyReserves v need shape least ps))"
proof (cases "pass_ok ps")
  case True
  define offers where "offers = (if Empty_cap shape then marketOffers ps (mtM v) True
      else preferHibernating (marketOffers ps (mtM v) True) shape (mtLargestDisks v))"
  define large where "large = filter (\<lambda>o'. Covers (foUsable o') least) offers"
  obtain ps1 res where first: "coverReserves v need large ps = (ps1, res)" by fastforce
  obtain ps2 rest where second: "coverReserves v (rest_need need res) offers ps1 = (ps2, rest)" by fastforce
  have off: "\<forall>o'\<in>set offers. offerable ps False o'"
    using marketOffers_offerable(2) by (auto simp: offers_def preferHibernating_def Let_def)
  then have large: "\<forall>o'\<in>set large. offerable ps False o'" by (simp add: large_def)
  have m1: "moves ps ps1" using coverReserves_moves [OF need large, of v] by (simp add: first)
  have all: "moves ps (fst (coverReserves v need offers ps))" by (rule coverReserves_moves [OF need off])
  have "need_ok (rest_need need res)"
  proof -
    have "\<forall>o'\<in>set large. nonneg_cap (foUsable o')" using large offerable_facts(3) True unfolding pass_ok_def by blast
    from rest_need_ok [OF need this] show ?thesis using first by (auto simp: coverReserves_def Let_def)
  qed
  moreover have "\<forall>o'\<in>set offers. offerable ps1 False o'" using off offerable_moves [OF m1 True] by blast
  ultimately have "moves ps1 ps2" using coverReserves_moves [of "rest_need need res" offers ps1 v] by (simp add: second)
  with m1 have m2: "moves ps ps2" by (rule moves_trans)
  have "buyReserves v need shape least ps = (if Empty_cap least \<or> large = [] then coverReserves v need offers ps
      else if Complete res need then (ps1, res) else (ps2, both_covers res rest))"
    by (simp add: buyReserves_def Let_def offers_def [symmetric] large_def [symmetric] first second)
  then show ?thesis using m1 m2 all by simp
next
  case False
  then show ?thesis by (simp add: moves_def)
qed

lemma need_ok_largest:
  assumes "view_ok m v" and "item = NoCapacity \<or> item = mtLargest v"
  shows "need_ok \<lparr>cnItems = [largest_item v item], cnAggregate = Clamp a\<rparr>" "need_ok \<lparr>cnItems = [largest_item v item], cnAggregate = NoCapacity\<rparr>"
  using assms by (auto simp: view_ok_def need_ok_def largest_item_def)

lemma need_ok_aggregate: "need_ok \<lparr>cnItems = [], cnAggregate = Clamp a\<rparr>"
  by (simp add: need_ok_def)

lemma view_ok_reason [simp]: "view_ok m (reserveReason ps item v) = view_ok m v"
  by (simp add: reserveReason_def)

lemma reserves_loaded_moves:
  assumes v: "view_ok m v" and item: "item = NoCapacity \<or> item = mtLargest v" and short: "short = Clamp a"
  shows "moves ps (fst (reserves_loaded v item short ps)) \<and> view_ok m (snd (reserves_loaded v item short ps))"
proof -
  define need where "need = (if Empty_cap item then \<lparr>cnItems = [], cnAggregate = short\<rparr>
      else \<lparr>cnItems = [largest_item v item], cnAggregate = Clamp (Minus_cap short item)\<rparr>)"
  define least where "least = (if spotCPU (mtM v) then Lower (lpLoad (mhStopped (mtHolds v))) (lsDefault (pLargestShape (paP ps))) else NoCapacity)"
  obtain ps' res where b: "buyReserves v need least least ps = (ps', res)" by fastforce
  have "need_ok need"
    using need_ok_largest(1) [OF v item] need_ok_aggregate short by (simp add: need_def)
  then have "moves ps ps'" using buyReserves_moves [of need ps v least least] by (simp add: b)
  then show ?thesis
    using v by (simp add: reserves_loaded_def Let_def need_def [symmetric] least_def [symmetric] b)
qed

lemma reserves_floor_moves:
  assumes v: "view_ok m v" and item: "item = NoCapacity \<or> item = mtLargest v"
  shows "moves ps (fst (reserves_floor v item short ps)) \<and> view_ok m (snd (reserves_floor v item short ps))"
proof -
  define first where "first = (if Empty_cap item then (ps, NoCapacity, False)
      else let (ps, res) = buyReserves v \<lparr>cnItems = [largest_item v item], cnAggregate = NoCapacity\<rparr> item NoCapacity ps
           in (ps, totalOf (rsNodes res) (\<lambda>n. foUsable (cvOffer n)), rsUnmetItems res \<noteq> []))"
  obtain ps1 supplied unmet where f: "first = (ps1, supplied, unmet)" by (metis prod_cases3)
  define rest where "rest = Clamp (Minus_cap short (Upper supplied item))"
  define second where "second = (if Empty_cap rest then (ps1, supplied)
      else let (ps, res) = buyReserves v \<lparr>cnItems = [], cnAggregate = rest\<rparr> NoCapacity NoCapacity ps1
           in (ps, Plus_cap supplied (rsSupplied res)))"
  obtain ps2 supplied2 where g: "second = (ps2, supplied2)" by fastforce
  have "moves ps ps1"
    using f buyReserves_moves [OF need_ok_largest(2) [OF v item], of ps v item NoCapacity]
    by (auto simp: first_def case_prod_unfold Let_def split: if_splits)
  moreover have "moves ps1 ps2"
    using g buyReserves_moves [of "\<lparr>cnItems = [], cnAggregate = rest\<rparr>" ps1 v NoCapacity NoCapacity]
    by (auto simp: second_def rest_def need_ok_aggregate case_prod_unfold Let_def split: if_splits)
  ultimately have "moves ps ps2" by (rule moves_trans)
  moreover have "reserves_floor v item short ps = (ps2, reserveReason ps2 item
      (v\<lparr>mvStoppedShort := (let s = Clamp (Minus_cap short supplied2) in if unmet then Upper s item else s)\<rparr>))"
    unfolding reserves_floor_def first_def [symmetric] f Let_def [of "(ps1, supplied, unmet)"] prod.case rest_def [symmetric]
    by (simp add: Let_def [of rest] second_def [symmetric] g)
  ultimately show ?thesis using v by simp
qed

lemma retire_quiet:
  "quiet (fst st) (fst (retire_reserve why st i)) \<and> (\<exists>hs. snd (retire_reserve why st i) = (snd st)\<lparr>mvRetired := hs\<rparr>)"
proof -
  have "quiet (fst st) (pass_act (plain_action ActionRetireReserve why m h) ((fst st)\<lparr>paReserveRoom := n\<rparr>))" for m h n
    using quiet_trans [OF quiet_reserve_room quiet_act] by (simp add: grows_def)
  then show ?thesis by (auto simp: retire_reserve_def Let_def case_prod_unfold)
qed

lemma walk_reserves_quiet: "quiet ps (rwPass (walk_reserves ps v)) \<and> (\<exists>hs. rwView (walk_reserves ps v) = v\<lparr>mvRetired := hs\<rparr>)"
proof -
  let ?P = "\<lambda>ps' v'. quiet ps ps' \<and> (\<exists>hs. v' = v\<lparr>mvRetired := hs\<rparr>)"
  have step: "?P (fst (retire_reserve why st i)) (snd (retire_reserve why st i))" if "?P (fst st) (snd st)" for why st i
    using that retire_quiet [of st why i] quiet_trans by auto
  obtain ps1 v1 where f: "foldl (retire_reserve ReasonInterrupted) (ps, v) (inMarket ps (mtM v) (\<lambda>h. resumable h \<and> fhProtected h)) = (ps1, v1)"
    by fastforce
  have "?P (fst (foldl (retire_reserve ReasonInterrupted) (ps, v) (inMarket ps (mtM v) (\<lambda>h. resumable h \<and> fhProtected h))))
      (snd (foldl (retire_reserve ReasonInterrupted) (ps, v) (inMarket ps (mtM v) (\<lambda>h. resumable h \<and> fhProtected h))))"
  proof (rule foldl_invariant [where P = "\<lambda>st. ?P (fst st) (snd st)"])
    show "?P (fst (ps, v)) (snd (ps, v))" by (auto intro: exI [of _ "mvRetired v"])
  qed (rule step)
  then have one: "?P ps1 v1" by (simp add: f)
  have "?P (rwPass (walk_reserve w i)) (rwView (walk_reserve w i))" if "?P (rwPass w) (rwView w)" for w i
    using that step [of "(rwPass w, rwView w)" ReasonSurplus i] by (auto simp: walk_reserve_def Let_def case_prod_unfold)
  then show ?thesis
    unfolding walk_reserves_def f Let_def prod.case
    by (intro foldl_invariant [where P = "\<lambda>w. ?P (rwPass w) (rwView w)"]) (simp_all add: one)
qed

lemma reserve_item: "(if holdsLargest ps v s then NoCapacity else mtLargest v) = NoCapacity \<or> (if holdsLargest ps v s then NoCapacity else mtLargest v) = mtLargest v"
  by simp

lemma pass_reserves_moves:
  assumes m: "m \<in> fst ` set (paViews ps)"
  shows "moves ps (pass_reserves m ps)"
proof (cases "pass_ok ps")
  case True
  define w where "w = walk_reserves ps (view_at ps m)"
  define ps1 where "ps1 = set_view m (rwView w) (rwPass w)"
  define item where "item = (if holdsLargest ps1 (rwView w) 0 then NoCapacity else mtLargest (rwView w))"
  define v where "v = (rwView w)\<lparr>mvStoppedShort := Upper (Clamp (Minus_cap (lpLoad (mhStopped (mtHolds (rwView w)))) (rwCovered w))) item\<rparr>"
  define short where "short = Clamp (Minus_cap (Minus_cap (lpLoad (mhStopped (mtHolds (rwView w)))) (reserveSupply ps1 v 0)) (dueBackSupply ps1 v))"
  obtain held ps2 where b: "batching ps1 = (held, ps2)" by fastforce
  define buys where "buys = (if mtLoaded v then reserves_loaded v item short ps2 else reserves_floor v item short ps2)"
  have wv: "view_ok m (rwView w)"
    using walk_reserves_quiet [of ps "view_at ps m"] view_at_ok [OF True m] unfolding w_def by auto
  then have v: "view_ok m v" by (simp add: v_def)
  have "moves ps (rwPass w)" using walk_reserves_quiet quiet_moves unfolding w_def by blast
  then have m1: "moves ps ps1" unfolding ps1_def using wv by (rule moves_then_view)
  have m2: "moves ps ps2" using moves_trans [OF m1 quiet_moves [OF quiet_batching]] by (simp add: b)
  have it: "item = NoCapacity \<or> item = mtLargest v" by (simp add: item_def v_def)
  have "moves ps2 (fst buys) \<and> view_ok m (snd buys)"
    using reserves_loaded_moves [OF v it short_def, of ps2] reserves_floor_moves [OF v it, of ps2 short] by (simp add: buys_def)
  then have m3: "moves ps (fst buys)" "view_ok m (snd buys)" using moves_trans [OF m2] by auto
  have "pass_reserves m ps =
     (if Empty_cap (mvStoppedShort v) then set_view m v ps1
      else if paWaiting ps1 m then set_view m (v\<lparr>mvStoppedReason := WaitDemand\<rparr>) ps1
      else if Empty_cap short \<and> \<not> lacksLargest ps1 v then set_view m (v\<lparr>mvStoppedReason := WaitReturning\<rparr>) ps1
      else if held then set_view m (v\<lparr>mvStoppedReason := WaitBatch\<rparr>) ps2
      else set_view m (snd buys) (fst buys))"
    unfolding pass_reserves_def Let_def w_def [symmetric] ps1_def [symmetric] item_def [symmetric] v_def [symmetric] short_def [symmetric]
      b prod.case buys_def [symmetric]
    by (simp add: case_prod_unfold)
  then show ?thesis using m1 m2 m3 v by (simp add: moves_then_view)
next
  case False
  then show ?thesis by (simp add: moves_def)
qed

subsection \<open>Replacing a host\<close>

lemma replacement_offer:
  assumes "replacement ps v h = Some (o', payback)"
  shows "o' \<in> set (marketOffers ps (mtM v) False) \<and> Covers (foUsable o') (holdsOf ps v h)"
proof -
  obtain c where "foldl (better_payback ps h c (holdsOf ps v h)) None (marketOffers ps (mtM v) False) = Some (o', payback)"
    using assms by (auto simp: replacement_def Let_def split: option.splits if_splits)
  moreover have "case foldl (better_payback ps h c (holdsOf ps v h)) None (marketOffers ps (mtM v) False) of None \<Rightarrow> True
      | Some (o', _) \<Rightarrow> o' \<in> set (marketOffers ps (mtM v) False) \<and> Covers (foUsable o') (holdsOf ps v h)"
    by (rule foldl_invariant [where P = "\<lambda>best. case best of None \<Rightarrow> True
        | Some (o', _) \<Rightarrow> o' \<in> set (marketOffers ps (mtM v) False) \<and> Covers (foUsable o') (holdsOf ps v h)"])
       (auto simp: better_payback_def Let_def)
  ultimately show ?thesis by simp
qed

lemma best_replacement_offer:
  assumes "best_replacement ps v = Some (o', i, payback)"
  shows "o' \<in> set (marketOffers ps (mtM v) False) \<and> Covers (foUsable o') (holdsOf ps v (paHosts ps ! i))"
proof -
  have "case best_replacement ps v of None \<Rightarrow> True
      | Some (o', i, b) \<Rightarrow> replacement ps v (paHosts ps ! i) = Some (o', b)"
    unfolding best_replacement_def
    by (rule foldl_invariant [where P = "\<lambda>best. case best of None \<Rightarrow> True
        | Some (o', i, b) \<Rightarrow> replacement ps v (paHosts ps ! i) = Some (o', b)"]) (auto split: option.splits)
  then show ?thesis using assms replacement_offer by simp
qed

lemma pass_rightsize_moves:
  assumes m: "m \<in> fst ` set (paViews ps)"
  shows "moves ps (pass_rightsize m ps)"
proof (cases "rightsizes ps (view_at ps m) \<and> best_replacement ps (view_at ps m) \<noteq> None \<and> pass_ok ps")
  case True
  then obtain o' i payback where r: "rightsizes ps (view_at ps m)" "best_replacement ps (view_at ps m) = Some (o', i, payback)"
    and ok: "pass_ok ps" by (cases "best_replacement ps (view_at ps m)") auto
  let ?holds = "holdsOf ps (view_at ps m) (paHosts ps ! i)" and ?h = "Some (fhID (paHosts ps ! i))"
  let ?a = "buy_action m o' ActionRightsize ReasonCheaper ?holds [] ?h"
  have v: "mtM (view_at ps m) = m" using view_at_ok [OF ok m] by (simp add: view_ok_def)
  have off: "offerable ps False o'" "Covers (foUsable o') ?holds"
    using best_replacement_offer [OF r(2)] marketOffers_offerable(2) by auto
  have inp: "inputs_ok (paOffers ps)" using ok by (simp add: pass_ok_def)
  have run: "pass_rightsize m ps = pass_buy m o' ActionRightsize ReasonCheaper ?holds [] ?h ps"
    using r by (simp add: pass_rightsize_def Let_def)
  note b = pass_buy_moves [OF inp off(1), of ActionRightsize m ReasonCheaper ?holds "[]" ?h, simplified]
  have "purchase_ok (paP ps) (paOffers ps) ?a"
    using off by (auto simp: purchase_ok_def buy_action_def purchase_def offerable_def)
  moreover have "lgUsed (ledger_of ps) (faMarket ?a) < pMaxGrowthActions (paP ps)" "0 < lgHostRoom (ledger_of ps)"
    using r(1) by (auto simp: rightsizes_def v ledger_of_def buy_action_def pass_room_def)
  ultimately have "ledger_step (paP ps) (paOffers ps) (ledger_of ps) (lg_buy (ledger_of ps) ?a)"
    by (intro ledger_step.rightsizes) (simp_all add: buy_action_def)
  then show ?thesis unfolding run using b by (intro moves_step) simp_all
next
  case False
  then show ?thesis by (auto simp: pass_rightsize_def Let_def moves_def split: option.splits)
qed

subsection \<open>The pass\<close>

lemma handBack_quiet: "quiet ps (handBack ps)"
  unfolding handBack_def
proof (rule foldl_quiet)
  fix ps i
  have "quiet ps (pass_act (plain_action kind why m h) (set_host i f ps))" if "\<not> grows kind" for kind why m h f
    using quiet_trans [OF quiet_set_host quiet_act] that by simp
  then show "quiet ps (handBack_host ps i)"
    by (simp add: handBack_host_def Let_def grows_def)
qed

lemma pendingItems_quiet:
  "quiet ps (fst (pendingItems ps)) \<and> (\<forall>it\<in>set (snd (pendingItems ps)). \<exists>g\<in>set (fsPending (paS ps)). itNeed it = dgNeed g)"
proof -
  let ?P = "\<lambda>st. quiet ps (fst st) \<and> (\<forall>it\<in>set (snd st). \<exists>g\<in>set (fsPending (paS ps)). itNeed it = dgNeed g)"
  have "?P (foldl (\<lambda>st g. foldl (add_item (dgNeed g) (demandMarket ps (dgNeed g))) st (dgContainers g)) (ps, []) (fsPending (paS ps)))"
  proof (rule foldl_invariant [where P = ?P])
    fix st :: "pass \<times> pendingItem list" and g
    assume st: "?P st" and g: "g \<in> set (fsPending (paS ps))"
    show "?P (foldl (add_item (dgNeed g) (demandMarket ps (dgNeed g))) st (dgContainers g))"
      by (rule foldl_invariant [where P = ?P, OF st]) (use g in \<open>auto simp: add_item_def Let_def case_prod_unfold quiet_def ledger_of_def\<close>)
  qed simp
  then show ?thesis by (simp add: pendingItems_def Let_def case_prod_unfold)
qed

lemma plan_market_moves:
  assumes m: "m \<in> fst ` set (paViews ps)"
  shows "moves ps (plan_market ps m)"
proof (cases "pass_ok ps")
  case True
  let ?k = "pass_keep m ps"
  let ?g = "pass_grow m ?k"
  let ?r = "pass_reserves m ?g"
  let ?z = "pass_rightsize m ?r"
  have k: "moves ps ?k" by (rule pass_keep_moves [OF m])
  have g: "moves ps ?g" using moves_trans [OF k pass_grow_moves] moves_keys [OF k True] m by simp
  have r: "moves ps ?r" using moves_trans [OF g pass_reserves_moves] moves_keys [OF g True] m by simp
  have z: "moves ps ?z" using moves_trans [OF r pass_rightsize_moves] moves_keys [OF r True] m by simp
  have "quiet ?z (publish_report m ?z)" by (simp add: publish_report_def quiet_def ledger_of_def)
  then show ?thesis unfolding plan_market_def using moves_trans [OF z quiet_moves] by blast
next
  case False
  then show ?thesis by (simp add: moves_def)
qed

lemma plan_markets_moves:
  assumes "set ms \<subseteq> fst ` set (paViews ps)"
  shows "moves ps (foldl plan_market ps ms)"
  using assms
proof (induction ms arbitrary: ps)
  case (Cons m ms)
  show ?case
  proof (cases "pass_ok ps")
    case True
    have p: "moves ps (plan_market ps m)" using Cons.prems by (intro plan_market_moves) simp
    then have "moves (plan_market ps m) (foldl plan_market (plan_market ps m) ms)"
      using Cons.prems moves_keys [OF p True] by (intro Cons.IH) simp
    then show ?thesis using moves_trans [OF p] by simp
  next
    case False
    then show ?thesis by (simp add: moves_def)
  qed
qed simp

subsection \<open>Sound inputs\<close>

definition reserve_ok :: "MarketReserve \<Rightarrow> bool" where
  "reserve_ok r \<longleftrightarrow> nonneg_cap (htFloor (mrWarm r))"

definition policy_ok :: "Policy \<Rightarrow> bool" where
  "policy_ok p \<longleftrightarrow> reserve_ok (pSpot p) \<and> reserve_ok (pOnDemand p)
     \<and> list_all (\<lambda>(_, g). reserve_ok (grSpot g) \<and> reserve_ok (grOnDemand g)) (pGPU p)
     \<and> nonneg_cap (lsDefault (pLargestShape p)) \<and> nonneg_cap (lsSpotGPU (pLargestShape p)) \<and> nonneg_cap (lsCap (pLargestShape p))
     \<and> 0 \<le> lsCapDisks (pLargestShape p)"

definition need_nonneg :: "Requirement \<Rightarrow> bool" where
  "need_nonneg r \<longleftrightarrow> nonneg_cap (reservedShape r) \<and> 0 \<le> rDisks r"

definition snapshot_ok :: "FleetSnapshot \<Rightarrow> bool" where
  "snapshot_ok s \<longleftrightarrow> inputs_ok (fsOffers s) \<and> list_all (\<lambda>g. need_nonneg (dgNeed g)) (fsPending s)
     \<and> (\<forall>m. nonneg_cap (fsRecent s m) \<and> 0 \<le> fsRecentDisks s m)"

lemma Policy_Reserve_ok:
  assumes "policy_ok p"
  shows "nonneg_cap (htFloor (mrWarm (Policy_Reserve p m)))"
proof -
  have "reserve_ok (grSpot g) \<and> reserve_ok (grOnDemand g)" if "map_of (pGPU p) k = Some g" for k g
    using assms map_of_SomeD [OF that] by (auto simp: policy_ok_def list_all_iff)
  then show ?thesis
    using assms by (auto simp: Policy_Reserve_def policy_ok_def reserve_ok_def NoReserve_def NoTarget_def split: option.splits)
qed

lemma split_cap_nonneg:
  assumes "nonneg_cap c" and "part \<in> set (split_cap c bound)"
  shows "nonneg_cap part"
  using split_cap_part [OF assms] split_count_pos [of c bound] assms(1) by (auto simp: cap_simps pos_imp_zdiv_nonneg_iff)

lemma offered_within_nonneg: "nonneg_cap (offered_within cap gpu catalog)"
  unfolding offered_within_def
  by (rule foldl_invariant [where P = nonneg_cap]) (auto simp: Let_def Upper_covers intro: Covers_trans [OF Upper_covers(1)])

lemma LargestShape_of_nonneg:
  assumes "policy_ok p" and "nonneg_cap largest" and "0 \<le> disks"
    and "LargestShape_of (pLargestShape p) m largest disks catalog = (shape, n)"
  shows "nonneg_cap shape \<and> 0 \<le> n"
  using assms offered_within_nonneg [of "lsCap (pLargestShape p)" "rmGPU m" catalog]
  by (auto simp: LargestShape_of_def Let_def policy_ok_def Lower_def Upper_def Covers_def NoCapacity_def split: if_splits)

lemma target_view_ok:
  assumes p: "policy_ok p" and s: "\<forall>m. nonneg_cap (fsRecent s m) \<and> 0 \<le> fsRecentDisks s m"
  shows "view_ok m (view_of_target (target p s hosts m items))"
proof -
  obtain load largest0 disks where d: "market_demand s hosts m items = (load, largest0, disks)" by (metis prod_cases3)
  obtain flr warm arriving where w: "warm_headroom p s m load = (flr, warm, arriving)" by (metis prod_cases3)
  define shape where "shape = (if mrFitLargest (Policy_Reserve p m)
      then LargestShape_of (pLargestShape p) m largest0 disks (oiCatalog (fsOffers s)) else (NoCapacity, 0))"
  have "nonneg_cap (fst (snd (market_demand s hosts m items))) \<and> 0 \<le> snd (snd (market_demand s hosts m items))"
    unfolding market_demand_def
    by (rule foldl_invariant [where P = "\<lambda>st. nonneg_cap (fst (snd st)) \<and> 0 \<le> snd (snd st)"])
       (auto simp: s intro: Covers_trans [OF Upper_covers(1)])
  then have "nonneg_cap largest0" "0 \<le> disks" using d by auto
  then have sh: "nonneg_cap (fst shape) \<and> 0 \<le> snd shape"
    using LargestShape_of_nonneg [OF p, of largest0 disks m "oiCatalog (fsOffers s)" "fst shape" "snd shape"]
    by (cases "mrFitLargest (Policy_Reserve p m)") (auto simp: shape_def)
  have base: "nonneg_cap (htFloor (mrWarm (Policy_Reserve p m)))" by (rule Policy_Reserve_ok [OF p])
  have "Covers flr (htFloor (mrWarm (Policy_Reserve p m)))"
    using w by (auto simp: warm_headroom_def Let_def Upper_covers split: if_splits)
  then have "nonneg_cap warm" using warm_headroom_covers(1) [OF w] base Covers_trans by blast
  then have parts: "\<forall>part\<in>set (split_cap warm bound). nonneg_cap part" for bound using split_cap_nonneg by blast
  obtain l n where ln: "shape = (l, n)" by fastforce
  have t: "mtM (target p s hosts m items) = m" "mtLargest (target p s hosts m items) = l" "mtLargestDisks (target p s hosts m items) = n"
    "\<exists>bound. mtWantParts (target p s hosts m items) = split_cap warm bound"
    unfolding target_def Let_def d w prod.case shape_def [symmetric] ln by auto
  then show ?thesis
    using parts sh ln by (auto simp: view_ok_def view_of_target_def marketTarget.extend_def)
qed

abbreviation pass_offers :: "FleetSnapshot \<Rightarrow> OfferInputs" where
  "pass_offers s \<equiv> (fsOffers s)\<lparr>oiQuotaUsed := QuotaUse (fsHosts s) (oiCatalog (fsOffers s))\<rparr>"

abbreviation opening_ledger :: "FleetSnapshot \<Rightarrow> ledger" where
  "opening_ledger s \<equiv> \<lparr>lgHostRoom = fsHostRoom s, lgUsed = (\<lambda>_. 0), lgQuotaUsed = QuotaUse (fsHosts s) (oiCatalog (fsOffers s)), lgBought = []\<rparr>"

lemma plan_pass_steps:
  assumes p: "policy_ok p" and s: "snapshot_ok s"
  shows "ledger_steps p (pass_offers s) (opening_ledger s) (ledger_of (plan_pass p s))"
proof -
  let ?start = "new_pass p s"
  let ?hb = "handBack ?start"
  obtain ps items where it: "pendingItems ?hb = (ps, items)" by fastforce
  define views where "views = market_targets p (paS ps) (paHosts ps) items"
  let ?l0 = "\<lparr>lgHostRoom = fsHostRoom s, lgUsed = (\<lambda>_. 0), lgQuotaUsed = QuotaUse (fsHosts s) (oiCatalog (fsOffers s)), lgBought = []\<rparr>"
  have q: "quiet ?start ps" using quiet_trans [OF handBack_quiet] pendingItems_quiet [of ?hb] it by auto
  have new: "paP ?start = p" "paOffers ?start = pass_offers s" "fsPending (paS ?start) = fsPending s" "ledger_of ?start = ?l0"
    "fsRecent (paS ?start) = fsRecent s" "fsRecentDisks (paS ?start) = fsRecentDisks s"
    by (simp_all add: new_pass_def Let_def ledger_of_def)
  have S: "paP ps = p" "paS ps = paS ?start" "ledger_of ps = ?l0" using q new by (simp_all add: quiet_def)
  have inp: "inputs_ok (pass_offers s)" using s by (simp add: snapshot_ok_def inputs_ok_def)
  have "paS ?hb = paS ?start" using handBack_quiet [of ?start] by (simp add: quiet_def)
  then have items: "\<forall>i\<in>set items. item_ok i"
    using pendingItems_quiet [of ?hb] it s new(3) by (fastforce simp: item_ok_def snapshot_ok_def need_nonneg_def list_all_iff)
  have "\<forall>(m, v)\<in>set views. view_ok m v"
    using target_view_ok [OF p, of "paS ps"] s new S by (auto simp: views_def market_targets_def snapshot_ok_def)
  then have ok: "pass_ok (ps\<lparr>paViews := views\<rparr>)" using inp new S by (simp add: pass_ok_def)
  let ?c = "pass_cover (ps\<lparr>paViews := views\<rparr>) items"
  have c: "moves (ps\<lparr>paViews := views\<rparr>) ?c" by (rule pass_cover_moves [OF items])
  have "moves ?c (foldl plan_market ?c (map fst views))"
    using moves_keys [OF c ok] by (intro plan_markets_moves) simp
  then have "moves (ps\<lparr>paViews := views\<rparr>) (foldl plan_market ?c (map fst views))" using moves_trans [OF c] by blast
  moreover have "plan_pass p s = foldl plan_market ?c (map fst views)"
    by (simp add: plan_pass_def it views_def Let_def)
  ultimately have "ledger_steps (paP ps) (paOffers ps) (ledger_of (ps\<lparr>paViews := views\<rparr>)) (ledger_of (plan_pass p s))"
    using ok by (simp add: moves_def)
  moreover have "ledger_of (ps\<lparr>paViews := views\<rparr>) = ?l0" using S by (simp add: ledger_of_def)
  ultimately show ?thesis using S new by simp
qed

lemma PlanFleet_ledger:
  assumes p: "policy_ok p" and s: "snapshot_ok s"
  shows "ledger_ok p (pass_offers s) (opening_ledger s) (ledger_of (plan_pass p s))"
proof -
  have "inputs_ok (pass_offers s)" using s by (simp add: snapshot_ok_def inputs_ok_def)
  moreover have "ledger_ok p (pass_offers s) (opening_ledger s) (opening_ledger s)" by (simp add: ledger_ok_def vcpus_against_def)
  ultimately show ?thesis using ledger_steps_ok plan_pass_steps [OF assms] by blast
qed

subsection \<open>Properties\<close>

text \<open>
  C1: a plan stays within what the pass may spend. The hosts it buys, to serve, as reserves and as
  replacements, are at most the host room of the snapshot; in each market they are at most the growth actions of a
  pass; and those it buys to serve or as reserves count at most what each known vCPU quota has left.
\<close>

theorem PlanFleet_within_limits:
  assumes "policy_ok p" and "snapshot_ok s" and "bought = filter purchase (pnActions (PlanFleet p s))"
  shows "int (length bought) \<le> max 0 (fsHostRoom s)
     \<and> (\<forall>m. int (length (filter (\<lambda>a. faMarket a = m) bought)) \<le> max 0 (pMaxGrowthActions p))
     \<and> (\<forall>k left. quotaRoom (oiQuotas (fsOffers s)) (QuotaUse (fsHosts s) (oiCatalog (fsOffers s))) k = Some left
          \<longrightarrow> vcpus_against k (in_quota bought) \<le> max 0 left)"
proof -
  have "lgBought (ledger_of (plan_pass p s)) = bought" by (simp add: assms(3) ledger_of_def PlanFleet_def)
  then show ?thesis
    using ledger_okD(3,5,7) [OF PlanFleet_ledger [OF assms(1,2)]] by simp
qed

text \<open>A snapshot with one pending container, one instance type and room for four hosts.\<close>

definition demo_pending :: FleetSnapshot where
  "demo_pending = demo_snapshot\<lparr>fsPending := [\<lparr>dgNeed = demo_work, dgContainers = [\<lparr>pdID = 7, pdSince = 0, pdHost = None\<rparr>]\<rparr>]\<rparr>"

lemma demo_pending_ok: "policy_ok DefaultPolicy" "snapshot_ok demo_pending"
proof -
  show "policy_ok DefaultPolicy" by code_simp
  have "inputs_ok demo_inputs \<and> need_nonneg demo_work" by code_simp
  then show "snapshot_ok demo_pending"
    by (simp add: snapshot_ok_def demo_pending_def demo_snapshot_def NoCapacity_def Covers_def)
qed

theorem PlanFleet_within_limits_witness:
  "int (length (filter purchase (pnActions (PlanFleet DefaultPolicy demo_pending)))) \<le> 4"
proof -
  have "fsHostRoom demo_pending = 4" by (simp add: demo_pending_def demo_snapshot_def)
  with PlanFleet_within_limits [OF demo_pending_ok refl] show ?thesis by simp
qed

text \<open>
  C2: a pass refines the ledger. Whatever the pass does with its hosts, markets and containers, what it spends changes only by
  the steps of the abstract ledger: a purchase within the room and quotas left, a replacement within the room left, or a resume; the ledger
  starts with what the snapshot allows and ends with the purchases of the plan.
\<close>

theorem PlanFleet_refines_ledger:
  assumes "policy_ok p" and "snapshot_ok s"
  shows "ledger_steps p (pass_offers s) (opening_ledger s) (ledger_of (plan_pass p s))
     \<and> lgBought (ledger_of (plan_pass p s)) = filter purchase (pnActions (PlanFleet p s))"
  using plan_pass_steps [OF assms] by (simp add: ledger_of_def PlanFleet_def)

theorem PlanFleet_refines_ledger_witness:
  "ledger_steps DefaultPolicy (pass_offers demo_pending) (opening_ledger demo_pending) (ledger_of (plan_pass DefaultPolicy demo_pending))
     \<and> lgBought (ledger_of (plan_pass DefaultPolicy demo_pending)) = filter purchase (pnActions (PlanFleet DefaultPolicy demo_pending))"
  by (rule PlanFleet_refines_ledger [OF demo_pending_ok])



end
