(* ===== verification/Waits.thy ===== *)
theory Waits
  imports Keeping Spending
begin

text \<open>
  Why containers wait: a pass gives every pending container one entry (\<open>plan.Waits\<close> of
  \<open>internal/compute/fleet_plan.go\<close>), and one that no running or starting host takes always ends with a reason or
  with a host on its way.
\<close>

subsection \<open>Waits are only ever filled in\<close>

definition waits_kept :: "pass \<Rightarrow> pass \<Rightarrow> bool" where
  "waits_kept ps ps' \<longleftrightarrow>
     list_all2 (\<lambda>w w'. cwContainer w' = cwContainer w \<and> (cwWait w \<noteq> None \<longrightarrow> cwWait w' \<noteq> None)) (paWaits ps) (paWaits ps')"

definition explained :: "pass \<Rightarrow> pendingItem \<Rightarrow> bool" where
  "explained ps it \<longleftrightarrow> itWait it < length (paWaits ps) \<and> cwWait (paWaits ps ! itWait it) \<noteq> None"

lemma waits_kept_same: "paWaits ps' = paWaits ps \<Longrightarrow> waits_kept ps ps'"
  by (simp add: waits_kept_def list_all2_same)

lemma waits_kept_trans [trans]: "waits_kept ps ps' \<Longrightarrow> waits_kept ps' ps'' \<Longrightarrow> waits_kept ps ps''"
  unfolding waits_kept_def by (rule list_all2_trans) auto

lemma waits_kept_length: "waits_kept ps ps' \<Longrightarrow> length (paWaits ps') = length (paWaits ps)"
  by (simp add: waits_kept_def list_all2_lengthD)

lemma waits_kept_containers: "waits_kept ps ps' \<Longrightarrow> map cwContainer (paWaits ps') = map cwContainer (paWaits ps)"
  by (auto simp: waits_kept_def list_all2_conv_all_nth intro: nth_equalityI)

lemma explained_kept: "explained ps it \<Longrightarrow> waits_kept ps ps' \<Longrightarrow> explained ps' it"
  by (auto simp: explained_def waits_kept_def list_all2_conv_all_nth)

lemma waits_kept_set_wait: "(\<And>w. cwContainer (f w) = cwContainer w \<and> (cwWait w \<noteq> None \<longrightarrow> cwWait (f w) \<noteq> None)) \<Longrightarrow> waits_kept ps (set_wait i f ps)"
  by (cases "i < length (paWaits ps)")
     (auto simp: waits_kept_def set_wait_def list_all2_conv_all_nth nth_list_update list_update_beyond)

lemma foldl_waits_kept: "(\<And>ps x. x \<in> set xs \<Longrightarrow> waits_kept ps (f ps x)) \<Longrightarrow> waits_kept ps (foldl f ps xs)"
  by (rule foldl_invariant [where P = "waits_kept ps"]) (auto intro: waits_kept_trans waits_kept_same)

text \<open>Decisions about hosts do not touch the waits.\<close>

lemma host_waits [simp]:
  "paWaits (set_host i f ps) = paWaits ps" "paWaits (set_view m v ps) = paWaits ps" "paWaits (pass_start r t k ps) = paWaits ps"
  "paWaits (pass_act a ps) = paWaits ps" "paWaits (pass_buy m o' kind why c ids h ps) = paWaits ps"
  "paWaits (pass_resume m i why ids ps) = paWaits ps" "paWaits (snd (batching ps)) = paWaits ps" "paWaits (give i need ps) = paWaits ps"
  by (simp_all add: set_host_def set_view_def pass_start_def quotaOf_def pass_act_def pass_buy_def pass_resume_def batching_def give_def Let_def)

lemma provisioning_kept: "waits_kept ps (provisioning it h a ps)"
  unfolding provisioning_def by (rule waits_kept_set_wait) simp

lemma provisioning_explains: "itWait it < length (paWaits ps) \<Longrightarrow> explained (provisioning it h a ps) it"
  by (simp add: explained_def provisioning_def set_wait_def)

lemma pass_waits_kept: "waits_kept ps (pass_waits it why ps)"
  using waits_kept_set_wait [of "\<lambda>w. w\<lparr>cwWait := Some why\<rparr>" ps "itWait it"] by (simp add: pass_waits_def waits_kept_def)

lemma pass_waits_explains: "itWait it < length (paWaits ps) \<Longrightarrow> explained (pass_waits it why ps) it"
  by (simp add: explained_def pass_waits_def set_wait_def)

lemma provisioned_all:
  assumes "x \<in> set xs" and "itWait (f x) < length (paWaits ps)"
  shows "explained (foldl (\<lambda>ps x. provisioning (f x) h a ps) ps xs) (f x)"
  using assms
proof (induction xs arbitrary: ps)
  case (Cons y ys)
  have len: "length (paWaits (provisioning (f y) h a ps)) = length (paWaits ps)" by (rule waits_kept_length [OF provisioning_kept])
  show ?case
  proof (cases "x \<in> set ys")
    case True
    then show ?thesis using Cons len by simp
  next
    case False
    then have "explained (provisioning (f y) h a ps) (f x)" using Cons.prems provisioning_explains by auto
    moreover have "waits_kept (provisioning (f y) h a ps) (foldl (\<lambda>ps x. provisioning (f x) h a ps) (provisioning (f y) h a ps) ys)"
      by (intro foldl_waits_kept provisioning_kept)
    ultimately show ?thesis using explained_kept by simp
  qed
qed simp

subsection \<open>Purchases\<close>

definition items_of :: "demandClass \<Rightarrow> pendingItem set" where
  "items_of c = (\<Union>g\<in>set (dcGroups c). set (igItems g))"

text \<open>A step of a class's purchases: a container that leaves the class is explained.\<close>

definition takes :: "pass \<times> demandClass \<Rightarrow> pass \<times> demandClass \<Rightarrow> bool" where
  "takes st st' \<longleftrightarrow> waits_kept (fst st) (fst st') \<and> length (dcGroups (snd st')) = length (dcGroups (snd st))
     \<and> items_of (snd st') \<subseteq> items_of (snd st)
     \<and> (\<forall>it\<in>items_of (snd st). itWait it < length (paWaits (fst st)) \<longrightarrow> explained (fst st') it \<or> it \<in> items_of (snd st'))"

lemma takes_refl [simp]: "takes st st"
  by (simp add: takes_def waits_kept_same)

lemma takes_trans: "takes a b \<Longrightarrow> takes b c \<Longrightarrow> takes a c"
  unfolding takes_def using waits_kept_trans waits_kept_length explained_kept by (smt (verit) subset_trans)

lemma foldl_takes: "(\<And>st x. x \<in> set xs \<Longrightarrow> takes st (f st x)) \<Longrightarrow> takes st (foldl f st xs)"
  by (rule foldl_invariant [where P = "takes st"]) (auto intro: takes_trans)

lemma take_group_items:
  assumes "list_all (\<lambda>(k, n). k < length groups) ps" and "foldl take_group (groups, taken) ps = (groups', taken')"
  shows "length groups' = length groups
     \<and> (\<Union>g\<in>set groups. set (igItems g)) \<union> set taken = (\<Union>g\<in>set groups'. set (igItems g)) \<union> set taken'"
  using assms
proof (induction ps arbitrary: groups taken)
  case (Cons p ps)
  obtain k n where p: "p = (k, n)" by fastforce
  let ?g = "groups ! k"
  let ?groups = "groups[k := ?g\<lparr>igItems := drop (nat n) (igItems ?g)\<rparr>]"
  have k: "k < length groups" using Cons.prems p by simp
  have g: "set (igItems ?g) = set (take (nat n) (igItems ?g)) \<union> set (drop (nat n) (igItems ?g))"
    by (metis append_take_drop_id set_append)
  have "set groups = set (take k groups) \<union> {?g} \<union> set (drop (Suc k) groups)"
    using id_take_nth_drop [OF k] by (metis Un_insert_right list.simps(15) set_append sup_bot.right_neutral insert_is_Un sup_assoc)
  moreover have "set ?groups = set (take k groups) \<union> {?g\<lparr>igItems := drop (nat n) (igItems ?g)\<rparr>} \<union> set (drop (Suc k) groups)"
    using upd_conv_take_nth_drop [OF k] by simp
  ultimately have "(\<Union>g\<in>set groups. set (igItems g)) = (\<Union>g\<in>set ?groups. set (igItems g)) \<union> set (take (nat n) (igItems ?g))"
    using g by auto
  moreover have "list_all (\<lambda>(k, n). k < length ?groups) ps" using Cons.prems by simp
  moreover have "take_group (groups, taken) p = (?groups, taken @ take (nat n) (igItems ?g))" by (simp add: take_group_def p Let_def)
  ultimately have "length groups' = length ?groups"
      "(\<Union>g\<in>set ?groups. set (igItems g)) \<union> set (taken @ take (nat n) (igItems ?g)) = (\<Union>g\<in>set groups'. set (igItems g)) \<union> set taken'"
      "(\<Union>g\<in>set groups. set (igItems g)) = (\<Union>g\<in>set ?groups. set (igItems g)) \<union> set (take (nat n) (igItems ?g))"
    using Cons.IH [of ?groups "taken @ take (nat n) (igItems ?g)"] Cons.prems(2) by simp_all
  then show ?case by (simp add: Un_ac)
qed simp

lemma coverNeed_groups: "coverNeed c only = (need, at') \<Longrightarrow> \<forall>k\<in>set at'. k < length (dcGroups c)"
  by (auto simp: coverNeed_def Let_def)

lemma buy_node_takes:
  assumes "\<forall>k\<in>set at'. k < length (dcGroups c)"
  shows "takes (ps, c) (buy_node m at' atLoss (ps, c) node)"
proof -
  obtain groups taken where t: "foldl take_group (dcGroups c, []) (zip at' (cvPlaced node)) = (groups, taken)" by fastforce
  have "list_all (\<lambda>(k, n). k < length (dcGroups c)) (zip at' (cvPlaced node))"
    using assms by (auto simp: list_all_iff dest: set_zip_leftD)
  from take_group_items [OF this t] have g: "length groups = length (dcGroups c)"
      "items_of c = (\<Union>g\<in>set groups. set (igItems g)) \<union> set taken" by (auto simp: items_of_def)
  define ps1 where "ps1 = pass_buy m (cvOffer node) ActionBuy (if atLoss then ReasonSpotWait else ReasonWork)
     (totalOf taken (\<lambda>it. reservedShape (itNeed it))) (map itID taken) None ps"
  define ps2 where "ps2 = foldl (\<lambda>qs it. provisioning it None (Some (length (paActions ps))) qs) ps1 taken"
  have b: "buy_node m at' atLoss (ps, c) node = (ps2, c\<lparr>dcGroups := groups\<rparr>)"
    by (simp add: buy_node_def t ps1_def ps2_def Let_def)
  have w: "paWaits ps1 = paWaits ps" by (simp add: ps1_def)
  have "waits_kept ps ps2"
    unfolding ps2_def by (rule waits_kept_trans [OF waits_kept_same [OF w]]) (intro foldl_waits_kept provisioning_kept)
  moreover have "explained ps2 it" if "it \<in> set taken" "itWait it < length (paWaits ps)" for it
    using provisioned_all [of it taken "\<lambda>it. it" ps1] that w by (simp add: ps2_def)
  ultimately show ?thesis unfolding b takes_def using g by (auto simp: items_of_def)
qed

lemma buy_nodes_takes:
  "\<forall>k\<in>set at'. k < length (dcGroups c) \<Longrightarrow> takes (ps, c) (foldl (buy_node m at' atLoss) (ps, c) nodes)"
proof (rule foldl_invariant [where P = "takes (ps, c)"])
  fix st node
  assume at: "\<forall>k\<in>set at'. k < length (dcGroups c)" and st: "takes (ps, c) st"
  then have "\<forall>k\<in>set at'. k < length (dcGroups (snd st))" by (simp add: takes_def)
  then have "takes st (buy_node m at' atLoss st node)" using buy_node_takes [of at' "snd st" "fst st"] by simp
  with st show "takes (ps, c) (buy_node m at' atLoss st node)" by (rule takes_trans)
qed simp

lemma coverClass_takes: "takes st (coverClass m offers r only atLoss st)"
proof -
  obtain ps c where st: "st = (ps, c)" by fastforce
  obtain need at' where n: "coverNeed c only = (need, at')" by fastforce
  show ?thesis
    using buy_nodes_takes [OF coverNeed_groups [OF n], of ps m atLoss] by (simp add: st coverClass_def n Let_def)
qed

lemma buy_models_takes: "takes st (buy_models r m models market only st)"
  unfolding buy_models_def by (intro foldl_takes coverClass_takes)

text \<open>Replacing one group by a part of it only loses what the part lacks.\<close>

lemma items_of_update:
  assumes "k < length (dcGroups c)"
  shows "items_of (c\<lparr>dcGroups := (dcGroups c)[k := g]\<rparr>) \<union> set (igItems (dcGroups c ! k)) = items_of c \<union> set (igItems g)
      \<union> set (igItems (dcGroups c ! k))"
    and "set (igItems g) \<subseteq> set (igItems (dcGroups c ! k)) \<Longrightarrow> items_of (c\<lparr>dcGroups := (dcGroups c)[k := g]\<rparr>) \<subseteq> items_of c"
    and "items_of c \<subseteq> items_of (c\<lparr>dcGroups := (dcGroups c)[k := g]\<rparr>) \<union> (set (igItems (dcGroups c ! k)) - set (igItems g))"
proof -
  have "set (dcGroups c) = set (take k (dcGroups c)) \<union> {dcGroups c ! k} \<union> set (drop (Suc k) (dcGroups c))"
    by (subst id_take_nth_drop [OF assms]) simp
  moreover have "set ((dcGroups c)[k := g]) = set (take k (dcGroups c)) \<union> {g} \<union> set (drop (Suc k) (dcGroups c))"
    using upd_conv_take_nth_drop [OF assms] by simp
  ultimately show
    "items_of (c\<lparr>dcGroups := (dcGroups c)[k := g]\<rparr>) \<union> set (igItems (dcGroups c ! k)) = items_of c \<union> set (igItems g) \<union> set (igItems (dcGroups c ! k))"
    "set (igItems g) \<subseteq> set (igItems (dcGroups c ! k)) \<Longrightarrow> items_of (c\<lparr>dcGroups := (dcGroups c)[k := g]\<rparr>) \<subseteq> items_of c"
    "items_of c \<subseteq> items_of (c\<lparr>dcGroups := (dcGroups c)[k := g]\<rparr>) \<union> (set (igItems (dcGroups c ! k)) - set (igItems g))"
    by (auto simp: items_of_def)
qed

lemma buy_alone_takes:
  assumes k: "k < length (dcGroups c)" and ids: "inj_on itID S" and S: "items_of c \<subseteq> S" "it \<in> S"
  shows "takes (ps, c) (buy_alone r k (ps, c) it)"
proof (cases "spot_waited ps it")
  case False
  then show ?thesis by (simp add: buy_alone_def)
next
  case True
  define g where "g = dcGroups c ! k"
  define alone where "alone = c\<lparr>dcGroups := [g\<lparr>igItems := [it]\<rparr>]\<rparr>"
  define tries where "tries = foldl (\<lambda>st market. foldl (\<lambda>st model.
      coverClass (RM True model) (filter (\<lambda>o'. \<not> (ctGPU (foType o') \<noteq> model \<or> foMarket o' \<noteq> market \<or> loss_over_cap ps it o')) (rkOffers r)) r None True st)
      st (gpuModels ps (dcNeed c) (rkOffers r))) (ps, alone) [MarketSpot, MarketOnDemand]"
  obtain ps' alone' where t: "tries = (ps', alone')" by fastforce
  have tk: "takes (ps, alone) (ps', alone')"
    unfolding t [symmetric] tries_def by (intro foldl_takes coverClass_takes)
  define c' where "c' = (if igItems (hd (dcGroups alone')) = []
     then c\<lparr>dcGroups := (dcGroups c)[k := g\<lparr>igItems := filter (\<lambda>x. itID x \<noteq> itID it) (igItems g)\<rparr>]\<rparr> else c)"
  have b: "buy_alone r k (ps, c) it = (ps', c')"
    using True
    unfolding buy_alone_def prod.case Let_def g_def [symmetric] alone_def [symmetric] tries_def [symmetric] t c'_def by simp
  have w: "waits_kept ps ps'" using tk by (simp add: takes_def)
  show ?thesis
  proof (cases "igItems (hd (dcGroups alone')) = []")
    case False
    then show ?thesis using b w by (simp add: c'_def takes_def)
  next
    case True
    have "length (dcGroups alone') = 1" using tk by (simp add: takes_def alone_def)
    then obtain g' where "dcGroups alone' = [g']" by (metis One_nat_def length_0_conv length_Suc_conv)
    then have "items_of alone' = {}" using True by (simp add: items_of_def)
    then have ex: "explained ps' it" if "itWait it < length (paWaits ps)"
      using tk that by (auto simp: takes_def alone_def items_of_def)
    have c': "c' = c\<lparr>dcGroups := (dcGroups c)[k := g\<lparr>igItems := filter (\<lambda>x. itID x \<noteq> itID it) (igItems g)\<rparr>]\<rparr>"
      using True by (simp add: c'_def)
    have "items_of c' \<subseteq> items_of c" unfolding c' by (rule items_of_update(2) [OF k]) (auto simp: g_def)
    moreover have "x \<in> items_of c' \<or> x = it" if "x \<in> items_of c" for x
    proof -
      have "x \<in> items_of c' \<or> x \<in> set (igItems g) \<and> itID x = itID it"
        using items_of_update(3) [OF k] that unfolding c' g_def by fastforce
      then show ?thesis using ids S that by (auto simp: inj_on_def)
    qed
    ultimately show ?thesis using b w ex by (fastforce simp: takes_def c')
  qed
qed

lemma buy_group_alone_takes:
  assumes ids: "inj_on itID S" and S: "items_of (snd st) \<subseteq> S" and k: "k < length (dcGroups (snd st))"
  shows "takes st (foldl (buy_alone r k) st (igItems (dcGroups (snd st) ! k)))"
proof (rule foldl_invariant [where P = "takes st"])
  fix st' it
  assume st': "takes st st'" and it: "it \<in> set (igItems (dcGroups (snd st) ! k))"
  have "it \<in> items_of (snd st)" using it nth_mem [OF k] by (auto simp: items_of_def)
  then have "takes st' (buy_alone r k st' it)"
    using buy_alone_takes [OF _ ids, of k "snd st'" it "fst st'" r] st' S k by (auto simp: takes_def)
  with st' show "takes st (buy_alone r k st' it)" by (rule takes_trans)
qed simp

lemma buyAtLoss_takes:
  assumes ids: "inj_on itID (items_of (snd st))"
  shows "takes st (buyAtLoss st)"
proof -
  obtain ps c where st: "st = (ps, c)" by fastforce
  define r where "r = loss_ranking ps (dcNeed c)"
  let ?group = "\<lambda>(ps, c) k. foldl (buy_alone r k) (ps, c) (igItems (dcGroups c ! k))"
  have "takes (ps, c) (foldl ?group (ps, c) [0..<length (dcGroups c)])"
  proof (rule foldl_invariant [where P = "takes (ps, c)"])
    fix st' k
    assume t: "takes (ps, c) st'" and k: "k \<in> set [0..<length (dcGroups c)]"
    have "items_of (snd st') \<subseteq> items_of c" "k < length (dcGroups (snd st'))" using t k by (simp_all add: takes_def)
    then have "takes st' (?group st' k)"
      using buy_group_alone_takes [of "items_of c" st' k r] ids by (simp add: st case_prod_unfold)
    with t show "takes (ps, c) (?group st' k)" by (rule takes_trans)
  qed simp
  then show ?thesis by (simp add: st buyAtLoss_def Let_def r_def)
qed

lemma buyClass_takes:
  assumes "inj_on itID (items_of (snd st))"
  shows "takes st (buyClass r st)"
proof -
  obtain ps c where st: "st = (ps, c)" by fastforce
  define two where "two = (\<lambda>models. buy_models r (dcMarket c) models MarketOnDemand (Some (\<lambda>g. \<not> spotOffered ps (itNeed (hd (igItems g)))))
      (buy_models r (dcMarket c) models MarketSpot None (ps, c)))"
  have t: "takes (ps, c) (two models)" for models
    unfolding two_def using takes_trans [OF buy_models_takes buy_models_takes] .
  have "inj_on itID (items_of (snd (two models)))" for models
    by (rule inj_on_subset [of itID "items_of c"]) (use assms t [of models] in \<open>simp_all add: st takes_def\<close>)
  then have loss: "takes (ps, c) (buyAtLoss (two models))" for models
    using takes_trans [OF t buyAtLoss_takes] by blast
  have cpu: "takes (ps, c) (coverClass m offers r None False st')" if "takes (ps, c) st'" for m offers st'
    using takes_trans [OF that coverClass_takes] .
  show ?thesis
    unfolding st buyClass_def Let_def prod.case
    by (auto intro!: loss [unfolded two_def] cpu buy_models_takes coverClass_takes split: option.splits)
qed

subsection \<open>What stays unbought\<close>

lemma item_waits_kept: "waits_kept ps (item_waits held c g ps it)"
  using pass_waits_kept by (simp add: item_waits_def waits_kept_def)

lemma item_waits_explains: "itWait it < length (paWaits ps) \<Longrightarrow> explained (item_waits held c g ps it) it"
  using pass_waits_explains by (simp add: item_waits_def explained_def)

lemma waits_all:
  assumes kept: "\<And>ps x. waits_kept ps (f ps x)" and ex: "\<And>ps. itWait it < length (paWaits ps) \<Longrightarrow> explained (f ps x) it"
    and x: "x \<in> set xs" and it: "itWait it < length (paWaits ps)"
  shows "explained (foldl f ps xs) it"
  using x it
proof (induction xs arbitrary: ps)
  case (Cons y ys)
  show ?case
  proof (cases "x \<in> set ys")
    case True
    then show ?thesis using Cons waits_kept_length [OF kept [of ps y]] by simp
  next
    case False
    then have "explained (f ps y) it" using Cons.prems ex by auto
    then show ?thesis using explained_kept foldl_waits_kept [of ys f "f ps y"] kept by simp
  qed
qed simp

lemma groups_wait:
  assumes "it \<in> items_of c" and "itWait it < length (paWaits ps)"
  shows "explained (foldl (\<lambda>ps g. foldl (item_waits held c' g) ps (igItems g)) ps (dcGroups c)) it"
proof -
  obtain g where g: "g \<in> set (dcGroups c)" "it \<in> set (igItems g)" using assms(1) by (auto simp: items_of_def)
  have kept: "waits_kept ps (foldl (item_waits held c' g) ps (igItems g))" for ps g
    by (intro foldl_waits_kept item_waits_kept)
  show ?thesis
  proof (rule waits_all [where x = g, OF kept])
    show "explained (foldl (item_waits held c' g) ps (igItems g)) it" if "itWait it < length (paWaits ps)" for ps
      by (rule waits_all [where x = it]) (use that g item_waits_kept item_waits_explains in auto)
  qed (use g assms in auto)
qed

lemma buy_demand_explains:
  assumes ids: "inj_on itID (items_of c)"
  shows "waits_kept ps (buy_demand ps c)" and "it \<in> items_of c \<Longrightarrow> itWait it < length (paWaits ps) \<Longrightarrow> explained (buy_demand ps c) it"
proof -
  obtain held ps1 where h: "(if paHostRoom ps > 0 then batching ps else (False, ps)) = (held, ps1)" by fastforce
  obtain ps2 c2 where b: "(if paHostRoom ps1 > 0 \<and> \<not> held then buyClass (classOffers ps1 (dcNeed c)) (ps1, c) else (ps1, c)) = (ps2, c2)" by fastforce
  have eq: "buy_demand ps c = foldl (\<lambda>ps g. foldl (item_waits held c2 g) ps (igItems g)) ps2 (dcGroups c2)"
    by (simp only: buy_demand_def h b Let_def prod.case)
  have w1: "paWaits ps1 = paWaits ps" using h by (auto simp: batching_def split: if_splits)
  have "takes (ps1, c) (ps2, c2)"
    using b buyClass_takes [of "(ps1, c)" "classOffers ps1 (dcNeed c)"] ids by (cases "paHostRoom ps1 > 0 \<and> \<not> held") auto
  then have t: "waits_kept ps ps2" "it \<in> items_of c \<Longrightarrow> itWait it < length (paWaits ps) \<Longrightarrow> explained ps2 it \<or> it \<in> items_of c2"
    using w1 by (auto simp: takes_def waits_kept_def)
  have k: "waits_kept ps2 (buy_demand ps c)" unfolding eq by (intro foldl_waits_kept item_waits_kept)
  show "waits_kept ps (buy_demand ps c)" using waits_kept_trans [OF t(1) k] .
  show "explained (buy_demand ps c) it" if "it \<in> items_of c" "itWait it < length (paWaits ps)"
    using t(2) [OF that]
  proof
    assume "explained ps2 it"
    then show ?thesis using k by (rule explained_kept)
  next
    assume "it \<in> items_of c2"
    moreover have "itWait it < length (paWaits ps2)" using waits_kept_length [OF t(1)] that(2) by simp
    ultimately show ?thesis unfolding eq by (rule groups_wait)
  qed
qed

text \<open>Every container is put into a class, and none is invented.\<close>

lemma group_item_items: "(\<Union>g\<in>set (group_item groups it). set (igItems g)) = insert it (\<Union>g\<in>set groups. set (igItems g))"
proof (cases "index_func (\<lambda>g. igShape g = reservedShape (itNeed it) \<and> igDisks g = rDisks (itNeed it)) groups")
  case (Some i)
  then have i: "i < length groups" by (rule index_func_less)
  have "set groups = set (take i groups) \<union> {groups ! i} \<union> set (drop (Suc i) groups)" by (subst id_take_nth_drop [OF i]) simp
  then show ?thesis using upd_conv_take_nth_drop [OF i] by (auto simp: group_item_def Let_def Some)
qed (auto simp: group_item_def Let_def)

lemma class_item_items: "(\<Union>c\<in>set (class_item ps classes it). items_of c) = insert it (\<Union>c\<in>set classes. items_of c)"
proof -
  obtain need key where k: "classKey ps (itNeed it) = (need, key)" by fastforce
  show ?thesis
  proof (cases "index_func (\<lambda>c. dcKey c = key) classes")
    case (Some n)
    then have n: "n < length classes" by (rule index_func_less)
    have "set classes = set (take n classes) \<union> {classes ! n} \<union> set (drop (Suc n) classes)" by (subst id_take_nth_drop [OF n]) simp
    then show ?thesis
      using upd_conv_take_nth_drop [OF n] group_item_items [of "dcGroups (classes ! n)" it]
      by (auto simp: class_item_def k Some items_of_def)
  next
    case None
    then show ?thesis using group_item_items [of "[]" it] by (auto simp: class_item_def k items_of_def)
  qed
qed

lemma class_items: "(\<Union>c\<in>set (foldl (class_item ps) classes items). items_of c) = set items \<union> (\<Union>c\<in>set classes. items_of c)"
  by (induction items arbitrary: classes) (auto simp: class_item_items)

lemma buyFor_explains:
  assumes ids: "inj_on itID (set items)"
  shows "waits_kept ps (buyFor ps items)" and "it \<in> set items \<Longrightarrow> itWait it < length (paWaits ps) \<Longrightarrow> explained (buyFor ps items) it"
proof -
  let ?classes = "foldl (class_item ps) [] items"
  have all: "(\<Union>c\<in>set ?classes. items_of c) = set items" using class_items [of ps "[]" items] by simp
  have inj: "inj_on itID (items_of c)" if "c \<in> set ?classes" for c
    by (rule inj_on_subset [OF ids]) (use all that in blast)
  show "waits_kept ps (buyFor ps items)"
    unfolding buyFor_def using buy_demand_explains(1) inj by (intro foldl_waits_kept) blast
  have "explained (foldl buy_demand ps cs) it"
    if "set cs \<subseteq> set ?classes" "it \<in> (\<Union>c\<in>set cs. items_of c)" "itWait it < length (paWaits ps)" for cs ps
    using that
  proof (induction cs arbitrary: ps)
    case (Cons c cs)
    have c: "inj_on itID (items_of c)" using Cons.prems(1) inj by simp
    note kept = buy_demand_explains(1) [OF c, of ps]
    have rest: "waits_kept (buy_demand ps c) (foldl buy_demand (buy_demand ps c) cs)"
      using Cons.prems(1) inj buy_demand_explains(1) by (intro foldl_waits_kept) auto
    show ?case
    proof (cases "it \<in> items_of c")
      case True
      then have "explained (buy_demand ps c) it" using buy_demand_explains(2) [OF c] Cons.prems(3) by blast
      then show ?thesis using rest explained_kept by simp
    next
      case False
      then show ?thesis using Cons waits_kept_length [OF kept] by simp
    qed
  qed simp
  from this [of ?classes ps] all
  show "it \<in> set items \<Longrightarrow> itWait it < length (paWaits ps) \<Longrightarrow> explained (buyFor ps items) it" by (simp add: buyFor_def)
qed

subsection \<open>Resumes and running hosts\<close>

lemma without_or_taken: "it \<in> set items \<Longrightarrow> it \<in> set (without taken items) \<or> (\<exists>n\<in>set taken. items ! n = it)"
proof -
  assume "it \<in> set items"
  then obtain n where n: "n < length items" "items ! n = it" by (auto simp: in_set_conv_nth)
  show ?thesis
  proof (cases "n \<in> set taken")
    case False
    have "(n, it) \<in> set (zip [0..<length items] items)" using n by (force simp: in_set_zip)
    then have "it \<in> set (without taken items)" unfolding without_def using False by force
    then show ?thesis by simp
  qed (use n in blast)
qed

lemma resumeFor_explains:
  "waits_kept ps (fst (resumeFor ps items))
   \<and> (it \<in> set items \<longrightarrow> itWait it < length (paWaits ps) \<longrightarrow> explained (fst (resumeFor ps items)) it \<or> it \<in> set (snd (resumeFor ps items)))"
proof (induction ps items rule: resumeFor.induct)
  case (1 ps items)
  show ?case
  proof (cases "items = [] \<or> paHostRoom ps \<le> 0 \<or> bestReserve ps items = None")
    case True
    then show ?thesis by (auto simp: resumeFor.simps [of ps items] waits_kept_same split: option.splits)
  next
    case False
    then obtain i taken where b: "bestReserve ps items = Some (i, taken)" by auto
    let ?r = "pass_resume (itMarket (items ! hd taken)) i ReasonWork (map (\<lambda>n. itID (items ! n)) taken) ps"
    let ?ps = "foldl (\<lambda>q n. provisioning (items ! n) (Some (fhID (paHosts ps ! i))) None q) ?r taken"
    have run: "resumeFor ps items = resumeFor ?ps (without taken items)"
      using False b by (simp add: resumeFor.simps [of ps items] Let_def)
    have "waits_kept ?r ?ps" by (intro foldl_waits_kept provisioning_kept)
    then have k: "waits_kept ps ?ps" by (simp add: waits_kept_def)
    have ih: "waits_kept ?ps (fst (resumeFor ?ps (without taken items)))
        \<and> (it \<in> set (without taken items) \<longrightarrow> itWait it < length (paWaits ?ps) \<longrightarrow>
             explained (fst (resumeFor ?ps (without taken items))) it \<or> it \<in> set (snd (resumeFor ?ps (without taken items))))"
      using "1.IH" [OF _ b refl refl refl refl] False by auto
    have "explained ?ps it" if "itWait it < length (paWaits ps)" "n \<in> set taken" "items ! n = it" for n
      using provisioned_all [of n taken "\<lambda>n. items ! n" ?r "Some (fhID (paHosts ps ! i))" None] that by simp
    then have taken: "explained ?ps it" if "it \<in> set items" "it \<notin> set (without taken items)" "itWait it < length (paWaits ps)"
      using without_or_taken [OF that(1), of taken] that by blast
    have len: "length (paWaits ?ps) = length (paWaits ps)" by (rule waits_kept_length [OF k])
    show ?thesis
      unfolding run
    proof (intro conjI impI)
      show "waits_kept ps (fst (resumeFor ?ps (without taken items)))" using waits_kept_trans [OF k] ih by blast
      assume it: "it \<in> set items" "itWait it < length (paWaits ps)"
      show "explained (fst (resumeFor ?ps (without taken items))) it \<or> it \<in> set (snd (resumeFor ?ps (without taken items)))"
      proof (cases "it \<in> set (without taken items)")
        case True
        then show ?thesis using ih it len by (simp only: True simp_thms)
      next
        case False
        then show ?thesis using explained_kept [OF taken [OF it(1) False it(2)]] ih by blast
      qed
    qed
  qed
qed

lemma take_waits:
  "waits_kept (cqPass q) (cqPass (take_ready it i q))" "waits_kept (cqPass q) (cqPass (take_coming it need i q))"
proof -
  show "waits_kept (cqPass q) (cqPass (take_ready it i q))"
    by (rule waits_kept_same) (simp add: take_ready_def reserve_bin_def Let_def)
  have "waits_kept (cqPass q) (give h (itNeed it) (cqPass q))" for h by (rule waits_kept_same) simp
  then show "waits_kept (cqPass q) (cqPass (take_coming it need i q))"
    using waits_kept_trans provisioning_kept by (fastforce simp: take_coming_def reserve_bin_def Let_def)
qed

lemma cover_item_waits: "waits_kept (cqPass q) (cqPass (cover_item flr q it))"
proof -
  have c: "waits_kept (cqPass q) (cqPass (cover_coming flr it q))"
    by (auto simp: cover_coming_def Let_def take_waits waits_kept_same split: option.splits)
  have "waits_kept (cqPass q) (set_wait (itWait it) (\<lambda>w. w\<lparr>cwHost := itBought it\<rparr>) (cqPass (take_ready it i q)))" for i
    by (rule waits_kept_trans [OF take_waits(1)]) (rule waits_kept_set_wait, simp)
  then show ?thesis
    using c provisioning_kept by (auto simp: cover_item_def Let_def take_waits waits_kept_same split: option.splits)
qed

lemma cover_items_waits:
  "waits_kept (cqPass q) (cqPass (foldl (cover_item flr) q items)) \<and> set (cqLeft (foldl (cover_item flr) q items)) \<subseteq> set items \<union> set (cqLeft q)"
proof (induction items arbitrary: q)
  case (Cons it items)
  then show ?case using waits_kept_trans [OF cover_item_waits] cover_item_quiet [of q flr it] by fastforce
qed (simp add: waits_kept_same)

text \<open>The whole cover: waits are only filled in, and what running hosts leave is explained.\<close>

lemma pass_cover_explains:
  assumes ids: "distinct (map itID items)" and q: "q = foldl (cover_item (htFloor (mrWarm (pOnDemand (paP ps))))) (cover_start ps) items"
  shows "waits_kept ps (pass_cover ps items)"
    and "it \<in> set (cqLeft q) \<Longrightarrow> itWait it < length (paWaits ps) \<Longrightarrow> explained (pass_cover ps items) it"
proof -
  define ps1 where "ps1 = (cqPass q)\<lparr>paPartsShort := parts_short q\<rparr>"
  obtain ps2 left where r: "resumeFor ps1 (cqLeft q) = (ps2, left)" by fastforce
  have run: "pass_cover ps items = buyFor ps2 left" by (simp add: pass_cover_def q [symmetric] ps1_def [symmetric] r Let_def)
  have k1: "waits_kept ps ps1" "set (cqLeft q) \<subseteq> set items"
    using cover_items_waits [of "cover_start ps" "htFloor (mrWarm (pOnDemand (paP ps)))" items]
    by (simp_all add: q ps1_def waits_kept_def cover_start_def Let_def)
  have "set left \<subseteq> set items" using resumeFor_moves [of ps1 "cqLeft q"] r k1(2) by auto
  then have "inj_on itID (set left)" using ids by (intro inj_on_subset [of itID "set items" "set left"]) (auto simp: distinct_map)
  note buys = buyFor_explains [OF this]
  have k2: "waits_kept ps1 ps2" using resumeFor_explains [of ps1 "cqLeft q"] r by simp
  note k = waits_kept_trans [OF k1(1) k2]
  show "waits_kept ps (pass_cover ps items)" unfolding run by (rule waits_kept_trans [OF k buys(1)])
  show "explained (pass_cover ps items) it" if "it \<in> set (cqLeft q)" "itWait it < length (paWaits ps)"
  proof -
    have "explained ps2 it \<or> it \<in> set left"
      using resumeFor_explains [of ps1 "cqLeft q" it] r that waits_kept_length [OF k1(1)] by simp
    moreover have "itWait it < length (paWaits ps2)" using that(2) waits_kept_length [OF k] by simp
    ultimately show ?thesis unfolding run using buys explained_kept by blast
  qed
qed

subsection \<open>Properties\<close>

text \<open>
  C4: no pending container waits in silence. One that no running or starting host takes in a pass ends it with a
  reason recorded for its wait: a reserve or a purchase provisions for it, or what held purchases back is named.
\<close>

theorem cover_explains_waits:
  assumes ids: "distinct (map itID items)" and it: "it \<in> set (cqLeft (foldl (cover_item (htFloor (mrWarm (pOnDemand (paP ps))))) (cover_start ps) items))"
    and slot: "itWait it < length (paWaits ps)"
  shows "cwWait (paWaits (pass_cover ps items) ! itWait it) \<noteq> None"
  using pass_cover_explains(2) [OF ids refl it slot] by (simp add: explained_def)

text \<open>A market with nothing running: its container is left to reserves and purchases.\<close>

definition demo_left :: pass where
  "demo_left = (demo_pass FleetStopped)\<lparr>paPlan := \<lparr>pnMarkets = [], pnActions = [],
     pnWaits = [\<lparr>cwContainer = 1, cwWait = None, cwHost = None, cwAction = None\<rparr>], pnBatchWait = 0\<rparr>\<rparr>"

theorem cover_explains_waits_witness: "cwWait (paWaits (pass_cover demo_left [demo_item]) ! 0) \<noteq> None"
proof -
  have "map itID (cqLeft (foldl (cover_item (htFloor (mrWarm (pOnDemand (paP demo_left))))) (cover_start demo_left) [demo_item])) = [1]"
    by code_simp
  moreover have "set (cqLeft (foldl (cover_item (htFloor (mrWarm (pOnDemand (paP demo_left))))) (cover_start demo_left) [demo_item])) \<subseteq> {demo_item}"
    using cover_items_waits [of "cover_start demo_left" _ "[demo_item]"] by (simp add: cover_start_def Let_def)
  ultimately have left: "demo_item \<in> set (cqLeft (foldl (cover_item (htFloor (mrWarm (pOnDemand (paP demo_left))))) (cover_start demo_left) [demo_item]))"
    by fastforce
  have slot: "itWait demo_item = 0" "itWait demo_item < length (paWaits demo_left)" by (simp_all add: demo_item_def demo_left_def)
  show ?thesis using cover_explains_waits [OF _ left slot(2)] slot(1) by simp
qed

subsection \<open>The waits of a plan\<close>

lemma foldl_same_waits: "(\<And>ps x. paWaits (f ps x) = paWaits ps) \<Longrightarrow> paWaits (foldl f ps xs) = paWaits ps"
  by (induction xs arbitrary: ps) simp_all

lemma handBack_waits: "paWaits (handBack ps) = paWaits ps"
  unfolding handBack_def by (rule foldl_same_waits) (simp add: handBack_host_def Let_def)

lemma leave_waits: "paWaits (leave v i ps) = paWaits ps"
  by (simp add: leave_def Let_def split: option.splits)

lemma pass_keep_waits: "paWaits (pass_keep m ps) = paWaits ps"
proof -
  have "paWaits (ksPass (foldl keep_host k is)) = paWaits (ksPass k)" for k "is"
    by (induction "is" arbitrary: k) (simp_all add: keep_host_def Let_def leave_waits)
  then show ?thesis by (simp add: pass_keep_def keep_loop_def keep_planned_def Let_def)
qed

lemma buy_cover_waits: "paWaits (fst (buy_cover m r offers need ps)) = paWaits ps"
  by (simp add: buy_cover_def Let_def foldl_same_waits)

lemma buyHeadroom_waits: "paWaits (fst (buyHeadroom v need ps)) = paWaits ps"
  using buy_cover_waits by (simp add: buyHeadroom_def Let_def case_prod_unfold)

lemma grow_buys_waits: "paWaits (fst (grow_buys v need ps)) = paWaits ps"
  using buyHeadroom_waits by (simp add: grow_buys_def Let_def case_prod_unfold)

lemma grow_covers_waits: "paWaits (grow_covers m v need ps) = paWaits ps"
proof -
  obtain need' out where r: "resumesFor ps v need = (need', out)" by fastforce
  have "paWaits (foldl (\<lambda>ps i. pass_resume m i (growReason need') [] ps) ps out) = paWaits ps" by (rule foldl_same_waits) simp
  then show ?thesis by (simp add: grow_covers_def r Let_def case_prod_unfold grow_buys_waits)
qed

lemma pass_grow_waits: "paWaits (pass_grow m ps) = paWaits ps"
  by (simp add: pass_grow_def Let_def grow_covers_waits split: option.splits)

lemma coverReserves_waits: "paWaits (fst (coverReserves v need offers ps)) = paWaits ps"
  by (simp add: coverReserves_def Let_def foldl_same_waits)

lemma buyReserves_waits: "paWaits (fst (buyReserves v need shape least ps)) = paWaits ps"
  using coverReserves_waits by (simp add: buyReserves_def Let_def case_prod_unfold)

lemma walk_reserves_waits: "paWaits (rwPass (walk_reserves ps v)) = paWaits ps"
proof -
  have retire: "paWaits (fst (foldl (retire_reserve why) st is)) = paWaits (fst st)" for why st "is"
    by (induction "is" arbitrary: st) (simp_all add: retire_reserve_def Let_def case_prod_unfold)
  have one: "paWaits (fst (retire_reserve why st i)) = paWaits (fst st)" for why st i using retire [of why st "[i]"] by simp
  have "paWaits (rwPass (foldl walk_reserve w is)) = paWaits (rwPass w)" for w "is"
    by (induction "is" arbitrary: w) (simp_all add: walk_reserve_def Let_def case_prod_unfold one)
  then show ?thesis using retire by (simp add: walk_reserves_def Let_def case_prod_unfold)
qed

lemma pass_reserves_waits: "paWaits (pass_reserves m ps) = paWaits ps"
proof -
  have "paWaits (fst (reserves_loaded v item short ps')) = paWaits ps'" "paWaits (fst (reserves_floor v item short ps')) = paWaits ps'" for v item short ps'
    using buyReserves_waits by (simp_all add: reserves_loaded_def reserves_floor_def Let_def case_prod_unfold)
  then show ?thesis by (simp add: pass_reserves_def Let_def case_prod_unfold walk_reserves_waits)
qed

lemma plan_market_waits: "paWaits (plan_market ps m) = paWaits ps"
proof -
  have "paWaits (pass_rightsize m ps') = paWaits ps'" for ps' by (simp add: pass_rightsize_def Let_def split: option.splits)
  then show ?thesis by (simp add: plan_market_def publish_report_def pass_reserves_waits pass_grow_waits pass_keep_waits)
qed

lemma pendingItems_waits:
  "map cwContainer (paWaits (fst (pendingItems ps))) = map cwContainer (paWaits ps) @ concat (map (\<lambda>g. map pdID (dgContainers g)) (fsPending (paS ps)))"
proof -
  have add: "map cwContainer (paWaits (fst (foldl (add_item need m) st cs))) = map cwContainer (paWaits (fst st)) @ map pdID cs" for need m st cs
    by (induction cs arbitrary: st) (simp_all add: add_item_def Let_def case_prod_unfold)
  have "map cwContainer (paWaits (fst (foldl (\<lambda>st g. foldl (add_item (dgNeed g) (demandMarket ps (dgNeed g))) st (dgContainers g)) st gs)))
      = map cwContainer (paWaits (fst st)) @ concat (map (\<lambda>g. map pdID (dgContainers g)) gs)" for st gs
    by (induction gs arbitrary: st) (simp_all add: add)
  from this [of "(ps, [])" "fsPending (paS ps)"]
  show ?thesis by (simp add: pendingItems_def case_prod_unfold Let_def)
qed

lemma pendingItems_ids:
  "mset (map itID (snd (pendingItems ps))) = mset (concat (map (\<lambda>g. map pdID (dgContainers g)) (fsPending (paS ps))))"
proof -
  have add: "map itID (snd (foldl (add_item need m) st cs)) = map itID (snd st) @ map pdID cs" for need m st cs
    by (induction cs arbitrary: st) (simp_all add: add_item_def Let_def case_prod_unfold)
  have "map itID (snd (foldl (\<lambda>st g. foldl (add_item (dgNeed g) (demandMarket ps (dgNeed g))) st (dgContainers g)) st gs))
      = map itID (snd st) @ concat (map (\<lambda>g. map pdID (dgContainers g)) gs)" for st gs
    by (induction gs arbitrary: st) (simp_all add: add)
  from this [of "(ps, [])" "fsPending (paS ps)"]
  have "map itID (snd (foldl (\<lambda>st g. foldl (add_item (dgNeed g) (demandMarket ps (dgNeed g))) st (dgContainers g)) (ps, []) (fsPending (paS ps))))
      = concat (map (\<lambda>g. map pdID (dgContainers g)) (fsPending (paS ps)))" by simp
  from arg_cong [OF this, of mset] show ?thesis by (simp add: pendingItems_def case_prod_unfold Let_def)
qed

text \<open>
  A plan answers for every pending container. Its waits are, in the order of the snapshot, one entry per pending
  container, whatever the pass decided about it.
\<close>

theorem PlanFleet_waits_for_all:
  assumes "distinct (concat (map (\<lambda>g. map pdID (dgContainers g)) (fsPending s)))"
  shows "map cwContainer (pnWaits (PlanFleet p s)) = concat (map (\<lambda>g. map pdID (dgContainers g)) (fsPending s))"
proof -
  define ps0 where "ps0 = handBack (new_pass p s)"
  obtain ps items where it: "pendingItems ps0 = (ps, items)" by fastforce
  define views where "views = market_targets p (paS ps) (paHosts ps) items"
  define ps1 where "ps1 = ps\<lparr>paViews := views\<rparr>"
  have run: "PlanFleet p s = paPlan (foldl plan_market (pass_cover ps1 items) (map fst views))"
    by (simp add: PlanFleet_def plan_pass_def ps0_def [symmetric] it views_def [symmetric] ps1_def [symmetric] Let_def)
  have "paS ps0 = paS (new_pass p s)" using handBack_quiet [of "new_pass p s"] by (simp add: ps0_def quiet_def)
  then have pend: "fsPending (paS ps0) = fsPending s" by (simp add: new_pass_def Let_def)
  have w0: "paWaits ps0 = []" by (simp add: ps0_def handBack_waits new_pass_def Let_def)
  have "distinct (map itID items)"
    using pendingItems_ids [of ps0] assms it pend by (metis mset_eq_imp_distinct_iff snd_conv)
  from waits_kept_containers [OF pass_cover_explains(1) [OF this refl, of ps1]]
  have "map cwContainer (paWaits (pass_cover ps1 items)) = concat (map (\<lambda>g. map pdID (dgContainers g)) (fsPending s))"
    using pendingItems_waits [of ps0] it w0 pend by (simp add: ps1_def)
  then show ?thesis unfolding run using foldl_same_waits [of plan_market, OF plan_market_waits] by simp
qed

theorem PlanFleet_waits_for_all_witness: "map cwContainer (pnWaits (PlanFleet DefaultPolicy demo_pending)) = [7]"
  using PlanFleet_waits_for_all [of demo_pending DefaultPolicy] by (simp add: demo_pending_def)

end
