(* ===== verification/GoText.thy ===== *)
theory GoText
  imports Main "HOL-Library.Char_ord"
begin

text \<open>
  What the program uses of Go's \<open>strings\<close>, \<open>strconv\<close> and \<open>net\<close> packages on ASCII text, and integers of 64 bits that wrap.
\<close>

subsection \<open>Text\<close>

definition is_space :: "char \<Rightarrow> bool" where
  "is_space c \<longleftrightarrow> (let n = of_char c :: nat in n = 32 \<or> 9 \<le> n \<and> n \<le> 13)"

definition is_digit :: "char \<Rightarrow> bool" where
  "is_digit c \<longleftrightarrow> (let n = of_char c :: nat in 48 \<le> n \<and> n \<le> 57)"

definition lower_char :: "char \<Rightarrow> char" where
  "lower_char c = (let n = of_char c :: nat in if 65 \<le> n \<and> n \<le> 90 then char_of (n + 32) else c)"

fun split_on :: "(char \<Rightarrow> bool) \<Rightarrow> string \<Rightarrow> string list" where
  "split_on P [] = [[]]"
| "split_on P (c # cs) = (let ws = split_on P cs in if P c then [] # ws else (c # hd ws) # tl ws)"

definition go_fields :: "string \<Rightarrow> string list" where
  "go_fields s = filter (\<lambda>w. w \<noteq> []) (split_on is_space s)"

fun join_with :: "string \<Rightarrow> string list \<Rightarrow> string" where
  "join_with sep [] = []"
| "join_with sep [w] = w"
| "join_with sep (w # ws) = w @ sep @ join_with sep ws"

definition go_split :: "char \<Rightarrow> string \<Rightarrow> string list" where
  "go_split c = split_on (\<lambda>x. x = c)"

definition go_cut :: "char \<Rightarrow> string \<Rightarrow> (string \<times> string) option" where
  "go_cut c s = (if c \<in> set s then Some (takeWhile (\<lambda>x. x \<noteq> c) s, tl (dropWhile (\<lambda>x. x \<noteq> c) s)) else None)"

definition has_suffix :: "string \<Rightarrow> string \<Rightarrow> bool" where
  "has_suffix s suf \<longleftrightarrow> length suf \<le> length s \<and> drop (length s - length suf) s = suf"

definition trim_suffix :: "string \<Rightarrow> string \<Rightarrow> string" where
  "trim_suffix s suf = (if has_suffix s suf then take (length s - length suf) s else s)"

text \<open>\<open>strings.Index\<close>, from a position on.\<close>

fun sub_index :: "nat \<Rightarrow> string \<Rightarrow> string \<Rightarrow> nat option" where
  "sub_index n [] name = (if name = [] then Some n else None)"
| "sub_index n (c # cs) name = (if take (length name) (c # cs) = name then Some n else sub_index (Suc n) cs name)"

definition digits_value :: "string \<Rightarrow> int" where
  "digits_value = foldl (\<lambda>n c. n * 10 + (int (of_char c) - 48)) 0"

text \<open>\<open>strconv.Atoi\<close>: an optional sign and digits, within 64 bits.\<close>

definition atoi :: "string \<Rightarrow> int option" where
  "atoi s =
     (let neg = (s \<noteq> [] \<and> hd s = CHR ''-''); signed = (s \<noteq> [] \<and> (hd s = CHR ''-'' \<or> hd s = CHR ''+''));
          ds = (if signed then tl s else s);
          v = (if neg then - digits_value ds else digits_value ds)
      in if ds = [] \<or> \<not> list_all is_digit ds \<or> v < - (2 ^ 63) \<or> 2 ^ 63 - 1 < v then None else Some v)"

text \<open>A natural number in decimal, as \<open>%d\<close> prints it.\<close>

fun print_nat :: "nat \<Rightarrow> string" where
  "print_nat n = (if n < 10 then [] else print_nat (n div 10)) @ [char_of (48 + n mod 10)]"

declare print_nat.simps [simp del]

text \<open>Signed 64-bit arithmetic wraps.\<close>

definition wrap64 :: "int \<Rightarrow> int" where
  "wrap64 n = (n + 2 ^ 63) mod 2 ^ 64 - 2 ^ 63"

subsection \<open>Facts\<close>

lemma is_space_lower [simp]: "is_space (lower_char c) = is_space c"
  by (simp add: is_space_def lower_char_def Let_def)

lemma lower_lower [simp]: "lower_char (lower_char c) = lower_char c"
  by (simp add: lower_char_def Let_def)

lemma print_nat_digits: "list_all is_digit (print_nat n)"
proof (induction n rule: print_nat.induct)
  case (1 n)
  have "(48 + n mod 10) mod 256 = 48 + n mod 10" by (rule mod_less) (use mod_less_divisor [of 10 n] in linarith)
  then have "is_digit (char_of (48 + n mod 10))" by (simp add: is_digit_def Let_def)
  then show ?case using 1 by (subst print_nat.simps) simp
qed

lemma print_nat_word: "print_nat n \<noteq> []" "list_all (\<lambda>c. \<not> is_space c) (print_nat n)" "map lower_char (print_nat n) = print_nat n"
proof -
  show "print_nat n \<noteq> []" by (subst print_nat.simps) simp
  have "\<not> is_space c" "lower_char c = c" if "c \<in> set (print_nat n)" for c
    using that print_nat_digits [of n]
    by (auto simp: list_all_iff is_space_def lower_char_def is_digit_def Let_def)
  then show "list_all (\<lambda>c. \<not> is_space c) (print_nat n)" "map lower_char (print_nat n) = print_nat n"
    by (auto simp: list_all_iff intro: map_idI)
qed

end
