(* ===== verification/Cron.thy ===== *)
theory Cron
  imports Calendar GoText
begin

text \<open>
  Cron expressions (\<open>internal/schedules/cron.go\<close>): parsing and normalizing a schedule, and the first minute after
  an instant that it matches.

  Text is ASCII. A parse ends with a \<open>Cron\<close> or with an error, which is the message users see, an invalid
  field, or the panic of an index out of range; a loop over machine integers that would never end is \<open>None\<close>. Integers that a
  field can push past 64 bits, the step of a range, wrap as Go's do.
\<close>

subsection \<open>Expressions\<close>

datatype cron_error = InvalidCron string | ErrField | IndexPanic

type_synonym 'a cron_result = "(cron_error + 'a) option"

definition and_then :: "('e + 'a) option \<Rightarrow> ('a \<Rightarrow> ('e + 'b) option) \<Rightarrow> ('e + 'b) option" where
  "and_then r f = (case r of None \<Rightarrow> None | Some (Inl e) \<Rightarrow> Some (Inl e) | Some (Inr x) \<Rightarrow> f x)"

record dayMatcher =
  dmDays :: "bool list"
  dmLast :: bool

record weekdayMatcher =
  wmWeekdays :: "bool list"
  wmNth :: "bool list list"

record Cron =
  crExpression :: string
  crMinutes :: "bool list"
  crHours :: "bool list"
  crMonths :: "bool list"
  crDays :: dayMatcher
  crWeekdays :: weekdayMatcher
  crDayOr :: bool

definition cron_alias :: "string \<Rightarrow> string option" where
  "cron_alias name =
     (if name = ''@annually'' \<or> name = ''@yearly'' then Some ''0 0 1 1 *''
      else if name = ''@monthly'' then Some ''0 0 1 * *''
      else if name = ''@weekly'' then Some ''0 0 * * 0''
      else if name = ''@daily'' \<or> name = ''@midnight'' then Some ''0 0 * * *''
      else if name = ''@hourly'' then Some ''0 * * * *''
      else None)"

definition intervalLimit :: "char \<Rightarrow> int" where
  "intervalLimit u = (if u = CHR ''m'' then 59 else if u = CHR ''h'' then 23 else 31)"

text \<open>A match of \<open>intervalPattern\<close>: the digits and the unit.\<close>

definition intervalPattern :: "string \<Rightarrow> (string \<times> char) option" where
  "intervalPattern s =
     (let r = drop 5 s; rest = dropWhile is_space r; ds = butlast rest
      in if take 5 s = ''every'' \<and> takeWhile is_space r \<noteq> [] \<and> rest \<noteq> [] \<and> last rest \<in> {CHR ''m'', CHR ''h'', CHR ''d''}
            \<and> ds \<noteq> [] \<and> hd ds \<noteq> CHR ''0'' \<and> list_all is_digit ds
         then Some (ds, last rest) else None)"

definition monthName :: "string \<Rightarrow> int option" where
  "monthName name =
     (case sub_index 0 ''janfebmaraprmayjunjulaugsepoctnovdec'' name of
        None \<Rightarrow> None
      | Some n \<Rightarrow> if length name \<noteq> 3 \<or> n mod 3 \<noteq> 0 then None else Some (int (n div 3) + 1))"

definition weekdayName :: "string \<Rightarrow> int option" where
  "weekdayName name =
     (case sub_index 0 ''sunmontuewedthufrisat'' name of
        None \<Rightarrow> None
      | Some n \<Rightarrow> if length name \<noteq> 3 \<or> n mod 3 \<noteq> 0 then None else Some (int (n div 3)))"

definition noNames :: "string \<Rightarrow> int option" where
  "noNames name = None"

definition searchYears :: int where
  "searchYears = 28"

subsection \<open>Fields\<close>

definition cron_value :: "string \<Rightarrow> int \<Rightarrow> int \<Rightarrow> (string \<Rightarrow> int option) \<Rightarrow> cron_error + int" where
  "cron_value text low high names =
     (case names text of
        Some v \<Rightarrow> Inr v
      | None \<Rightarrow> (case atoi text of
                   None \<Rightarrow> Inl ErrField
                 | Some v \<Rightarrow> if v < low \<or> v > high then Inl ErrField else Inr v))"

text \<open>The step of an item, 1 when it has none.\<close>

definition item_step :: "(string \<times> string) option \<Rightarrow> cron_error + int" where
  "item_step parts =
     (case parts of
        None \<Rightarrow> Inr 1
      | Some (_, stepText) \<Rightarrow> (case atoi stepText of
                                 None \<Rightarrow> Inl ErrField
                               | Some v \<Rightarrow> if v < 1 then Inl ErrField else Inr v))"

definition item_base :: "string \<Rightarrow> bool \<Rightarrow> int \<Rightarrow> int \<Rightarrow> int \<Rightarrow> (string \<Rightarrow> int option) \<Rightarrow> cron_error + int \<times> int \<times> int" where
  "item_base base hasStep step low high names =
     (if base = ''*'' \<or> base = ''?'' then Inr (low, high, step)
      else case go_cut (CHR ''-'') base of
             Some (a, b) \<Rightarrow>
               (case cron_value a low high names of
                  Inl e \<Rightarrow> Inl e
                | Inr from \<Rightarrow> (case cron_value b low high names of Inl e \<Rightarrow> Inl e | Inr to \<Rightarrow> Inr (from, to, step)))
           | None \<Rightarrow>
               (case cron_value base low high names of
                  Inl e \<Rightarrow> Inl e
                | Inr from \<Rightarrow> Inr (from, if hasStep then high else from, step)))"

definition parseItem :: "string \<Rightarrow> int \<Rightarrow> int \<Rightarrow> (string \<Rightarrow> int option) \<Rightarrow> cron_error + int \<times> int \<times> int" where
  "parseItem item low high names =
     (let parts = go_cut (CHR ''/'') item; base = (case parts of None \<Rightarrow> item | Some (b, _) \<Rightarrow> b)
      in case item_step parts of
           Inl e \<Rightarrow> Inl e
         | Inr step \<Rightarrow> item_base base (parts \<noteq> None) step low high names)"

text \<open>\<open>set[i] = true\<close>.\<close>

definition set_at :: "int \<Rightarrow> bool list \<Rightarrow> cron_error + bool list" where
  "set_at i xs = (if i < 0 \<or> int (length xs) \<le> i then Inl IndexPanic else Inr (xs[nat i := True]))"

partial_function (option) mark :: "int \<Rightarrow> int \<Rightarrow> int \<Rightarrow> int \<Rightarrow> int \<Rightarrow> bool list \<Rightarrow> bool list cron_result" where
  "mark low sz to step v xs =
     (if v > to then Some (Inr xs)
      else case set_at (low + wrap64 (v - low) smod sz) xs of
             Inl e \<Rightarrow> Some (Inl e)
           | Inr ys \<Rightarrow> mark low sz to step (wrap64 (v + step)) ys)"

declare mark.simps [code]

definition set_item :: "string \<Rightarrow> int \<Rightarrow> int \<Rightarrow> (string \<Rightarrow> int option) \<Rightarrow> bool list \<Rightarrow> bool list cron_result" where
  "set_item item low high names xs =
     (case parseItem item low high names of
        Inl e \<Rightarrow> Some (Inl e)
      | Inr (from, to, step) \<Rightarrow>
          let sz = high - low + 1 in mark low sz (if from > to then to + sz else to) step from xs)"

fun set_items :: "string list \<Rightarrow> int \<Rightarrow> int \<Rightarrow> (string \<Rightarrow> int option) \<Rightarrow> bool list \<Rightarrow> bool list cron_result" where
  "set_items [] low high names xs = Some (Inr xs)"
| "set_items (i # is) low high names xs = and_then (set_item i low high names xs) (set_items is low high names)"

definition setRange :: "bool list \<Rightarrow> string \<Rightarrow> int \<Rightarrow> int \<Rightarrow> (string \<Rightarrow> int option) \<Rightarrow> bool list cron_result" where
  "setRange xs field low high names = set_items (go_split (CHR '','') field) low high names xs"

definition unrestricted :: "string \<Rightarrow> bool" where
  "unrestricted field = list_ex (\<lambda>item. item = ''*'' \<or> item = ''?'') (go_split (CHR '','') field)"

subsection \<open>Day fields\<close>

fun set_all :: "int list \<Rightarrow> bool list \<Rightarrow> cron_error + bool list" where
  "set_all [] xs = Inr xs"
| "set_all (i # is) xs = (case set_at i xs of Inl e \<Rightarrow> Inl e | Inr ys \<Rightarrow> set_all is ys)"

definition day_item :: "string \<Rightarrow> dayMatcher \<Rightarrow> dayMatcher cron_result" where
  "day_item item d =
     (if item = ''l'' then Some (Inr (d\<lparr>dmLast := True\<rparr>))
      else if has_suffix item ''-l''
      then (case cron_value (trim_suffix item ''-l'') 1 31 noNames of
              Inl e \<Rightarrow> Some (Inl e)
            | Inr from \<Rightarrow> (case set_all [from..31] (dmDays d) of Inl e \<Rightarrow> Some (Inl e) | Inr xs \<Rightarrow> Some (Inr (d\<lparr>dmDays := xs\<rparr>))))
      else if has_suffix item ''w''
      then (case cron_value (trim_suffix item ''w'') 1 31 noNames of
              Inl e \<Rightarrow> Some (Inl e)
            | Inr v \<Rightarrow> (case set_at v (dmDays d) of Inl e \<Rightarrow> Some (Inl e) | Inr xs \<Rightarrow> Some (Inr (d\<lparr>dmDays := xs\<rparr>))))
      else and_then (setRange (dmDays d) item 1 31 noNames) (\<lambda>xs. Some (Inr (d\<lparr>dmDays := xs\<rparr>))))"

fun day_items :: "string list \<Rightarrow> dayMatcher \<Rightarrow> dayMatcher cron_result" where
  "day_items [] d = Some (Inr d)"
| "day_items (i # is) d = and_then (day_item i d) (day_items is)"

definition parseDays :: "string \<Rightarrow> dayMatcher cron_result" where
  "parseDays field = day_items (go_split (CHR '','') field) \<lparr>dmDays = replicate 32 False, dmLast = False\<rparr>"

definition nth_item :: "string \<Rightarrow> string \<Rightarrow> bool \<Rightarrow> weekdayMatcher \<Rightarrow> weekdayMatcher cron_result" where
  "nth_item day which sole w =
     (if \<not> sole then Some (Inl ErrField)
      else case cron_value day 0 7 weekdayName of
             Inl e \<Rightarrow> Some (Inl e)
           | Inr d \<Rightarrow> (case atoi which of
                         None \<Rightarrow> Some (Inl ErrField)
                       | Some n \<Rightarrow>
                           if n < 1 \<or> n > 5 then Some (Inl ErrField)
                           else let k = nat (d mod 7)
                                in Some (Inr (w\<lparr>wmNth := (wmNth w)[k := (wmNth w ! k)[nat n := True]]\<rparr>))))"

definition weekday_item :: "bool \<Rightarrow> string \<Rightarrow> weekdayMatcher \<Rightarrow> weekdayMatcher cron_result" where
  "weekday_item sole item w =
     (case go_cut (CHR ''#'') item of
        Some (day, which) \<Rightarrow> nth_item day which sole w
      | None \<Rightarrow>
          and_then (setRange (replicate 8 False) item 0 7 weekdayName)
            (\<lambda>days. Some (Inr (w\<lparr>wmWeekdays :=
               foldl (\<lambda>ws d. ws[d mod 7 := ws ! (d mod 7) \<or> days ! d]) (wmWeekdays w) [0..<8]\<rparr>))))"

fun weekday_items :: "bool \<Rightarrow> string list \<Rightarrow> weekdayMatcher \<Rightarrow> weekdayMatcher cron_result" where
  "weekday_items sole [] w = Some (Inr w)"
| "weekday_items sole (i # is) w = and_then (weekday_item sole i w) (weekday_items sole is)"

definition parseWeekdays :: "string \<Rightarrow> weekdayMatcher cron_result" where
  "parseWeekdays field =
     (let items = go_split (CHR '','') field
      in weekday_items (\<not> length items > 1) items
           \<lparr>wmWeekdays = replicate 7 False, wmNth = replicate 7 (replicate 6 False)\<rparr>)"

subsection \<open>Matching times\<close>

definition days_match :: "dayMatcher \<Rightarrow> time \<Rightarrow> bool" where
  "days_match d t \<longleftrightarrow> dmDays d ! nat (mday_of (day_of t)) \<or> dmLast d \<and> mday_of (day_of t + 1) = 1"

definition weekdays_match :: "weekdayMatcher \<Rightarrow> time \<Rightarrow> bool" where
  "weekdays_match w t \<longleftrightarrow>
     (let day = nat (weekday_of (day_of t))
      in wmWeekdays w ! day \<or> wmNth w ! day ! nat ((mday_of (day_of t) - 1) div 7 + 1))"

definition dayMatches :: "Cron \<Rightarrow> time \<Rightarrow> bool" where
  "dayMatches c t =
     (if \<not> crMonths c ! nat (month_of (day_of t)) then False
      else if crDayOr c then days_match (crDays c) t \<or> weekdays_match (crWeekdays c) t
      else days_match (crDays c) t \<and> weekdays_match (crWeekdays c) t)"

text \<open>\<open>time.Date\<close> on the date of an instant, some days on.\<close>

definition date_at :: "time \<Rightarrow> int \<Rightarrow> int \<Rightarrow> int \<Rightarrow> time" where
  "date_at t d h mi = utc_date (year_of (day_of t)) (month_of (day_of t)) (mday_of (day_of t) + d) h mi 0 0"

definition next_minute :: "bool list \<Rightarrow> int \<Rightarrow> int option" where
  "next_minute minutes m = find (\<lambda>k. minutes ! nat k) [m..59]"

lemma date_at_eq: "date_at t d h mi = (day_of t + d - unix_epoch_day) * (24 * hour) + h * hour + mi * minute"
  using day_number_of [of "day_of t"] by (simp add: date_at_def utc_date_def day_number_def)

lemma instant_split: "t = date_at t 0 (hour_of t) (minute_of t) + t mod minute"
proof -
  have "t = t div (24 * hour) * (24 * hour) + t mod (24 * hour)" by simp
  moreover have "t mod (24 * hour) = hour_of t * hour + t mod (24 * hour) mod hour" unfolding hour_of_def by simp
  moreover have "t mod (24 * hour) mod hour = t mod hour" by (rule mod_mod_cancel) simp
  moreover have "t mod hour = minute_of t * minute + t mod hour mod minute" unfolding minute_of_def by simp
  moreover have "t mod hour mod minute = t mod minute" by (rule mod_mod_cancel) simp
  ultimately show ?thesis unfolding date_at_eq day_of_def add_0_right add_diff_cancel_right' by linarith
qed

lemma clock_range: "0 \<le> hour_of t" "hour_of t < 24" "0 \<le> minute_of t" "minute_of t < 60"
proof -
  have "0 \<le> t mod (24 * hour)" "t mod (24 * hour) < 24 * hour" "0 \<le> t mod hour" "t mod hour < hour" by simp_all
  then show "0 \<le> hour_of t" "hour_of t < 24" "0 \<le> minute_of t" "minute_of t < 60"
    unfolding hour_of_def minute_of_def by (auto simp: pos_imp_zdiv_nonneg_iff intro: div_pos_pos_trivial)
qed

lemma next_day_later: "t < date_at t 1 0 0"
  using instant_split [of t] clock_range [of t] pos_mod_bound [of minute t] unfolding date_at_eq by simp

lemma next_hour_later: "t < date_at t 0 (hour_of t + 1) 0"
  using instant_split [of t] clock_range [of t] pos_mod_bound [of minute t] unfolding date_at_eq by simp

function next_loop :: "Cron \<Rightarrow> time \<Rightarrow> time \<Rightarrow> time option" where
  "next_loop c limit t =
     (if \<not> t < limit then None
      else if \<not> dayMatches c t then next_loop c limit (date_at t 1 0 0)
      else case (if crHours c ! nat (hour_of t) then next_minute (crMinutes c) (minute_of t) else None) of
             Some m \<Rightarrow> Some (date_at t 0 (hour_of t) m)
           | None \<Rightarrow> next_loop c limit (date_at t 0 (hour_of t + 1) 0))"
  by pat_completeness auto
termination
  by (relation "measure (\<lambda>(c, limit, t). nat (limit - t))") (use next_day_later next_hour_later in \<open>auto simp: nat_less_eq_zless\<close>)

declare next_loop.simps [simp del]

text \<open>\<open>t.AddDate(years, 0, 0)\<close> of a whole minute.\<close>

definition add_years :: "time \<Rightarrow> int \<Rightarrow> time" where
  "add_years t n =
     utc_date (year_of (day_of t) + n) (month_of (day_of t)) (mday_of (day_of t)) (hour_of t) (minute_of t) 0 0"

definition Next :: "Cron \<Rightarrow> time \<Rightarrow> time option" where
  "Next c after = (let t = after - after mod minute + minute in next_loop c (add_years t searchYears) t)"

subsection \<open>Parsing\<close>

definition normalize :: "string \<Rightarrow> string" where
  "normalize s = map lower_char (join_with '' '' (go_fields s))"

text \<open>An interval as cron fields.\<close>

definition interval_fields :: "int \<Rightarrow> char \<Rightarrow> string" where
  "interval_fields n u =
     (if u = CHR ''m'' then ''*/'' @ print_nat (nat n) @ '' * * * *''
      else if u = CHR ''h'' then ''0 */'' @ print_nat (nat n) @ '' * * *''
      else ''0 0 */'' @ print_nat (nat n) @ '' * *'')"

text \<open>The normalized text and the fields it stands for.\<close>

definition cron_fields :: "string \<Rightarrow> cron_error + string \<times> string" where
  "cron_fields s =
     (let normalized = normalize s
      in if normalized = [] then Inl (InvalidCron ''cron expression is required'')
         else case intervalPattern normalized of
                Some (ds, u) \<Rightarrow>
                  (case atoi ds of
                     None \<Rightarrow> Inl (InvalidCron (''unsupported cron interval: '' @ s))
                   | Some n \<Rightarrow>
                       if n > intervalLimit u then Inl (InvalidCron (''unsupported cron interval: '' @ s))
                       else Inr (interval_fields n u, interval_fields n u))
              | None \<Rightarrow>
                  if hd normalized = CHR ''@''
                  then (case cron_alias normalized of
                          None \<Rightarrow> Inl (InvalidCron (''unsupported cron alias: '' @ normalized))
                        | Some expanded \<Rightarrow> Inr (normalized, expanded))
                  else Inr (normalized, normalized))"

text \<open>A field's error is reported as an invalid expression; a panic is not caught.\<close>

definition or_invalid :: "string \<Rightarrow> 'a cron_result \<Rightarrow> 'a cron_result" where
  "or_invalid s r = (case r of Some (Inl ErrField) \<Rightarrow> Some (Inl (InvalidCron (''invalid cron expression: '' @ s))) | _ \<Rightarrow> r)"

definition parse_fields :: "string \<Rightarrow> string list \<Rightarrow> Cron cron_result" where
  "parse_fields normalized parts =
     and_then (setRange (replicate 60 False) (parts ! 0) 0 59 noNames) (\<lambda>minutes.
     and_then (setRange (replicate 24 False) (parts ! 1) 0 23 noNames) (\<lambda>hours.
     and_then (setRange (replicate 13 False) (parts ! 3) 1 12 monthName) (\<lambda>months.
     and_then (parseDays (parts ! 2)) (\<lambda>days.
     and_then (parseWeekdays (parts ! 4)) (\<lambda>weekdays.
     Some (Inr \<lparr>crExpression = normalized, crMinutes = minutes, crHours = hours, crMonths = months, crDays = days,
       crWeekdays = weekdays, crDayOr = (\<not> unrestricted (parts ! 2) \<and> \<not> unrestricted (parts ! 4))\<rparr>))))))"

definition ParseCron :: "string \<Rightarrow> Cron cron_result" where
  "ParseCron s =
     (case cron_fields s of
        Inl e \<Rightarrow> Some (Inl e)
      | Inr (normalized, expanded) \<Rightarrow>
          let parts = go_split (CHR '' '') expanded; invalid = InvalidCron (''invalid cron expression: '' @ s)
          in if length parts \<noteq> 5 then Some (Inl (InvalidCron ''cron expression must contain exactly five fields''))
             else if CHR ''?'' \<in> set (parts ! 0 @ parts ! 1 @ parts ! 3) then Some (Inl invalid)
             else and_then (or_invalid s (parse_fields normalized parts)) (\<lambda>c.
                    if Next c (utc_date 2000 1 1 0 0 0 0) = None then Some (Inl invalid) else Some (Inr c)))"

end
