(* ===== verification/CronText.thy ===== *)
theory CronText
  imports Cron
begin

text \<open>
  Parsing cron expressions: every text is answered, the fields an item marks are those its range and step select, and the
  normalized text of a schedule parses to that schedule again.
\<close>

subsection \<open>Results\<close>

lemma and_then_simps [simp]:
  "and_then None f = None" "and_then (Some (Inl e)) f = Some (Inl e)" "and_then (Some (Inr x)) f = f x"
  by (simp_all add: and_then_def)

lemma and_then_Inr: "and_then r f = Some (Inr y) \<longleftrightarrow> (\<exists>x. r = Some (Inr x) \<and> f x = Some (Inr y))"
  by (auto simp: and_then_def split: option.splits sum.splits)

definition returns :: "('e + 'a) option \<Rightarrow> bool" where
  "returns r \<longleftrightarrow> (\<exists>x. r = Some x)"

lemma returns_Some [simp]: "returns (Some x)"
  by (simp add: returns_def)

lemma returns_and_then [intro]: "returns r \<Longrightarrow> (\<And>x. r = Some (Inr x) \<Longrightarrow> returns (f x)) \<Longrightarrow> returns (and_then r f)"
  by (auto simp: returns_def and_then_def split: sum.splits)

subsection \<open>Marking a range\<close>

lemma wrap64_id: "- (2 ^ 63) \<le> n \<Longrightarrow> n < 2 ^ 63 \<Longrightarrow> wrap64 n = n"
  by (simp add: wrap64_def)

lemma wrap64_over: "2 ^ 63 \<le> n \<Longrightarrow> n < 2 ^ 64 \<Longrightarrow> wrap64 n = n - 2 ^ 64"
proof -
  assume n: "2 ^ 63 \<le> n" "n < 2 ^ 64"
  have "(n + 2 ^ 63) mod 2 ^ 64 = n - 2 ^ 63" by (rule int_mod_pos_eq [where q = 1]) (insert n, simp_all)
  then show ?thesis by (simp add: wrap64_def)
qed

text \<open>The steps of a range that cannot overflow.\<close>

lemma mark_returns_small:
  assumes "1 \<le> step" "step < 2 ^ 63 - 500" "to \<le> 400"
  shows "- 500 \<le> v \<Longrightarrow> returns (mark low sz to step v xs)"
proof (induction "nat (to + 1 - v)" arbitrary: v xs rule: less_induct)
  case less
  then show ?case using assms
    by (subst mark.simps) (auto simp: wrap64_id split: sum.splits)
qed

text \<open>The steps close to the largest integer: every second one moves down.\<close>

lemma mark_returns_large:
  assumes step: "2 ^ 63 - 500 \<le> step" "step < 2 ^ 63" and to: "to \<le> 400"
  shows "- 500 \<le> v \<Longrightarrow> returns (mark low sz to step v xs)"
proof (induction "nat (v + 500)" arbitrary: v xs rule: less_induct)
  case less
  show ?case
  proof (cases "v \<le> to \<and> 2 ^ 63 \<le> v + step")
    case True
    define w where "w = v + step - 2 ^ 64"
    have w: "wrap64 (v + step) = w" unfolding w_def by (rule wrap64_over) (use True to step in auto)
    have v: "wrap64 (w + step) = w + step" unfolding w_def by (rule wrap64_id) (use True to step less.prems in auto)
    have "returns (mark low sz to step (w + step) ys)" for ys
      by (rule less.hyps) (use True to step less.prems in \<open>auto simp: w_def\<close>)
    then have "returns (mark low sz to step w ys)" for ys
      by (subst mark.simps) (auto simp: v split: sum.splits)
    then show ?thesis by (subst mark.simps) (auto simp: w split: sum.splits)
  next
    case False
    have "returns (mark low sz to step (v + step) ys)" for ys
      using less.prems to step by (subst mark.simps) auto
    then show ?thesis using False less.prems to step by (subst mark.simps) (auto simp: wrap64_id split: sum.splits)
  qed
qed

lemma mark_returns: "1 \<le> step \<Longrightarrow> step < 2 ^ 63 \<Longrightarrow> to \<le> 400 \<Longrightarrow> - 500 \<le> v \<Longrightarrow> returns (mark low sz to step v xs)"
  by (cases "step < 2 ^ 63 - 500") (simp_all add: mark_returns_small mark_returns_large)

text \<open>The values of a range: every step from its start to its end, wrapped into the field.\<close>

definition steps_to :: "int \<Rightarrow> int \<Rightarrow> int \<Rightarrow> int \<Rightarrow> int \<Rightarrow> int \<Rightarrow> bool" where
  "steps_to low sz to step v i \<longleftrightarrow> (\<exists>k::nat. v + int k * step \<le> to \<and> i = low + (v + int k * step - low) mod sz)"

lemma steps_to_next:
  assumes "v \<le> to"
  shows "steps_to low sz to step v i \<longleftrightarrow> i = low + (v - low) mod sz \<or> steps_to low sz to step (v + step) i"
proof
  assume "steps_to low sz to step v i"
  then obtain k :: nat where k: "v + int k * step \<le> to" "i = low + (v + int k * step - low) mod sz"
    by (auto simp: steps_to_def)
  then show "i = low + (v - low) mod sz \<or> steps_to low sz to step (v + step) i"
    by (cases k) (auto simp: steps_to_def algebra_simps)
next
  assume "i = low + (v - low) mod sz \<or> steps_to low sz to step (v + step) i"
  then consider "i = low + (v - low) mod sz"
    | k :: nat where "v + step + int k * step \<le> to" "i = low + (v + step + int k * step - low) mod sz"
    by (auto simp: steps_to_def)
  then show "steps_to low sz to step v i"
  proof cases
    case 1
    then show ?thesis unfolding steps_to_def using assms by (intro exI [where x = 0]) simp
  next
    case (2 k)
    then show ?thesis unfolding steps_to_def by (intro exI [where x = "Suc k"]) (simp add: algebra_simps)
  qed
qed

definition marked :: "(int \<Rightarrow> bool) \<Rightarrow> bool list \<Rightarrow> bool list" where
  "marked P xs = map (\<lambda>i. xs ! i \<or> P (int i)) [0..<length xs]"

lemma marked_nothing [simp]: "(\<And>i. \<not> P i) \<Longrightarrow> marked P xs = xs"
  by (auto simp: marked_def intro: nth_equalityI)

lemma marked_marked: "marked P (marked Q xs) = marked (\<lambda>i. Q i \<or> P i) xs"
  by (auto simp: marked_def)

lemma marked_one: "0 \<le> i \<Longrightarrow> i < int (length xs) \<Longrightarrow> xs[nat i := True] = marked (\<lambda>j. j = i) xs"
  by (auto simp: marked_def nth_list_update intro!: nth_equalityI)

text \<open>A range whose steps stay within 64 bits marks exactly its values.\<close>

lemma mark_selects:
  assumes "1 \<le> step" "to + step < 2 ^ 63" "0 \<le> low" "0 < sz"
  shows "low \<le> v \<Longrightarrow> int (length xs) = low + sz \<Longrightarrow> mark low sz to step v xs = Some (Inr (marked (steps_to low sz to step v) xs))"
proof (induction "nat (to + 1 - v)" arbitrary: v xs rule: less_induct)
  case less
  show ?case
  proof (cases "v \<le> to")
    case False
    have "v \<le> v + int k * step" for k using assms(1) by simp
    then have "\<not> steps_to low sz to step v i" for i using False unfolding steps_to_def by (meson order.trans)
    then show ?thesis using False by (subst mark.simps) simp
  next
    case True
    let ?i = "low + (v - low) mod sz" and ?v = "v + step"
    have i: "0 \<le> ?i" "?i < int (length xs)" using assms(3,4) less.prems by simp_all
    have "wrap64 (v - low) smod sz = (v - low) mod sz" using assms True less.prems by (simp add: wrap64_id signed_modulo_int_def sgn_if)
    then have "set_at (low + wrap64 (v - low) smod sz) xs = Inr (marked (\<lambda>j. j = ?i) xs)"
      using i by (simp add: set_at_def marked_one)
    moreover have "wrap64 ?v = ?v" using assms True less.prems by (simp add: wrap64_id)
    moreover have "mark low sz to step ?v (marked (\<lambda>j. j = ?i) xs)
        = Some (Inr (marked (steps_to low sz to step ?v) (marked (\<lambda>j. j = ?i) xs)))"
      using True assms(1) less.prems by (intro less.hyps) (simp_all add: marked_def)
    moreover have "marked (steps_to low sz to step ?v) (marked (\<lambda>j. j = ?i) xs) = marked (steps_to low sz to step v) xs"
      unfolding marked_marked by (simp only: steps_to_next [OF True, abs_def, symmetric])
    ultimately show ?thesis using True by (subst mark.simps) simp
  qed
qed

text \<open>The bounds of an item's range.\<close>

definition names_in :: "int \<Rightarrow> int \<Rightarrow> (string \<Rightarrow> int option) \<Rightarrow> bool" where
  "names_in low high names \<longleftrightarrow> (\<forall>w v. names w = Some v \<longrightarrow> low \<le> v \<and> v \<le> high)"

lemma sub_index_bound: "sub_index k s w = Some n \<Longrightarrow> k \<le> n \<and> n + length w \<le> k + length s"
proof (induction k s w rule: sub_index.induct)
  case (2 k c s w)
  show ?case
  proof (cases "take (length w) (c # s) = w")
    case True
    then have "length w \<le> length (c # s)" using length_take [of "length w" "c # s"] by simp
    then show ?thesis using 2 True by simp
  next
    case False
    then show ?thesis using 2 by simp
  qed
qed (auto split: if_splits)

declare sub_index.simps [simp del]

lemma names_in_field [simp]: "names_in low high noNames" "names_in 1 12 monthName" "names_in 0 7 weekdayName"
proof -
  show "names_in low high noNames" by (simp add: names_in_def noNames_def)
  show "names_in 1 12 monthName"
    unfolding names_in_def monthName_def by (auto split: option.splits if_splits dest!: sub_index_bound)
  show "names_in 0 7 weekdayName"
    unfolding names_in_def weekdayName_def by (auto split: option.splits if_splits dest!: sub_index_bound)
qed

lemma atoi_range: "atoi w = Some v \<Longrightarrow> - (2 ^ 63) \<le> v \<and> v < 2 ^ 63"
  by (auto simp: atoi_def Let_def split: if_splits)

lemma cron_value_range: "cron_value w low high names = Inr v \<Longrightarrow> names_in low high names \<Longrightarrow> low \<le> v \<and> v \<le> high"
  by (auto simp: cron_value_def names_in_def split: option.splits if_splits)

lemma item_step_range: "item_step parts = Inr step \<Longrightarrow> 1 \<le> step \<and> step < 2 ^ 63"
  by (auto simp: item_step_def split: option.splits prod.splits if_splits dest: atoi_range)

lemma parseItem_range:
  assumes "parseItem item low high names = Inr (from, to, step)" and "names_in low high names" and "low \<le> high"
  shows "low \<le> from" "from \<le> high" "low \<le> to" "to \<le> high" "1 \<le> step" "step < 2 ^ 63"
  using assms
  by (auto simp: parseItem_def item_base_def Let_def split: sum.splits option.splits if_splits prod.splits
      dest: item_step_range cron_value_range)

text \<open>The last value a range reaches: a reversed range wraps past the end of the field.\<close>

definition range_end :: "int \<Rightarrow> int \<Rightarrow> int \<Rightarrow> int" where
  "range_end sz from to = (if from > to then to + sz else to)"

lemma set_item_mark:
  "set_item item low high names xs =
     (case parseItem item low high names of
        Inl e \<Rightarrow> Some (Inl e)
      | Inr (from, to, step) \<Rightarrow> mark low (high - low + 1) (range_end (high - low + 1) from to) step from xs)"
  by (simp add: set_item_def range_end_def Let_def split: sum.split prod.split)

definition field_ok :: "int \<Rightarrow> int \<Rightarrow> (string \<Rightarrow> int option) \<Rightarrow> bool" where
  "field_ok low high names \<longleftrightarrow> 0 \<le> low \<and> low \<le> high \<and> high \<le> 59 \<and> names_in low high names"

lemma field_oks [simp]:
  "field_ok 0 59 noNames" "field_ok 0 23 noNames" "field_ok 1 12 monthName" "field_ok 1 31 noNames" "field_ok 0 7 weekdayName"
  by (simp_all add: field_ok_def)

lemma set_item_returns: "field_ok low high names \<Longrightarrow> returns (set_item item low high names xs)"
proof (cases "parseItem item low high names")
  case (Inr r)
  assume "field_ok low high names"
  moreover obtain a b n where "r = (a, b, n)" by (cases r)
  ultimately show ?thesis
    using parseItem_range [of item low high names a b n] Inr
    by (auto simp: set_item_mark field_ok_def range_end_def intro!: mark_returns)
qed (simp add: set_item_mark)

lemma setRange_returns: "field_ok low high names \<Longrightarrow> returns (setRange xs field low high names)"
proof -
  assume ok: "field_ok low high names"
  have "returns (set_items is low high names xs)" for "is" xs
    using set_item_returns [OF ok] by (induction "is" arbitrary: xs) auto
  then show ?thesis by (simp add: setRange_def)
qed

text \<open>The values an item selects.\<close>

definition item_selects :: "int \<Rightarrow> int \<Rightarrow> (string \<Rightarrow> int option) \<Rightarrow> string \<Rightarrow> int \<Rightarrow> bool" where
  "item_selects low high names item i \<longleftrightarrow>
     (case parseItem item low high names of
        Inl _ \<Rightarrow> False
      | Inr (a, b, step) \<Rightarrow> steps_to low (high - low + 1) (range_end (high - low + 1) a b) step a i)"

definition item_step_small :: "int \<Rightarrow> int \<Rightarrow> (string \<Rightarrow> int option) \<Rightarrow> string \<Rightarrow> bool" where
  "item_step_small low high names item \<longleftrightarrow>
     (case parseItem item low high names of Inl _ \<Rightarrow> True | Inr (a, b, step) \<Rightarrow> step < 2 ^ 63 - 200)"

lemma parseItem_error: "parseItem item low high names = Inl e \<Longrightarrow> e = ErrField"
  by (auto simp: parseItem_def item_base_def item_step_def cron_value_def Let_def split: sum.splits option.splits if_splits prod.splits)

lemma set_item_selects:
  assumes "field_ok low high names" and "item_step_small low high names item" and len: "int (length xs) = high + 1"
  shows "set_item item low high names xs =
    (if isl (parseItem item low high names) then Some (Inl ErrField) else Some (Inr (marked (item_selects low high names item) xs)))"
proof (cases "parseItem item low high names")
  case (Inl e)
  then show ?thesis using parseItem_error [OF Inl] by (simp add: set_item_mark)
next
  case (Inr r)
  obtain a b n where r: "r = (a, b, n)" by (cases r)
  note range = parseItem_range [OF Inr [unfolded r]]
  have "mark low (high - low + 1) (range_end (high - low + 1) a b) n a xs
      = Some (Inr (marked (steps_to low (high - low + 1) (range_end (high - low + 1) a b) n a) xs))"
    using assms Inr r range by (intro mark_selects) (simp_all add: field_ok_def item_step_small_def range_end_def)
  then show ?thesis by (simp add: set_item_mark item_selects_def [abs_def] Inr r)
qed

text \<open>
  A field of a cron expression is a list of values, ranges and steps; setRange marks exactly the values they select, a
  reversed range going on from the field's start, and fails when an item is malformed. This holds as long as no step comes
  within 200 of the largest 64-bit integer.
\<close>

theorem setRange_selects:
  assumes "field_ok low high names" and "list_all (item_step_small low high names) (go_split (CHR '','') field)"
    and "int (length xs) = high + 1"
  shows "setRange xs field low high names =
    (if list_ex (\<lambda>item. isl (parseItem item low high names)) (go_split (CHR '','') field) then Some (Inl ErrField)
     else Some (Inr (marked (\<lambda>i. list_ex (\<lambda>item. item_selects low high names item i) (go_split (CHR '','') field)) xs)))"
proof -
  have "set_items is low high names xs =
      (if list_ex (\<lambda>item. isl (parseItem item low high names)) is then Some (Inl ErrField)
       else Some (Inr (marked (\<lambda>i. list_ex (\<lambda>item. item_selects low high names item i) is) xs)))"
    if "list_all (item_step_small low high names) is" "int (length xs) = high + 1" for "is" xs
    using that
  proof (induction "is" arbitrary: xs)
    case (Cons item "is")
    then show ?case using set_item_selects [OF assms(1), of item xs]
      by (simp add: marked_marked) (simp add: marked_def)
  qed simp
  then show ?thesis using assms by (simp add: setRange_def)
qed

theorem setRange_selects_witness:
  "marked (\<lambda>i. list_ex (\<lambda>item. item_selects 0 7 weekdayName item i) [''fri-mon'', ''3'']) (replicate 8 False)
     = [True, True, False, True, False, True, True, True]"
proof -
  have "go_split (CHR '','') ''fri-mon,3'' = [''fri-mon'', ''3'']" by code_simp
  moreover have "list_all (item_step_small 0 7 weekdayName) [''fri-mon'', ''3'']" by code_simp
  moreover have "\<not> list_ex (\<lambda>item. isl (parseItem item 0 7 weekdayName)) [''fri-mon'', ''3'']" by code_simp
  moreover have "setRange (replicate 8 False) ''fri-mon,3'' 0 7 weekdayName
      = Some (Inr [True, True, False, True, False, True, True, True])" by code_simp
  ultimately show ?thesis
    using setRange_selects [of 0 7 weekdayName "''fri-mon,3''" "replicate 8 False"] by simp
qed

subsection \<open>Every text is answered\<close>

lemma parseDays_returns: "returns (parseDays field)"
proof -
  have "returns (day_item item d)" for item d
    by (auto simp: day_item_def intro!: returns_and_then setRange_returns split: sum.split)
  then have "returns (day_items is d)" for "is" d by (induction "is" arbitrary: d) auto
  then show ?thesis by (simp add: parseDays_def)
qed

lemma parseWeekdays_returns: "returns (parseWeekdays field)"
proof -
  have "returns (weekday_item sole item w)" for sole item w
    by (auto simp: weekday_item_def nth_item_def Let_def intro!: returns_and_then setRange_returns split: sum.split option.split)
  then have "returns (weekday_items sole is w)" for sole "is" w by (induction "is" arbitrary: w) auto
  then show ?thesis by (simp add: parseWeekdays_def Let_def)
qed

lemma parse_fields_returns: "returns (parse_fields normalized parts)"
  unfolding parse_fields_def by (intro returns_and_then setRange_returns parseDays_returns parseWeekdays_returns) simp_all

lemma ParseCron_total: "\<exists>r. ParseCron s = Some r"
proof -
  have "returns (or_invalid s (parse_fields normalized parts))" for normalized parts
    using parse_fields_returns [of normalized parts]
    by (auto simp: returns_def or_invalid_def split: option.split sum.split cron_error.split)
  then have "returns (ParseCron s)"
    unfolding ParseCron_def Let_def by (auto split: sum.split)
  then show ?thesis by (simp add: returns_def)
qed


subsection \<open>Well-formed schedules\<close>

lemma mark_length: "mark low sz to step v xs = Some (Inr ys) \<Longrightarrow> length ys = length xs"
proof -
  assume marked: "mark low sz to step v xs = Some (Inr ys)"
  have "\<forall>ys. r = Inr ys \<longrightarrow> length ys = length xs" if "mark low sz to step v xs = Some r" for r
    by (rule mark.raw_induct [OF _ that]) (fastforce simp: set_at_def split: if_splits sum.splits)
  from this [OF marked] show ?thesis by simp
qed

lemma setRange_length: "setRange xs field low high names = Some (Inr ys) \<Longrightarrow> length ys = length xs"
proof -
  have "set_items is low high names xs = Some (Inr ys) \<Longrightarrow> length ys = length xs" for "is"
    by (induction "is" arbitrary: xs)
      (auto simp: and_then_Inr set_item_mark split: sum.splits prod.splits dest!: mark_length)
  then show "setRange xs field low high names = Some (Inr ys) \<Longrightarrow> length ys = length xs" by (simp add: setRange_def)
qed

definition days_wf :: "dayMatcher \<Rightarrow> bool" where
  "days_wf d \<longleftrightarrow> length (dmDays d) = 32"

definition weekdays_wf :: "weekdayMatcher \<Rightarrow> bool" where
  "weekdays_wf w \<longleftrightarrow> length (wmWeekdays w) = 7 \<and> length (wmNth w) = 7 \<and> (\<forall>ns\<in>set (wmNth w). length ns = 6)"

definition cron_wf :: "Cron \<Rightarrow> bool" where
  "cron_wf c \<longleftrightarrow> length (crMinutes c) = 60 \<and> length (crHours c) = 24 \<and> length (crMonths c) = 13
     \<and> days_wf (crDays c) \<and> weekdays_wf (crWeekdays c)"

lemma set_all_length: "set_all is xs = Inr ys \<Longrightarrow> length ys = length xs"
  by (induction "is" arbitrary: xs) (fastforce simp: set_at_def split: if_splits sum.splits)+

lemma parseDays_wf:
  assumes "parseDays field = Some (Inr d)"
  shows "days_wf d"
proof -
  have step: "days_wf e'" if "day_item item e = Some (Inr e')" "days_wf e" for item e e'
    using that by (auto simp: day_item_def days_wf_def and_then_Inr set_at_def
        split: if_splits sum.splits dest: set_all_length setRange_length)
  have "days_wf e'" if "day_items is e = Some (Inr e')" "days_wf e" for "is" e e'
    using that by (induction "is" arbitrary: e) (auto simp: and_then_Inr dest: step)
  then show ?thesis using assms by (auto simp: parseDays_def days_wf_def)
qed

lemma parseWeekdays_wf:
  assumes "parseWeekdays field = Some (Inr w)"
  shows "weekdays_wf w"
proof -
  have step: "weekdays_wf v'" if item: "weekday_item sole item v = Some (Inr v')" "weekdays_wf v" for sole item v v'
  proof (cases "go_cut (CHR ''#'') item")
    case None
    have "length (foldl (\<lambda>ws d. ws[d mod 7 := f ws d]) ws ds) = length ws" for f and ds :: "nat list" and ws :: "bool list"
      by (induction ds arbitrary: ws) simp_all
    then show ?thesis using item None by (auto simp: weekday_item_def weekdays_wf_def and_then_Inr)
  next
    case (Some parts)
    then obtain d n where "v' = v\<lparr>wmNth := (wmNth v)[d := (wmNth v ! d)[n := True]]\<rparr>" "d < 7"
      using item(1) by (auto simp: weekday_item_def nth_item_def Let_def split: prod.splits if_splits sum.splits option.splits)
    then show ?thesis using item(2) set_update_subset_insert [of "wmNth v" d "(wmNth v ! d)[n := True]"]
      by (fastforce simp: weekdays_wf_def)
  qed
  have "weekdays_wf v'" if "weekday_items sole is v = Some (Inr v')" "weekdays_wf v" for sole "is" v v'
    using that by (induction "is" arbitrary: v) (auto simp: and_then_Inr dest: step)
  then show ?thesis using assms by (auto simp: parseWeekdays_def Let_def weekdays_wf_def)
qed

text \<open>What a schedule is parsed from.\<close>

lemma or_invalid_Inr [simp]: "or_invalid s r = Some (Inr c) \<longleftrightarrow> r = Some (Inr c)"
  by (auto simp: or_invalid_def split: option.splits sum.splits cron_error.splits)

lemma ParseCron_Inr:
  "ParseCron s = Some (Inr c) \<longleftrightarrow>
     (\<exists>normalized expanded. cron_fields s = Inr (normalized, expanded)
        \<and> (let parts = go_split (CHR '' '') expanded
           in length parts = 5 \<and> CHR ''?'' \<notin> set (parts ! 0 @ parts ! 1 @ parts ! 3)
              \<and> parse_fields normalized parts = Some (Inr c))
        \<and> Next c (utc_date 2000 1 1 0 0 0 0) \<noteq> None)"
  by (auto simp: ParseCron_def Let_def and_then_Inr split: sum.splits if_splits)

lemma parse_fields_wf: "parse_fields normalized parts = Some (Inr c) \<Longrightarrow> cron_wf c \<and> crExpression c = normalized"
  by (auto simp: parse_fields_def and_then_Inr cron_wf_def dest!: setRange_length parseDays_wf parseWeekdays_wf)

lemma ParseCron_wf: "ParseCron s = Some (Inr c) \<Longrightarrow> cron_wf c"
  by (auto simp: ParseCron_Inr Let_def dest: parse_fields_wf)

subsection \<open>Normalized text\<close>

definition words :: "string list \<Rightarrow> bool" where
  "words ws \<longleftrightarrow> (\<forall>w\<in>set ws. w \<noteq> [] \<and> list_all (\<lambda>c. \<not> is_space c) w)"

lemma split_on_ne [simp]: "split_on P s \<noteq> []"
  by (induction s) (simp_all add: Let_def)

lemma split_on_word: "list_all (\<lambda>c. \<not> P c) w \<Longrightarrow> split_on P w = [w]"
  by (induction w) simp_all

lemma split_on_first: "list_all (\<lambda>c. \<not> P c) w \<Longrightarrow> P b \<Longrightarrow> split_on P (w @ b # s) = w # split_on P s"
  by (induction w) simp_all

lemma split_on_words: "w \<in> set (split_on P s) \<Longrightarrow> list_all (\<lambda>c. \<not> P c) w"
proof (induction s arbitrary: w)
  case (Cons c s)
  show ?case
  proof (cases "P c \<or> w \<in> set (split_on P s)")
    case True
    then show ?thesis using Cons by (auto simp: Let_def split: if_splits dest: list.set_sel(2) [OF split_on_ne])
  next
    case False
    then have "w = c # hd (split_on P s)" using Cons.prems by (auto simp: Let_def dest: list.set_sel(2) [OF split_on_ne])
    then show ?thesis using False Cons.IH [OF list.set_sel(1) [OF split_on_ne]] by simp
  qed
qed simp

lemma go_fields_words: "words (go_fields s)"
  by (auto simp: words_def go_fields_def dest: split_on_words)

lemma go_fields_join: "words ws \<Longrightarrow> go_fields (join_with '' '' ws) = ws"
proof (induction "'' ''" ws rule: join_with.induct)
  case (3 w v ws)
  then show ?case by (auto simp: go_fields_def words_def split_on_first is_space_def)
qed (auto simp: go_fields_def words_def split_on_word)

lemma map_join: "map f (join_with sep ws) = join_with (map f sep) (map (map f) ws)"
  by (induction sep ws rule: join_with.induct) simp_all

lemma normalize_join: "normalize s = join_with '' '' (map (map lower_char) (go_fields s))"
  by (simp add: normalize_def map_join lower_char_def)

lemma words_lower: "words ws \<Longrightarrow> words (map (map lower_char) ws)"
  by (auto simp: words_def list_all_iff)

lemma normalize_words:
  assumes "words ws" and "\<And>w. w \<in> set ws \<Longrightarrow> map lower_char w = w"
  shows "normalize (join_with '' '' ws) = join_with '' '' ws"
  using assms by (simp add: normalize_join go_fields_join map_idI)

lemma normalize_normalize [simp]: "normalize (normalize s) = normalize s"
  by (subst (2) normalize_join, subst normalize_words) (auto simp: words_lower go_fields_words normalize_join)

text \<open>The fields of an interval.\<close>

definition interval_words :: "int \<Rightarrow> char \<Rightarrow> string list" where
  "interval_words n u =
     (if u = CHR ''m'' then [''*/'' @ print_nat (nat n), ''*'', ''*'', ''*'', ''*'']
      else if u = CHR ''h'' then [''0'', ''*/'' @ print_nat (nat n), ''*'', ''*'', ''*'']
      else [''0'', ''0'', ''*/'' @ print_nat (nat n), ''*'', ''*''])"

lemma interval_fields_words: "interval_fields n u = join_with '' '' (interval_words n u)"
  by (simp add: interval_fields_def interval_words_def)

lemma normalize_interval: "normalize (interval_fields n u) = interval_fields n u"
  unfolding interval_fields_words
proof (rule normalize_words)
  have c: "\<not> is_space (CHR ''*'')" "\<not> is_space (CHR ''/'')" "\<not> is_space (CHR ''0'')"
    "lower_char (CHR ''*'') = CHR ''*''" "lower_char (CHR ''/'') = CHR ''/''" "lower_char (CHR ''0'') = CHR ''0''"
    by code_simp+
  show "words (interval_words n u)"
    by (simp add: interval_words_def words_def print_nat_word c)
  show "map lower_char w = w" if "w \<in> set (interval_words n u)" for w
    using that by (auto simp: interval_words_def print_nat_word c split: if_splits)
qed

lemma cron_fields_again:
  assumes "cron_fields s = Inr (normalized, expanded)"
  shows "cron_fields normalized = Inr (normalized, expanded)"
proof -
  have "normalize s = [] \<Longrightarrow> cron_fields s = Inl (InvalidCron ''cron expression is required'')"
    by (simp add: cron_fields_def Let_def)
  with assms have ne: "normalize s \<noteq> []" by force
  consider (interval) n u where "normalized = interval_fields n u" "expanded = normalized"
    | (kept) "normalized = normalize s" "cron_fields s = cron_fields normalized"
  proof (cases "intervalPattern (normalize s)")
    case None
    then have "normalized = normalize s"
      using assms ne by (simp add: cron_fields_def Let_def split: if_splits option.splits)
    moreover have "cron_fields (normalize s) = cron_fields s" using None ne by (simp add: cron_fields_def Let_def)
    ultimately show thesis using kept by simp
  next
    case (Some r)
    then obtain ds u n where "cron_fields s = Inr (interval_fields n u, interval_fields n u)"
      using assms ne by (cases r) (auto simp: cron_fields_def Let_def split: if_splits option.splits)
    then show thesis using interval assms by simp
  qed
  then show ?thesis
  proof cases
    case interval
    have "interval_fields n u \<noteq> []" "hd (interval_fields n u) \<in> {CHR ''*'', CHR ''0''}"
      by (simp_all add: interval_fields_def)
    moreover from this have "intervalPattern (interval_fields n u) = None"
      by (cases "interval_fields n u") (auto simp: intervalPattern_def Let_def)
    ultimately show ?thesis using interval by (auto simp: cron_fields_def Let_def normalize_interval)
  next
    case kept
    then show ?thesis using assms by simp
  qed
qed

text \<open>
  C32: The normalized expression of a schedule, which releases keep, parses to the same schedule.
\<close>

theorem ParseCron_roundtrip:
  assumes "ParseCron s = Some (Inr c)"
  shows "ParseCron (crExpression c) = Some (Inr c)"
proof -
  from assms obtain normalized expanded where "cron_fields s = Inr (normalized, expanded)" "crExpression c = normalized"
    by (auto simp: ParseCron_Inr Let_def dest: parse_fields_wf)
  then show ?thesis using assms cron_fields_again [of s normalized expanded] by (simp add: ParseCron_Inr)
qed

lemma map_sum_Inr: "map_option (map_sum id f) r = Some (Inr y) \<longleftrightarrow> (\<exists>x. r = Some (Inr x) \<and> f x = y)"
  by (cases r rule: option.exhaust) (auto simp: map_sum_def split: sum.splits)

theorem ParseCron_roundtrip_witness:
  "\<exists>c. ParseCron ''  Every   5M '' = Some (Inr c) \<and> ParseCron ''*/5 * * * *'' = Some (Inr c)"
proof -
  have "map_option (map_sum id crExpression) (ParseCron ''  Every   5M '') = Some (Inr ''*/5 * * * *'')" by code_simp
  then obtain c where c: "ParseCron ''  Every   5M '' = Some (Inr c)" "crExpression c = ''*/5 * * * *''" unfolding map_sum_Inr by blast
  from ParseCron_roundtrip [OF c(1)] show ?thesis using c by auto
qed


end
