(* ===== verification/CronTimes.thy ===== *)
theory CronTimes
  imports CronText
begin

text \<open>
  The minutes a cron expression matches and what \<open>Next\<close> returns of them: the first one after an instant, found by
  skipping days and hours that hold none, or nothing when the next 28 years hold none.
\<close>

subsection \<open>Instants as days, hours and minutes\<close>

lemma clock_unique:
  assumes u: "u = (n - unix_epoch_day) * (24 * hour) + h * hour + mi * minute + r"
    and "0 \<le> h" "h < 24" "0 \<le> mi" "mi < 60" "0 \<le> r" "r < minute"
  shows "day_of u = n" and "hour_of u = h" and "minute_of u = mi" and "u mod minute = r"
proof -
  have h: "0 \<le> mi * minute + r" "mi * minute + r < hour" using assms by linarith+
  have d: "0 \<le> h * hour + (mi * minute + r)" "h * hour + (mi * minute + r) < 24 * hour" using h assms(2,3) by linarith+
  have "u div (24 * hour) = n - unix_epoch_day"
    by (rule int_div_pos_eq [where r = "h * hour + (mi * minute + r)"]) (insert d u, linarith+)
  then show "day_of u = n" by (simp only: day_of_def)
  have "u mod (24 * hour) = h * hour + (mi * minute + r)"
    by (rule int_mod_pos_eq [where q = "n - unix_epoch_day"]) (insert d u, linarith+)
  moreover have "(h * hour + (mi * minute + r)) div hour = h"
    by (rule int_div_pos_eq [where r = "mi * minute + r"]) (insert h, linarith+)
  ultimately show "hour_of u = h" by (simp only: hour_of_def)
  have "u mod hour = mi * minute + r"
    by (rule int_mod_pos_eq [where q = "(n - unix_epoch_day) * 24 + h"]) (insert h u, simp_all add: algebra_simps)
  moreover have "(mi * minute + r) div minute = mi"
    by (rule int_div_pos_eq [where r = r]) (insert assms, linarith+)
  ultimately show "minute_of u = mi" by (simp only: minute_of_def)
  show "u mod minute = r"
    by (rule int_mod_pos_eq [where q = "(n - unix_epoch_day) * 1440 + h * 60 + mi"]) (insert assms, simp_all add: algebra_simps)
qed

lemma date_at_clock:
  assumes "0 \<le> h" "h < 24" "0 \<le> mi" "mi < 60"
  shows "day_of (date_at t d h mi) = day_of t + d" "hour_of (date_at t d h mi) = h"
    "minute_of (date_at t d h mi) = mi" "date_at t d h mi mod minute = 0"
  by (rule clock_unique [where n = "day_of t + d" and h = h and mi = mi and r = 0]; use assms in \<open>simp add: date_at_eq\<close>)+

lemmas date_at_linear = date_at_eq left_diff_distrib distrib_right

lemma clock_bounds:
  "date_at t 0 0 0 \<le> t" "t < date_at t 1 0 0"
  "date_at t 0 (hour_of t) 0 \<le> t" "t < date_at t 0 (hour_of t + 1) 0"
  "date_at t 0 (hour_of t) (minute_of t) \<le> t" "t < date_at t 0 (hour_of t) (minute_of t + 1)"
proof -
  define r where "r = t mod minute"
  have "0 \<le> r" "r < minute" by (simp_all add: r_def)
  moreover have "t = date_at t 0 (hour_of t) (minute_of t) + r" unfolding r_def by (rule instant_split)
  moreover note clock_range [of t]
  ultimately show "date_at t 0 0 0 \<le> t" "t < date_at t 1 0 0"
    "date_at t 0 (hour_of t) 0 \<le> t" "t < date_at t 0 (hour_of t + 1) 0"
    "date_at t 0 (hour_of t) (minute_of t) \<le> t" "t < date_at t 0 (hour_of t) (minute_of t + 1)"
    unfolding date_at_linear by linarith+
qed

text \<open>The rest of an instant's day and of its hour.\<close>

lemma same_day:
  assumes "t \<le> u" "u < date_at t 1 0 0"
  shows "day_of u = day_of t"
  using assms clock_bounds(1,2) [of t] clock_bounds(1,2) [of u] unfolding date_at_linear by linarith

lemma same_hour:
  assumes "t \<le> u" "u < date_at t 0 (hour_of t + 1) 0"
  shows "day_of u = day_of t" "hour_of u = hour_of t"
proof -
  have "u < date_at t 1 0 0" using assms(2) clock_range [of t] unfolding date_at_linear by linarith
  with assms(1) show d: "day_of u = day_of t" by (rule same_day)
  show "hour_of u = hour_of t"
    using assms d clock_bounds(3,4) [of t] clock_bounds(3,4) [of u] unfolding date_at_linear by linarith
qed

lemma minute_mono:
  assumes "t \<le> u" "day_of u = day_of t" "hour_of u = hour_of t"
  shows "minute_of t \<le> minute_of u"
  using assms clock_bounds(5,6) [of t] clock_bounds(5,6) [of u] unfolding date_at_linear by linarith

lemma whole_minute: "t mod minute = 0 \<Longrightarrow> t = date_at t 0 (hour_of t) (minute_of t)"
  using instant_split [of t] by linarith

subsection \<open>The minutes an expression matches\<close>

definition cron_matches :: "Cron \<Rightarrow> time \<Rightarrow> bool" where
  "cron_matches c t \<longleftrightarrow> t mod minute = 0 \<and> dayMatches c t \<and> crHours c ! nat (hour_of t) \<and> crMinutes c ! nat (minute_of t)"

lemma dayMatches_day: "day_of u = day_of t \<Longrightarrow> dayMatches c u = dayMatches c t"
  by (simp add: dayMatches_def days_match_def weekdays_match_def)

text \<open>A minute with its match, and the absence of one before an instant.\<close>

definition first_match :: "Cron \<Rightarrow> time \<Rightarrow> time \<Rightarrow> time option \<Rightarrow> bool" where
  "first_match c t limit r \<longleftrightarrow>
     (case r of
        Some s \<Rightarrow> t \<le> s \<and> cron_matches c s \<and> (\<forall>u. t \<le> u \<longrightarrow> u < s \<longrightarrow> \<not> cron_matches c u)
      | None \<Rightarrow> \<forall>u. t \<le> u \<longrightarrow> u < limit \<longrightarrow> \<not> cron_matches c u)"

lemma first_match_skip:
  assumes "first_match c t' limit r" and "t \<le> t'" and "\<And>u. t \<le> u \<Longrightarrow> u < t' \<Longrightarrow> \<not> cron_matches c u"
  shows "first_match c t limit r"
  using assms unfolding first_match_def by (auto split: option.splits) (meson not_le)+

lemma next_minute_SomeD:
  assumes "next_minute ms m = Some k"
  shows "m \<le> k" "k \<le> 59" "ms ! nat k" "\<And>j. m \<le> j \<Longrightarrow> j < k \<Longrightarrow> \<not> ms ! nat j"
proof -
  from assms obtain i where i: "i < length [m..59]" "ms ! nat ([m..59] ! i)" "k = [m..59] ! i"
    and before: "\<And>j. j < i \<Longrightarrow> \<not> ms ! nat ([m..59] ! j)"
    by (auto simp: next_minute_def find_Some_iff)
  from i have k: "k = m + int i" by (simp add: nth_upto)
  show "m \<le> k" "k \<le> 59" "ms ! nat k" using i k by auto
  fix j assume "m \<le> j" "j < k"
  then show "\<not> ms ! nat j" using before [of "nat (j - m)"] i k by (simp add: nth_upto)
qed

lemma next_minute_NoneD: "next_minute ms m = None \<Longrightarrow> m \<le> k \<Longrightarrow> k \<le> 59 \<Longrightarrow> \<not> ms ! nat k"
  by (auto simp: next_minute_def find_None_iff)

lemma next_loop_first: "t mod minute = 0 \<Longrightarrow> first_match c t limit (next_loop c limit t)"
proof (induction c limit t rule: next_loop.induct)
  case (1 c limit t)
  note clock = clock_range [of t]
  consider (over) "\<not> t < limit" | (day) "t < limit" "\<not> dayMatches c t"
    | (found) m where "t < limit" "dayMatches c t" "crHours c ! nat (hour_of t)" "next_minute (crMinutes c) (minute_of t) = Some m"
    | (hour) "t < limit" "dayMatches c t" "crHours c ! nat (hour_of t) \<Longrightarrow> next_minute (crMinutes c) (minute_of t) = None"
    by (cases "next_minute (crMinutes c) (minute_of t)") auto
  then show ?case
  proof cases
    case over
    then show ?thesis by (subst next_loop.simps) (simp add: first_match_def)
  next
    case day
    then have "first_match c (date_at t 1 0 0) limit (next_loop c limit (date_at t 1 0 0))"
      by (intro "1.IH"(1)) (simp_all add: date_at_eq)
    moreover have "\<not> cron_matches c u" if "t \<le> u" "u < date_at t 1 0 0" for u
      using day(2) dayMatches_day [OF same_day [OF that]] by (simp add: cron_matches_def)
    ultimately have "first_match c t limit (next_loop c limit (date_at t 1 0 0))"
      by (rule first_match_skip [OF _ less_imp_le [OF next_day_later]])
    then show ?thesis by (subst next_loop.simps) (simp add: day)
  next
    case (found m)
    note m = next_minute_SomeD [OF found(4)]
    let ?s = "date_at t 0 (hour_of t) m"
    have s: "day_of ?s = day_of t" "hour_of ?s = hour_of t" "minute_of ?s = m" "?s mod minute = 0"
      using m(1,2) clock date_at_clock [of "hour_of t" m t 0] by simp_all
    have "t \<le> ?s" using m(1) whole_minute [OF "1.prems"] unfolding date_at_linear by linarith
    moreover have "cron_matches c ?s" using s m(3) found(2,3) dayMatches_day [OF s(1)] by (simp add: cron_matches_def)
    moreover have "\<not> cron_matches c u" if u: "t \<le> u" "u < ?s" for u
    proof
      assume match: "cron_matches c u"
      have "u < date_at t 0 (hour_of t + 1) 0" using u(2) m(2) unfolding date_at_linear by linarith
      note same = same_hour [OF u(1) this]
      have "u = date_at t 0 (hour_of t) (minute_of u)"
        using whole_minute [of u] match same by (simp add: cron_matches_def date_at_eq)
      then have "minute_of u < m" using u(2) unfolding date_at_linear by linarith
      then show False using m(4) [OF minute_mono [OF u(1) same]] match by (simp add: cron_matches_def)
    qed
    ultimately show ?thesis by (subst next_loop.simps) (simp add: found first_match_def)
  next
    case hour
    let ?t = "date_at t 0 (hour_of t + 1) 0"
    have "?t mod minute = 0" by (simp add: date_at_eq)
    then have "first_match c ?t limit (next_loop c limit ?t)"
      using hour by (intro "1.IH"(2)) auto
    moreover have "\<not> cron_matches c u" if u: "t \<le> u" "u < ?t" for u
      using next_minute_NoneD [OF hour(3) minute_mono [OF u(1) same_hour [OF u]]] same_hour [OF u] clock_range [of u]
      by (auto simp: cron_matches_def)
    ultimately have "first_match c t limit (next_loop c limit ?t)"
      by (rule first_match_skip [OF _ less_imp_le [OF next_hour_later]])
    then show ?thesis using hour by (subst next_loop.simps) (auto split: option.splits)
  qed
qed

lemma next_whole_minute:
  assumes "t mod minute = 0" "after < t"
  shows "after - after mod minute + minute \<le> t"
proof -
  have "t = t div minute * minute" "after = after div minute * minute + after mod minute" "0 \<le> after mod minute"
    using assms(1) by auto
  moreover from this have "after div minute < t div minute" using assms(2) by linarith
  ultimately show ?thesis by linarith
qed

lemma Next_first:
  "case Next c after of
     Some t \<Rightarrow> after < t \<and> cron_matches c t \<and> (\<forall>u. after < u \<and> cron_matches c u \<longrightarrow> t \<le> u)
   | None \<Rightarrow> \<forall>u. after < u \<and> cron_matches c u \<longrightarrow> add_years (after - after mod minute + minute) searchYears \<le> u"
proof -
  let ?t = "after - after mod minute + minute"
  have "?t mod minute = 0" by simp
  from next_loop_first [OF this] have "first_match c ?t (add_years ?t searchYears) (Next c after)"
    by (simp only: Next_def Let_def)
  moreover have "after < ?t" using pos_mod_bound [of minute after] by linarith
  moreover have "?t \<le> u" if "after < u" "cron_matches c u" for u
    using that next_whole_minute by (simp add: cron_matches_def)
  ultimately show ?thesis unfolding first_match_def by (fastforce split: option.splits)
qed

text \<open>A match within the search is found.\<close>

lemma Next_found:
  assumes "cron_matches c u" "after < u" "u < add_years (after - after mod minute + minute) searchYears"
  shows "Next c after \<noteq> None"
proof
  assume "Next c after = None"
  then show False using Next_first [where c = c and after = after] assms by (simp add: not_le [symmetric])
qed

text \<open>
  C22: Next returns the first whole minute after an instant that the expression matches, by month, day, hour and minute:
  it is later than the instant, it matches, and every later minute that matches is no earlier. When it returns none, no
  minute matches before the same date and time 28 years on.
\<close>

theorem Next_first_match:
  "case Next c after of
     Some t \<Rightarrow> after < t \<and> cron_matches c t \<and> (\<forall>u. after < u \<and> cron_matches c u \<longrightarrow> t \<le> u)
   | None \<Rightarrow> \<forall>u. after < u \<and> cron_matches c u \<longrightarrow> add_years (after - after mod minute + minute) searchYears \<le> u"
  by (rule Next_first)

theorem Next_first_match_witness:
  "\<exists>c. ParseCron ''30 9 * * *'' = Some (Inr c) \<and> Next c 0 = Some (utc_date 1970 1 1 9 30 0 0) \<and> cron_matches c (utc_date 1970 1 1 9 30 0 0)"
proof -
  have "map_option (map_sum id (\<lambda>c. Next c 0)) (ParseCron ''30 9 * * *'') = Some (Inr (Some (utc_date 1970 1 1 9 30 0 0)))"
    by code_simp
  then obtain c where c: "ParseCron ''30 9 * * *'' = Some (Inr c)" "Next c 0 = Some (utc_date 1970 1 1 9 30 0 0)"
    unfolding map_sum_Inr by blast
  then show ?thesis using Next_first_match [where c = c and after = 0] by auto
qed

subsection \<open>Timetables\<close>

text \<open>
  What a scheduler relies on: the next run after an instant is later, is a run, is the first one, and runs are whole minutes.
\<close>

locale timetable =
  fixes next_run :: "'c \<Rightarrow> time \<Rightarrow> time option" and runs_at :: "'c \<Rightarrow> time \<Rightarrow> bool"
  assumes later: "next_run c now = Some t \<Longrightarrow> now < t"
    and runs: "next_run c now = Some t \<Longrightarrow> runs_at c t"
    and earliest: "next_run c now = Some t \<Longrightarrow> now < u \<Longrightarrow> runs_at c u \<Longrightarrow> t \<le> u"
    and whole: "runs_at c t \<Longrightarrow> t mod minute = 0"
begin

lemma next_minute_on: "next_run c now = Some t \<Longrightarrow> (now div minute + 1) * minute \<le> t"
  using next_whole_minute [of t now] later whole [OF runs] minus_mod_eq_div_mult [of now minute] by (simp add: distrib_right)

text \<open>A later instant has a later next run, and the same one up to that run.\<close>

lemma next_mono: "next_run c a = Some s \<Longrightarrow> next_run c b = Some t \<Longrightarrow> a \<le> b \<Longrightarrow> s \<le> t"
  using earliest [of c a s t] later [of c b t] runs [of c b t] by linarith

lemma next_stable: "next_run c a = Some s \<Longrightarrow> next_run c b = Some t \<Longrightarrow> a \<le> b \<Longrightarrow> b < s \<Longrightarrow> t = s"
  using next_mono [of c a s b t] earliest [of c b t s] runs [of c a s] by simp

end

interpretation cron: timetable Next cron_matches
proof
  fix c and now t u :: time
  show "cron_matches c t \<Longrightarrow> t mod minute = 0" by (simp add: cron_matches_def)
  assume n: "Next c now = Some t"
  then show "now < t" "cron_matches c t" "now < u \<Longrightarrow> cron_matches c u \<Longrightarrow> t \<le> u"
    using Next_first [where c = c and after = now] by simp_all
qed

subsection \<open>Schedules that fire\<close>

text \<open>The indices of an instant in the arrays of a schedule.\<close>

definition clock_indices :: "Cron \<Rightarrow> time \<Rightarrow> bool" where
  "clock_indices c t \<longleftrightarrow>
     nat (month_of (day_of t)) < length (crMonths c) \<and> nat (mday_of (day_of t)) < length (dmDays (crDays c))
     \<and> nat (weekday_of (day_of t)) < length (wmWeekdays (crWeekdays c)) \<and> nat (weekday_of (day_of t)) < length (wmNth (crWeekdays c))
     \<and> nat ((mday_of (day_of t) - 1) div 7 + 1) < length (wmNth (crWeekdays c) ! nat (weekday_of (day_of t)))
     \<and> nat (hour_of t) < length (crHours c) \<and> nat (minute_of t) < length (crMinutes c)"

lemma weekday_of_range: "0 \<le> weekday_of n" "weekday_of n < 7"
  by (simp_all add: weekday_of_def)

lemma cron_wf_indices: "cron_wf c \<Longrightarrow> clock_indices c t"
proof -
  assume wf: "cron_wf c"
  let ?w = "nat (weekday_of (day_of t))"
  have w: "?w < 7" using weekday_of_range [of "day_of t"] by linarith
  then have "length (wmNth (crWeekdays c) ! ?w) = 6" using wf by (simp add: cron_wf_def weekdays_wf_def)
  moreover have "nat (month_of (day_of t)) < 13" using month_of_range [of "day_of t"] by linarith
  moreover have "nat (mday_of (day_of t)) < 32" using mday_of_31 [of "day_of t"] by linarith
  moreover have "nat ((mday_of (day_of t) - 1) div 7 + 1) < 6"
  proof -
    have "(mday_of (day_of t) - 1) div 7 \<le> 30 div 7" using mday_of_31 [of "day_of t"] by (intro zdiv_mono1) simp_all
    then show ?thesis by simp
  qed
  moreover have "nat (hour_of t) < 24" "nat (minute_of t) < 60" using clock_range [of t] by linarith+
  ultimately show ?thesis using w wf by (simp add: clock_indices_def cron_wf_def days_wf_def weekdays_wf_def)
qed

text \<open>
  C37: A schedule that ParseCron accepts has arrays of the declared sizes, so that no instant indexes past them, and it
  fires: some minute after 2000 matches it.
\<close>

theorem ParseCron_accepts:
  assumes "ParseCron s = Some (Inr c)"
  shows "cron_wf c \<and> (\<forall>t. clock_indices c t) \<and> (\<exists>t. utc_date 2000 1 1 0 0 0 0 < t \<and> cron_matches c t)"
proof (intro conjI)
  show "cron_wf c" using assms by (rule ParseCron_wf)
  then show "\<forall>t. clock_indices c t" by (simp add: cron_wf_indices)
  from assms obtain t where "Next c (utc_date 2000 1 1 0 0 0 0) = Some t" by (auto simp: ParseCron_Inr)
  then show "\<exists>t. utc_date 2000 1 1 0 0 0 0 < t \<and> cron_matches c t"
    using Next_first [where c = c and after = "utc_date 2000 1 1 0 0 0 0"] by auto
qed

theorem ParseCron_accepts_witness:
  "\<exists>c. ParseCron ''@hourly'' = Some (Inr c) \<and> length (crMinutes c) = 60 \<and> (\<exists>t. utc_date 2000 1 1 0 0 0 0 < t \<and> cron_matches c t)"
proof -
  have "map_option (map_sum id crExpression) (ParseCron ''@hourly'') = Some (Inr ''@hourly'')" by code_simp
  then obtain c where c: "ParseCron ''@hourly'' = Some (Inr c)" unfolding map_sum_Inr by blast
  from ParseCron_accepts [OF c] show ?thesis using c by (auto simp: cron_wf_def)
qed

subsection \<open>The bound of the search\<close>

lemma next_loop_limit: "next_loop c limit t = Some s \<Longrightarrow> s < limit + hour"
proof (induction c limit t rule: next_loop.induct)
  case (1 c limit t)
  show ?case
  proof (cases "t < limit \<and> dayMatches c t \<and> crHours c ! nat (hour_of t) \<and> next_minute (crMinutes c) (minute_of t) \<noteq> None")
    case True
    then obtain m where m: "next_minute (crMinutes c) (minute_of t) = Some m" by auto
    then have "s = date_at t 0 (hour_of t) m" using True "1.prems" by (subst (asm) next_loop.simps) simp
    then show ?thesis using True next_minute_SomeD(2) [OF m] clock_bounds(3) [of t] unfolding date_at_linear by linarith
  next
    case False
    then show ?thesis using 1 by (subst (asm) (2) next_loop.simps) (auto split: if_splits option.splits)
  qed
qed

text \<open>The fifth Monday of a February: the expression \<open>0 0 * 2 mon#5\<close>.\<close>

definition fifth_monday :: Cron where
  "fifth_monday =
     \<lparr>crExpression = ''0 0 * 2 mon#5'', crMinutes = map (\<lambda>i. i = 0) [0..<60], crHours = map (\<lambda>i. i = 0) [0..<24],
      crMonths = map (\<lambda>i. i = 2) [0..<13], crDays = \<lparr>dmDays = map (\<lambda>i. i \<noteq> 0) [0..<32], dmLast = False\<rparr>,
      crWeekdays = \<lparr>wmWeekdays = replicate 7 False, wmNth = map (\<lambda>d. map (\<lambda>n. d = 1 \<and> n = 5) [0..<6]) [0..<7]\<rparr>,
      crDayOr = False\<rparr>"

lemma fifth_monday_matches:
  "cron_matches fifth_monday t \<longleftrightarrow>
     t mod minute = 0 \<and> month_of (day_of t) = 2 \<and> 29 \<le> mday_of (day_of t) \<and> weekday_of (day_of t) = 1
     \<and> hour_of t = 0 \<and> minute_of t = 0"
proof -
  have "cron_wf fifth_monday" by (simp add: fifth_monday_def cron_wf_def days_wf_def weekdays_wf_def)
  then have i: "clock_indices fifth_monday t" by (rule cron_wf_indices)
  have r: "0 < month_of (day_of t)" "0 < mday_of (day_of t)" "0 \<le> hour_of t" "0 \<le> minute_of t" "0 \<le> weekday_of (day_of t)"
    using month_of_range [of "day_of t"] mday_of_range(1) [of "day_of t"] clock_range [of t] weekday_of_range(1) by simp_all
  have five: "nat ((mday_of (day_of t) - 1) div 7 + 1) = 5 \<longleftrightarrow> 29 \<le> mday_of (day_of t)"
    using mday_of_31 [of "day_of t"] by (simp add: nat_eq_iff) linarith
  show ?thesis
    using i r five by (auto simp: cron_matches_def dayMatches_def days_match_def weekdays_match_def clock_indices_def fifth_monday_def nat_eq_iff)
qed

lemma fifth_monday_days:
  assumes "cron_matches fifth_monday t"
  shows "leap_year (year_of (day_of t))" "weekday_of (day_number (year_of (day_of t)) 2 29) = 1"
proof -
  note m = assms [unfolded fifth_monday_matches]
  have "29 \<le> month_days (year_of (day_of t)) 2" using m mday_of_range(2) [of "day_of t"] by auto
  then show "leap_year (year_of (day_of t))" by (simp add: month_days_def split: if_splits)
  then have "mday_of (day_of t) = 29" using m mday_of_range(2) [of "day_of t"] by (simp add: month_days_def)
  then show "weekday_of (day_number (year_of (day_of t)) 2 29) = 1" using m day_number_of [of "day_of t"] by simp
qed

lemma fifth_monday_none:
  assumes "utc_date 2073 1 1 0 0 0 0 < t" and "t < utc_date 2102 1 1 0 0 0 0"
  shows "\<not> cron_matches fifth_monday t"
proof
  let ?y = "year_of (day_of t)"
  assume "cron_matches fifth_monday t"
  note days = fifth_monday_days [OF this]
  have "2073 \<le> ?y" "?y < 2102"
    by (rule year_of_between [of 2073 _ 2102]; use assms clock_bounds(1,2) [of t] in \<open>simp add: date_at_eq utc_date_def day_number_def days_before_month_def\<close>)+
  then have "?y \<in> set [2073..2101]" by (simp only: set_upto atLeastAtMost_iff) simp
  moreover have "list_all (\<lambda>y. leap_year y \<longrightarrow> weekday_of (day_number y 2 29) \<noteq> 1) [2073..2101]" by code_simp
  ultimately show False using days unfolding list_all_iff by blast
qed

lemma fifth_monday_parsed: "ParseCron ''0 0 * 2 mon#5'' = Some (Inr fifth_monday)"
proof -
  let ?soon = "utc_date 2016 2 29 0 0 0 0" and ?start = "utc_date 2000 1 1 0 0 0 0"
  have soon: "cron_matches fifth_monday ?soon" "?start < ?soon" by code_simp+
  have "?soon < add_years (?start - ?start mod minute + minute) searchYears" by code_simp
  with soon have "Next fifth_monday ?start \<noteq> None" by (rule Next_found)
  moreover have "cron_fields ''0 0 * 2 mon#5'' = Inr (''0 0 * 2 mon#5'', ''0 0 * 2 mon#5'')" by code_simp
  moreover have "go_split (CHR '' '') ''0 0 * 2 mon#5'' = [''0'', ''0'', ''*'', ''2'', ''mon#5'']" by code_simp
  moreover have "parse_fields ''0 0 * 2 mon#5'' [''0'', ''0'', ''*'', ''2'', ''mon#5''] = Some (Inr fifth_monday)" by code_simp
  ultimately show ?thesis by (simp add: ParseCron_Inr Let_def)
qed

lemma fifth_monday_stops: "Next fifth_monday (utc_date 2073 1 1 0 0 0 0) = None"
proof (rule ccontr)
  let ?from = "utc_date 2073 1 1 0 0 0 0"
  assume "Next fifth_monday ?from \<noteq> None"
  then obtain t where t: "Next fifth_monday ?from = Some t" by auto
  have "t < add_years (?from - ?from mod minute + minute) searchYears + hour"
    using t by (simp only: Next_def Let_def) (rule next_loop_limit)
  moreover have "add_years (?from - ?from mod minute + minute) searchYears + hour < utc_date 2102 1 1 0 0 0 0" by code_simp
  moreover have "?from < t" "cron_matches fifth_monday t"
    using t Next_first [where c = fifth_monday and after = ?from] by simp_all
  ultimately show False using fifth_monday_none [of t] by simp
qed

text \<open>
  The search of Next stops after 28 years although a schedule may fire later: a fifth Monday of February is the 29th of a
  leap year, which after 2072 next falls in 2112, past the century year 2100 that is no leap year. ParseCron accepts the
  expression, and from 2073 on Next reports that it never fires again.
\<close>

theorem Next_misses:
  "ParseCron ''0 0 * 2 mon#5'' = Some (Inr fifth_monday) \<and> cron_matches fifth_monday (utc_date 2112 2 29 0 0 0 0)
   \<and> Next fifth_monday (utc_date 2073 1 1 0 0 0 0) = None"
proof (intro conjI fifth_monday_parsed fifth_monday_stops)
  show "cron_matches fifth_monday (utc_date 2112 2 29 0 0 0 0)" by code_simp
qed

end
