(* ===== verification/Schedules.thy ===== *)
theory Schedules
  imports CronTimes
begin

text \<open>
  Schedules (\<open>internal/schedules/schedules.go\<close> and the queries of \<open>schedules.sql.go\<close>): the table of scheduled
  functions, the write of a deploy and the pass that fires what is due.

  A transaction reads the database's clock, finds rows that other transactions hold locked, and any of its statements may
  fail; all three are its environment. A failed transaction leaves the database as it was. Admission
  (\<open>Execution.SubmitInTx\<close> under its savepoint) is a parameter: it returns the tasks it made and the rest of the
  database, or why it made none. Identifiers are numbers. A panic is an error value.
\<close>

subsection \<open>The tables\<close>

record scheduleRow =
  srWorkloadID :: nat
  srExpression :: string
  srNextFireAt :: time
  srLastFiredAt :: "time option"
  srLastTaskID :: "nat option"
  srLastError :: "string option"
  srUpdatedAt :: time

text \<open>A workload joined with its app.\<close>

record workloadRow =
  woID :: nat
  woWorkspaceID :: nat
  woAppName :: string
  woFunction :: bool
  woName :: string

record LockDueSchedulesRow =
  duWorkloadID :: nat
  duExpression :: string
  duNextFireAt :: time
  duWorkspaceID :: nat
  duAppName :: string
  duFunctionName :: string
  duNow :: time

record RecordOccurrenceParams =
  roNextFireAt :: time
  roFiredAt :: "time option"
  roTaskID :: "nat option"
  roError :: "string option"
  roWorkloadID :: nat

record FireResult =
  frAdmitted :: nat
  frSkipped :: nat

text \<open>A function's schedule as users see it.\<close>

record Schedule =
  scExpression :: string
  scNextRunAt :: time
  scLastRunAt :: "time option"
  scLastTask :: "nat option"
  scLastError :: "string option"

text \<open>The database: the schedules, the workloads, the wake-ups sent, and what admission reads and writes.\<close>

record 'x scheduleDB =
  sdSchedules :: "scheduleRow list"
  sdWorkloads :: "workloadRow list"
  sdNotified :: "nat list"
  sdRest :: 'x

datatype dbStatement = BeginStmt | ReadStmt | DeleteStmt | ReplaceStmt | NotifyStmt | LockStmt | RecordStmt nat | CommitStmt

datatype schedule_error =
  DbError dbStatement | CronError cron_error | StoredInvalid string cron_error | NeverFires string | SchedulePanic

record txEnv =
  txClock :: time
  txNow :: time
  txLocked :: "nat \<Rightarrow> bool"
  txDown :: "dbStatement \<Rightarrow> bool"

subsection \<open>Queries\<close>

definition ScheduleExpression :: "nat \<Rightarrow> scheduleRow list \<Rightarrow> string option" where
  "ScheduleExpression w rows = map_option srExpression (find (\<lambda>r. srWorkloadID r = w) rows)"

definition DeleteSchedule :: "nat \<Rightarrow> scheduleRow list \<Rightarrow> scheduleRow list" where
  "DeleteSchedule w rows = filter (\<lambda>r. srWorkloadID r \<noteq> w) rows"

definition ReplaceSchedule :: "time \<Rightarrow> nat \<Rightarrow> string \<Rightarrow> time \<Rightarrow> scheduleRow list \<Rightarrow> scheduleRow list" where
  "ReplaceSchedule now w e next rows =
     (let row = \<lparr>srWorkloadID = w, srExpression = e, srNextFireAt = next, srLastFiredAt = None, srLastTaskID = None,
                 srLastError = None, srUpdatedAt = now\<rparr>
      in if list_ex (\<lambda>r. srWorkloadID r = w) rows then map (\<lambda>r. if srWorkloadID r = w then row else r) rows else rows @ [row])"

text \<open>Due schedules with their workload, earliest first, those that no other transaction holds.\<close>

definition LockDueSchedules :: "txEnv \<Rightarrow> nat \<Rightarrow> 'x scheduleDB \<Rightarrow> LockDueSchedulesRow list" where
  "LockDueSchedules env batchSize db =
     (let joined = [(s, w). s \<leftarrow> sdSchedules db, srNextFireAt s \<le> txNow env, w \<leftarrow> sdWorkloads db, woID w = srWorkloadID s];
          ordered = sort_key (\<lambda>(s, w). (srNextFireAt s, srWorkloadID s)) joined
      in map (\<lambda>(s, w). \<lparr>duWorkloadID = srWorkloadID s, duExpression = srExpression s, duNextFireAt = srNextFireAt s,
                        duWorkspaceID = woWorkspaceID w, duAppName = woAppName w, duFunctionName = woName w, duNow = txNow env\<rparr>)
           (take batchSize (filter (\<lambda>(s, w). \<not> txLocked env (srWorkloadID s)) ordered)))"

definition RecordOccurrence :: "time \<Rightarrow> RecordOccurrenceParams \<Rightarrow> scheduleRow list \<Rightarrow> scheduleRow list" where
  "RecordOccurrence now p rows =
     map (\<lambda>r. if srWorkloadID r = roWorkloadID p
              then r\<lparr>srNextFireAt := roNextFireAt p, srLastFiredAt := roFiredAt p, srLastTaskID := roTaskID p,
                     srLastError := roError p, srUpdatedAt := now\<rparr>
              else r) rows"

definition FunctionSchedule :: "nat \<Rightarrow> string \<Rightarrow> string \<Rightarrow> 'x scheduleDB \<Rightarrow> scheduleRow option" where
  "FunctionSchedule workspace app name db =
     map_option fst (find (\<lambda>(s, w). woWorkspaceID w = workspace \<and> woAppName w = app \<and> woFunction w \<and> woName w = name)
       [(s, w). s \<leftarrow> sdSchedules db, w \<leftarrow> sdWorkloads db, woID w = srWorkloadID s])"

definition NextFireAt :: "scheduleRow list \<Rightarrow> time list" where
  "NextFireAt rows = take 1 (map srNextFireAt (sort_key srNextFireAt rows))"

subsection \<open>Operations\<close>

definition fireBatch_size :: nat where
  "fireBatch_size = 100"

definition cron_failure :: "(cron_error \<Rightarrow> schedule_error) \<Rightarrow> cron_error \<Rightarrow> schedule_error" where
  "cron_failure f e = (if e = IndexPanic then SchedulePanic else f e)"

definition Apply :: "txEnv \<Rightarrow> nat \<Rightarrow> string option \<Rightarrow> 'x scheduleDB \<Rightarrow> (schedule_error + 'x scheduleDB) option" where
  "Apply env workload expression db =
     (case expression of
        None \<Rightarrow>
          if txDown env DeleteStmt then Some (Inl (DbError DeleteStmt))
          else Some (Inr (db\<lparr>sdSchedules := DeleteSchedule workload (sdSchedules db)\<rparr>))
      | Some e \<Rightarrow>
          if txDown env ReadStmt then Some (Inl (DbError ReadStmt))
          else if ScheduleExpression workload (sdSchedules db) = Some e then Some (Inr db)
          else case ParseCron e of
                 None \<Rightarrow> None
               | Some (Inl err) \<Rightarrow> Some (Inl (cron_failure CronError err))
               | Some (Inr cron) \<Rightarrow>
                   (case Next cron (txClock env) of
                      None \<Rightarrow> Some (Inl (CronError (InvalidCron (''invalid cron expression: '' @ e))))
                    | Some next \<Rightarrow>
                        if txDown env ReplaceStmt then Some (Inl (DbError ReplaceStmt))
                        else if txDown env NotifyStmt then Some (Inl (DbError NotifyStmt))
                        else Some (Inr (db\<lparr>sdSchedules := ReplaceSchedule (txNow env) workload e next (sdSchedules db),
                                           sdNotified := sdNotified db @ [workload]\<rparr>))))"

definition nextAfter :: "string \<Rightarrow> time \<Rightarrow> (schedule_error + time) option" where
  "nextAfter expression now =
     (case ParseCron expression of
        None \<Rightarrow> None
      | Some (Inl err) \<Rightarrow> Some (Inl (cron_failure (StoredInvalid expression) err))
      | Some (Inr cron) \<Rightarrow> (case Next cron now of None \<Rightarrow> Some (Inl (NeverFires expression)) | Some next \<Rightarrow> Some (Inr next)))"

datatype submit_error = ErrNotAccepting | TooManyPendingError nat nat nat | ErrNotFound | SubmitFailed string

definition too_many_message :: "nat \<Rightarrow> nat \<Rightarrow> nat \<Rightarrow> string" where
  "too_many_message limit queued submitted =
     print_nat queued @ '' queued and '' @ print_nat submitted @ '' submitted tasks exceed max_pending_tasks '' @ print_nat limit"

type_synonym 'x submit = "LockDueSchedulesRow \<Rightarrow> 'x \<Rightarrow> submit_error + nat list \<times> 'x"

text \<open>The task of an occurrence, or why there is none.\<close>

definition admit :: "'x submit \<Rightarrow> LockDueSchedulesRow \<Rightarrow> 'x \<Rightarrow> schedule_error + (nat option \<times> string) \<times> 'x" where
  "admit submit row x =
     (case submit row x of
        Inr (tasks, x') \<Rightarrow> (case tasks of [] \<Rightarrow> Inl SchedulePanic | task # _ \<Rightarrow> Inr ((Some task, ''''), x'))
      | Inl ErrNotAccepting \<Rightarrow> Inr ((None, ''the function is stopped or its app is paused''), x)
      | Inl (TooManyPendingError limit queued submitted) \<Rightarrow> Inr ((None, too_many_message limit queued submitted), x)
      | Inl ErrNotFound \<Rightarrow> Inr ((None, ''the function has no active release''), x)
      | Inl (SubmitFailed err) \<Rightarrow> Inr ((None, ''admission failed: '' @ err), x))"

fun fire_rows :: "txEnv \<Rightarrow> 'x submit \<Rightarrow> LockDueSchedulesRow list \<Rightarrow> 'x scheduleDB \<Rightarrow> FireResult
    \<Rightarrow> (schedule_error + 'x scheduleDB \<times> FireResult) option" where
  "fire_rows env submit [] db result = Some (Inr (db, result))"
| "fire_rows env submit (row # due) db result =
     (case admit submit row (sdRest db) of
        Inl e \<Rightarrow> Some (Inl e)
      | Inr ((task, reason), x) \<Rightarrow>
          and_then (nextAfter (duExpression row) (duNow row)) (\<lambda>next.
            let params = \<lparr>roNextFireAt = next, roFiredAt = Some (duNextFireAt row), roTaskID = task,
                          roError = (if task = None then Some reason else None), roWorkloadID = duWorkloadID row\<rparr>;
                result' = (if task \<noteq> None then result\<lparr>frAdmitted := frAdmitted result + 1\<rparr>
                           else result\<lparr>frSkipped := frSkipped result + 1\<rparr>)
            in if txDown env (RecordStmt (duWorkloadID row)) then Some (Inl (DbError (RecordStmt (duWorkloadID row))))
               else fire_rows env submit due
                      (db\<lparr>sdSchedules := RecordOccurrence (txNow env) params (sdSchedules db), sdRest := x\<rparr>) result'))"

definition fireBatch :: "txEnv \<Rightarrow> 'x submit \<Rightarrow> 'x scheduleDB \<Rightarrow> (schedule_error + FireResult \<times> nat \<times> 'x scheduleDB) option" where
  "fireBatch env submit db =
     (if txDown env BeginStmt then Some (Inl (DbError BeginStmt))
      else if txDown env LockStmt then Some (Inl (DbError LockStmt))
      else let due = LockDueSchedules env fireBatch_size db
           in and_then (fire_rows env submit due db \<lparr>frAdmitted = 0, frSkipped = 0\<rparr>) (\<lambda>(db', result).
                if txDown env CommitStmt then Some (Inl (DbError CommitStmt)) else Some (Inr (result, length due, db'))))"

text \<open>The passes of Fire, each batch in an environment of its own; \<open>None\<close> when the environments run out.\<close>

fun Fire :: "'x submit \<Rightarrow> txEnv list \<Rightarrow> 'x scheduleDB \<Rightarrow> FireResult \<Rightarrow> (FireResult \<times> schedule_error option \<times> 'x scheduleDB) option" where
  "Fire submit [] db acc = None"
| "Fire submit (env # envs) db acc =
     (case fireBatch env submit db of
        None \<Rightarrow> None
      | Some (Inl e) \<Rightarrow> Some (acc, Some e, db)
      | Some (Inr (result, claimed, db')) \<Rightarrow>
          let acc' = \<lparr>frAdmitted = frAdmitted acc + frAdmitted result, frSkipped = frSkipped acc + frSkipped result\<rparr>
          in if claimed < fireBatch_size then Some (acc', None, db') else Fire submit envs db' acc')"

definition ForFunction :: "nat \<Rightarrow> string \<Rightarrow> string \<Rightarrow> 'x scheduleDB \<Rightarrow> Schedule option" where
  "ForFunction workspace app fn db =
     (case FunctionSchedule workspace app fn db of
        None \<Rightarrow> None
      | Some row \<Rightarrow> Some \<lparr>scExpression = srExpression row, scNextRunAt = srNextFireAt row, scLastRunAt = srLastFiredAt row,
                         scLastTask = srLastTaskID row, scLastError = srLastError row\<rparr>)"

definition NextFire :: "scheduleRow list \<Rightarrow> time option" where
  "NextFire rows = (case NextFireAt rows of [] \<Rightarrow> None | next # _ \<Rightarrow> Some next)"

end
