(* ===== verification/Firing.thy ===== *)
theory Firing
  imports Schedules
begin

text \<open>
  What a pass over the schedules does: the occurrences a batch claims and how their rows advance, that a pass ends with
  nothing due, that stored schedules always parse, and what one schedule that never fires again does to the others.
\<close>

subsection \<open>Claimed schedules\<close>

text \<open>The keys the schema declares.\<close>

definition keys_ok :: "'x scheduleDB \<Rightarrow> bool" where
  "keys_ok db \<longleftrightarrow> distinct (map srWorkloadID (sdSchedules db)) \<and> distinct (map woID (sdWorkloads db))
     \<and> set (map srWorkloadID (sdSchedules db)) \<subseteq> set (map woID (sdWorkloads db))"

definition due_in :: "txEnv \<Rightarrow> scheduleRow \<Rightarrow> bool" where
  "due_in env r \<longleftrightarrow> srNextFireAt r \<le> txNow env \<and> \<not> txLocked env (srWorkloadID r)"

definition due_of :: "txEnv \<Rightarrow> scheduleRow \<times> workloadRow \<Rightarrow> LockDueSchedulesRow" where
  "due_of env = (\<lambda>(s, w). \<lparr>duWorkloadID = srWorkloadID s, duExpression = srExpression s, duNextFireAt = srNextFireAt s,
     duWorkspaceID = woWorkspaceID w, duAppName = woAppName w, duFunctionName = woName w, duNow = txNow env\<rparr>)"

definition due_pairs :: "txEnv \<Rightarrow> 'x scheduleDB \<Rightarrow> (scheduleRow \<times> workloadRow) list" where
  "due_pairs env db =
     filter (\<lambda>(s, w). \<not> txLocked env (srWorkloadID s)) (sort_key (\<lambda>(s, w). (srNextFireAt s, srWorkloadID s))
       [(s, w). s \<leftarrow> sdSchedules db, srNextFireAt s \<le> txNow env, w \<leftarrow> sdWorkloads db, woID w = srWorkloadID s])"

lemma LockDueSchedules_pairs: "LockDueSchedules env n db = map (due_of env) (take n (due_pairs env db))"
  by (simp add: LockDueSchedules_def due_of_def due_pairs_def Let_def)

lemma join_one:
  assumes "distinct (map woID ws)" and "i \<in> set (map woID ws)"
  shows "length (filter (\<lambda>w. woID w = i) ws) = 1"
proof -
  have "distinct (map woID (filter (\<lambda>w. woID w = i) ws))" using assms(1) by (rule distinct_map_filter)
  moreover have "set (map woID (filter (\<lambda>w. woID w = i) ws)) = {i}" using assms(2) by auto
  ultimately show ?thesis using distinct_card by fastforce
qed

lemma concat_filter: "concat (map (\<lambda>w. if P w then [f w] else []) ws) = map f (filter P ws)"
  by (induction ws) simp_all

lemma map_fst_join:
  assumes "distinct (map woID ws)" and "\<forall>r\<in>set rows. srWorkloadID r \<in> set (map woID ws)"
  shows "map fst [(s, w). s \<leftarrow> rows, srNextFireAt s \<le> t, w \<leftarrow> ws, woID w = srWorkloadID s] = filter (\<lambda>s. srNextFireAt s \<le> t) rows"
  using assms(2)
proof (induction rows)
  case (Cons r rows)
  have "map fst (map (Pair r) (filter (\<lambda>w. woID w = srWorkloadID r) ws)) = replicate (length (filter (\<lambda>w. woID w = srWorkloadID r) ws)) r"
    by (simp add: map_replicate_const comp_def)
  then have "map fst (map (Pair r) (filter (\<lambda>w. woID w = srWorkloadID r) ws)) = [r]"
    using join_one [OF assms(1), of "srWorkloadID r"] Cons.prems by (simp add: numeral_eq_Suc)
  then show ?case using Cons by (simp add: concat_filter)
qed simp

lemma mset_sorted_join: "mset (map fst (filter (\<lambda>(s, w). Q s) (sort_key k J))) = mset (filter Q (map fst J))"
proof -
  have "mset (map fst (filter (\<lambda>(s, w). Q s) (sort_key k J))) = image_mset fst (filter_mset (\<lambda>p. Q (fst p)) (mset J))"
    by (simp only: mset_map mset_filter mset_sort case_prod_beta)
  also have "\<dots> = mset (map fst (filter (\<lambda>p. Q (fst p)) J))" by (simp only: mset_map mset_filter)
  also have "\<dots> = mset (filter Q (map fst J))" by (simp only: filter_map comp_def)
  finally show ?thesis .
qed

lemma due_pairs_schedules:
  assumes "keys_ok db"
  shows "mset (map fst (due_pairs env db)) = mset (filter (due_in env) (sdSchedules db))"
proof -
  let ?J = "[(s, w). s \<leftarrow> sdSchedules db, srNextFireAt s \<le> txNow env, w \<leftarrow> sdWorkloads db, woID w = srWorkloadID s]"
  have "map fst ?J = filter (\<lambda>s. srNextFireAt s \<le> txNow env) (sdSchedules db)"
    using assms by (intro map_fst_join) (auto simp: keys_ok_def)
  then have "mset (filter (\<lambda>s. \<not> txLocked env (srWorkloadID s)) (map fst ?J)) = mset (filter (due_in env) (sdSchedules db))"
    by (simp add: due_in_def conj_commute)
  moreover have "mset (map fst (due_pairs env db)) = mset (filter (\<lambda>s. \<not> txLocked env (srWorkloadID s)) (map fst ?J))"
    unfolding due_pairs_def by (rule mset_sorted_join)
  ultimately show ?thesis by simp
qed

text \<open>What a batch claims.\<close>

lemma claimed_facts:
  assumes "keys_ok db"
  shows "distinct (map duWorkloadID (LockDueSchedules env n db))"
    and "length (LockDueSchedules env n db) = min n (length (filter (due_in env) (sdSchedules db)))"
    and "d \<in> set (LockDueSchedules env n db) \<Longrightarrow> \<exists>r\<in>set (sdSchedules db). due_in env r \<and> duWorkloadID d = srWorkloadID r
      \<and> duExpression d = srExpression r \<and> duNextFireAt d = srNextFireAt r \<and> duNow d = txNow env"
proof -
  note m = due_pairs_schedules [OF assms, of env]
  have "length (due_pairs env db) = length (filter (due_in env) (sdSchedules db))" using mset_eq_length [OF m] by simp
  then show "length (LockDueSchedules env n db) = min n (length (filter (due_in env) (sdSchedules db)))"
    by (simp add: LockDueSchedules_pairs min_def)
  have "mset (map srWorkloadID (map fst (due_pairs env db))) = mset (map srWorkloadID (filter (due_in env) (sdSchedules db)))"
    using m by (metis mset_map)
  then have "distinct (map srWorkloadID (map fst (due_pairs env db)))"
    using assms by (metis distinct_map_filter keys_ok_def mset_eq_imp_distinct_iff)
  moreover have "map duWorkloadID (LockDueSchedules env n db) = take n (map srWorkloadID (map fst (due_pairs env db)))"
    by (simp add: LockDueSchedules_pairs due_of_def take_map case_prod_beta)
  ultimately show "distinct (map duWorkloadID (LockDueSchedules env n db))" by (simp only: distinct_take)
  assume "d \<in> set (LockDueSchedules env n db)"
  then obtain p where p: "p \<in> set (due_pairs env db)" "d = due_of env p"
    by (auto simp: LockDueSchedules_pairs dest: in_set_takeD)
  then have "fst p \<in> set (filter (due_in env) (sdSchedules db))" using mset_eq_setD [OF m] by (metis image_eqI list.set_map)
  then show "\<exists>r\<in>set (sdSchedules db). due_in env r \<and> duWorkloadID d = srWorkloadID r
      \<and> duExpression d = srExpression r \<and> duNextFireAt d = srNextFireAt r \<and> duNow d = txNow env"
    using p(2) by (intro bexI [of _ "fst p"]) (auto simp: due_of_def case_prod_beta)
qed

subsection \<open>A batch\<close>

lemma nextAfter_returns: "\<exists>r. nextAfter e t = Some r"
  using ParseCron_total [of e] by (auto simp: nextAfter_def split: sum.split option.split)

lemma nextAfter_Inr: "nextAfter e t = Some (Inr next) \<longleftrightarrow> (\<exists>c. ParseCron e = Some (Inr c) \<and> Next c t = Some next)"
  by (auto simp: nextAfter_def split: option.splits sum.splits)

text \<open>A row after an occurrence of it was recorded.\<close>

definition recorded :: "txEnv \<Rightarrow> LockDueSchedulesRow \<Rightarrow> scheduleRow \<Rightarrow> scheduleRow \<Rightarrow> bool" where
  "recorded env d r r' \<longleftrightarrow>
     nextAfter (duExpression d) (duNow d) = Some (Inr (srNextFireAt r'))
     \<and> srWorkloadID r' = srWorkloadID r \<and> srExpression r' = srExpression r \<and> srLastFiredAt r' = Some (duNextFireAt d)
     \<and> (srLastTaskID r' = None \<longleftrightarrow> srLastError r' \<noteq> None) \<and> srUpdatedAt r' = txNow env"

definition after_batch :: "txEnv \<Rightarrow> LockDueSchedulesRow list \<Rightarrow> scheduleRow \<Rightarrow> scheduleRow \<Rightarrow> bool" where
  "after_batch env due r r' \<longleftrightarrow>
     (if srWorkloadID r \<in> set (map duWorkloadID due)
      then \<exists>d\<in>set due. duWorkloadID d = srWorkloadID r \<and> recorded env d r r' else r' = r)"

lemma fire_rows_Cons:
  assumes "fire_rows env submit (d # due) db result = Some (Inr (db', result'))"
  obtains p x res where "fire_rows env submit due (db\<lparr>sdSchedules := RecordOccurrence (txNow env) p (sdSchedules db), sdRest := x\<rparr>) res = Some (Inr (db', result'))"
    and "frAdmitted res + frSkipped res = Suc (frAdmitted result + frSkipped result)"
    and "nextAfter (duExpression d) (duNow d) = Some (Inr (roNextFireAt p))" "roFiredAt p = Some (duNextFireAt d)"
      "roWorkloadID p = duWorkloadID d" "roTaskID p = None \<longleftrightarrow> roError p \<noteq> None"
proof -
  from assms obtain task reason x where admit: "admit submit d (sdRest db) = Inr ((task, reason), x)"
    by (auto split: sum.splits)
  with assms obtain t where t: "nextAfter (duExpression d) (duNow d) = Some (Inr t)"
    by (auto simp: and_then_Inr)
  let ?p = "\<lparr>roNextFireAt = t, roFiredAt = Some (duNextFireAt d), roTaskID = task,
    roError = (if task = None then Some reason else None), roWorkloadID = duWorkloadID d\<rparr>"
  show thesis
    by (rule that [where p = ?p and x = x and res = "if task \<noteq> None then result\<lparr>frAdmitted := frAdmitted result + 1\<rparr> else result\<lparr>frSkipped := frSkipped result + 1\<rparr>"])
      (use assms admit t in \<open>auto simp: Let_def split: if_splits\<close>)
qed

lemma fire_rows_after:
  assumes "fire_rows env submit due db result = Some (Inr (db', result'))" and "distinct (map duWorkloadID due)"
  shows "list_all2 (after_batch env due) (sdSchedules db) (sdSchedules db')"
  using assms
proof (induction due arbitrary: db result)
  case Nil
  then show ?case by (simp add: after_batch_def list_all2_same)
next
  case (Cons d due)
  obtain p x res where run: "fire_rows env submit due (db\<lparr>sdSchedules := RecordOccurrence (txNow env) p (sdSchedules db), sdRest := x\<rparr>) res
      = Some (Inr (db', result'))"
    and p: "nextAfter (duExpression d) (duNow d) = Some (Inr (roNextFireAt p))" "roFiredAt p = Some (duNextFireAt d)"
      "roWorkloadID p = duWorkloadID d" "roTaskID p = None \<longleftrightarrow> roError p \<noteq> None"
    using fire_rows_Cons [OF Cons.prems(1)] by metis
  from Cons.IH [OF run] have rest: "list_all2 (after_batch env due) (RecordOccurrence (txNow env) p (sdSchedules db)) (sdSchedules db')"
    using Cons.prems(2) by simp
  show ?case
  proof (rule list_all2_all_nthI)
    show "length (sdSchedules db) = length (sdSchedules db')" using list_all2_lengthD [OF rest] by (simp add: RecordOccurrence_def)
    fix i assume i: "i < length (sdSchedules db)"
    then have "after_batch env due (RecordOccurrence (txNow env) p (sdSchedules db) ! i) (sdSchedules db' ! i)"
      using list_all2_nthD [OF rest, of i] by (simp add: RecordOccurrence_def)
    then show "after_batch env (d # due) (sdSchedules db ! i) (sdSchedules db' ! i)"
      using i p Cons.prems(2) by (auto simp: RecordOccurrence_def after_batch_def recorded_def split: if_splits)
  qed
qed

lemma fire_rows_counts:
  "fire_rows env submit due db result = Some (Inr (db', result')) \<Longrightarrow>
     frAdmitted result' + frSkipped result' = frAdmitted result + frSkipped result + length due
     \<and> sdWorkloads db' = sdWorkloads db \<and> sdNotified db' = sdNotified db"
proof (induction due arbitrary: db result)
  case (Cons d due)
  from fire_rows_Cons [OF Cons.prems] obtain p x res
    where "fire_rows env submit due (db\<lparr>sdSchedules := RecordOccurrence (txNow env) p (sdSchedules db), sdRest := x\<rparr>) res = Some (Inr (db', result'))"
      and "frAdmitted res + frSkipped res = Suc (frAdmitted result + frSkipped result)" by metis
  then show ?case using Cons.IH by fastforce
qed simp

lemma fireBatch_Inr:
  assumes "fireBatch env submit db = Some (Inr (result, claimed, db'))"
  shows "fire_rows env submit (LockDueSchedules env fireBatch_size db) db \<lparr>frAdmitted = 0, frSkipped = 0\<rparr> = Some (Inr (db', result))"
    and "claimed = length (LockDueSchedules env fireBatch_size db)"
  using assms by (auto simp: fireBatch_def Let_def and_then_Inr split: if_splits)

text \<open>
  A row that fired: its next run is the first minute after now that its expression matches, whatever occurrences were missed.
\<close>

definition advanced :: "time \<Rightarrow> scheduleRow \<Rightarrow> scheduleRow \<Rightarrow> bool" where
  "advanced now r r' \<longleftrightarrow>
     srWorkloadID r' = srWorkloadID r \<and> srExpression r' = srExpression r \<and> srLastFiredAt r' = Some (srNextFireAt r)
     \<and> (srLastTaskID r' = None \<longleftrightarrow> srLastError r' \<noteq> None)
     \<and> (\<exists>c. ParseCron (srExpression r) = Some (Inr c) \<and> now < srNextFireAt r' \<and> cron_matches c (srNextFireAt r')
          \<and> (\<forall>u. now < u \<longrightarrow> cron_matches c u \<longrightarrow> srNextFireAt r' \<le> u))"

lemma recorded_advanced:
  assumes "recorded env d r r'" and "duExpression d = srExpression r" "duNextFireAt d = srNextFireAt r" "duNow d = now"
  shows "advanced now r r'"
proof -
  from assms obtain c where c: "ParseCron (srExpression r) = Some (Inr c)" "Next c now = Some (srNextFireAt r')"
    by (auto simp: recorded_def nextAfter_Inr)
  then show ?thesis using assms cron.later cron.runs cron.earliest by (auto simp: recorded_def advanced_def)
qed

lemma batch_rows:
  assumes "keys_ok db" and "fireBatch env submit db = Some (Inr (result, claimed, db'))"
  shows "list_all2 (\<lambda>r r'. if srWorkloadID r \<in> set (map duWorkloadID (LockDueSchedules env fireBatch_size db))
      then due_in env r \<and> advanced (txNow env) r r' else r' = r) (sdSchedules db) (sdSchedules db')"
proof -
  let ?due = "LockDueSchedules env fireBatch_size db"
  note batch = fireBatch_Inr [OF assms(2)]
  have "list_all2 (after_batch env ?due) (sdSchedules db) (sdSchedules db')"
    using fire_rows_after [OF batch(1)] claimed_facts(1) [OF assms(1)] by simp
  then show ?thesis
  proof (rule list.rel_mono_strong)
    fix r r' assume r: "r \<in> set (sdSchedules db)" and after: "after_batch env ?due r r'"
    show "if srWorkloadID r \<in> set (map duWorkloadID ?due) then due_in env r \<and> advanced (txNow env) r r' else r' = r"
    proof (cases "srWorkloadID r \<in> set (map duWorkloadID ?due)")
      case True
      with after obtain d where d: "d \<in> set ?due" "duWorkloadID d = srWorkloadID r" "recorded env d r r'"
        by (auto simp: after_batch_def)
      from claimed_facts(3) [OF assms(1) d(1)] obtain s where s: "s \<in> set (sdSchedules db)" "due_in env s"
        "duWorkloadID d = srWorkloadID s" "duExpression d = srExpression s" "duNextFireAt d = srNextFireAt s" "duNow d = txNow env"
        by blast
      then have "s = r" using assms(1) r d(2) by (auto simp: keys_ok_def distinct_map dest: inj_onD)
      then show ?thesis using True s d(3) recorded_advanced by simp
    qed (use after in \<open>simp add: after_batch_def\<close>)
  qed
qed

text \<open>
  C23: A batch that commits claims up to a hundred of the due schedules that no other transaction holds, counts each as
  admitted or skipped, and moves each on: its last run is the occurrence that was due, with the task or the reason there
  is none, and its next run is the first matching minute after now, so missed occurrences collapse into one. Every other
  schedule stays as it was.
\<close>

theorem fireBatch_advances:
  assumes "keys_ok db" and "fireBatch env submit db = Some (Inr (result, claimed, db'))"
  shows "claimed = min fireBatch_size (length (filter (due_in env) (sdSchedules db)))
    \<and> frAdmitted result + frSkipped result = claimed
    \<and> list_all2 (\<lambda>r r'. if srWorkloadID r \<in> set (map duWorkloadID (LockDueSchedules env fireBatch_size db))
        then due_in env r \<and> advanced (txNow env) r r' else r' = r) (sdSchedules db) (sdSchedules db')"
  using fireBatch_Inr [OF assms(2)] fire_rows_counts [OF fireBatch_Inr(1) [OF assms(2)]] claimed_facts(2) [OF assms(1)]
    batch_rows [OF assms] by simp

subsection \<open>A pass ends with nothing due\<close>

lemma claims_all:
  assumes "keys_ok db" and "length (LockDueSchedules env n db) < n" and "r \<in> set (sdSchedules db)" "due_in env r"
  shows "srWorkloadID r \<in> set (map duWorkloadID (LockDueSchedules env n db))"
proof -
  have "r \<in> set (map fst (due_pairs env db))" using mset_eq_setD [OF due_pairs_schedules [OF assms(1), of env]] assms(3,4) by simp
  moreover have "LockDueSchedules env n db = map (due_of env) (due_pairs env db)"
    using assms(2) by (simp add: LockDueSchedules_pairs)
  ultimately show ?thesis by (auto simp: due_of_def image_iff case_prod_beta)
qed

definition submits_tasks :: "'x submit \<Rightarrow> bool" where
  "submits_tasks submit \<longleftrightarrow> (\<forall>row x tasks x'. submit row x = Inr (tasks, x') \<longrightarrow> tasks \<noteq> [])"

lemma admit_Inr: "submits_tasks submit \<Longrightarrow> \<exists>a. admit submit row x = Inr a"
  unfolding submits_tasks_def admit_def by (force split: sum.splits submit_error.splits list.splits)

lemma fire_rows_commit:
  assumes "submits_tasks submit" and "\<forall>s. \<not> txDown env s" and "\<forall>d\<in>set due. \<exists>t. nextAfter (duExpression d) (duNow d) = Some (Inr t)"
  shows "\<exists>r. fire_rows env submit due db result = Some (Inr r)"
  using assms(3)
proof (induction due arbitrary: db result)
  case (Cons d due)
  obtain a x t where "admit submit d (sdRest db) = Inr (a, x)" "nextAfter (duExpression d) (duNow d) = Some (Inr t)"
    using admit_Inr [OF assms(1), of d "sdRest db"] Cons.prems by auto
  then show ?case using Cons assms(2) by (cases a) (simp add: Let_def)
qed simp

text \<open>The environments of a pass within one minute, and schedules that fire again after it.\<close>

definition calm :: "int \<Rightarrow> txEnv \<Rightarrow> bool" where
  "calm k env \<longleftrightarrow> txNow env div minute = k \<and> (\<forall>s. \<not> txDown env s) \<and> (\<forall>w. \<not> txLocked env w)"

definition fires_after :: "int \<Rightarrow> string \<Rightarrow> bool" where
  "fires_after k e \<longleftrightarrow> (\<forall>t. t div minute = k \<longrightarrow> (\<exists>next. nextAfter e t = Some (Inr next)))"

lemma batch_commits:
  assumes "keys_ok db" "submits_tasks submit" "calm k env" "\<forall>r\<in>set (sdSchedules db). fires_after k (srExpression r)"
  obtains result db' where "fireBatch env submit db = Some (Inr (result, length (LockDueSchedules env fireBatch_size db), db'))"
proof -
  have "\<forall>d\<in>set (LockDueSchedules env fireBatch_size db). \<exists>t. nextAfter (duExpression d) (duNow d) = Some (Inr t)"
    using claimed_facts(3) [OF assms(1), of _ env] assms(3,4) by (fastforce simp: calm_def fires_after_def)
  then obtain r where "fire_rows env submit (LockDueSchedules env fireBatch_size db) db \<lparr>frAdmitted = 0, frSkipped = 0\<rparr> = Some (Inr r)"
    using fire_rows_commit [OF assms(2)] assms(3) unfolding calm_def by blast
  moreover obtain db' result where "r = (db', result)" by (cases r)
  ultimately show thesis using that assms(3) by (simp add: fireBatch_def calm_def Let_def)
qed

lemma advanced_minute: "advanced now r r' \<Longrightarrow> (now div minute + 1) * minute \<le> srNextFireAt r'"
  using next_whole_minute [of "srNextFireAt r'" now] minus_mod_eq_div_mult [of now minute]
  by (auto simp: advanced_def cron_matches_def distrib_right)

lemma list_all2_moved:
  "list_all2 (\<lambda>r r'. if C r then P r \<and> \<not> P r' else r' = r) xs ys \<Longrightarrow> length (filter P ys) + length (filter C xs) = length (filter P xs)"
  by (induction rule: list_all2_induct) (auto split: if_splits)

definition open_rows :: "int \<Rightarrow> 'x scheduleDB \<Rightarrow> nat" where
  "open_rows k db = length (filter (\<lambda>r. srNextFireAt r < (k + 1) * minute) (sdSchedules db))"

lemma image_restricted: "B \<subseteq> f ` A \<Longrightarrow> f ` {x \<in> A. f x \<in> B} = B"
  by auto

lemma claimed_count:
  assumes "keys_ok db"
  shows "length (filter (\<lambda>r. srWorkloadID r \<in> set (map duWorkloadID (LockDueSchedules env n db))) (sdSchedules db))
    = length (LockDueSchedules env n db)"
proof -
  let ?ids = "map duWorkloadID (LockDueSchedules env n db)"
  let ?rows = "filter (\<lambda>r. srWorkloadID r \<in> set ?ids) (sdSchedules db)"
  have "set ?ids \<subseteq> set (map srWorkloadID (sdSchedules db))" using claimed_facts(3) [OF assms, of _ env n] by fastforce
  then have "set (map srWorkloadID ?rows) = set ?ids" unfolding set_map set_filter by (rule image_restricted)
  moreover have "distinct (map srWorkloadID ?rows)" using assms by (simp add: keys_ok_def distinct_map_filter)
  ultimately have "length (map srWorkloadID ?rows) = length ?ids"
    using claimed_facts(1) [OF assms] by (metis distinct_card)
  then show ?thesis by simp
qed

lemma batch_kept:
  assumes "keys_ok db" and "fireBatch env submit db = Some (Inr (result, claimed, db'))"
  shows "map srExpression (sdSchedules db') = map srExpression (sdSchedules db)" and "keys_ok db'"
proof -
  note rows = batch_rows [OF assms]
  have "list_all2 (\<lambda>r r'. srExpression r = srExpression r' \<and> srWorkloadID r = srWorkloadID r') (sdSchedules db) (sdSchedules db')"
    by (rule list_all2_mono [OF rows]) (auto simp: advanced_def split: if_splits)
  then have m: "map srExpression (sdSchedules db) = map srExpression (sdSchedules db')"
    "map srWorkloadID (sdSchedules db) = map srWorkloadID (sdSchedules db')"
    by (simp_all add: list_all2_conv_all_nth list_eq_iff_nth_eq)
  show "map srExpression (sdSchedules db') = map srExpression (sdSchedules db)" using m(1) by simp
  have "sdWorkloads db' = sdWorkloads db" using fire_rows_counts [OF fireBatch_Inr(1) [OF assms(2)]] by simp
  then show "keys_ok db'" using assms(1) unfolding keys_ok_def m(2) by simp
qed

lemma batch_closes:
  assumes "keys_ok db" and "fireBatch env submit db = Some (Inr (result, claimed, db'))" and "txNow env div minute = k"
  shows "open_rows k db' + claimed = open_rows k db"
proof -
  let ?C = "\<lambda>r. srWorkloadID r \<in> set (map duWorkloadID (LockDueSchedules env fireBatch_size db))"
  have now: "txNow env < (k + 1) * minute" using assms(3) by (simp add: distrib_right)
  have "list_all2 (\<lambda>r r'. if ?C r then srNextFireAt r < (k + 1) * minute \<and> \<not> srNextFireAt r' < (k + 1) * minute else r' = r)
      (sdSchedules db) (sdSchedules db')"
    by (rule list_all2_mono [OF batch_rows [OF assms(1,2)]])
      (use now advanced_minute assms(3) in \<open>fastforce simp: due_in_def split: if_splits\<close>)
  from list_all2_moved [OF this] show ?thesis
    using claimed_count [OF assms(1)] fireBatch_Inr(2) [OF assms(2)] by (simp only: open_rows_def)
qed

lemma batch_drains:
  assumes "keys_ok db" and "fireBatch env submit db = Some (Inr (result, claimed, db'))"
    and "\<forall>w. \<not> txLocked env w" and "claimed < fireBatch_size" and "r' \<in> set (sdSchedules db')"
  shows "txNow env < srNextFireAt r'"
proof -
  note rows = batch_rows [OF assms(1,2)]
  from assms(5) obtain i where i: "i < length (sdSchedules db')" "r' = sdSchedules db' ! i" by (auto simp: in_set_conv_nth)
  let ?r = "sdSchedules db ! i"
  have r: "?r \<in> set (sdSchedules db)" using i list_all2_lengthD [OF rows] by simp
  note step = list_all2_nthD2 [OF rows i(1)]
  show ?thesis
  proof (cases "srWorkloadID ?r \<in> set (map duWorkloadID (LockDueSchedules env fireBatch_size db))")
    case True
    then show ?thesis using step i(2) by (auto simp: advanced_def)
  next
    case False
    then have "\<not> due_in env ?r" using claims_all [OF assms(1) _ r] assms(4) fireBatch_Inr(2) [OF assms(2)] by auto
    then show ?thesis using step False i(2) assms(3) by (simp add: due_in_def)
  qed
qed

lemma Fire_ends:
  assumes "submits_tasks submit"
  shows "keys_ok db \<Longrightarrow> \<forall>env\<in>set envs. calm k env \<Longrightarrow> \<forall>r\<in>set (sdSchedules db). fires_after k (srExpression r)
    \<Longrightarrow> open_rows k db < fireBatch_size * length envs
    \<Longrightarrow> \<exists>acc' db' env. Fire submit envs db acc = Some (acc', None, db') \<and> env \<in> set envs \<and> (\<forall>r\<in>set (sdSchedules db'). txNow env < srNextFireAt r)"
proof (induction envs arbitrary: db acc)
  case (Cons env envs)
  have calm: "calm k env" using Cons.prems by simp
  obtain result db' where batch: "fireBatch env submit db = Some (Inr (result, length (LockDueSchedules env fireBatch_size db), db'))"
    by (rule batch_commits [OF Cons.prems(1) assms calm Cons.prems(3)])
  let ?n = "length (LockDueSchedules env fireBatch_size db)"
  show ?case
  proof (cases "?n < fireBatch_size")
    case True
    then show ?thesis using batch batch_drains [OF Cons.prems(1) batch _ True] calm
      by (fastforce simp: Let_def calm_def)
  next
    case False
    note kept = batch_kept [OF Cons.prems(1) batch]
    have "open_rows k db' < fireBatch_size * length envs"
      using batch_closes [OF Cons.prems(1) batch, of k] calm False Cons.prems(4) by (simp add: calm_def)
    moreover have "\<forall>r\<in>set (sdSchedules db'). fires_after k (srExpression r)"
      using Cons.prems(3) arg_cong [OF kept(1), of set] by (metis image_eqI imageE list.set_map)
    ultimately show ?thesis
      using Cons.IH [OF kept(2), of "\<lparr>frAdmitted = frAdmitted acc + frAdmitted result, frSkipped = frSkipped acc + frSkipped result\<rparr>"]
        Cons.prems(2) batch False by (auto simp: Let_def)
  qed
qed simp

text \<open>
  C24: A pass of Fire ends, and with nothing due. When its batches run within one minute, hold every row they ask for and
  lose no statement, when admission returns a task per input and every stored schedule fires again, then a pass over fewer
  schedules than its batches can claim returns without an error, and no schedule is due at the time of its last batch.
\<close>

theorem Fire_drains:
  assumes "keys_ok db" and "submits_tasks submit" and "\<forall>env\<in>set envs. calm k env"
    and "\<forall>r\<in>set (sdSchedules db). fires_after k (srExpression r)" and "length (sdSchedules db) < fireBatch_size * length envs"
  shows "\<exists>acc' db' env. Fire submit envs db acc = Some (acc', None, db') \<and> env \<in> set envs
    \<and> (\<forall>r\<in>set (sdSchedules db'). txNow env < srNextFireAt r)"
proof (rule Fire_ends [OF assms(2,1,3,4)])
  have "open_rows k db \<le> length (sdSchedules db)" by (simp add: open_rows_def)
  then show "open_rows k db < fireBatch_size * length envs" using assms(5) by simp
qed

subsection \<open>Stored schedules\<close>

text \<open>The databases that deploys, passes and the rest of the system lead to.\<close>

inductive reachable :: "'x submit \<Rightarrow> 'x scheduleDB \<Rightarrow> bool" for submit where
  initial: "sdSchedules db = [] \<Longrightarrow> sdWorkloads db = [] \<Longrightarrow> reachable submit db"
| workload: "reachable submit db \<Longrightarrow> woID w \<notin> set (map woID (sdWorkloads db))
    \<Longrightarrow> reachable submit (db\<lparr>sdWorkloads := sdWorkloads db @ [w]\<rparr>)"
| removed: "reachable submit db \<Longrightarrow> reachable submit
    (db\<lparr>sdWorkloads := filter (\<lambda>w. woID w \<noteq> i) (sdWorkloads db), sdSchedules := DeleteSchedule i (sdSchedules db)\<rparr>)"
| elsewhere: "reachable submit db \<Longrightarrow> reachable submit (db\<lparr>sdRest := x, sdNotified := ns\<rparr>)"
| deploy: "reachable submit db \<Longrightarrow> i \<in> set (map woID (sdWorkloads db)) \<Longrightarrow> Apply env i expression db = Some (Inr db')
    \<Longrightarrow> reachable submit db'"
| fire: "reachable submit db \<Longrightarrow> Fire submit envs db acc = Some (acc', e, db') \<Longrightarrow> reachable submit db'"

definition row_ok :: "scheduleRow \<Rightarrow> bool" where
  "row_ok r \<longleftrightarrow> (\<exists>c. ParseCron (srExpression r) = Some (Inr c) \<and> cron_matches c (srNextFireAt r))"

definition stored_ok :: "'x scheduleDB \<Rightarrow> bool" where
  "stored_ok db \<longleftrightarrow> keys_ok db \<and> (\<forall>r\<in>set (sdSchedules db). row_ok r)"

lemma Replace_ids:
  "distinct (map srWorkloadID rows) \<Longrightarrow> distinct (map srWorkloadID (ReplaceSchedule now i e t rows))"
  "set (map srWorkloadID (ReplaceSchedule now i e t rows)) = insert i (set (map srWorkloadID rows))"
proof -
  have "map srWorkloadID (ReplaceSchedule now i e t rows)
      = (if i \<in> set (map srWorkloadID rows) then map srWorkloadID rows else map srWorkloadID rows @ [i])"
    by (auto simp: ReplaceSchedule_def Let_def list_ex_iff)
  then show "distinct (map srWorkloadID rows) \<Longrightarrow> distinct (map srWorkloadID (ReplaceSchedule now i e t rows))"
    "set (map srWorkloadID (ReplaceSchedule now i e t rows)) = insert i (set (map srWorkloadID rows))"
    by auto
qed

lemma Apply_stored:
  assumes "stored_ok db" "i \<in> set (map woID (sdWorkloads db))" "Apply env i expression db = Some (Inr db')"
  shows "stored_ok db'"
proof -
  consider (delete) "db' = db\<lparr>sdSchedules := DeleteSchedule i (sdSchedules db)\<rparr>" | (same) "db' = db"
    | (replace) e c t where "ParseCron e = Some (Inr c)" "Next c (txClock env) = Some t"
      "db' = db\<lparr>sdSchedules := ReplaceSchedule (txNow env) i e t (sdSchedules db), sdNotified := sdNotified db @ [i]\<rparr>"
    using assms(3) by (auto simp: Apply_def split: option.splits if_splits sum.splits)
  then show ?thesis
  proof cases
    case delete
    then show ?thesis using assms(1) by (auto simp: stored_ok_def keys_ok_def DeleteSchedule_def distinct_map_filter)
  next
    case replace
    have "cron_matches c t" using replace(2) by (rule cron.runs)
    then have "\<forall>r\<in>set (ReplaceSchedule (txNow env) i e t (sdSchedules db)). row_ok r"
      using assms(1) replace(1) by (auto simp: ReplaceSchedule_def Let_def stored_ok_def row_ok_def split: if_splits)
    moreover have "keys_ok db'" unfolding keys_ok_def
      using assms(1,2) Replace_ids [where rows = "sdSchedules db" and now = "txNow env" and i = i and e = e and t = t] replace(3) by (simp add: stored_ok_def keys_ok_def)
    ultimately show ?thesis using replace(3) by (simp add: stored_ok_def)
  qed (use assms(1) in simp)
qed

lemma batch_stored:
  assumes "stored_ok db" and "fireBatch env submit db = Some (Inr (result, claimed, db'))"
  shows "stored_ok db'"
proof -
  have keys: "keys_ok db" using assms(1) by (simp add: stored_ok_def)
  note rows = batch_rows [OF keys assms(2)]
  have "row_ok r'" if "r' \<in> set (sdSchedules db')" for r'
  proof -
    from that obtain i where i: "i < length (sdSchedules db')" "r' = sdSchedules db' ! i" by (auto simp: in_set_conv_nth)
    have "sdSchedules db ! i \<in> set (sdSchedules db)" using i(1) list_all2_lengthD [OF rows] by simp
    then have "row_ok (sdSchedules db ! i)" using assms(1) by (simp add: stored_ok_def)
    then show ?thesis using list_all2_nthD2 [OF rows i(1)] i(2) by (auto simp: advanced_def row_ok_def split: if_splits)
  qed
  then show ?thesis using batch_kept(2) [OF keys assms(2)] by (simp add: stored_ok_def)
qed

lemma Fire_stored: "Fire submit envs db acc = Some (acc', e, db') \<Longrightarrow> stored_ok db \<Longrightarrow> stored_ok db'"
proof (induction envs arbitrary: db acc)
  case (Cons env envs)
  then show ?case by (auto simp: Let_def split: option.splits sum.splits if_splits dest: batch_stored)
qed simp

lemma reachable_stored: "reachable submit db \<Longrightarrow> stored_ok db"
proof (induction rule: reachable.induct)
  case (removed db i)
  then show ?case by (auto simp: stored_ok_def keys_ok_def DeleteSchedule_def distinct_map_filter)
next
  case (deploy db i env expression db')
  then show ?case using Apply_stored by blast
next
  case (fire db envs acc acc' e db')
  then show ?case using Fire_stored by blast
qed (auto simp: stored_ok_def keys_ok_def)

text \<open>
  C25: Whatever deploys and passes happened, a workload has at most one schedule, every stored expression parses, and the
  next run of every schedule is a minute its expression matches.
\<close>

theorem stored_schedules_ok:
  assumes "reachable submit db"
  shows "distinct (map srWorkloadID (sdSchedules db))
    \<and> (\<forall>r\<in>set (sdSchedules db). \<exists>c. ParseCron (srExpression r) = Some (Inr c) \<and> cron_matches c (srNextFireAt r))"
  using reachable_stored [OF assms] by (simp add: stored_ok_def keys_ok_def row_ok_def)

subsection \<open>Failed passes\<close>

lemma nextAfter_NeverFires:
  "nextAfter e t = Some (Inl err) \<Longrightarrow> ParseCron e = Some (Inr c) \<Longrightarrow> err = NeverFires e"
  by (auto simp: nextAfter_def split: option.splits)

lemma fire_rows_error:
  assumes "submits_tasks submit"
  shows "fire_rows env submit due db result = Some (Inl e) \<Longrightarrow> \<forall>d\<in>set due. \<exists>c. ParseCron (duExpression d) = Some (Inr c)
    \<Longrightarrow> (\<exists>s. e = DbError s) \<or> (\<exists>d\<in>set due. e = NeverFires (duExpression d))"
proof (induction due arbitrary: db result)
  case (Cons d due)
  obtain task reason x where admit: "admit submit d (sdRest db) = Inr ((task, reason), x)"
    using admit_Inr [OF assms, of d "sdRest db"] by auto
  obtain r where r: "nextAfter (duExpression d) (duNow d) = Some r" using nextAfter_returns by blast
  obtain c where c: "ParseCron (duExpression d) = Some (Inr c)" using Cons.prems(2) by auto
  show ?case
  proof (cases r)
    case (Inl err)
    then show ?thesis using Cons.prems(1) admit r nextAfter_NeverFires [OF _ c] by simp
  next
    case (Inr t)
    then show ?thesis using Cons.prems admit r
      by (auto simp: Let_def split: if_splits dest!: Cons.IH)
  qed
qed simp

lemma batch_error:
  assumes "submits_tasks submit" "stored_ok db" "fireBatch env submit db = Some (Inl e)"
  shows "(\<exists>s. e = DbError s) \<or> (\<exists>r\<in>set (sdSchedules db). e = NeverFires (srExpression r))"
proof (cases "\<exists>s. e = DbError s")
  case False
  let ?due = "LockDueSchedules env fireBatch_size db"
  have run: "fire_rows env submit ?due db \<lparr>frAdmitted = 0, frSkipped = 0\<rparr> = Some (Inl e)"
    using assms(3) False by (auto simp: fireBatch_def Let_def and_then_def split: if_splits option.splits sum.splits)
  have due: "\<exists>r\<in>set (sdSchedules db). duExpression d = srExpression r" if "d \<in> set ?due" for d
    using claimed_facts(3) [OF _ that] assms(2) by (auto simp: stored_ok_def)
  then have "\<forall>d\<in>set ?due. \<exists>c. ParseCron (duExpression d) = Some (Inr c)"
    using assms(2) by (fastforce simp: stored_ok_def row_ok_def)
  from fire_rows_error [OF assms(1) run this] show ?thesis using False due by fastforce
qed simp

lemma Fire_error:
  assumes "submits_tasks submit"
  shows "Fire submit envs db acc = Some (acc', Some e, db') \<Longrightarrow> stored_ok db
    \<Longrightarrow> (\<exists>s. e = DbError s) \<or> (\<exists>r\<in>set (sdSchedules db). e = NeverFires (srExpression r))"
proof (induction envs arbitrary: db acc)
  case (Cons env envs)
  show ?case
  proof (cases "fireBatch env submit db")
    case (Some r)
    show ?thesis
    proof (cases r)
      case (Inl err)
      then show ?thesis using Cons.prems Some batch_error [OF assms Cons.prems(2)] by auto
    next
      case (Inr s)
      obtain result claimed db2 where s: "s = (result, claimed, db2)" by (cases s)
      note batch = Some [unfolded Inr s]
      have "keys_ok db" using Cons.prems(2) by (simp add: stored_ok_def)
      from batch_kept(1) [OF this batch] have "srExpression ` set (sdSchedules db2) = srExpression ` set (sdSchedules db)"
        by (metis list.set_map)
      moreover have "(\<exists>s. e = DbError s) \<or> e \<in> NeverFires ` srExpression ` set (sdSchedules db2)"
        using Cons.IH [OF _ batch_stored [OF Cons.prems(2) batch]] Cons.prems(1) batch
        by (fastforce simp: Let_def split: if_splits)
      ultimately show ?thesis by auto
    qed
  qed (use Cons.prems in simp)
qed simp

text \<open>
  A pass over stored schedules fails only when the database does, or when a stored schedule has no run in the next 28
  years: a stored expression never fails to parse and never panics.
\<close>

theorem Fire_fails_only:
  assumes "reachable submit db" and "submits_tasks submit" and "Fire submit envs db acc = Some (acc', Some e, db')"
  shows "(\<exists>s. e = DbError s) \<or> (\<exists>r\<in>set (sdSchedules db). e = NeverFires (srExpression r))"
  using Fire_error [OF assms(2,3)] reachable_stored [OF assms(1)] by blast

lemma fire_rows_held:
  assumes "d \<in> set due" "nextAfter (duExpression d) (duNow d) = Some (Inl err)"
  shows "\<exists>e. fire_rows env submit due db result = Some (Inl e)"
  using assms(1)
proof (induction due arbitrary: db result)
  case (Cons d' due)
  obtain r where r: "nextAfter (duExpression d') (duNow d') = Some r" using nextAfter_returns by blast
  show ?case
  proof (cases "d = d'")
    case True
    then show ?thesis using assms(2) by (auto split: sum.split prod.split)
  next
    case False
    then show ?thesis using Cons r by (cases r) (auto simp: Let_def split: sum.split prod.split)
  qed
qed simp


subsection \<open>Examples\<close>

definition admits :: "nat submit" where
  "admits row n = Inr ([n], Suc n)"

definition workload_at :: "nat \<Rightarrow> workloadRow" where
  "workload_at i = \<lparr>woID = i, woWorkspaceID = 0, woAppName = ''app'', woFunction = True, woName = ''job''\<rparr>"

definition schedule_at :: "nat \<Rightarrow> string \<Rightarrow> time \<Rightarrow> time \<Rightarrow> scheduleRow" where
  "schedule_at i e t now = \<lparr>srWorkloadID = i, srExpression = e, srNextFireAt = t, srLastFiredAt = None, srLastTaskID = None,
     srLastError = None, srUpdatedAt = now\<rparr>"

definition db_with :: "scheduleRow list \<Rightarrow> nat list \<Rightarrow> nat list \<Rightarrow> nat scheduleDB" where
  "db_with rows ws ns = \<lparr>sdSchedules = rows, sdWorkloads = map workload_at ws, sdNotified = ns, sdRest = 7\<rparr>"

definition env_at :: "time \<Rightarrow> txEnv" where
  "env_at t = \<lparr>txClock = t, txNow = t, txLocked = (\<lambda>_. False), txDown = (\<lambda>_. False)\<rparr>"

definition none_yet :: FireResult where
  "none_yet = \<lparr>frAdmitted = 0, frSkipped = 0\<rparr>"

lemma admits_tasks: "submits_tasks admits"
  by (simp add: submits_tasks_def admits_def)

text \<open>A schedule of every minute, due since the epoch, and a batch half a minute later.\<close>

definition minutely :: "nat scheduleDB" where
  "minutely = db_with [schedule_at 1 ''* * * * *'' 0 0] [1] []"

lemma minutely_keys: "keys_ok minutely"
  by (simp add: keys_ok_def minutely_def db_with_def schedule_at_def workload_at_def)

lemma minutely_fires: "fires_after 0 ''* * * * *''"
proof -
  have "map_option (map_sum id (\<lambda>c. cron_matches c minute)) (ParseCron ''* * * * *'') = Some (Inr True)" by code_simp
  then obtain c where c: "ParseCron ''* * * * *'' = Some (Inr c)" "cron_matches c minute" unfolding map_sum_Inr by auto
  have "Next c t \<noteq> None" if t: "t div minute = 0" for t
  proof -
    have m: "t - t mod minute = 0" using t by (simp add: minus_mod_eq_div_mult)
    have "t mod minute < minute" by simp
    with m have "t < minute" by linarith
    moreover have "minute < add_years (t - t mod minute + minute) searchYears" unfolding m by code_simp
    ultimately show ?thesis by (rule Next_found [OF c(2)])
  qed
  then show ?thesis using c(1) by (auto simp: fires_after_def nextAfter_Inr)
qed

theorem fireBatch_advances_witness:
  "\<exists>result db'. fireBatch (env_at (30 * second)) admits minutely = Some (Inr (result, 1, db'))
     \<and> frAdmitted result + frSkipped result = 1 \<and> map srNextFireAt (sdSchedules db') = [minute]"
proof -
  have "map_option (map_sum id (\<lambda>(r, n, d). (n, map srNextFireAt (sdSchedules d)))) (fireBatch (env_at (30 * second)) admits minutely)
      = Some (Inr (1, [minute]))" by code_simp
  then obtain result db' where b: "fireBatch (env_at (30 * second)) admits minutely = Some (Inr (result, 1, db'))"
    "map srNextFireAt (sdSchedules db') = [minute]" unfolding map_sum_Inr by auto
  from fireBatch_advances [OF minutely_keys b(1)] have "frAdmitted result + frSkipped result = 1" by simp
  with b show ?thesis by (intro exI conjI)
qed

theorem Fire_drains_witness:
  "\<exists>acc' db'. Fire admits [env_at (30 * second)] minutely none_yet = Some (acc', None, db')
     \<and> list_all (\<lambda>r. 30 * second < srNextFireAt r) (sdSchedules db')"
proof -
  have "\<exists>acc' db' env. Fire admits [env_at (30 * second)] minutely none_yet = Some (acc', None, db')
      \<and> env \<in> set [env_at (30 * second)] \<and> (\<forall>r\<in>set (sdSchedules db'). txNow env < srNextFireAt r)"
    by (rule Fire_drains [where k = 0, OF minutely_keys admits_tasks])
      (simp_all add: calm_def env_at_def minutely_def db_with_def schedule_at_def minutely_fires fireBatch_size_def)
  then show ?thesis by (auto simp: list_all_iff env_at_def)
qed

text \<open>The fifth Mondays of February, deployed in 2016.\<close>

definition mondays :: "nat scheduleDB" where
  "mondays = db_with [schedule_at 1 ''0 0 * 2 mon#5'' (utc_date 2016 2 29 0 0 0 0) (utc_date 2016 2 28 0 0 0 0)] [1] [1]"

lemma mondays_reachable: "reachable admits mondays"
proof (rule reachable.deploy)
  have "reachable admits (db_with [] [] [])" by (rule reachable.initial) (simp_all add: db_with_def)
  from reachable.workload [OF this, of "workload_at 1"] show "reachable admits (db_with [] [1] [])"
    by (simp add: db_with_def workload_at_def)
  show "1 \<in> set (map woID (sdWorkloads (db_with [] [1] [])))" by (simp add: db_with_def workload_at_def)
  have "Next fifth_monday (utc_date 2016 2 28 0 0 0 0) = Some (utc_date 2016 2 29 0 0 0 0)" by code_simp
  then show "Apply (env_at (utc_date 2016 2 28 0 0 0 0)) 1 (Some ''0 0 * 2 mon#5'') (db_with [] [1] []) = Some (Inr mondays)"
    by (simp add: Apply_def fifth_monday_parsed env_at_def db_with_def ScheduleExpression_def ReplaceSchedule_def mondays_def schedule_at_def)
qed

lemma mondays_held:
  "Fire admits [env_at (utc_date 2073 1 1 0 0 0 0)] mondays none_yet = Some (none_yet, Some (NeverFires ''0 0 * 2 mon#5''), mondays)"
proof -
  have "LockDueSchedules (env_at (utc_date 2073 1 1 0 0 0 0)) fireBatch_size mondays
      = [\<lparr>duWorkloadID = 1, duExpression = ''0 0 * 2 mon#5'', duNextFireAt = utc_date 2016 2 29 0 0 0 0, duWorkspaceID = 0,
          duAppName = ''app'', duFunctionName = ''job'', duNow = utc_date 2073 1 1 0 0 0 0\<rparr>]"
    by code_simp
  then show ?thesis
    by (simp add: fireBatch_def Let_def env_at_def admit_def admits_def nextAfter_def fifth_monday_parsed fifth_monday_stops)
qed

theorem stored_schedules_ok_witness:
  "reachable admits mondays \<and> (\<exists>c. ParseCron ''0 0 * 2 mon#5'' = Some (Inr c) \<and> cron_matches c (utc_date 2016 2 29 0 0 0 0))"
  using stored_schedules_ok [OF mondays_reachable] mondays_reachable
  by (simp add: mondays_def db_with_def schedule_at_def)

theorem Fire_fails_only_witness:
  "Fire admits [env_at (utc_date 2073 1 1 0 0 0 0)] mondays none_yet = Some (none_yet, Some (NeverFires ''0 0 * 2 mon#5''), mondays)
   \<and> (\<exists>r\<in>set (sdSchedules mondays). srExpression r = ''0 0 * 2 mon#5'')"
  using Fire_fails_only [OF mondays_reachable admits_tasks mondays_held] mondays_held by auto

text \<open>Beside them in 2073, a schedule of every minute.\<close>

definition held :: "nat scheduleDB" where
  "held = db_with [schedule_at 1 ''0 0 * 2 mon#5'' (utc_date 2072 2 29 0 0 0 0) 0, schedule_at 2 ''* * * * *'' 0 0] [1, 2] []"


end
