(* ===== verification/EdgeLoad.thy ===== *)
theory EdgeLoad
  imports Calendar "HOL-Library.AList"
begin

text \<open>
  The edge's demand on releases (\<open>internal/edge/load.go\<close>) and the leases requests take on containers
  (\<open>internal/edge/containers.go\<close>).

  The edge keeps its maps and counters under one mutex; every operation here is one section that holds it. Requests and the
  maps share load and slot objects through pointers, which are addresses into a heap of loads and a heap of slots. A Go map is
  the list of its entries in the order a range over it visits them. Identifiers are numbers.
\<close>

subsection \<open>Times\<close>

text \<open>\<open>Time.Sub\<close>, which saturates.\<close>

definition time_sub :: "time \<Rightarrow> time \<Rightarrow> duration" where
  "time_sub a b = max (- (2 ^ 63)) (min (2 ^ 63 - 1) (a - b))"

subsection \<open>The window of demand\<close>

record windowMax =
  wxAt :: "time list"
  wxValues :: "int list"

definition no_window :: windowMax where
  "no_window = \<lparr>wxAt = [], wxValues = []\<rparr>"

text \<open>The samples to cut: all but the newest one that is older than the window's start.\<close>

fun expire_cut :: "time \<Rightarrow> duration \<Rightarrow> time list \<Rightarrow> nat" where
  "expire_cut now win (a # b # ts) = (if time_sub now b > win then Suc (expire_cut now win (b # ts)) else 0)"
| "expire_cut now win ts = 0"

definition expire :: "time \<Rightarrow> duration \<Rightarrow> windowMax \<Rightarrow> windowMax" where
  "expire now win w =
     (let cut = expire_cut now win (wxAt w); w' = \<lparr>wxAt = drop cut (wxAt w), wxValues = drop cut (wxValues w)\<rparr>
      in if length (wxAt w') = 1 \<and> time_sub now (hd (wxAt w')) > win then no_window else w')"

function pop_below :: "int \<Rightarrow> windowMax \<Rightarrow> windowMax" where
  "pop_below v w =
     (let n = length (wxValues w)
      in if n > 0 \<and> wxValues w ! (n - 1) \<le> v
         then pop_below v \<lparr>wxAt = take (n - 1) (wxAt w), wxValues = take (n - 1) (wxValues w)\<rparr> else w)"
  by pat_completeness auto
termination
  by (relation "measure (\<lambda>(v, w). length (wxValues w))") auto

declare pop_below.simps [simp del]

definition push :: "time \<Rightarrow> int \<Rightarrow> duration \<Rightarrow> windowMax \<Rightarrow> windowMax" where
  "push now v win w =
     (let w' = pop_below v (expire now win w) in \<lparr>wxAt = wxAt w' @ [now], wxValues = wxValues w' @ [v]\<rparr>)"

definition window_max :: "time \<Rightarrow> int \<Rightarrow> duration \<Rightarrow> windowMax \<Rightarrow> int \<times> windowMax" where
  "window_max now current win w =
     (let w' = expire now win w
      in (if wxValues w' \<noteq> [] \<and> wxValues w' ! 0 > current then wxValues w' ! 0 else current, w'))"

subsection \<open>Loads\<close>

record EndpointLoad =
  elRelease :: nat
  elInFlight :: int
  elWaiting :: int
  elWindowPeak :: int

record releaseLoad =
  rlRelease :: nat
  rlKeepWarm :: duration
  rlInFlight :: int
  rlWaiting :: int
  rlWindow :: windowMax
  rlServed :: int
  rlWake :: bool
  rlPublished :: EndpointLoad
  rlRenewedAt :: time
  rlCheckedAt :: time
  rlEverPushed :: bool

definition EndpointLoadTTL :: duration where
  "EndpointLoadTTL = 15 * second"

definition renewAfter :: duration where
  "renewAfter = EndpointLoadTTL sdiv 3"

definition sample :: "time \<Rightarrow> releaseLoad \<Rightarrow> releaseLoad" where
  "sample now l = l\<lparr>rlWindow := push now (rlInFlight l + rlWaiting l) (rlKeepWarm l) (rlWindow l)\<rparr>"

definition failureCheckIn :: "time \<Rightarrow> duration \<Rightarrow> releaseLoad \<Rightarrow> duration \<times> releaseLoad" where
  "failureCheckIn now interval l =
     (let wait = interval - time_sub now (rlCheckedAt l)
      in if wait > 0 then (wait, l) else (0, l\<lparr>rlCheckedAt := now\<rparr>))"

subsection \<open>The edge\<close>

text \<open>A release with the settings the edge applies, a routed workload, and every claimed route.\<close>

record edgeRelease =
  erID :: nat
  erWorkload :: nat
  erPreview :: bool
  erWorkingTree :: bool
  erVersion :: "int option"
  erCapacity :: int
  erAuthorized :: bool
  erTimeout :: duration
  erKeepWarm :: duration
  erMaxPending :: int
  erRoute :: string
  erMethods :: "string list"
  erAttempts :: int

record workload =
  wlID :: nat
  wlWorkspace :: nat
  wlAccepting :: bool
  wlSubdomain :: string
  wlHostname :: string
  wlActive :: "edgeRelease option"

record routeTable =
  rtBySubdomain :: "(string \<times> workload) list"
  rtByHostname :: "(string \<times> workload) list"
  rtByID :: "(nat \<times> workload) list"

record slot =
  soID :: nat
  soRelease :: nat
  soVersion :: int
  soHost :: nat
  soTraceparent :: string
  soInflight :: int
  soAvoid :: time

record workloadState =
  wkLoaded :: bool
  wkStarted :: nat
  wkApplied :: nat
  wkStale :: bool
  wkContainers :: "(nat \<times> nat) list"
  wkWoken :: nat

record edge =
  egRoutes :: routeTable
  egReloadStarted :: time
  egReleases :: "(nat \<times> edgeRelease) list"
  egVersions :: "((nat \<times> int) \<times> nat) list"
  egMisses :: "(nat \<times> time) list"
  egWorkloads :: "nat \<Rightarrow> workloadState option"
  egLoads :: "(nat \<times> nat) list"
  egLoadHeap :: "releaseLoad list"
  egSlotHeap :: "slot list"
  egPublish :: bool

definition load_at :: "edge \<Rightarrow> nat \<Rightarrow> releaseLoad" where
  "load_at e a = egLoadHeap e ! a"

definition set_load :: "nat \<Rightarrow> releaseLoad \<Rightarrow> edge \<Rightarrow> edge" where
  "set_load a l e = e\<lparr>egLoadHeap := (egLoadHeap e)[a := l]\<rparr>"

definition set_slot :: "nat \<Rightarrow> slot \<Rightarrow> edge \<Rightarrow> edge" where
  "set_slot a s e = e\<lparr>egSlotHeap := (egSlotHeap e)[a := s]\<rparr>"

definition overPending :: "edgeRelease \<Rightarrow> edge \<Rightarrow> bool" where
  "overPending r e =
     (case map_of (egLoads e) (erID r) of None \<Rightarrow> False | Some a \<Rightarrow> rlWaiting (load_at e a) \<ge> erMaxPending r)"

definition new_load :: "edgeRelease \<Rightarrow> releaseLoad" where
  "new_load r =
     \<lparr>rlRelease = erID r, rlKeepWarm = erKeepWarm r, rlInFlight = 0, rlWaiting = 0, rlWindow = no_window, rlServed = 0,
      rlWake = False, rlPublished = \<lparr>elRelease = 0, elInFlight = 0, elWaiting = 0, elWindowPeak = 0\<rparr>,
      rlRenewedAt = zero_time, rlCheckedAt = zero_time, rlEverPushed = False\<rparr>"

definition demandLocked :: "edgeRelease \<Rightarrow> edge \<Rightarrow> nat \<times> edge" where
  "demandLocked r e =
     (case map_of (egLoads e) (erID r) of
        Some a \<Rightarrow> (a, e)
      | None \<Rightarrow> (length (egLoadHeap e),
                 e\<lparr>egLoadHeap := egLoadHeap e @ [new_load r], egLoads := egLoads e @ [(erID r, length (egLoadHeap e))]\<rparr>))"

definition kick :: "nat \<Rightarrow> edge \<Rightarrow> edge" where
  "kick release e =
     (case map_of (egLoads e) release of
        None \<Rightarrow> e
      | Some a \<Rightarrow> set_load a ((load_at e a)\<lparr>rlWake := True\<rparr>) e)\<lparr>egPublish := True\<rparr>"

text \<open>One load of \<open>collectLoads\<close>: the load to keep, if any, what is published of it, and whether planning wakes for it.\<close>

definition collect_one :: "time \<Rightarrow> nat \<Rightarrow> releaseLoad \<Rightarrow> bool \<times> releaseLoad \<times> EndpointLoad option \<times> bool" where
  "collect_one now release l =
     (let (peak, w) = window_max now (rlInFlight l + rlWaiting l) (rlKeepWarm l) (rlWindow l);
          l' = l\<lparr>rlWindow := w\<rparr>;
          current = \<lparr>elRelease = release, elInFlight = rlInFlight l, elWaiting = rlWaiting l, elWindowPeak = peak\<rparr>;
          idle = (elInFlight current = 0 \<and> elWaiting current = 0 \<and> elWindowPeak current = 0)
      in if idle \<and> (\<not> rlEverPushed l \<or> rlPublished l = current) then (False, l', None, False)
         else if current = rlPublished l \<and> time_sub now (rlRenewedAt l) < renewAfter \<and> \<not> rlWake l then (True, l', None, False)
         else (True, l'\<lparr>rlWake := False, rlPublished := current, rlRenewedAt := now, rlEverPushed := True\<rparr>, Some current,
               rlWake l \<and> elWaiting current > 0))"

fun collect_loads :: "time \<Rightarrow> (nat \<times> nat) list \<Rightarrow> edge \<Rightarrow> (nat \<times> nat) list \<times> edge \<times> EndpointLoad list \<times> nat list" where
  "collect_loads now [] e = ([], e, [], [])"
| "collect_loads now ((release, a) # rs) e =
     (let (keep, l, published, wakes) = collect_one now release (load_at e a);
          (kept, e', loads, wake) = collect_loads now rs (set_load a l e)
      in (if keep then (release, a) # kept else kept, e',
          case published of None \<Rightarrow> loads | Some current \<Rightarrow> current # loads,
          if wakes then release # wake else wake))"

definition collectLoads :: "time \<Rightarrow> edge \<Rightarrow> edge \<times> EndpointLoad list \<times> nat list" where
  "collectLoads now e =
     (let (kept, e', loads, wake) = collect_loads now (egLoads e) e in (e'\<lparr>egLoads := kept\<rparr>, loads, wake))"

text \<open>After a failed publication everything is published again.\<close>

definition publish_failed :: "edge \<Rightarrow> edge" where
  "publish_failed e =
     foldl (\<lambda>e (release, a). let l = load_at e a
              in set_load a (l\<lparr>rlRenewedAt := zero_time, rlWake := rlWake l \<or> rlWaiting l > 0\<rparr>) e) e (egLoads e)"

subsection \<open>Containers\<close>

definition avoidFor :: duration where
  "avoidFor = 200 * (second div 1000)"

definition no_state :: workloadState where
  "no_state = \<lparr>wkLoaded = False, wkStarted = 0, wkApplied = 0, wkStale = False, wkContainers = [], wkWoken = 0\<rparr>"

definition ws_wake :: "workloadState \<Rightarrow> workloadState" where
  "ws_wake ws = ws\<lparr>wkWoken := wkWoken ws + 1\<rparr>"

definition stateLocked :: "nat \<Rightarrow> edge \<Rightarrow> workloadState \<times> edge" where
  "stateLocked workload e =
     (case egWorkloads e workload of
        Some ws \<Rightarrow> (ws, e)
      | None \<Rightarrow> (no_state, e\<lparr>egWorkloads := (egWorkloads e)(workload \<mapsto> no_state)\<rparr>))"

text \<open>The start of a read of a workload's containers, numbered, and a reload that could not be queued.\<close>

definition load_begin :: "nat \<Rightarrow> edge \<Rightarrow> nat \<times> edge" where
  "load_begin workload e =
     (let (ws, e) = stateLocked workload e; started = wkStarted ws + 1
      in (started, e\<lparr>egWorkloads := (egWorkloads e)(workload \<mapsto> ws\<lparr>wkStarted := started\<rparr>)\<rparr>))"

definition markChanged :: "nat \<Rightarrow> bool \<Rightarrow> edge \<Rightarrow> edge" where
  "markChanged workload queued e =
     (case egWorkloads e workload of
        None \<Rightarrow> e
      | Some ws \<Rightarrow> if queued then e else e\<lparr>egWorkloads := (egWorkloads e)(workload \<mapsto> ws_wake (ws\<lparr>wkStale := True\<rparr>))\<rparr>)"

record EndpointContainer =
  ecContainer :: nat
  ecRelease :: nat
  ecVersion :: int
  ecHost :: nat
  ecTraceparent :: string

text \<open>The slot of a row: the one the workload has, eligible_slot again, or a new one.\<close>

definition apply_row :: "(nat \<times> nat) list \<Rightarrow> edge \<Rightarrow> (nat \<times> nat) list \<Rightarrow> EndpointContainer \<Rightarrow> (nat \<times> nat) list \<times> edge" where
  "apply_row old e next row =
     (case map_of old (ecContainer row) of
        Some a \<Rightarrow> (AList.update (ecContainer row) a next, set_slot a ((egSlotHeap e ! a)\<lparr>soAvoid := zero_time\<rparr>) e)
      | None \<Rightarrow> (AList.update (ecContainer row) (length (egSlotHeap e)) next,
                 e\<lparr>egSlotHeap := egSlotHeap e @ [\<lparr>soID = ecContainer row, soRelease = ecRelease row, soVersion = ecVersion row,
                    soHost = ecHost row, soTraceparent = ecTraceparent row, soInflight = 0, soAvoid = zero_time\<rparr>]\<rparr>))"

definition applyLocked :: "nat \<Rightarrow> nat \<Rightarrow> EndpointContainer list \<Rightarrow> edge \<Rightarrow> edge" where
  "applyLocked workload read rows e =
     (let (ws, e) = stateLocked workload e
      in if read < wkApplied ws then e
         else let (next, e') = foldl (\<lambda>(next, e) row. apply_row (wkContainers ws) e next row) ([], e) rows;
                  ws' = ws_wake (ws\<lparr>wkApplied := read, wkStale := False, wkContainers := next, wkLoaded := True\<rparr>)
              in e'\<lparr>egWorkloads := (egWorkloads e')(workload \<mapsto> ws')\<rparr>)"

subsection \<open>Leases\<close>

record edgeTarget =
  tgWorkload :: workload
  tgRelease :: edgeRelease
  tgLatest :: bool
  tgContainer :: "nat option"
  tgAuthorized :: bool

definition capacityLocked :: "edge \<Rightarrow> slot \<Rightarrow> int" where
  "capacityLocked e s = (case map_of (egReleases e) (soRelease s) of Some r \<Rightarrow> erCapacity r | None \<Rightarrow> 1)"

text \<open>The loop of \<open>candidates\<close>: the best slot so far with its free capacity, and whether any slot matches.\<close>

definition candidate :: "time \<Rightarrow> edge \<Rightarrow> (slot \<Rightarrow> bool) \<Rightarrow> (nat \<times> int) option \<times> bool \<Rightarrow> nat \<times> nat \<Rightarrow> (nat \<times> int) option \<times> bool" where
  "candidate now e match = (\<lambda>(best, found) (_, a).
     let s = egSlotHeap e ! a; free = capacityLocked e s - soInflight s
     in if \<not> match s then (best, found)
        else if now < soAvoid s then (best, True)
        else if free > 0 \<and> (case best of None \<Rightarrow> True | Some (_, bestFree) \<Rightarrow> free > bestFree) then (Some (a, free), True)
        else (best, True))"

definition candidates :: "time \<Rightarrow> edge \<Rightarrow> workloadState \<Rightarrow> (slot \<Rightarrow> bool) \<Rightarrow> nat option \<times> bool" where
  "candidates now e ws match =
     (let (best, found) = foldl (candidate now e match) (None, False) (wkContainers ws) in (map_option fst best, found))"

definition newest_below :: "edge \<Rightarrow> workloadState \<Rightarrow> int \<Rightarrow> int" where
  "newest_below e ws active =
     foldl (\<lambda>newest (_, a). let v = soVersion (egSlotHeap e ! a) in if v > newest \<and> v < active then v else newest) 0 (wkContainers ws)"

definition pickLocked :: "time \<Rightarrow> edge \<Rightarrow> workloadState \<Rightarrow> edgeTarget \<Rightarrow> nat option \<times> bool" where
  "pickLocked now e ws t =
     (case tgContainer t of
        Some c \<Rightarrow> candidates now e ws (\<lambda>s. soID s = c)
      | None \<Rightarrow>
          let (best, found) = candidates now e ws (\<lambda>s. soRelease s = erID (tgRelease t))
          in if found \<or> \<not> tgLatest t then (best, found)
             else case erVersion (tgRelease t) of
                    None \<Rightarrow> (None, False)
                  | Some active \<Rightarrow>
                      let newest = newest_below e ws active
                      in if newest = 0 then (None, False) else candidates now e ws (\<lambda>s. soVersion s = newest))"

definition avoidedUntilLocked :: "time \<Rightarrow> edge \<Rightarrow> workloadState \<Rightarrow> time" where
  "avoidedUntilLocked now e ws =
     foldl (\<lambda>until (_, a). let s = egSlotHeap e ! a in if now < soAvoid s \<and> until < soAvoid s then soAvoid s else until)
       zero_time (wkContainers ws)"

text \<open>How one turn of the loop of \<open>acquire\<close> ends: the lease's slot and load, a refusal, or a wait on a load.\<close>

datatype acquired = Stale | Leased nat nat | TooManyWait | Waits nat bool bool

text \<open>
  The turn, under the lock: \<open>held\<close> is the load the request already waits on. A wait says whether the release has any
  container and whether the request checks now if it can start.
\<close>

definition acquire_turn :: "time \<Rightarrow> duration \<Rightarrow> edgeTarget \<Rightarrow> nat option \<Rightarrow> edge \<Rightarrow> acquired \<times> edge" where
  "acquire_turn now failureCheck t held e =
     (let (ws, e) = stateLocked (wlID (tgWorkload t)) e
      in if wkStale ws then (Stale, e)
         else
           let (a, e) = (case held of Some a \<Rightarrow> (a, e) | None \<Rightarrow> demandLocked (tgRelease t) e)
           in case pickLocked now e ws t of
                (Some s, _) \<Rightarrow>
                  let e = set_slot s ((egSlotHeap e ! s)\<lparr>soInflight := soInflight (egSlotHeap e ! s) + 1\<rparr>) e;
                      l = load_at e a;
                      l = (if held \<noteq> None then l\<lparr>rlWaiting := rlWaiting l - 1\<rparr> else l);
                      l = l\<lparr>rlInFlight := rlInFlight l + 1\<rparr>
                  in (Leased s a, set_load a (sample now l) e)
              | (None, any) \<Rightarrow>
                  if held = None \<and> rlWaiting (load_at e a) \<ge> erMaxPending (tgRelease t) then (TooManyWait, e)
                  else
                    let e = (if held = None
                             then set_load a (sample now ((load_at e a)\<lparr>rlWaiting := rlWaiting (load_at e a) + 1\<rparr>)) e else e);
                        (check, e) = (if any then (False, e)
                                      else let (wait, l) = failureCheckIn now failureCheck (load_at e a) in (\<not> wait > 0, set_load a l e))
                    in (Waits a any check, e))"

text \<open>A waiting request that gives up.\<close>

definition acquire_leave :: "time \<Rightarrow> nat \<Rightarrow> edge \<Rightarrow> edge" where
  "acquire_leave now a e = set_load a (sample now ((load_at e a)\<lparr>rlWaiting := rlWaiting (load_at e a) - 1\<rparr>)) e"

text \<open>One request's hold on a container's capacity.\<close>

record lease =
  lsWorkload :: nat
  lsSlot :: nat
  lsLoad :: nat
  lsEnded :: bool
  lsCold :: bool

definition lease_end :: "time \<Rightarrow> lease \<Rightarrow> edge \<Rightarrow> lease \<times> edge" where
  "lease_end now h e =
     (if lsEnded h then (h, e)
      else let e = set_slot (lsSlot h) ((egSlotHeap e ! lsSlot h)\<lparr>soInflight := soInflight (egSlotHeap e ! lsSlot h) - 1\<rparr>) e;
               l = sample now ((load_at e (lsLoad h))\<lparr>rlInFlight := rlInFlight (load_at e (lsLoad h)) - 1\<rparr>);
               e = set_load (lsLoad h) (l\<lparr>rlServed := rlServed l + 1\<rparr>) e
           in (h\<lparr>lsEnded := True\<rparr>,
               case egWorkloads e (lsWorkload h) of
                 None \<Rightarrow> e
               | Some ws \<Rightarrow> e\<lparr>egWorkloads := (egWorkloads e)(lsWorkload h \<mapsto> ws_wake ws)\<rparr>))"

text \<open>
  A container that refused a request is left alone for a moment. The whole of \<open>refused\<close> takes the lock three times: to mark the
  slot, to end the lease, and for a reload.
\<close>

definition lease_avoid :: "time \<Rightarrow> lease \<Rightarrow> edge \<Rightarrow> edge" where
  "lease_avoid now h e = set_slot (lsSlot h) ((egSlotHeap e ! lsSlot h)\<lparr>soAvoid := now + avoidFor\<rparr>) e"

definition lease_refused :: "time \<Rightarrow> bool \<Rightarrow> bool \<Rightarrow> lease \<Rightarrow> edge \<Rightarrow> lease \<times> edge" where
  "lease_refused now reload queued h e =
     (let (h', e') = lease_end now h (lease_avoid now h e)
      in (h', if reload then markChanged (lsWorkload h) queued e' else e'))"

text \<open>The windows of the releases a deploy replaced.\<close>

definition forgetReplacedWindows :: "routeTable \<Rightarrow> routeTable \<Rightarrow> edge \<Rightarrow> edge" where
  "forgetReplacedWindows previous new e =
     foldl (\<lambda>e (workload, before).
       case wlActive before of
         None \<Rightarrow> e
       | Some r \<Rightarrow>
           if (case map_of (rtByID new) workload of
                 None \<Rightarrow> False
               | Some after \<Rightarrow> (case wlActive after of None \<Rightarrow> False | Some r' \<Rightarrow> erID r' = erID r)) then e
           else case map_of (egLoads e) (erID r) of
                  None \<Rightarrow> e
                | Some a \<Rightarrow> set_load a ((load_at e a)\<lparr>rlWindow := no_window\<rparr>) e) e (rtByID previous)"

end
