(* ===== verification/EdgeWindow.thy ===== *)
theory EdgeWindow
  imports EdgeLoad
begin

text \<open>
  The demand window of a release: it covers every sample taken within the window, it forgets demand that lasted longer than the
  window as soon as it ends, and it holds on to an old peak while traffic goes on.
\<close>

definition window_after :: "duration \<Rightarrow> (time \<times> int) list \<Rightarrow> windowMax" where
  "window_after win hs = foldl (\<lambda>w (t, v). push t v win w) no_window hs"

lemma window_after_snoc: "window_after win (hs @ [(t, v)]) = push t v win (window_after win hs)"
  by (simp add: window_after_def)

text \<open>A deque: the two lists go together, instants rise and values fall.\<close>

definition deque_ok :: "windowMax \<Rightarrow> bool" where
  "deque_ok w \<longleftrightarrow> length (wxAt w) = length (wxValues w) \<and> sorted (wxAt w) \<and> sorted_wrt (>) (wxValues w)"

lemma deque_no_window [simp]: "deque_ok no_window"
  by (simp add: deque_ok_def no_window_def)

lemma deque_drop: "deque_ok w \<Longrightarrow> deque_ok \<lparr>wxAt = drop n (wxAt w), wxValues = drop n (wxValues w)\<rparr>"
  by (simp add: deque_ok_def sorted_wrt_drop)

lemma deque_take: "deque_ok w \<Longrightarrow> deque_ok \<lparr>wxAt = take n (wxAt w), wxValues = take n (wxValues w)\<rparr>"
  by (simp add: deque_ok_def sorted_wrt_take)

lemma expire_deque: "deque_ok w \<Longrightarrow> deque_ok (expire now win w)"
  by (simp add: expire_def Let_def deque_drop)

text \<open>Popping keeps the samples above a value.\<close>

lemma pop_below_spec:
  "deque_ok w \<Longrightarrow> \<exists>n \<le> length (wxValues w). pop_below v w = \<lparr>wxAt = take n (wxAt w), wxValues = take n (wxValues w)\<rparr>
    \<and> (\<forall>k. n \<le> k \<longrightarrow> k < length (wxValues w) \<longrightarrow> wxValues w ! k \<le> v) \<and> (\<forall>k < n. v < wxValues w ! k)"
proof (induction v w rule: pop_below.induct)
  case (1 v w)
  let ?n = "length (wxValues w)"
  show ?case
  proof (cases "?n > 0 \<and> wxValues w ! (?n - 1) \<le> v")
    case True
    let ?w = "\<lparr>wxAt = take (?n - 1) (wxAt w), wxValues = take (?n - 1) (wxValues w)\<rparr>"
    from "1.IH" [OF refl True deque_take [OF "1.prems"]] obtain n where IH: "n \<le> length (wxValues ?w)"
      "pop_below v ?w = \<lparr>wxAt = take n (wxAt ?w), wxValues = take n (wxValues ?w)\<rparr>"
      "\<And>k. n \<le> k \<Longrightarrow> k < length (wxValues ?w) \<Longrightarrow> wxValues ?w ! k \<le> v" "\<And>k. k < n \<Longrightarrow> v < wxValues ?w ! k" by blast
    have le: "n \<le> ?n - 1" using IH(1) by simp
    have n: "n \<le> ?n - 1" "pop_below v ?w = \<lparr>wxAt = take n (wxAt w), wxValues = take n (wxValues w)\<rparr>"
      "\<And>k. n \<le> k \<Longrightarrow> k < ?n - 1 \<Longrightarrow> wxValues w ! k \<le> v" "\<And>k. k < n \<Longrightarrow> v < wxValues w ! k"
      using le IH by (simp_all add: min_absorb1)
    have "wxValues w ! k \<le> v" if "n \<le> k" "k < ?n" for k
      using n(3) [of k] that True by (cases "k = ?n - 1") auto
    moreover have "pop_below v w = pop_below v ?w" using True by (subst pop_below.simps) (simp add: Let_def)
    ultimately show ?thesis using n by (intro exI [of _ n]) auto
  next
    case False
    have "v < wxValues w ! k" if "k < ?n" for k
    proof (cases "k = ?n - 1")
      case k: False
      then have "wxValues w ! (?n - 1) < wxValues w ! k"
        using that "1.prems" sorted_wrt_nth_less [of "(>)" "wxValues w" k "?n - 1"] by (auto simp: deque_ok_def)
      then show ?thesis using False that by auto
    qed (use False that in auto)
    moreover have "pop_below v w = w" using False by (subst pop_below.simps) (auto simp: Let_def)
    moreover have "w = \<lparr>wxAt = take ?n (wxAt w), wxValues = take ?n (wxValues w)\<rparr>"
      using "1.prems" by (simp add: deque_ok_def)
    ultimately show ?thesis by (intro exI [of _ ?n]) simp
  qed
qed

lemma push_deque:
  assumes "deque_ok w" "\<forall>t\<in>set (wxAt w). t \<le> now"
  shows "deque_ok (push now v win w)" and "\<forall>t\<in>set (wxAt (push now v win w)). t \<le> now"
proof -
  let ?w = "expire now win w"
  have old: "\<forall>t\<in>set (wxAt ?w). t \<le> now"
    using assms(2) by (auto simp: expire_def Let_def no_window_def dest: in_set_dropD)
  note ok = expire_deque [OF assms(1), of now win]
  from pop_below_spec [OF ok, of v] obtain n where n: "n \<le> length (wxValues ?w)"
    "pop_below v ?w = \<lparr>wxAt = take n (wxAt ?w), wxValues = take n (wxValues ?w)\<rparr>" "\<forall>k<n. v < wxValues ?w ! k" by blast
  have "\<forall>x\<in>set (take n (wxValues ?w)). v < x" using n(1,3) by (auto simp: in_set_conv_nth)
  then show "deque_ok (push now v win w)"
    using deque_take [OF ok, of n] n(1,2) old ok
    by (auto simp: push_def Let_def deque_ok_def sorted_append sorted_wrt_append dest: in_set_takeD)
  show "\<forall>t\<in>set (wxAt (push now v win w)). t \<le> now" using n(2) old by (auto simp: push_def Let_def dest: in_set_takeD)
qed

lemma time_sub_gt: "0 \<le> win \<Longrightarrow> win < 2 ^ 63 - 1 \<Longrightarrow> time_sub a b > win \<longleftrightarrow> a - b > win"
  by (auto simp: time_sub_def)

lemma expire_cut_old: "k < expire_cut now win ts \<Longrightarrow> Suc k < length ts \<and> time_sub now (ts ! Suc k) > win"
proof (induction now win ts arbitrary: k rule: expire_cut.induct)
  case (1 now win a b ts)
  then show ?case by (cases k) (auto split: if_splits)
qed auto

text \<open>A sample within the window stays.\<close>

lemma expire_keeps:
  assumes "deque_ok w" "k < length (wxAt w)" "now - wxAt w ! k \<le> win" "0 \<le> win" "win < 2 ^ 63 - 1"
  shows "\<exists>j < length (wxAt (expire now win w)). wxAt (expire now win w) ! j = wxAt w ! k \<and> wxValues (expire now win w) ! j = wxValues w ! k"
proof -
  let ?c = "expire_cut now win (wxAt w)"
  have len: "length (wxAt w) = length (wxValues w)" using assms(1) by (simp add: deque_ok_def)
  have c: "?c \<le> k"
  proof (rule ccontr)
    assume "\<not> ?c \<le> k"
    with expire_cut_old [of k now win "wxAt w"] have "Suc k < length (wxAt w)" "now - wxAt w ! Suc k > win"
      using assms(4,5) by (auto simp: time_sub_gt)
    moreover from this have "wxAt w ! k \<le> wxAt w ! Suc k" using assms(1) by (simp add: deque_ok_def sorted_nth_mono)
    ultimately show False using assms(3) by linarith
  qed
  have "\<not> (length (drop ?c (wxAt w)) = 1 \<and> time_sub now (hd (drop ?c (wxAt w))) > win)"
  proof
    assume one: "length (drop ?c (wxAt w)) = 1 \<and> time_sub now (hd (drop ?c (wxAt w))) > win"
    then have "length (wxAt w) - ?c = 1" by simp
    then have "k = ?c" using c assms(2) by linarith
    moreover have "hd (drop ?c (wxAt w)) = wxAt w ! ?c" using c assms(2) by (simp add: hd_drop_conv_nth)
    ultimately show False using one assms(3-5) by (simp add: time_sub_gt)
  qed
  then have "expire now win w = \<lparr>wxAt = drop ?c (wxAt w), wxValues = drop ?c (wxValues w)\<rparr>" by (auto simp: expire_def Let_def)
  then show ?thesis using c assms(2) len by (intro exI [of _ "k - ?c"]) auto
qed

subsection \<open>What the window covers\<close>

definition covered :: "duration \<Rightarrow> time \<Rightarrow> windowMax \<Rightarrow> time \<times> int \<Rightarrow> bool" where
  "covered win now w = (\<lambda>(t, v). (\<exists>k < length (wxAt w). v \<le> wxValues w ! k \<and> t \<le> wxAt w ! k) \<or> win < now - t)"

lemma covered_expire:
  assumes "deque_ok w" "covered win before w h" "before \<le> now" "0 \<le> win" "win < 2 ^ 63 - 1"
  shows "covered win now (expire now win w) h"
proof -
  obtain t v where h: "h = (t, v)" by (cases h)
  show ?thesis
  proof (cases "win < now - t")
    case False
    then obtain k where k: "k < length (wxAt w)" "v \<le> wxValues w ! k" "t \<le> wxAt w ! k"
      using assms(2,3) h by (auto simp: covered_def)
    moreover have "now - wxAt w ! k \<le> win" using k(3) False by linarith
    ultimately show ?thesis using expire_keeps [OF assms(1) _ _ assms(4,5), of k now] h by (fastforce simp: covered_def)
  qed (simp add: covered_def h)
qed

lemma covered_push:
  assumes "deque_ok w" "covered win before w (t, v)" "before \<le> now" "t \<le> now" "0 \<le> win" "win < 2 ^ 63 - 1"
  shows "covered win now (push now x win w) (t, v)"
proof -
  let ?w = "expire now win w"
  note ok = expire_deque [OF assms(1), of now win]
  then have len: "length (wxAt ?w) = length (wxValues ?w)" by (simp add: deque_ok_def)
  from pop_below_spec [OF ok, of x] obtain n where n: "n \<le> length (wxValues ?w)"
    "pop_below x ?w = \<lparr>wxAt = take n (wxAt ?w), wxValues = take n (wxValues ?w)\<rparr>"
    "\<And>k. n \<le> k \<Longrightarrow> k < length (wxValues ?w) \<Longrightarrow> wxValues ?w ! k \<le> x" by blast
  have push: "wxAt (push now x win w) = take n (wxAt ?w) @ [now]" "wxValues (push now x win w) = take n (wxValues ?w) @ [x]"
    by (simp_all add: push_def Let_def n(2))
  from covered_expire [OF assms(1,2,3,5,6)] consider "win < now - t"
    | k where "k < length (wxAt ?w)" "v \<le> wxValues ?w ! k" "t \<le> wxAt ?w ! k" by (auto simp: covered_def)
  then show ?thesis
  proof cases
    case (2 k)
    let ?j = "if k < n then k else n"
    have "?j < length (wxAt (push now x win w)) \<and> v \<le> wxValues (push now x win w) ! ?j \<and> t \<le> wxAt (push now x win w) ! ?j"
      using 2 n(1) n(3) [of k] len assms(4) by (auto simp: push nth_append)
    then show ?thesis unfolding covered_def by blast
  qed (simp add: covered_def)
qed

lemma window_after_ok:
  assumes "sorted (map fst hs)" "\<forall>h\<in>set hs. fst h \<le> now" "0 \<le> win" "win < 2 ^ 63 - 1"
  shows "deque_ok (window_after win hs) \<and> (\<forall>t\<in>set (wxAt (window_after win hs)). t \<le> now)
    \<and> (\<forall>h\<in>set hs. covered win now (window_after win hs) h)"
  using assms(1,2)
proof (induction hs arbitrary: now rule: rev_induct)
  case Nil
  then show ?case by (simp add: window_after_def) (simp add: no_window_def)
next
  case (snoc h hs)
  obtain t v where h: "h = (t, v)" by (cases h)
  let ?w = "window_after win hs"
  have "sorted (map fst hs)" "\<forall>h\<in>set hs. fst h \<le> t" "t \<le> now" using snoc.prems h by (auto simp: sorted_append)
  with snoc.IH [of t] have IH: "deque_ok ?w" "\<forall>s\<in>set (wxAt ?w). s \<le> t" "\<forall>h\<in>set hs. covered win t ?w h" by auto
  have push: "window_after win (hs @ [h]) = push t v win ?w" by (simp add: h window_after_snoc)
  note new = push_deque [OF IH(1,2), of v win]
  have "covered win t (push t v win ?w) h'" if "h' \<in> set hs" for h'
    using covered_push [OF IH(1), of win t "fst h'" "snd h'" t v] IH(3) that \<open>\<forall>h\<in>set hs. fst h \<le> t\<close> assms(3,4) by simp
  moreover have "covered win t (push t v win ?w) (t, v)"
  proof -
    have "length (wxAt (push t v win ?w)) = length (wxValues (push t v win ?w))" using new(1) by (simp add: deque_ok_def)
    then show ?thesis unfolding covered_def prod.case
      by (intro disjI1 exI [of _ "length (wxAt (pop_below v (expire t win ?w)))"]) (simp add: push_def Let_def nth_append)
  qed
  ultimately have "\<forall>h\<in>set (hs @ [h]). covered win t (push t v win ?w) h" using h by auto
  then have "\<forall>h\<in>set (hs @ [h]). covered win now (push t v win ?w) h" using \<open>t \<le> now\<close> by (auto simp: covered_def)
  then show ?case using new \<open>t \<le> now\<close> unfolding push by fastforce
qed

lemma push_values: "deque_ok w \<Longrightarrow> set (wxValues (push now v win w)) \<subseteq> insert v (set (wxValues w))"
proof -
  assume "deque_ok w"
  then obtain n where "pop_below v (expire now win w)
      = \<lparr>wxAt = take n (wxAt (expire now win w)), wxValues = take n (wxValues (expire now win w))\<rparr>"
    using pop_below_spec [OF expire_deque] by blast
  then show ?thesis
    by (auto simp: push_def Let_def expire_def no_window_def split: if_splits dest!: in_set_takeD in_set_dropD)
qed

lemma window_after_values:
  assumes "sorted (map fst hs)" "0 \<le> win" "win < 2 ^ 63 - 1"
  shows "set (wxValues (window_after win hs)) \<subseteq> set (map snd hs)"
  using assms(1)
proof (induction hs rule: rev_induct)
  case Nil
  then show ?case by (simp add: window_after_def no_window_def)
next
  case (snoc h hs)
  then have "sorted (map fst hs)" "\<forall>h'\<in>set hs. fst h' \<le> fst h" by (auto simp: sorted_append)
  then have "deque_ok (window_after win hs)" using window_after_ok assms(2,3) by blast
  from push_values [OF this, of "fst h" "snd h" win] show ?case using snoc by (cases h) (auto simp: window_after_snoc sorted_append)
qed

text \<open>
  C31: The peak an edge publishes of a release covers its demand now and every sample of its demand taken within the keep-warm
  window, and it is the demand now or a sample.
\<close>

theorem window_max_covers:
  assumes "sorted (map fst hs)" and "\<forall>h\<in>set hs. fst h \<le> now" and "0 \<le> win" and "win < 2 ^ 63 - 1"
  shows "current \<le> fst (window_max now current win (window_after win hs))
    \<and> (\<forall>(t, v)\<in>set hs. now - t \<le> win \<longrightarrow> v \<le> fst (window_max now current win (window_after win hs)))
    \<and> fst (window_max now current win (window_after win hs)) \<in> insert current (set (map snd hs))"
proof -
  let ?w = "window_after win hs"
  let ?e = "expire now win ?w" and ?peak = "fst (window_max now current win (window_after win hs))"
  have ok: "deque_ok ?w" "\<forall>h\<in>set hs. covered win now ?w h" using window_after_ok [OF assms] by blast+
  have e: "deque_ok ?e" using expire_deque [OF ok(1)] .
  have peak: "?peak = (if wxValues ?e \<noteq> [] \<and> wxValues ?e ! 0 > current then wxValues ?e ! 0 else current)"
    by (simp add: window_max_def Let_def)
  have "v \<le> ?peak" if sample: "(t, v) \<in> set hs" "now - t \<le> win" for t v
  proof -
    have "covered win now ?e (t, v)" using covered_expire [OF ok(1) _ order_refl assms(3,4)] ok(2) sample(1) by blast
    then obtain k where "k < length (wxValues ?e)" "v \<le> wxValues ?e ! k" using sample(2) e by (auto simp: covered_def deque_ok_def)
    moreover from this have "wxValues ?e ! k \<le> wxValues ?e ! 0"
      using e sorted_wrt_nth_less [of "(>)" "wxValues ?e" 0 k] by (cases "k = 0") (auto simp: deque_ok_def)
    ultimately show ?thesis unfolding peak by auto
  qed
  moreover have "?peak \<in> insert current (set (map snd hs))"
  proof (cases "wxValues ?e = []")
    case False
    then have "wxValues ?e ! 0 \<in> set (wxValues ?e)" by simp
    moreover have "set (wxValues ?e) \<subseteq> set (wxValues ?w)" by (auto simp: expire_def Let_def no_window_def dest: in_set_dropD)
    ultimately show ?thesis using window_after_values [OF assms(1,3,4)] unfolding peak by auto
  qed (simp add: peak)
  ultimately show ?thesis using peak by auto
qed

theorem window_max_covers_witness:
  "5 \<le> fst (window_max (70 * second) 0 minute (window_after minute [(0, 9), (20 * second, 5), (30 * second, 0)]))"
  using window_max_covers [of "[(0, 9), (20 * second, 5), (30 * second, 0)]" "70 * second" minute 0] by simp

text \<open>
  Demand that lasts longer than the keep-warm window is forgotten at the moment it ends: the window drops its only sample when
  that is older than the window, although the demand it records held until now. So a request that takes longer than the
  window leaves its container no time to stay warm.
\<close>

theorem long_demand_forgotten:
  assumes "0 < v" and "0 \<le> win" and "win < 2 ^ 63 - 1" and "win < stop - start" and "stop \<le> now"
  shows "fst (window_max now 0 win (window_after win [(start, v), (stop, 0)])) = 0"
proof -
  have "window_after win [(start, v), (stop, 0)] = \<lparr>wxAt = [stop], wxValues = [0]\<rparr>"
    using assms by (simp add: window_after_def push_def expire_def no_window_def time_sub_gt pop_below.simps Let_def)
  then show ?thesis by (simp add: window_max_def expire_def no_window_def Let_def)
qed

theorem long_demand_forgotten_witness:
  "fst (window_max (71 * second) 0 minute (window_after minute [(0, 1), (70 * second, 0)])) = 0"
  by (rule long_demand_forgotten) simp_all

text \<open>A peak followed by rising lower samples, none further than the window from the one before.\<close>

lemma peak_stays:
  assumes "0 \<le> win" "win < 2 ^ 63 - 1"
  shows "rest \<noteq> [] \<Longrightarrow> successively (\<lambda>a b. fst b - fst a \<le> win) ((start, p) # rest) \<Longrightarrow> sorted (map snd rest)
    \<Longrightarrow> \<forall>h\<in>set rest. snd h < p \<Longrightarrow> window_after win ((start, p) # rest) = \<lparr>wxAt = [start, fst (last rest)], wxValues = [p, snd (last rest)]\<rparr>"
proof (induction rest rule: rev_induct)
  case (snoc h hs)
  obtain t v where h: "h = (t, v)" by (cases h)
  have push: "window_after win ((start, p) # hs @ [h]) = push t v win (window_after win ((start, p) # hs))"
    using window_after_snoc [of win "(start, p) # hs" t v] h by simp
  show ?case
  proof (cases "hs = []")
    case True
    have "window_after win [(start, p)] = \<lparr>wxAt = [start], wxValues = [p]\<rparr>"
      by (simp add: window_after_def push_def expire_def no_window_def pop_below.simps Let_def)
    then show ?thesis using snoc.prems assms True h push
      by (simp add: push_def expire_def no_window_def time_sub_gt pop_below.simps Let_def)
  next
    case False
    have "successively (\<lambda>a b. fst b - fst a \<le> win) ((start, p) # hs)" "t - fst (last hs) \<le> win"
      using snoc.prems(2) False h successively_append_iff [of _ "(start, p) # hs" "[h]"] by simp_all
    moreover have "snd (last hs) \<le> v" using snoc.prems(3) False h by (auto simp: sorted_append)
    ultimately show ?thesis using snoc False h push assms
      by (simp add: push_def expire_def no_window_def time_sub_gt pop_below.simps Let_def sorted_append)
  qed
qed simp

text \<open>
  An old peak stays in the window as long as traffic goes on: while samples below it arrive at least once per window and do
  not fall, the peak is published however long ago it was, since each sample takes the place of the one before and the peak is
  only dropped once the sample behind it leaves the window.
\<close>

theorem old_peak_stays:
  assumes "rest \<noteq> []" and "successively (\<lambda>a b. fst b - fst a \<le> win) ((start, p) # rest)" and "sorted (map snd rest)"
    and "\<forall>h\<in>set rest. snd h < p" and "0 \<le> win" and "win < 2 ^ 63 - 1" and "now - fst (last rest) \<le> win" and "current < p"
  shows "fst (window_max now current win (window_after win ((start, p) # rest))) = p"
  using assms peak_stays [OF assms(5,6,1-4)]
  by (simp add: window_max_def expire_def no_window_def time_sub_gt Let_def)

theorem old_peak_stays_witness:
  "fst (window_max (500 * second) 1 minute (window_after minute ((0, 50) # map (\<lambda>n. (int n * 30 * second, 1)) [1..<17]))) = 50"
proof (rule old_peak_stays)
  show "successively (\<lambda>a b. fst b - fst a \<le> minute) ((0, 50) # map (\<lambda>n. (int n * 30 * second, 1)) [1..<17])" by code_simp
qed (simp_all add: upt_rec)

text \<open>So does a trickle of single requests: a burst of fifty, then a request of a second every half minute.\<close>

lemma trickle_keeps_peak:
  "fst (window_max (500 * second) 0 minute (window_after minute
     ((0, 50) # concat (map (\<lambda>n. [(int n * 30 * second, 1), (int n * 30 * second + second, 0)]) [1..<17])))) = 50"
  by code_simp

end
