(* ===== verification/EdgeCounts.thy ===== *)
theory EdgeCounts
  imports EdgeLoad "HOL-Library.Multiset"
begin

text \<open>
  Requests and leases over time: the counts the edge keeps are those of the requests it has, and the publisher never forgets a
  load that a request counts against.
\<close>

subsection \<open>What the edge goes through\<close>

text \<open>
  The sections that hold the mutex, in any order, with the loads the waiting requests hold and the slots and loads of the
  leases.
\<close>

inductive edge_run :: "duration \<Rightarrow> edge \<Rightarrow> nat multiset \<Rightarrow> (nat \<times> nat) multiset \<Rightarrow> bool" for check where
  boot: "egLoads e = [] \<Longrightarrow> egLoadHeap e = [] \<Longrightarrow> egSlotHeap e = [] \<Longrightarrow> (\<And>w. egWorkloads e w = None) \<Longrightarrow> edge_run check e {#} {#}"
| lease: "edge_run check e W L \<Longrightarrow> acquire_turn now check t None e = (Leased s a, e') \<Longrightarrow> edge_run check e' W (add_mset (s, a) L)"
| lease_waited: "edge_run check e W L \<Longrightarrow> h \<in># W \<Longrightarrow> acquire_turn now check t (Some h) e = (Leased s a, e')
    \<Longrightarrow> edge_run check e' (W - {#h#}) (add_mset (s, a) L)"
| wait: "edge_run check e W L \<Longrightarrow> acquire_turn now check t None e = (Waits a any fails, e') \<Longrightarrow> edge_run check e' (add_mset a W) L"
| wait_on: "edge_run check e W L \<Longrightarrow> h \<in># W \<Longrightarrow> acquire_turn now check t (Some h) e = (Waits a any fails, e') \<Longrightarrow> edge_run check e' W L"
| refuse: "edge_run check e W L \<Longrightarrow> acquire_turn now check t None e = (TooManyWait, e') \<Longrightarrow> edge_run check e' W L"
| stale: "edge_run check e W L \<Longrightarrow> acquire_turn now check t held e = (Stale, e') \<Longrightarrow> edge_run check e' W L"
| leave: "edge_run check e W L \<Longrightarrow> h \<in># W \<Longrightarrow> edge_run check (acquire_leave now h e) (W - {#h#}) L"
| finish: "edge_run check e W L \<Longrightarrow> (s, a) \<in># L \<Longrightarrow> \<not> lsEnded h \<Longrightarrow> lsSlot h = s \<Longrightarrow> lsLoad h = a
    \<Longrightarrow> edge_run check (snd (lease_end now h e)) W (L - {#(s, a)#})"
| ended: "edge_run check e W L \<Longrightarrow> lsEnded h \<Longrightarrow> edge_run check (snd (lease_end now h e)) W L"
| avoid: "edge_run check e W L \<Longrightarrow> edge_run check (lease_avoid now h e) W L"
| kick: "edge_run check e W L \<Longrightarrow> edge_run check (kick r e) W L"
| collect: "edge_run check e W L \<Longrightarrow> edge_run check (fst (collectLoads now e)) W L"
| unpublished: "edge_run check e W L \<Longrightarrow> edge_run check (publish_failed e) W L"
| forget: "edge_run check e W L \<Longrightarrow> edge_run check (forgetReplacedWindows previous new e) W L"
| reading: "edge_run check e W L \<Longrightarrow> edge_run check (snd (load_begin w e)) W L"
| changed: "edge_run check e W L \<Longrightarrow> edge_run check (markChanged w queued e) W L"
| reload: "edge_run check e W L \<Longrightarrow> edge_run check (applyLocked w read rows e) W L"
| cache: "edge_run check e W L
    \<Longrightarrow> edge_run check (e\<lparr>egRoutes := routes, egReloadStarted := started, egReleases := rs, egVersions := vs, egMisses := ms, egPublish := p\<rparr>) W L"

subsection \<open>The counts\<close>

definition loads_ok :: "(nat \<times> nat) list \<Rightarrow> releaseLoad list \<Rightarrow> bool" where
  "loads_ok loads heap \<longleftrightarrow> distinct (map fst loads) \<and> distinct (map snd loads)
     \<and> (\<forall>r a. (r, a) \<in> set loads \<longrightarrow> a < length heap \<and> rlRelease (heap ! a) = r)"

definition counts_ok :: "releaseLoad list \<Rightarrow> nat multiset \<Rightarrow> (nat \<times> nat) multiset \<Rightarrow> bool" where
  "counts_ok heap W L \<longleftrightarrow>
     (\<forall>a < length heap. rlWaiting (heap ! a) = int (count W a) \<and> rlInFlight (heap ! a) = int (count (image_mset snd L) a))"

definition known :: "(nat \<times> nat) list \<Rightarrow> nat multiset \<Rightarrow> (nat \<times> nat) multiset \<Rightarrow> bool" where
  "known loads W L \<longleftrightarrow> set_mset W \<union> set_mset (image_mset snd L) \<subseteq> set (map snd loads)"

definition slots_ok :: "slot list \<Rightarrow> (nat \<times> nat) multiset \<Rightarrow> bool" where
  "slots_ok heap L \<longleftrightarrow> (\<forall>s < length heap. soInflight (heap ! s) = int (count (image_mset fst L) s))
     \<and> (\<forall>s a. (s, a) \<in># L \<longrightarrow> s < length heap)"

definition containers_ok :: "edge \<Rightarrow> bool" where
  "containers_ok e \<longleftrightarrow> (\<forall>w ws c a. egWorkloads e w = Some ws \<longrightarrow> (c, a) \<in> set (wkContainers ws) \<longrightarrow> a < length (egSlotHeap e))"

definition edge_ok :: "edge \<Rightarrow> nat multiset \<Rightarrow> (nat \<times> nat) multiset \<Rightarrow> bool" where
  "edge_ok e W L \<longleftrightarrow> loads_ok (egLoads e) (egLoadHeap e) \<and> counts_ok (egLoadHeap e) W L \<and> known (egLoads e) W L
     \<and> slots_ok (egSlotHeap e) L \<and> containers_ok e"

text \<open>Writes to a load or a slot.\<close>

lemma set_load_simps [simp]:
  "egLoads (set_load a l e) = egLoads e" "egLoadHeap (set_load a l e) = (egLoadHeap e)[a := l]"
  "egSlotHeap (set_load a l e) = egSlotHeap e" "egWorkloads (set_load a l e) = egWorkloads e"
  by (simp_all add: set_load_def)

lemma set_slot_simps [simp]:
  "egLoads (set_slot a s e) = egLoads e" "egLoadHeap (set_slot a s e) = egLoadHeap e"
  "egSlotHeap (set_slot a s e) = (egSlotHeap e)[a := s]" "egWorkloads (set_slot a s e) = egWorkloads e"
  by (simp_all add: set_slot_def)

lemma sample_simps [simp]:
  "rlWaiting (sample now l) = rlWaiting l" "rlInFlight (sample now l) = rlInFlight l" "rlRelease (sample now l) = rlRelease l"
  by (simp_all add: sample_def)

lemma nth_update: "j < length xs \<Longrightarrow> xs[i := x] ! j = (if i = j then x else xs ! j)"
  by simp

lemma loads_ok_set: "loads_ok loads heap \<Longrightarrow> rlRelease l = rlRelease (heap ! a) \<Longrightarrow> loads_ok loads (heap[a := l])"
  unfolding loads_ok_def by (metis length_list_update nth_list_update_eq nth_list_update_neq)

lemma counts_ok_set:
  assumes "counts_ok heap W L" "rlWaiting l = int (count W' a)" "rlInFlight l = int (count (image_mset snd L') a)"
    and "\<And>b. b \<noteq> a \<Longrightarrow> count W' b = count W b \<and> count (image_mset snd L') b = count (image_mset snd L) b"
  shows "counts_ok (heap[a := l]) W' L'"
  using assms by (auto simp: counts_ok_def nth_update)

lemma slots_ok_set:
  assumes "slots_ok heap L" "soInflight x = int (count (image_mset fst L') s)"
    and "\<And>b. b \<noteq> s \<Longrightarrow> count (image_mset fst L') b = count (image_mset fst L) b"
    and "\<And>b c. (b, c) \<in># L' \<Longrightarrow> b < length heap"
  shows "slots_ok (heap[s := x]) L'"
  using assms by (auto simp: slots_ok_def nth_update)

text \<open>A load rewritten with its counts and release, and a slot with its count.\<close>

definition same_load :: "releaseLoad \<Rightarrow> releaseLoad \<Rightarrow> bool" where
  "same_load l l' \<longleftrightarrow> rlWaiting l' = rlWaiting l \<and> rlInFlight l' = rlInFlight l \<and> rlRelease l' = rlRelease l"

lemma edge_ok_touch: "edge_ok e W L \<Longrightarrow> same_load (load_at e a) l \<Longrightarrow> edge_ok (set_load a l e) W L"
proof -
  assume e: "edge_ok e W L" and l: "same_load (load_at e a) l"
  have "counts_ok ((egLoadHeap e)[a := l]) W L"
    using e l by (auto simp: edge_ok_def counts_ok_def same_load_def load_at_def nth_update)
  then show ?thesis using e l loads_ok_set [of "egLoads e" "egLoadHeap e" l a]
    by (simp add: edge_ok_def containers_ok_def same_load_def load_at_def)
qed

lemma edge_ok_touch_slot:
  assumes "edge_ok e W L" "soInflight s = soInflight (egSlotHeap e ! a)"
  shows "edge_ok (set_slot a s e) W L"
  using assms by (auto simp: edge_ok_def slots_ok_def containers_ok_def nth_update)

lemma edge_ok_same:
  assumes "edge_ok e W L" "egLoads e' = egLoads e" "egLoadHeap e' = egLoadHeap e" "egSlotHeap e' = egSlotHeap e" "egWorkloads e' = egWorkloads e"
  shows "edge_ok e' W L"
  using assms by (simp add: edge_ok_def containers_ok_def)

subsection \<open>Choosing a container\<close>

definition free_capacity :: "edge \<Rightarrow> nat \<Rightarrow> int" where
  "free_capacity e a = capacityLocked e (egSlotHeap e ! a) - soInflight (egSlotHeap e ! a)"

definition eligible_slot :: "time \<Rightarrow> edge \<Rightarrow> (slot \<Rightarrow> bool) \<Rightarrow> nat \<Rightarrow> bool" where
  "eligible_slot now e match a \<longleftrightarrow> match (egSlotHeap e ! a) \<and> \<not> now < soAvoid (egSlotHeap e ! a) \<and> free_capacity e a > 0"

text \<open>The slot \<open>candidates\<close> returns has the most free capacity of the eligible_slot ones.\<close>

definition best_of :: "time \<Rightarrow> edge \<Rightarrow> (slot \<Rightarrow> bool) \<Rightarrow> nat list \<Rightarrow> nat option \<Rightarrow> bool" where
  "best_of now e match as r \<longleftrightarrow>
     (case r of
        None \<Rightarrow> \<forall>b\<in>set as. \<not> eligible_slot now e match b
      | Some a \<Rightarrow> a \<in> set as \<and> eligible_slot now e match a \<and> (\<forall>b\<in>set as. eligible_slot now e match b \<longrightarrow> free_capacity e b \<le> free_capacity e a))"

lemma candidate_step:
  "candidate now e match (b, f) (c, a) =
     (if eligible_slot now e match a \<and> (case b of None \<Rightarrow> True | Some (_, g) \<Rightarrow> g < free_capacity e a)
      then (Some (a, free_capacity e a), True) else (b, f \<or> match (egSlotHeap e ! a)))"
  by (cases b) (auto simp: candidate_def Let_def eligible_slot_def free_capacity_def)

lemma best_of_snoc:
  assumes "best_of now e match as r"
  shows "best_of now e match (as @ [a])
    (if eligible_slot now e match a \<and> (case r of None \<Rightarrow> True | Some b \<Rightarrow> free_capacity e b < free_capacity e a) then Some a else r)"
proof (cases r)
  case None
  then show ?thesis using assms by (auto simp: best_of_def)
next
  case (Some b)
  then show ?thesis using assms by (fastforce simp: best_of_def)
qed

lemma candidates_best:
  assumes "candidates now e ws match = (r, found)"
  shows "best_of now e match (map snd (wkContainers ws)) r" and "found \<longleftrightarrow> (\<exists>(c, a)\<in>set (wkContainers ws). match (egSlotHeap e ! a))"
proof -
  have inv: "best_of now e match (map snd cs) (map_option fst best) \<and> (\<forall>a f. best = Some (a, f) \<longrightarrow> f = free_capacity e a)
      \<and> (found \<longleftrightarrow> (\<exists>(c, a)\<in>set cs. match (egSlotHeap e ! a)))"
    if "foldl (candidate now e match) (None, False) cs = (best, found)" for cs best found
    using that
  proof (induction cs arbitrary: best found rule: rev_induct)
    case Nil
    then show ?case by (simp add: best_of_def)
  next
    case (snoc x cs)
    obtain c a where x: "x = (c, a)" by (cases x)
    obtain b f where run: "foldl (candidate now e match) (None, False) cs = (b, f)" by (cases "foldl (candidate now e match) (None, False) cs")
    note IH = snoc.IH [OF run]
    have g: "(case b of None \<Rightarrow> True | Some (_, g) \<Rightarrow> g < free_capacity e a)
        \<longleftrightarrow> (case map_option fst b of None \<Rightarrow> True | Some k \<Rightarrow> free_capacity e k < free_capacity e a)"
      using IH by (auto split: option.split)
    have step: "(best, found) = candidate now e match (b, f) (c, a)" using snoc.prems run x by simp
    have "best_of now e match (map snd (cs @ [x])) (map_option fst best)"
      using best_of_snoc [of now e match "map snd cs" "map_option fst b" a] IH step x g
      by (auto simp: candidate_step split: if_splits)
    moreover have "\<forall>a f. best = Some (a, f) \<longrightarrow> f = free_capacity e a" using IH step by (auto simp: candidate_step split: if_splits)
    moreover have "found \<longleftrightarrow> (\<exists>(c, a)\<in>set (cs @ [x]). match (egSlotHeap e ! a))"
      using IH step x by (auto simp: candidate_step eligible_slot_def split: if_splits)
    ultimately show ?case by blast
  qed
  obtain b f where run: "foldl (candidate now e match) (None, False) (wkContainers ws) = (b, f)"
    by (cases "foldl (candidate now e match) (None, False) (wkContainers ws)")
  then have "r = map_option fst b" "found = f" using assms by (simp_all add: candidates_def)
  with inv [OF run] show "best_of now e match (map snd (wkContainers ws)) r"
    "found \<longleftrightarrow> (\<exists>(c, a)\<in>set (wkContainers ws). match (egSlotHeap e ! a))" by simp_all
qed

text \<open>
  The containers that may serve a target: the one it names, else those of its release, else, when none of these is there and the
  target accepts the latest, those of the newest older version that has any.
\<close>

definition serves :: "edge \<Rightarrow> workloadState \<Rightarrow> edgeTarget \<Rightarrow> slot \<Rightarrow> bool" where
  "serves e ws t s \<longleftrightarrow>
     (case tgContainer t of
        Some c \<Rightarrow> soID s = c
      | None \<Rightarrow> soRelease s = erID (tgRelease t)
          \<or> tgLatest t \<and> (\<forall>a\<in>snd ` set (wkContainers ws). soRelease (egSlotHeap e ! a) \<noteq> erID (tgRelease t))
            \<and> (\<exists>active. erVersion (tgRelease t) = Some active \<and> 0 < soVersion s \<and> soVersion s < active
                 \<and> (\<forall>a\<in>snd ` set (wkContainers ws). soVersion (egSlotHeap e ! a) < active \<longrightarrow> soVersion (egSlotHeap e ! a) \<le> soVersion s)))"

lemma newest_below_spec:
  fixes e ws active
  defines "vs \<equiv> (\<lambda>a. soVersion (egSlotHeap e ! a)) ` snd ` set (wkContainers ws)"
  shows "0 \<le> newest_below e ws active" and "newest_below e ws active \<noteq> 0 \<Longrightarrow> newest_below e ws active \<in> vs \<and> newest_below e ws active < active"
    and "\<And>v. v \<in> vs \<Longrightarrow> v < active \<Longrightarrow> v \<le> newest_below e ws active"
proof -
  let ?f = "\<lambda>newest (c, a). let v = soVersion (egSlotHeap e ! a) in if v > newest \<and> v < active then v else newest"
  have "0 \<le> foldl ?f 0 cs \<and> (foldl ?f 0 cs \<noteq> 0 \<longrightarrow> foldl ?f 0 cs < active \<and> (\<exists>a\<in>snd ` set cs. foldl ?f 0 cs = soVersion (egSlotHeap e ! a)))
      \<and> (\<forall>a\<in>snd ` set cs. soVersion (egSlotHeap e ! a) < active \<longrightarrow> soVersion (egSlotHeap e ! a) \<le> foldl ?f 0 cs)" for cs
  proof (induction cs rule: rev_induct)
    case (snoc x cs)
    obtain c a where "x = (c, a)" by (cases x)
    then show ?case using snoc by (auto simp: Let_def split: if_splits)
  qed simp
  from this [of "wkContainers ws"] show "0 \<le> newest_below e ws active"
    "newest_below e ws active \<noteq> 0 \<Longrightarrow> newest_below e ws active \<in> vs \<and> newest_below e ws active < active"
    "\<And>v. v \<in> vs \<Longrightarrow> v < active \<Longrightarrow> v \<le> newest_below e ws active"
    unfolding newest_below_def vs_def by (auto simp: image_iff)
qed

lemma best_of_cong:
  "(\<And>a. a \<in> set as \<Longrightarrow> match (egSlotHeap e ! a) = match' (egSlotHeap e ! a)) \<Longrightarrow> best_of now e match as r = best_of now e match' as r"
proof -
  assume m: "\<And>a. a \<in> set as \<Longrightarrow> match (egSlotHeap e ! a) = match' (egSlotHeap e ! a)"
  then have "eligible_slot now e match a = eligible_slot now e match' a" if "a \<in> set as" for a using that by (simp add: eligible_slot_def)
  then show ?thesis unfolding best_of_def by (auto split: option.split)
qed

definition picks :: "time \<Rightarrow> edge \<Rightarrow> workloadState \<Rightarrow> (slot \<Rightarrow> bool) \<Rightarrow> nat option \<times> bool \<Rightarrow> bool" where
  "picks now e ws match = (\<lambda>(r, found). best_of now e match (map snd (wkContainers ws)) r
     \<and> (found \<longleftrightarrow> (\<exists>a\<in>snd ` set (wkContainers ws). match (egSlotHeap e ! a))))"

lemma candidates_picks: "picks now e ws match (candidates now e ws match)"
  using candidates_best [of now e ws match] by (cases "candidates now e ws match") (force simp: picks_def)

lemma picks_cong:
  "(\<And>a. a \<in> snd ` set (wkContainers ws) \<Longrightarrow> match (egSlotHeap e ! a) = match' (egSlotHeap e ! a)) \<Longrightarrow> picks now e ws match p = picks now e ws match' p"
  using best_of_cong [of "map snd (wkContainers ws)" match e match' now] unfolding picks_def by (auto split: prod.split)

lemma picks_none: "(\<And>a. a \<in> snd ` set (wkContainers ws) \<Longrightarrow> \<not> match (egSlotHeap e ! a)) \<Longrightarrow> picks now e ws match (None, False)"
  by (auto simp: picks_def best_of_def eligible_slot_def)

lemma pickLocked_sound: "picks now e ws (serves e ws t) (pickLocked now e ws t)"
proof (cases "tgContainer t")
  case (Some c)
  then show ?thesis using candidates_picks by (simp add: pickLocked_def serves_def [abs_def])
next
  case None
  let ?own = "\<lambda>s. soRelease s = erID (tgRelease t)" and ?cs = "snd ` set (wkContainers ws)"
  obtain best found where own: "candidates now e ws ?own = (best, found)" by (cases "candidates now e ws ?own")
  with candidates_picks [of now e ws ?own] have p: "picks now e ws ?own (best, found)" by simp
  then have f: "found \<longleftrightarrow> (\<exists>a\<in>?cs. ?own (egSlotHeap e ! a))" by (simp add: picks_def)
  show ?thesis
  proof (cases "found \<or> \<not> tgLatest t \<or> erVersion (tgRelease t) = None")
    case True
    have "picks now e ws (serves e ws t) (best, found)"
      using p True f None by (subst picks_cong [of _ _ _ ?own]) (auto simp: serves_def)
    moreover have "pickLocked now e ws t = (if found \<or> \<not> tgLatest t then (best, found) else (None, False))"
      using True None own by (auto simp: pickLocked_def split: option.split)
    moreover have "picks now e ws (serves e ws t) (None, False)" if "\<not> found" "erVersion (tgRelease t) = None"
      using that f None by (intro picks_none) (auto simp: serves_def)
    ultimately show ?thesis using True by auto
  next
    case False
    then obtain active where active: "erVersion (tgRelease t) = Some active" by auto
    note n = newest_below_spec [where e = e and ws = ws and active = active]
    have m: "serves e ws t (egSlotHeap e ! a) \<longleftrightarrow> newest_below e ws active \<noteq> 0 \<and> soVersion (egSlotHeap e ! a) = newest_below e ws active"
      if a: "a \<in> ?cs" for a
    proof
      assume "serves e ws t (egSlotHeap e ! a)"
      then have v: "0 < soVersion (egSlotHeap e ! a)" "soVersion (egSlotHeap e ! a) < active"
        "\<And>b. b \<in> ?cs \<Longrightarrow> soVersion (egSlotHeap e ! b) < active \<Longrightarrow> soVersion (egSlotHeap e ! b) \<le> soVersion (egSlotHeap e ! a)"
        using False f a None active by (auto simp: serves_def)
      then have "soVersion (egSlotHeap e ! a) \<le> newest_below e ws active" using n(3) a by blast
      moreover from this have "newest_below e ws active \<noteq> 0" using v(1) by simp
      moreover from this obtain b where "b \<in> ?cs" "newest_below e ws active = soVersion (egSlotHeap e ! b)" "newest_below e ws active < active"
        using n(2) by blast
      ultimately show "newest_below e ws active \<noteq> 0 \<and> soVersion (egSlotHeap e ! a) = newest_below e ws active" using v(3) by fastforce
    next
      assume v: "newest_below e ws active \<noteq> 0 \<and> soVersion (egSlotHeap e ! a) = newest_below e ws active"
      then show "serves e ws t (egSlotHeap e ! a)"
        using n(1) n(2) n(3) False f None active by (auto simp: serves_def)
    qed
    show ?thesis
      using False None own active m candidates_picks [of now e ws] picks_none [of ws "serves e ws t" e now]
      by (auto simp: pickLocked_def Let_def picks_cong [of ws "serves e ws t" e "\<lambda>s. soVersion s = newest_below e ws active"])
  qed
qed

text \<open>
  C29: pickLocked chooses, of the containers that may serve the target, are not kept off and have free capacity, one with the most
  free capacity, and none only when there is no such container; and it tells whether any container may serve the target.
\<close>

theorem pickLocked_best: "picks now e ws (serves e ws t) (pickLocked now e ws t)"
  by (rule pickLocked_sound)

subsection \<open>Each section keeps the counts\<close>

lemma registered_heap: "edge_ok e W L \<Longrightarrow> a \<in> set (map snd (egLoads e)) \<Longrightarrow> a < length (egLoadHeap e)"
  by (auto simp: edge_ok_def loads_ok_def)

lemma stateLocked_ok:
  assumes "edge_ok e W L" "stateLocked w e = (ws, e')"
  shows "edge_ok e' W L" and "snd ` set (wkContainers ws) \<subseteq> {..<length (egSlotHeap e')}" and "egLoads e' = egLoads e"
proof -
  show "egLoads e' = egLoads e" using assms(2) by (auto simp: stateLocked_def split: option.splits)
  show "edge_ok e' W L"
    using assms by (auto simp: stateLocked_def edge_ok_def containers_ok_def no_state_def split: option.splits if_splits)
  show "snd ` set (wkContainers ws) \<subseteq> {..<length (egSlotHeap e')}"
    using assms by (auto simp: stateLocked_def edge_ok_def containers_ok_def no_state_def split: option.splits)
qed

lemma demandLocked_ok:
  assumes "edge_ok e W L" "demandLocked r e = (a, e')"
  shows "edge_ok e' W L" and "a \<in> set (map snd (egLoads e'))" and "egSlotHeap e' = egSlotHeap e"
proof -
  show "egSlotHeap e' = egSlotHeap e" using assms(2) by (auto simp: demandLocked_def split: option.splits)
  show "a \<in> set (map snd (egLoads e'))"
    using assms(2) by (force simp: demandLocked_def split: option.splits dest!: map_of_SomeD)
  show "edge_ok e' W L"
  proof (cases "map_of (egLoads e) (erID r)")
    case None
    let ?n = "length (egLoadHeap e)"
    have e': "e' = e\<lparr>egLoadHeap := egLoadHeap e @ [new_load r], egLoads := egLoads e @ [(erID r, ?n)]\<rparr>"
      using assms(2) None by (auto simp: demandLocked_def)
    have fresh: "?n \<notin> set (map snd (egLoads e))" using registered_heap [OF assms(1), of ?n] by blast
    then have "count W ?n = 0" "count (image_mset snd L) ?n = 0"
      using assms(1) by (auto simp: edge_ok_def known_def count_eq_zero_iff)
    then have "counts_ok (egLoadHeap e @ [new_load r]) W L"
      using assms(1) by (auto simp: edge_ok_def counts_ok_def nth_append less_Suc_eq new_load_def)
    moreover have "loads_ok (egLoads e @ [(erID r, ?n)]) (egLoadHeap e @ [new_load r])"
      using assms(1) fresh None
      by (auto simp: edge_ok_def loads_ok_def nth_append new_load_def map_of_eq_None_iff intro: less_SucI)
    ultimately show ?thesis using assms(1) by (auto simp: e' edge_ok_def known_def containers_ok_def)
  qed (use assms in \<open>simp add: demandLocked_def\<close>)
qed

text \<open>A request that gets a container, one that starts to wait, and one that stops.\<close>

lemma lease_ok:
  assumes "edge_ok e W L" "a \<in> set (map snd (egLoads e))" "s < length (egSlotHeap e)" "W' \<subseteq># W"
    and "rlWaiting l = int (count W' a)" "rlInFlight l = rlInFlight (load_at e a) + 1" "rlRelease l = rlRelease (load_at e a)"
    and "\<And>b. b \<noteq> a \<Longrightarrow> count W' b = count W b" and "soInflight x = soInflight (egSlotHeap e ! s) + 1"
  shows "edge_ok (set_load a l (set_slot s x e)) W' (add_mset (s, a) L)"
proof -
  have a: "a < length (egLoadHeap e)" using registered_heap [OF assms(1,2)] .
  have "counts_ok ((egLoadHeap e)[a := l]) W' (add_mset (s, a) L)"
    by (rule counts_ok_set [where W = W and L = L]) (use assms a in \<open>auto simp: edge_ok_def counts_ok_def load_at_def\<close>)
  moreover have "slots_ok ((egSlotHeap e)[s := x]) (add_mset (s, a) L)"
    by (rule slots_ok_set [where L = L]) (use assms in \<open>auto simp: edge_ok_def slots_ok_def\<close>)
  moreover have "known (egLoads e) W' (add_mset (s, a) L)"
    using assms(1,2) set_mset_mono [OF assms(4)] by (auto simp: edge_ok_def known_def)
  moreover have "loads_ok (egLoads e) ((egLoadHeap e)[a := l])"
    using assms(1,7) loads_ok_set by (simp add: edge_ok_def load_at_def)
  ultimately show ?thesis using assms(1) by (simp add: edge_ok_def containers_ok_def)
qed

lemma waiting_ok:
  assumes "edge_ok e W L" "a \<in> set (map snd (egLoads e))" "set_mset W' \<subseteq> insert a (set_mset W)"
    and "rlWaiting l = int (count W' a)" "rlInFlight l = rlInFlight (load_at e a)" "rlRelease l = rlRelease (load_at e a)"
    and "\<And>b. b \<noteq> a \<Longrightarrow> count W' b = count W b"
  shows "edge_ok (set_load a l e) W' L"
proof -
  have a: "a < length (egLoadHeap e)" using registered_heap [OF assms(1,2)] .
  have "counts_ok ((egLoadHeap e)[a := l]) W' L"
    by (rule counts_ok_set [where W = W and L = L]) (use assms a in \<open>auto simp: edge_ok_def counts_ok_def load_at_def\<close>)
  moreover have "known (egLoads e) W' L" using assms(1-3) by (auto simp: edge_ok_def known_def)
  moreover have "loads_ok (egLoads e) ((egLoadHeap e)[a := l])"
    using assms(1,6) loads_ok_set by (simp add: edge_ok_def load_at_def)
  ultimately show ?thesis using assms(1) by (simp add: edge_ok_def containers_ok_def)
qed

lemma failureCheckIn_same: "failureCheckIn now fc l = (wait, l') \<Longrightarrow> same_load l l'"
  by (auto simp: failureCheckIn_def Let_def same_load_def split: if_splits)

text \<open>The requests and leases after a turn of \<open>acquire\<close>.\<close>

definition after_turn :: "nat option \<Rightarrow> acquired \<Rightarrow> nat multiset \<Rightarrow> (nat \<times> nat) multiset \<Rightarrow> nat multiset \<times> (nat \<times> nat) multiset" where
  "after_turn held r W L =
     (case r of
        Stale \<Rightarrow> (W, L)
      | TooManyWait \<Rightarrow> (W, L)
      | Leased s a \<Rightarrow> (case held of None \<Rightarrow> W | Some h \<Rightarrow> W - {#h#}, add_mset (s, a) L)
      | Waits a _ _ \<Rightarrow> (case held of None \<Rightarrow> add_mset a W | Some _ \<Rightarrow> W, L))"

lemma picked_slot: "pickLocked now e ws t = (Some s, any) \<Longrightarrow> s \<in> snd ` set (wkContainers ws)"
  using pickLocked_sound [of now e ws t] by (auto simp: picks_def best_of_def)

lemma acquire_turn_ok:
  assumes ok: "edge_ok e W L" and held: "\<And>h. held = Some h \<Longrightarrow> h \<in># W" and turn: "acquire_turn now fc t held e = (r, e')"
  shows "edge_ok e' (fst (after_turn held r W L)) (snd (after_turn held r W L))"
proof -
  obtain ws e1 where st: "stateLocked (wlID (tgWorkload t)) e = (ws, e1)" by (cases "stateLocked (wlID (tgWorkload t)) e")
  note e1 = stateLocked_ok [OF ok st]
  obtain a e2 where dem: "(case held of Some a \<Rightarrow> (a, e1) | None \<Rightarrow> demandLocked (tgRelease t) e1) = (a, e2)"
    by (cases "case held of Some a \<Rightarrow> (a, e1) | None \<Rightarrow> demandLocked (tgRelease t) e1")
  have e2: "edge_ok e2 W L" "a \<in> set (map snd (egLoads e2))" "egSlotHeap e2 = egSlotHeap e1"
  proof (atomize (full), cases held)
    case None
    then show "edge_ok e2 W L \<and> a \<in> set (map snd (egLoads e2)) \<and> egSlotHeap e2 = egSlotHeap e1"
      using demandLocked_ok [OF e1(1)] dem by simp
  next
    case (Some h)
    then show "edge_ok e2 W L \<and> a \<in> set (map snd (egLoads e2)) \<and> egSlotHeap e2 = egSlotHeap e1"
      using held [OF Some] dem e1(1) by (auto simp: edge_ok_def known_def)
  qed
  have count: "rlWaiting (load_at e2 a) = int (count W a)"
    using e2(1) registered_heap [OF e2(1,2)] by (simp add: edge_ok_def counts_ok_def load_at_def)
  have h: "a \<in># W" if "held \<noteq> None" using held dem that by auto
  obtain pick any where p: "pickLocked now e2 ws t = (pick, any)" by (cases "pickLocked now e2 ws t")
  show ?thesis
  proof (cases "wkStale ws")
    case True
    then show ?thesis using turn st e1(1) by (auto simp: acquire_turn_def after_turn_def)
  next
    case fresh: False
    show ?thesis
    proof (cases pick)
      case (Some s)
      have s: "s < length (egSlotHeap e2)" using picked_slot [OF p [unfolded Some]] e1(2) e2(3) by auto
      let ?l = "load_at e2 a" and ?W = "case held of None \<Rightarrow> W | Some h \<Rightarrow> W - {#h#}"
      let ?l' = "sample now ((if held \<noteq> None then ?l\<lparr>rlWaiting := rlWaiting ?l - 1\<rparr> else ?l)\<lparr>rlInFlight := rlInFlight ?l + 1\<rparr>)"
      have "edge_ok (set_load a ?l' (set_slot s ((egSlotHeap e2 ! s)\<lparr>soInflight := soInflight (egSlotHeap e2 ! s) + 1\<rparr>) e2)) ?W (add_mset (s, a) L)"
        by (rule lease_ok [OF e2(1,2) s]) (use count h dem in \<open>auto simp: of_nat_diff Suc_le_eq split: option.splits\<close>)
      moreover have "r = Leased s a" "e' = set_load a ?l' (set_slot s ((egSlotHeap e2 ! s)\<lparr>soInflight := soInflight (egSlotHeap e2 ! s) + 1\<rparr>) e2)"
        using turn st dem fresh p Some by (auto simp: acquire_turn_def Let_def load_at_def)
      ultimately show ?thesis by (simp add: after_turn_def)
    next
      case None
      show ?thesis
      proof (cases "held = None \<and> rlWaiting (load_at e2 a) \<ge> erMaxPending (tgRelease t)")
        case True
        then show ?thesis using turn st dem fresh p None e2(1) by (auto simp: acquire_turn_def Let_def after_turn_def)
      next
        case False
        define e3 where "e3 = (if held = None then set_load a (sample now ((load_at e2 a)\<lparr>rlWaiting := rlWaiting (load_at e2 a) + 1\<rparr>)) e2 else e2)"
        have e3: "edge_ok e3 (case held of None \<Rightarrow> add_mset a W | Some _ \<Rightarrow> W) L"
        proof (cases held)
          case None
          then show ?thesis using count unfolding e3_def by (auto intro!: waiting_ok [OF e2(1,2)])
        qed (use e2(1) e3_def in simp)
        obtain wait l where f: "failureCheckIn now fc (load_at e3 a) = (wait, l)" by (cases "failureCheckIn now fc (load_at e3 a)")
        have "r = Waits a any (\<not> any \<and> \<not> wait > 0)" "e' = (if any then e3 else set_load a l e3)"
          using turn st dem fresh p None False f by (auto simp: acquire_turn_def Let_def e3_def split: if_splits)
        then show ?thesis using e3 edge_ok_touch [OF e3 failureCheckIn_same [OF f]] by (simp add: after_turn_def)
      qed
    qed
  qed
qed

lemma acquire_leave_ok:
  assumes "edge_ok e W L" "h \<in># W"
  shows "edge_ok (acquire_leave now h e) (W - {#h#}) L"
proof -
  have h: "h \<in> set (map snd (egLoads e))" using assms by (auto simp: edge_ok_def known_def)
  have "rlWaiting (load_at e h) = int (count W h)"
    using assms(1) registered_heap [OF assms(1) h] by (simp add: edge_ok_def counts_ok_def load_at_def)
  then show ?thesis unfolding acquire_leave_def
    using assms(2) by (intro waiting_ok [OF assms(1) h]) (auto simp: of_nat_diff Suc_le_eq dest: in_diffD)
qed

lemma lease_end_ok:
  assumes "edge_ok e W (add_mset (lsSlot h, lsLoad h) L)" "\<not> lsEnded h"
  shows "edge_ok (snd (lease_end now h e)) W L"
proof -
  define s a w where "s = lsSlot h" and "a = lsLoad h" and "w = lsWorkload h"
  note assms = assms(1) [folded s_def a_def] assms(2)
  define x where "x = (egSlotHeap e ! s)\<lparr>soInflight := soInflight (egSlotHeap e ! s) - 1\<rparr>"
  define l where "l = sample now ((load_at e a)\<lparr>rlInFlight := rlInFlight (load_at e a) - 1\<rparr>)"
  define e1 where "e1 = set_load a (l\<lparr>rlServed := rlServed l + 1\<rparr>) (set_slot s x e)"
  have a: "a \<in> set (map snd (egLoads e))" and s: "s < length (egSlotHeap e)"
    using assms by (auto simp: edge_ok_def known_def slots_ok_def)
  note heap = registered_heap [OF assms(1) a]
  have "counts_ok ((egLoadHeap e)[a := l\<lparr>rlServed := rlServed l + 1\<rparr>]) W L"
    by (rule counts_ok_set [where W = W and L = "add_mset (s, a) L"])
      (use assms heap in \<open>auto simp: edge_ok_def counts_ok_def load_at_def l_def\<close>)
  moreover have "slots_ok ((egSlotHeap e)[s := x]) L"
    by (rule slots_ok_set [where L = "add_mset (s, a) L"]) (use assms s in \<open>auto simp: edge_ok_def slots_ok_def x_def\<close>)
  moreover have "loads_ok (egLoads e) ((egLoadHeap e)[a := l\<lparr>rlServed := rlServed l + 1\<rparr>])"
    using assms loads_ok_set by (simp add: edge_ok_def load_at_def l_def)
  ultimately have e1: "edge_ok e1 W L"
    using assms by (auto simp: e1_def edge_ok_def known_def containers_ok_def)
  have "snd (lease_end now h e) = (case egWorkloads e1 w of None \<Rightarrow> e1 | Some ws \<Rightarrow> e1\<lparr>egWorkloads := (egWorkloads e1)(w \<mapsto> ws_wake ws)\<rparr>)"
    unfolding lease_end_def Let_def load_at_def set_slot_simps e1_def x_def l_def s_def a_def w_def if_not_P [OF assms(2)] snd_conv
    by (rule refl)
  then show ?thesis using e1 by (auto simp: edge_ok_def containers_ok_def ws_wake_def split: option.split if_splits)
qed

lemma kick_ok: "edge_ok e W L \<Longrightarrow> edge_ok (kick r e) W L"
proof -
  assume e: "edge_ok e W L"
  have "edge_ok (set_load a ((load_at e a)\<lparr>rlWake := True\<rparr>) e) W L" for a
    using e by (rule edge_ok_touch) (simp add: same_load_def)
  then have "edge_ok (case map_of (egLoads e) r of None \<Rightarrow> e | Some a \<Rightarrow> set_load a ((load_at e a)\<lparr>rlWake := True\<rparr>) e) W L"
    using e by (simp split: option.split)
  then show ?thesis unfolding kick_def by (rule edge_ok_same) simp_all
qed

lemma forgetReplacedWindows_ok: "edge_ok e W L \<Longrightarrow> edge_ok (forgetReplacedWindows previous new e) W L"
proof -
  let ?P = "\<lambda>e. edge_ok e W L"
  assume "?P e"
  moreover have "?P (set_load a ((load_at e a)\<lparr>rlWindow := no_window\<rparr>) e)" if "?P e" for a e
    using that by (rule edge_ok_touch) (simp add: same_load_def)
  ultimately show ?thesis unfolding forgetReplacedWindows_def
    by (intro foldl_invariant [where P = ?P]) (auto split: option.split)
qed

lemma publish_failed_ok: "edge_ok e W L \<Longrightarrow> edge_ok (publish_failed e) W L"
proof -
  assume e: "edge_ok e W L"
  let ?f = "\<lambda>e (release, a). let l = load_at e a in set_load a (l\<lparr>rlRenewedAt := zero_time, rlWake := rlWake l \<or> rlWaiting l > 0\<rparr>) e"
  have "edge_ok e W L \<Longrightarrow> edge_ok (foldl ?f e rs) W L" for rs :: "('r \<times> nat) list" and e
  proof (induction rs arbitrary: e)
    case (Cons x rs)
    have "edge_ok (?f e x) W L" using edge_ok_touch [OF Cons.prems] by (cases x) (simp add: Let_def same_load_def)
    then show ?case using Cons.IH by simp
  qed simp
  then show ?thesis using e by (simp add: publish_failed_def)
qed

text \<open>The publisher drops no load that counts a request.\<close>

lemma collect_one_facts:
  assumes "collect_one now r l = (keep, l', published, wakes)"
  shows "same_load l l'" and "\<not> keep \<Longrightarrow> rlWaiting l = 0 \<and> rlInFlight l = 0"
  using assms by (auto simp: collect_one_def Let_def same_load_def split: if_splits prod.splits)

lemma collect_loads_ok:
  "edge_ok e W L \<Longrightarrow> set rs \<subseteq> set (egLoads e) \<Longrightarrow> collect_loads now rs e = (kept, e', loads, wake)
    \<Longrightarrow> edge_ok e' W L \<and> egLoads e' = egLoads e \<and> set kept \<subseteq> set rs
      \<and> (distinct (map fst rs) \<longrightarrow> distinct (map fst kept)) \<and> (distinct (map snd rs) \<longrightarrow> distinct (map snd kept))
      \<and> (\<forall>r a. (r, a) \<in> set rs \<longrightarrow> (r, a) \<notin> set kept \<longrightarrow> a \<notin># W \<and> a \<notin># image_mset snd L)"
proof (induction now rs e arbitrary: kept e' loads wake rule: collect_loads.induct)
  case (2 now r a rs e)
  obtain keep l published wakes where one: "collect_one now r (load_at e a) = (keep, l, published, wakes)"
    by (cases "collect_one now r (load_at e a)")
  obtain kept' loads' wake' where rest: "collect_loads now rs (set_load a l e) = (kept', e', loads', wake')"
    and kept: "kept = (if keep then (r, a) # kept' else kept')"
    using "2.prems"(3) one by (auto simp: Let_def split: prod.splits)
  note facts = collect_one_facts [OF one]
  have ok: "edge_ok (set_load a l e) W L" using "2.prems"(1) facts(1) by (rule edge_ok_touch)
  have a: "a < length (egLoadHeap e)" using "2.prems"(1,2) by (auto simp: edge_ok_def loads_ok_def)
  have zero: "a \<notin># W \<and> a \<notin># image_mset snd L" if "\<not> keep"
  proof -
    have "count W a = 0" "count (image_mset snd L) a = 0"
      using facts(2) [OF that] "2.prems"(1) a by (auto simp: edge_ok_def counts_ok_def load_at_def)
    then show ?thesis unfolding count_eq_zero_iff by (rule conjI)
  qed
  from "2.IH" [OF one [symmetric] refl refl refl ok _ rest] "2.prems"(2) show ?case using kept zero by auto
qed simp

lemma collectLoads_ok: "edge_ok e W L \<Longrightarrow> edge_ok (fst (collectLoads now e)) W L"
proof -
  assume e: "edge_ok e W L"
  obtain kept e' loads wake where run: "collect_loads now (egLoads e) e = (kept, e', loads, wake)"
    by (cases "collect_loads now (egLoads e) e")
  note facts = collect_loads_ok [OF e order_refl run]
  have "loads_ok kept (egLoadHeap e')" using facts e by (auto simp: edge_ok_def loads_ok_def)
  moreover have "known kept W L" unfolding known_def
  proof
    fix x assume x: "x \<in> set_mset W \<union> set_mset (image_mset snd L)"
    then obtain r where "(r, x) \<in> set (egLoads e)" using e unfolding edge_ok_def known_def by force
    then have "(r, x) \<in> set kept" using facts x by blast
    then show "x \<in> set (map snd kept)" by force
  qed
  ultimately show ?thesis using facts run by (simp add: collectLoads_def edge_ok_def containers_ok_def)
qed

lemma in_set_update: "p \<in> set (AList.update k v xs) \<Longrightarrow> p = (k, v) \<or> p \<in> set xs"
  by (induction xs) (auto split: if_splits)

lemma apply_row_ok:
  assumes "edge_ok e W L" "snd ` set old \<subseteq> {..<length (egSlotHeap e)}" "snd ` set next \<subseteq> {..<length (egSlotHeap e)}"
    and "apply_row old e next row = (next', e')"
  shows "edge_ok e' W L \<and> snd ` set old \<subseteq> {..<length (egSlotHeap e')} \<and> snd ` set next' \<subseteq> {..<length (egSlotHeap e')}"
proof (cases "map_of old (ecContainer row)")
  case None
  define s where "s = \<lparr>soID = ecContainer row, soRelease = ecRelease row, soVersion = ecVersion row, soHost = ecHost row,
    soTraceparent = ecTraceparent row, soInflight = 0, soAvoid = zero_time\<rparr>"
  have e': "e' = e\<lparr>egSlotHeap := egSlotHeap e @ [s]\<rparr>" "next' = AList.update (ecContainer row) (length (egSlotHeap e)) next"
    using assms(4) None by (auto simp: apply_row_def s_def)
  have "count (image_mset fst L) (length (egSlotHeap e)) = 0"
    unfolding count_eq_zero_iff using assms(1) by (auto simp: edge_ok_def slots_ok_def)
  then have "slots_ok (egSlotHeap e @ [s]) L"
    using assms(1) by (auto simp: edge_ok_def slots_ok_def nth_append less_Suc_eq s_def)
  then have "edge_ok e' W L" using assms(1) e' by (auto simp: edge_ok_def containers_ok_def intro: less_SucI)
  moreover have "snd ` set next' \<subseteq> insert (length (egSlotHeap e)) (snd ` set next)"
    unfolding e'(2) by (auto dest: in_set_update)
  ultimately show ?thesis using assms(2,3) e'(1) by fastforce
next
  case (Some a)
  have a: "a < length (egSlotHeap e)" using map_of_SomeD [OF Some] assms(2) by force
  have e': "e' = set_slot a ((egSlotHeap e ! a)\<lparr>soAvoid := zero_time\<rparr>) e" "next' = AList.update (ecContainer row) a next"
    using assms(4) Some by (auto simp: apply_row_def)
  have "edge_ok e' W L" unfolding e'(1) using assms(1) by (rule edge_ok_touch_slot) simp
  moreover have "snd ` set next' \<subseteq> insert a (snd ` set next)" unfolding e'(2) by (auto dest: in_set_update)
  ultimately show ?thesis using assms(2,3) a e'(1) by fastforce
qed

lemma applyLocked_ok: "edge_ok e W L \<Longrightarrow> edge_ok (applyLocked w read rows e) W L"
proof -
  assume e: "edge_ok e W L"
  obtain ws e1 where st: "stateLocked w e = (ws, e1)" by (cases "stateLocked w e")
  note e1 = stateLocked_ok [OF e st]
  let ?f = "\<lambda>(next, e) row. apply_row (wkContainers ws) e next row"
  let ?P = "\<lambda>(next, e). edge_ok e W L \<and> snd ` set (wkContainers ws) \<subseteq> {..<length (egSlotHeap e)} \<and> snd ` set next \<subseteq> {..<length (egSlotHeap e)}"
  have "?P (foldl ?f ([], e1) rows)"
  proof (rule foldl_invariant)
    show "?P ([], e1)" using e1 by simp
    show "?P (?f p row)" if "?P p" for p row
      using that apply_row_ok [of "snd p" W L "wkContainers ws" "fst p" row]
      by (cases p; cases "apply_row (wkContainers ws) (snd p) (fst p) row") auto
  qed
  moreover obtain nx e2 where fold: "foldl ?f ([], e1) rows = (nx, e2)" by (cases "foldl ?f ([], e1) rows")
  ultimately have e2: "edge_ok e2 W L" "snd ` set nx \<subseteq> {..<length (egSlotHeap e2)}" by simp_all
  then have "edge_ok (e2\<lparr>egWorkloads := (egWorkloads e2)(w \<mapsto> ws_wake (ws\<lparr>wkApplied := read, wkStale := False, wkContainers := nx, wkLoaded := True\<rparr>))\<rparr>) W L"
    by (auto simp: edge_ok_def containers_ok_def ws_wake_def split: if_splits)
  then show ?thesis using e1(1) st fold by (simp add: applyLocked_def Let_def)
qed

lemma load_begin_ok: "edge_ok e W L \<Longrightarrow> edge_ok (snd (load_begin w e)) W L"
proof -
  assume e: "edge_ok e W L"
  obtain ws e1 where st: "stateLocked w e = (ws, e1)" by (cases "stateLocked w e")
  show ?thesis using stateLocked_ok [OF e st] st
    by (auto simp: load_begin_def edge_ok_def containers_ok_def split: if_splits)
qed

lemma markChanged_ok: "edge_ok e W L \<Longrightarrow> edge_ok (markChanged w queued e) W L"
  by (auto simp: markChanged_def edge_ok_def containers_ok_def ws_wake_def split: option.split if_splits)

lemma edge_run_ok: "edge_run check e W L \<Longrightarrow> edge_ok e W L"
proof (induction rule: edge_run.induct)
  case (boot e)
  then show ?case by (simp add: edge_ok_def loads_ok_def counts_ok_def known_def slots_ok_def containers_ok_def)
next
  case (lease e W L now t s a e')
  then show ?case using acquire_turn_ok [of e W L None now check t] by (fastforce simp: after_turn_def)
next
  case (lease_waited e W L h now t s a e')
  then show ?case using acquire_turn_ok [of e W L "Some h" now check t] by (fastforce simp: after_turn_def)
next
  case (wait e W L now t a any fails e')
  then show ?case using acquire_turn_ok [of e W L None now check t] by (fastforce simp: after_turn_def)
next
  case (wait_on e W L h now t a any fails e')
  then show ?case using acquire_turn_ok [of e W L "Some h" now check t] by (fastforce simp: after_turn_def)
next
  case (refuse e W L now t e')
  then show ?case using acquire_turn_ok [of e W L None now check t] by (fastforce simp: after_turn_def)
next
  case (stale e W L now t held e')
  then obtain ws where "stateLocked (wlID (tgWorkload t)) e = (ws, e')"
    by (auto simp: acquire_turn_def Let_def split: prod.splits if_splits option.splits)
  then show ?case using stateLocked_ok(1) [OF stale.IH] by blast
next
  case (finish e W L s a h now)
  then obtain M where "L = add_mset (s, a) M" by (metis insert_DiffM)
  then show ?case using lease_end_ok [of e W h M now] finish by simp
next
  case (ended e W L h now)
  then show ?case by (simp add: lease_end_def)
next
  case (avoid e W L now h)
  then show ?case unfolding lease_avoid_def by (intro edge_ok_touch_slot) simp_all
next
  case (cache e W L routes started rs vs ms p)
  then show ?case by (auto intro: edge_ok_same)
qed (simp_all add: acquire_leave_ok kick_ok collectLoads_ok publish_failed_ok forgetReplacedWindows_ok applyLocked_ok load_begin_ok markChanged_ok)

text \<open>A refused request is a sequence of such sections.\<close>

lemma refused_run:
  assumes "edge_run check e W L" "(lsSlot h, lsLoad h) \<in># L" "\<not> lsEnded h"
  shows "edge_run check (snd (lease_refused now reload queued h e)) W (L - {#(lsSlot h, lsLoad h)#})"
proof -
  have "edge_run check (snd (lease_end now h (lease_avoid now h e))) W (L - {#(lsSlot h, lsLoad h)#})"
    by (rule edge_run.finish [OF edge_run.avoid [OF assms(1)] assms(2,3) refl refl])
  then show ?thesis using edge_run.changed by (auto simp: lease_refused_def Let_def split: prod.split)
qed

text \<open>
  C14: However requests, leases, reloads and publications interleave, the edge's counts are exact: a release's load counts the
  requests that wait on it and the leases taken under it, a container's slot counts the leases on it, and the load a waiting
  request or a lease holds is always the one the publisher publishes: it is never forgotten under them.
\<close>

theorem edge_counts_exact:
  assumes "edge_run check e W L"
  shows "(\<forall>a < length (egLoadHeap e). rlWaiting (load_at e a) = int (count W a) \<and> rlInFlight (load_at e a) = int (count (image_mset snd L) a))
    \<and> (\<forall>s < length (egSlotHeap e). soInflight (egSlotHeap e ! s) = int (count (image_mset fst L) s))
    \<and> set_mset W \<union> set_mset (image_mset snd L) \<subseteq> set (map snd (egLoads e))"
  using edge_run_ok [OF assms] by (simp add: edge_ok_def counts_ok_def slots_ok_def known_def load_at_def)

subsection \<open>Publication\<close>

definition current_load :: "time \<Rightarrow> nat \<Rightarrow> releaseLoad \<Rightarrow> EndpointLoad" where
  "current_load now r l = \<lparr>elRelease = r, elInFlight = rlInFlight l, elWaiting = rlWaiting l,
     elWindowPeak = fst (window_max now (rlInFlight l + rlWaiting l) (rlKeepWarm l) (rlWindow l))\<rparr>"

lemma collect_one_publishes:
  assumes "collect_one now r l = (keep, l', published, wakes)"
  shows "if keep
    then rlPublished l' = current_load now r l \<and> time_sub now (rlRenewedAt l') < renewAfter
      \<and> (rlPublished l \<noteq> current_load now r l \<longrightarrow> published = Some (current_load now r l))
    else current_load now r l = \<lparr>elRelease = r, elInFlight = 0, elWaiting = 0, elWindowPeak = 0\<rparr>
      \<and> (rlEverPushed l \<longrightarrow> rlPublished l = current_load now r l)"
proof -
  have "time_sub now now < renewAfter" by (simp add: time_sub_def renewAfter_def EndpointLoadTTL_def)
  then show ?thesis using assms
    by (auto simp: collect_one_def current_load_def Let_def split: if_splits prod.splits)
qed

lemma collect_loads_frame:
  "collect_loads now rs e = (kept, e', loads, wake) \<Longrightarrow> b \<notin> set (map snd rs) \<Longrightarrow> load_at e' b = load_at e b"
proof (induction now rs e arbitrary: kept e' loads wake rule: collect_loads.induct)
  case (2 now r a rs e)
  obtain keep l published wakes where one: "collect_one now r (load_at e a) = (keep, l, published, wakes)"
    by (cases "collect_one now r (load_at e a)")
  obtain kept' loads' wake' where rest: "collect_loads now rs (set_load a l e) = (kept', e', loads', wake')"
    using "2.prems"(1) one by (auto simp: Let_def split: prod.splits)
  show ?case using "2.IH" [OF one [symmetric] refl refl refl rest] "2.prems"(2) by (simp add: load_at_def)
qed simp

lemma collect_loads_set: "collect_loads now rs e = (kept, e', loads, wake) \<Longrightarrow> set kept \<subseteq> set rs"
proof (induction now rs e arbitrary: kept e' loads wake rule: collect_loads.induct)
  case (2 now r a rs e)
  then show ?case by (fastforce simp: Let_def split: prod.splits if_splits)
qed simp

lemma collect_loads_each:
  "collect_loads now rs e = (kept, e', loads, wake) \<Longrightarrow> distinct (map snd rs) \<Longrightarrow> (r, a) \<in> set rs
    \<Longrightarrow> \<forall>(r, a)\<in>set rs. a < length (egLoadHeap e) \<Longrightarrow> collect_one now r (load_at e a) = (keep, l, published, wakes)
    \<Longrightarrow> ((r, a) \<in> set kept \<longleftrightarrow> keep) \<and> load_at e' a = l \<and> (\<forall>c. published = Some c \<longrightarrow> c \<in> set loads)"
proof (induction now rs e arbitrary: kept e' loads wake rule: collect_loads.induct)
  case (2 now q b rs e)
  obtain keep' l' published' wakes' where one: "collect_one now q (load_at e b) = (keep', l', published', wakes')"
    by (cases "collect_one now q (load_at e b)")
  obtain kept' loads' wake' where rest: "collect_loads now rs (set_load b l' e) = (kept', e', loads', wake')"
    and kept: "kept = (if keep' then (q, b) # kept' else kept')" "loads = (case published' of None \<Rightarrow> loads' | Some c \<Rightarrow> c # loads')"
    using "2.prems"(1) one by (auto simp: Let_def split: prod.splits)
  show ?case
  proof (cases "a = b")
    case True
    then have q: "q = r" using "2.prems"(2,3) by (auto simp: image_iff)
    have "(r, a) \<notin> set kept'" using collect_loads_set [OF rest] "2.prems"(2) True by force
    moreover have "load_at e' a = l'"
      using collect_loads_frame [OF rest, of a] "2.prems"(2,4) True by (auto simp: load_at_def)
    ultimately show ?thesis using one "2.prems"(5) True q kept by auto
  next
    case False
    then have "collect_one now r (load_at (set_load b l' e) a) = (keep, l, published, wakes)" using "2.prems"(5) by (simp add: load_at_def)
    from "2.IH" [OF one [symmetric] refl refl refl rest _ _ _ this] "2.prems"(2-4) False
    show ?thesis using kept by (auto split: option.splits)
  qed
qed simp


subsection \<open>An example\<close>

text \<open>A release of capacity one with one container: a first request gets it, a second one waits.\<close>

definition demo_release :: edgeRelease where
  "demo_release =
     \<lparr>erID = 3, erWorkload = 1, erPreview = False, erWorkingTree = False, erVersion = Some 1, erCapacity = 1, erAuthorized = True,
      erTimeout = 3 * minute, erKeepWarm = minute, erMaxPending = 10, erRoute = ''/'', erMethods = [''GET''], erAttempts = 1\<rparr>"

definition demo_workload :: workload where
  "demo_workload =
     \<lparr>wlID = 1, wlWorkspace = 2, wlAccepting = True, wlSubdomain = ''total-0a1b2c3d'', wlHostname = [], wlActive = Some demo_release\<rparr>"

definition demo_request :: edgeTarget where
  "demo_request = \<lparr>tgWorkload = demo_workload, tgRelease = demo_release, tgLatest = True, tgContainer = None, tgAuthorized = True\<rparr>"

definition demo_boot :: edge where
  "demo_boot =
     \<lparr>egRoutes = \<lparr>rtBySubdomain = [(''total-0a1b2c3d'', demo_workload)], rtByHostname = [], rtByID = [(1, demo_workload)]\<rparr>,
      egReloadStarted = 0, egReleases = [(3, demo_release)], egVersions = [], egMisses = [], egWorkloads = Map.empty, egLoads = [],
      egLoadHeap = [], egSlotHeap = [], egPublish = False\<rparr>"

definition demo_loaded :: edge where
  "demo_loaded = applyLocked 1 1 [\<lparr>ecContainer = 5, ecRelease = 3, ecVersion = 1, ecHost = 9, ecTraceparent = []\<rparr>] demo_boot"

definition demo_leased :: edge where
  "demo_leased = snd (acquire_turn 0 0 demo_request None demo_loaded)"

definition demo_waits :: edge where
  "demo_waits = snd (acquire_turn (20 * second) 0 demo_request None demo_leased)"

lemma demo_run: "edge_run 0 demo_waits {#0#} {#(0, 0)#}"
proof -
  have "edge_run 0 demo_loaded {#} {#}" unfolding demo_loaded_def by (rule edge_run.reload, rule edge_run.boot) (simp_all add: demo_boot_def)
  moreover have "fst (acquire_turn 0 0 demo_request None demo_loaded) = Leased 0 0" by code_simp
  ultimately have "edge_run 0 demo_leased {#} {#(0, 0)#}"
    unfolding demo_leased_def by (metis edge_run.lease prod.collapse)
  moreover have "fst (acquire_turn (20 * second) 0 demo_request None demo_leased) = Waits 0 True False" by code_simp
  ultimately show ?thesis unfolding demo_waits_def by (metis edge_run.wait prod.collapse)
qed

theorem edge_counts_exact_witness:
  "rlWaiting (load_at demo_waits 0) = 1 \<and> rlInFlight (load_at demo_waits 0) = 1 \<and> soInflight (egSlotHeap demo_waits ! 0) = 1"
proof -
  have "length (egLoadHeap demo_waits) = 1" "length (egSlotHeap demo_waits) = 1" by code_simp+
  then show ?thesis using edge_counts_exact [OF demo_run] by simp
qed


end
