(* ===== verification/Sha256.thy ===== *)
theory Sha256
  imports Main "HOL-Library.Word"
begin

text \<open>
  The SHA-256 digest of \<open>crypto/sha256\<close> (FIPS 180-4), over bytes as integers from 0 to 255, and its lower-case hexadecimal
  text as \<open>hex.EncodeToString\<close> writes it.
\<close>

unbundle bit_operations_syntax

subsection \<open>The digest\<close>

definition sha_initial :: "32 word list" where
  "sha_initial = [0x6A09E667, 0xBB67AE85, 0x3C6EF372, 0xA54FF53A, 0x510E527F, 0x9B05688C, 0x1F83D9AB, 0x5BE0CD19]"

definition sha_constants :: "32 word list" where
  "sha_constants =
     [0x428A2F98, 0x71374491, 0xB5C0FBCF, 0xE9B5DBA5, 0x3956C25B, 0x59F111F1, 0x923F82A4, 0xAB1C5ED5,
      0xD807AA98, 0x12835B01, 0x243185BE, 0x550C7DC3, 0x72BE5D74, 0x80DEB1FE, 0x9BDC06A7, 0xC19BF174,
      0xE49B69C1, 0xEFBE4786, 0x0FC19DC6, 0x240CA1CC, 0x2DE92C6F, 0x4A7484AA, 0x5CB0A9DC, 0x76F988DA,
      0x983E5152, 0xA831C66D, 0xB00327C8, 0xBF597FC7, 0xC6E00BF3, 0xD5A79147, 0x06CA6351, 0x14292967,
      0x27B70A85, 0x2E1B2138, 0x4D2C6DFC, 0x53380D13, 0x650A7354, 0x766A0ABB, 0x81C2C92E, 0x92722C85,
      0xA2BFE8A1, 0xA81A664B, 0xC24B8B70, 0xC76C51A3, 0xD192E819, 0xD6990624, 0xF40E3585, 0x106AA070,
      0x19A4C116, 0x1E376C08, 0x2748774C, 0x34B0BCB5, 0x391C0CB3, 0x4ED8AA4A, 0x5B9CCA4F, 0x682E6FF3,
      0x748F82EE, 0x78A5636F, 0x84C87814, 0x8CC70208, 0x90BEFFFA, 0xA4506CEB, 0xBEF9A3F7, 0xC67178F2]"

definition rotr :: "nat \<Rightarrow> 32 word \<Rightarrow> 32 word" where
  "rotr n x = push_bit (32 - n) x OR drop_bit n x"

definition big_sigma0 :: "32 word \<Rightarrow> 32 word" where
  "big_sigma0 x = rotr 2 x XOR rotr 13 x XOR rotr 22 x"

definition big_sigma1 :: "32 word \<Rightarrow> 32 word" where
  "big_sigma1 x = rotr 6 x XOR rotr 11 x XOR rotr 25 x"

definition small_sigma0 :: "32 word \<Rightarrow> 32 word" where
  "small_sigma0 x = rotr 7 x XOR rotr 18 x XOR drop_bit 3 x"

definition small_sigma1 :: "32 word \<Rightarrow> 32 word" where
  "small_sigma1 x = rotr 17 x XOR rotr 19 x XOR drop_bit 10 x"

text \<open>The message followed by a one bit, zeros and its length in bits, in whole blocks of 64 bytes.\<close>

definition sha_pad :: "int list \<Rightarrow> int list" where
  "sha_pad bs = bs @ [128] @ replicate ((119 - length bs mod 64) mod 64) 0
     @ map (\<lambda>k. (8 * int (length bs)) div 256 ^ k mod 256) (rev [0..<8])"

fun sha_words :: "int list \<Rightarrow> 32 word list" where
  "sha_words (a # b # c # d # bs) = of_int (((a * 256 + b) * 256 + c) * 256 + d) # sha_words bs"
| "sha_words bs = []"

text \<open>The schedule, the sixteen words before the next one with the newest first, and one round.\<close>

definition schedule_word :: "32 word list \<Rightarrow> 32 word" where
  "schedule_word ws = small_sigma1 (ws ! 1) + ws ! 6 + small_sigma0 (ws ! 14) + ws ! 15"

fun sha_schedule :: "nat \<Rightarrow> 32 word list \<Rightarrow> 32 word list" where
  "sha_schedule 0 ws = rev ws"
| "sha_schedule (Suc n) ws = sha_schedule n (schedule_word ws # ws)"

fun sha_round :: "32 word list \<Rightarrow> 32 word \<times> 32 word \<Rightarrow> 32 word list" where
  "sha_round [a, b, c, d, e, f, g, h] (k, w) =
     (let t1 = h + big_sigma1 e + ((e AND f) XOR (NOT e AND g)) + k + w;
          t2 = big_sigma0 a + ((a AND b) XOR (a AND c) XOR (b AND c))
      in [t1 + t2, a, b, c, d + t1, e, f, g])"
| "sha_round s _ = s"

definition sha_block :: "32 word list \<Rightarrow> 32 word list \<Rightarrow> 32 word list" where
  "sha_block s ws = map2 (+) s (foldl sha_round s (zip sha_constants (sha_schedule 48 (rev ws))))"

function sha_blocks :: "32 word list \<Rightarrow> 32 word list \<Rightarrow> 32 word list" where
  "sha_blocks s ws = (if ws = [] then s else sha_blocks (sha_block s (take 16 ws)) (drop 16 ws))"
  by pat_completeness auto
termination
  by (relation "measure (\<lambda>(s, ws). length ws)") auto

declare sha_blocks.simps [simp del]

definition word_bytes :: "32 word \<Rightarrow> int list" where
  "word_bytes w = map (\<lambda>k. uint w div 256 ^ k mod 256) [3, 2, 1, 0]"

definition Sum256 :: "int list \<Rightarrow> int list" where
  "Sum256 bs = concat (map word_bytes (sha_blocks sha_initial (sha_words (sha_pad bs))))"

subsection \<open>Hexadecimal text\<close>

definition hex_digit :: "int \<Rightarrow> char" where
  "hex_digit n = ''0123456789abcdef'' ! nat n"

definition EncodeToString :: "int list \<Rightarrow> string" where
  "EncodeToString bs = concat (map (\<lambda>b. [hex_digit (b div 16), hex_digit (b mod 16)]) bs)"

subsection \<open>Lengths\<close>

lemma sha_round_length: "length (sha_round s kw) = length s"
  by (induction s kw rule: sha_round.induct) (simp_all add: Let_def)

lemma sha_rounds_length: "length (foldl sha_round s kws) = length s"
  by (induction kws arbitrary: s) (simp_all add: sha_round_length)

lemma sha_blocks_length: "length (sha_blocks s ws) = length s"
proof (induction s ws rule: sha_blocks.induct)
  case (1 s ws)
  then show ?case by (subst sha_blocks.simps) (simp add: sha_block_def sha_rounds_length)
qed

lemma length_concat_same: "\<forall>x\<in>set xs. length (f x) = n \<Longrightarrow> length (concat (map f xs)) = n * length xs"
  by (induction xs) simp_all

lemma Sum256_length: "length (Sum256 bs) = 32"
  by (simp add: Sum256_def length_concat_same [where n = 4] word_bytes_def sha_blocks_length sha_initial_def)

lemma Sum256_bytes: "b \<in> set (Sum256 bs) \<Longrightarrow> 0 \<le> b \<and> b < 256"
  by (auto simp: Sum256_def word_bytes_def)

lemma EncodeToString_length: "length (EncodeToString bs) = 2 * length bs"
  by (simp add: EncodeToString_def length_concat_same [where n = 2])

lemma hex_digit_in: "0 \<le> n \<Longrightarrow> n < 16 \<Longrightarrow> hex_digit n \<in> set ''0123456789abcdef''"
  unfolding hex_digit_def by (rule nth_mem) simp

lemma EncodeToString_digits:
  assumes "\<forall>b\<in>set bs. 0 \<le> b \<and> b < 256"
  shows "set (EncodeToString bs) \<subseteq> set ''0123456789abcdef''"
proof -
  have "hex_digit (b div 16) \<in> set ''0123456789abcdef'' \<and> hex_digit (b mod 16) \<in> set ''0123456789abcdef''" if "b \<in> set bs" for b
  proof -
    have "0 \<le> b div 16" "b div 16 < 16" using assms that by auto
    then show ?thesis using hex_digit_in [of "b div 16"] hex_digit_in [of "b mod 16"] by simp
  qed
  then show ?thesis unfolding EncodeToString_def by auto
qed

end
