(* ===== verification/EdgeUrls.thy ===== *)
theory EdgeUrls
  imports GoText Sha256
begin

text \<open>
  The names workloads answer on: the subdomain a deploy claims (\<open>internal/control/http.go\<close>), the hosts the edge builds of it and
  what it reads of a request's host (\<open>internal/edge/urls.go\<close>).

  Text is ASCII. What \<open>url.Parse\<close> reads of the public base is a record of its parts.
\<close>

subsection \<open>Subdomains\<close>

definition is_alnum :: "char \<Rightarrow> bool" where
  "is_alnum c \<longleftrightarrow> (let n = of_char c :: nat in 97 \<le> n \<and> n \<le> 122 \<or> 48 \<le> n \<and> n \<le> 57)"

definition trim_space :: "string \<Rightarrow> string" where
  "trim_space s = rev (dropWhile is_space (rev (dropWhile is_space s)))"

definition trim_right :: "char \<Rightarrow> string \<Rightarrow> string" where
  "trim_right c s = rev (dropWhile (\<lambda>x. x = c) (rev s))"

definition maxLabelLength :: nat where
  "maxLabelLength = 63"

definition digestLength :: nat where
  "digestLength = 8"

definition maxStemLength :: nat where
  "maxStemLength = maxLabelLength - 1 - digestLength - length ''-latest''"

text \<open>One character of the name: letters and digits go to the stem, a run of others becomes a dash before the next one.\<close>

definition stem_char :: "string \<times> bool \<Rightarrow> char \<Rightarrow> string \<times> bool" where
  "stem_char = (\<lambda>(stem, dash) c.
     if is_alnum c then (stem @ (if dash \<and> stem \<noteq> [] then ''-'' else []) @ [c], False) else (stem, True))"

definition subdomain_stem :: "string \<Rightarrow> string" where
  "subdomain_stem name = fst (foldl stem_char ([], False) (map lower_char (trim_space name)))"

definition identity_digest :: "string \<Rightarrow> string \<Rightarrow> string \<Rightarrow> string \<Rightarrow> string" where
  "identity_digest workspace app name kind =
     take digestLength (EncodeToString (Sum256 (map of_char (join_with [CHR 0x00] [workspace, app, name, kind]))))"

definition Subdomain :: "string \<Rightarrow> string \<Rightarrow> string \<Rightarrow> string \<Rightarrow> string" where
  "Subdomain workspace app name kind =
     (let stem = subdomain_stem name;
          label = (if length stem > maxStemLength then trim_right (CHR ''-'') (take maxStemLength stem) else stem);
          digest = identity_digest workspace app name kind
      in if label = [] then digest else label @ ''-'' @ digest)"

subsection \<open>Hosts\<close>

text \<open>\<open>net.JoinHostPort\<close>, and \<open>net.SplitHostPort\<close> with its errors as \<open>None\<close>.\<close>

definition JoinHostPort :: "string \<Rightarrow> string \<Rightarrow> string" where
  "JoinHostPort h p = (if CHR '':'' \<in> set h then ''['' @ h @ '']:'' @ p else h @ '':'' @ p)"

definition cut_last :: "char \<Rightarrow> string \<Rightarrow> (string \<times> string) option" where
  "cut_last c s =
     (if c \<in> set s then Some (rev (tl (dropWhile (\<lambda>x. x \<noteq> c) (rev s))), rev (takeWhile (\<lambda>x. x \<noteq> c) (rev s))) else None)"

definition SplitHostPort :: "string \<Rightarrow> (string \<times> string) option" where
  "SplitHostPort hostport =
     (case cut_last (CHR '':'') hostport of
        None \<Rightarrow> None
      | Some (before, port) \<Rightarrow>
          if hd hostport = CHR ''['' then
            let close = length (takeWhile (\<lambda>x. x \<noteq> CHR '']'') hostport)
            in if close + 1 \<noteq> length before \<or> CHR ''['' \<in> set (tl hostport) \<or> CHR '']'' \<in> set (drop (close + 1) hostport) then None
               else Some (take (close - 1) (tl hostport), port)
          else if CHR '':'' \<in> set before \<or> CHR ''['' \<in> set hostport \<or> CHR '']'' \<in> set hostport then None
          else Some (before, port))"

record url_parts =
  upScheme :: string
  upHostname :: string
  upPort :: string
  upPath :: string

record URLs =
  urScheme :: string
  urBase :: string
  urPort :: string

datatype url_error = ParseFailed | NotAnOrigin

definition ParseURLs :: "url_parts option \<Rightarrow> url_error + URLs" where
  "ParseURLs parsed =
     (case parsed of
        None \<Rightarrow> Inl ParseFailed
      | Some p \<Rightarrow>
          if (upScheme p \<noteq> ''http'' \<and> upScheme p \<noteq> ''https'') \<or> upHostname p = [] \<or> (upPath p \<noteq> [] \<and> upPath p \<noteq> ''/'')
          then Inl NotAnOrigin
          else Inr \<lparr>urScheme = upScheme p, urBase = map lower_char (upHostname p), urPort = upPort p\<rparr>)"

definition url_host :: "URLs \<Rightarrow> string \<Rightarrow> string" where
  "url_host u label =
     (let h = label @ ''.'' @ urBase u in if urPort u \<noteq> [] then JoinHostPort h (urPort u) else h)"

text \<open>The label that pins one version.\<close>

definition version_label :: "string \<Rightarrow> nat \<Rightarrow> string" where
  "version_label subdomain version = subdomain @ ''-v'' @ print_nat version"

definition hostLabel :: "URLs \<Rightarrow> string \<Rightarrow> string \<times> bool" where
  "hostLabel u host =
     (let h = (case SplitHostPort host of Some (h, _) \<Rightarrow> h | None \<Rightarrow> host);
          h = trim_suffix (map lower_char h) ''.'';
          label = trim_suffix h (''.'' @ urBase u)
      in if \<not> has_suffix h (''.'' @ urBase u) \<or> label = [] \<or> CHR ''.'' \<in> set label then (h, False) else (label, True))"

definition deploymentLabel :: "string \<Rightarrow> string \<times> int" where
  "deploymentLabel label =
     (case cut_last (CHR ''-'') label of
        None \<Rightarrow> (label, 0)
      | Some (stem, marker) \<Rightarrow>
          if marker = ''latest'' then (stem, 0)
          else if marker \<noteq> [] \<and> hd marker = CHR ''v'' \<and> tl marker \<noteq> [] \<and> hd (tl marker) \<noteq> CHR ''0''
          then (case atoi (tl marker) of Some n \<Rightarrow> (stem, n) | None \<Rightarrow> (label, 0))
          else (label, 0))"

subsection \<open>What a subdomain is\<close>

lemma cut_last_append: "c \<notin> set m \<Longrightarrow> cut_last c (s @ c # m) = Some (s, m)"
proof -
  assume m: "c \<notin> set m"
  then have "takeWhile (\<lambda>x. x \<noteq> c) (rev m) = rev m" "dropWhile (\<lambda>x. x \<noteq> c) (rev m) = []" by (auto simp: takeWhile_eq_all_conv)
  then show ?thesis using m by (simp add: cut_last_def takeWhile_append dropWhile_append)
qed

definition label_char :: "char \<Rightarrow> bool" where
  "label_char c \<longleftrightarrow> is_alnum c \<or> c = CHR ''-''"

definition stem_ok :: "string \<Rightarrow> bool" where
  "stem_ok s \<longleftrightarrow> list_all label_char s \<and> (s \<noteq> [] \<longrightarrow> is_alnum (hd s) \<and> is_alnum (last s))"

lemma stem_char_ok: "stem_ok (fst p) \<Longrightarrow> stem_ok (fst (stem_char p c))"
  by (cases p) (auto simp: stem_char_def stem_ok_def label_char_def hd_append)

lemma subdomain_stem_ok: "stem_ok (subdomain_stem name)"
proof -
  have "stem_ok (fst (foldl stem_char p cs))" if "stem_ok (fst p)" for p cs
    using that by (induction cs arbitrary: p) (simp_all add: stem_char_ok)
  from this [of "([], False)"] show ?thesis by (simp add: subdomain_stem_def stem_ok_def)
qed

lemma dash_not_alnum [simp]: "\<not> is_alnum (CHR ''-'')"
  by (simp add: is_alnum_def)

lemma trim_right_ok:
  assumes "stem_ok s"
  shows "stem_ok (trim_right (CHR ''-'') (take n s))"
proof -
  let ?t = "trim_right (CHR ''-'') (take n s)"
  have "take n s = ?t @ rev (takeWhile (\<lambda>x. x = CHR ''-'') (rev (take n s)))"
    unfolding trim_right_def by (metis rev_append rev_rev_ident takeWhile_dropWhile_id)
  then obtain r where s: "s = ?t @ r" by (metis append.assoc append_take_drop_id)
  then have sub: "set ?t \<subseteq> set s" by (metis Un_upper1 set_append)
  then have all: "list_all label_char ?t" using assms by (auto simp: stem_ok_def list_all_iff)
  have "is_alnum (hd ?t)" "is_alnum (last ?t)" if "?t \<noteq> []"
  proof -
    show "is_alnum (hd ?t)" using assms s that by (metis append_is_Nil_conv hd_append2 stem_ok_def)
    have "last ?t \<noteq> CHR ''-''" using that hd_dropWhile [of "\<lambda>x. x = CHR ''-''" "rev (take n s)"]
      by (simp add: trim_right_def last_rev)
    moreover have "label_char (last ?t)" using all that by (simp add: list_all_iff)
    ultimately show "is_alnum (last ?t)" by (simp add: label_char_def)
  qed
  then show ?thesis using all by (simp add: stem_ok_def)
qed

lemma identity_digest_ok: "length (identity_digest w a n k) = 8" "set (identity_digest w a n k) \<subseteq> set ''0123456789abcdef''"
proof -
  show "length (identity_digest w a n k) = 8"
    unfolding identity_digest_def length_take EncodeToString_length Sum256_length by (simp add: digestLength_def)
  have "set (EncodeToString (Sum256 bs)) \<subseteq> set ''0123456789abcdef''" for bs
    by (rule EncodeToString_digits) (use Sum256_bytes in blast)
  then show "set (identity_digest w a n k) \<subseteq> set ''0123456789abcdef''"
    unfolding identity_digest_def by (rule order_trans [OF set_take_subset])
qed

text \<open>A subdomain is a digest, or a stem, a dash and a digest.\<close>

lemma Subdomain_shape:
  obtains "Subdomain w a n k = identity_digest w a n k"
  | stem where "Subdomain w a n k = stem @ CHR ''-'' # identity_digest w a n k" "stem \<noteq> []" "stem_ok stem" "length stem \<le> 47"
proof -
  define label where "label = (if length (subdomain_stem n) > maxStemLength
    then trim_right (CHR ''-'') (take maxStemLength (subdomain_stem n)) else subdomain_stem n)"
  have "stem_ok label" using subdomain_stem_ok trim_right_ok by (simp add: label_def)
  moreover have "length label \<le> 47"
    using length_dropWhile_le [of "\<lambda>x. x = CHR ''-''" "rev (take maxStemLength (subdomain_stem n))"]
    by (auto simp: label_def trim_right_def maxStemLength_def maxLabelLength_def digestLength_def)
  moreover have "Subdomain w a n k = (if label = [] then identity_digest w a n k else label @ CHR ''-'' # identity_digest w a n k)"
    by (simp add: Subdomain_def label_def Let_def)
  ultimately show ?thesis using that by (cases "label = []") auto
qed

lemma hex_alnum: "set s \<subseteq> set ''0123456789abcdef'' \<Longrightarrow> list_all is_alnum s"
  by (induction s) (auto simp: is_alnum_def Let_def)

text \<open>
  A workload's subdomain is a DNS label of lower-case letters, digits and dashes with no dash at either end, and leaves room
  for the suffix that names the latest release.
\<close>

theorem Subdomain_dns_label:
  "list_all label_char (Subdomain workspace app name kind) \<and> Subdomain workspace app name kind \<noteq> []
    \<and> is_alnum (hd (Subdomain workspace app name kind)) \<and> is_alnum (last (Subdomain workspace app name kind))
    \<and> length (Subdomain workspace app name kind @ ''-latest'') \<le> maxLabelLength"
proof -
  let ?d = "identity_digest workspace app name kind"
  have d: "length ?d = 8" "list_all is_alnum ?d" using identity_digest_ok hex_alnum by blast+
  then have ne: "?d \<noteq> []" by auto
  then have "is_alnum (hd ?d)" "is_alnum (last ?d)" "list_all label_char ?d"
    using d(2) by (auto simp: list_all_iff label_char_def)
  with ne d(1) show ?thesis
    by (cases rule: Subdomain_shape [of workspace app name kind])
      (auto simp: stem_ok_def maxLabelLength_def label_char_def)
qed

subsection \<open>Hosts lead back\<close>

text \<open>Decimal numbers read back.\<close>

lemma print_nat_value: "digits_value (print_nat n) = int n"
proof (induction n rule: print_nat.induct)
  case (1 n)
  have "(48 + n mod 10) mod 256 = 48 + n mod 10" by (rule mod_less) (use mod_less_divisor [of 10 n] in linarith)
  then have d: "int (of_char (char_of (48 + n mod 10) :: char)) = 48 + int n mod 10" by (simp add: zmod_int)
  have snoc: "digits_value (s @ [c]) = digits_value s * 10 + (int (of_char c) - 48)" for s c by (simp add: digits_value_def)
  show ?case
  proof (cases "n < 10")
    case True
    then show ?thesis by (subst print_nat.simps) (simp add: digits_value_def)
  next
    case False
    then have "digits_value (print_nat n) = digits_value (print_nat (n div 10)) * 10 + (int (of_char (char_of (48 + n mod 10) :: char)) - 48)"
      by (subst print_nat.simps) (simp add: snoc del: char_of_mod_256)
    then show ?thesis using 1 False d by (simp add: zdiv_int zmod_int)
  qed
qed

lemma print_nat_first: "0 < n \<Longrightarrow> hd (print_nat n) \<noteq> CHR ''0''"
proof (induction n rule: print_nat.induct)
  case (1 n)
  show ?case
  proof (cases "n < 10")
    case True
    have "char_of (48 + n) \<noteq> CHR ''0''"
    proof
      assume "char_of (48 + n) = CHR ''0''"
      then have "of_char (char_of (48 + n) :: char) = (48 :: nat)" by simp
      then show False using True 1 by simp
    qed
    then show ?thesis using True by (subst print_nat.simps) simp
  next
    case False
    then show ?thesis using 1 print_nat_word(1) [of "n div 10"] by (subst print_nat.simps) (simp add: hd_append)
  qed
qed

lemma digit_plain: "is_digit c \<Longrightarrow> c \<notin> {CHR ''-'', CHR ''+'', CHR ''.'', CHR '':'', CHR ''['', CHR '']''}"
  by (auto simp: is_digit_def)

lemma atoi_print_nat: "n < 2 ^ 63 \<Longrightarrow> atoi (print_nat n) = Some (int n)"
proof -
  assume n: "n < 2 ^ 63"
  have "is_digit (hd (print_nat n))" using print_nat_digits [of n] print_nat_word(1) [of n] by (cases "print_nat n") auto
  then have "hd (print_nat n) \<noteq> CHR ''-''" "hd (print_nat n) \<noteq> CHR ''+''" using digit_plain by blast+
  moreover have "int n < 2 ^ 63" using n by (metis of_nat_less_iff of_nat_numeral of_nat_power)
  ultimately show ?thesis using print_nat_digits [of n] print_nat_word(1) [of n]
    by (simp add: atoi_def Let_def print_nat_value)
qed

text \<open>Text without the characters that separate a port.\<close>

definition plain :: "string \<Rightarrow> bool" where
  "plain s \<longleftrightarrow> set s \<inter> {CHR '':'', CHR ''['', CHR '']''} = {}"

lemma SplitHostPort_join: "plain h \<Longrightarrow> plain p \<Longrightarrow> h \<noteq> [] \<Longrightarrow> SplitHostPort (JoinHostPort h p) = Some (h, p)"
proof -
  assume h: "plain h" "plain p" "h \<noteq> []"
  then have "cut_last (CHR '':'') (JoinHostPort h p) = Some (h, p)" by (auto simp: plain_def JoinHostPort_def cut_last_append)
  moreover have "hd (JoinHostPort h p) \<noteq> CHR ''[''" using h by (cases h) (auto simp: plain_def JoinHostPort_def)
  ultimately show ?thesis using h by (auto simp: SplitHostPort_def plain_def JoinHostPort_def)
qed

lemma SplitHostPort_none: "plain h \<Longrightarrow> SplitHostPort h = None"
  by (auto simp: SplitHostPort_def plain_def cut_last_def)

lemma has_suffix_append [simp]: "has_suffix (a @ b) b"
  by (simp add: has_suffix_def)

lemma trim_suffix_append [simp]: "trim_suffix (a @ b) b = a"
  by (simp add: trim_suffix_def)

lemma trim_suffix_dot: "s \<noteq> [] \<Longrightarrow> last s \<noteq> CHR ''.'' \<Longrightarrow> trim_suffix s ''.'' = s"
proof -
  assume "s \<noteq> []" "last s \<noteq> CHR ''.''"
  then obtain t c where "s = t @ [c]" "c \<noteq> CHR ''.''" by (metis append_butlast_last_id)
  then show ?thesis by (simp add: trim_suffix_def has_suffix_def)
qed

lemma lower_code: "of_char (lower_char c) = (if 65 \<le> (of_char c :: nat) \<and> of_char c \<le> (90 :: nat) then of_char c + 32 else of_char c :: nat)"
  by (simp add: lower_char_def Let_def)

lemma char_eq_code: "c = d \<longleftrightarrow> (of_char c :: nat) = of_char d" for c d :: char
  by simp

lemma lower_same:
  assumes "(of_char d :: nat) < 65 \<or> 90 < (of_char d :: nat) \<and> (of_char d :: nat) < 97"
  shows "lower_char c = d \<longleftrightarrow> c = d"
  using assms unfolding char_eq_code lower_code by auto

lemma lower_plain: "plain (map lower_char s) \<longleftrightarrow> plain s"
proof -
  have "lower_char c \<in> {CHR '':'', CHR ''['', CHR '']''} \<longleftrightarrow> c \<in> {CHR '':'', CHR ''['', CHR '']''}" for c
    by (simp add: lower_same)
  then have "lower_char ` set s \<inter> {CHR '':'', CHR ''['', CHR '']''} = {} \<longleftrightarrow> set s \<inter> {CHR '':'', CHR ''['', CHR '']''} = {}" by blast
  then show ?thesis unfolding plain_def list.set_map .
qed

lemma lower_dot: "lower_char c = CHR ''.'' \<longleftrightarrow> c = CHR ''.''"
  by (simp add: lower_same)

lemma label_char_plain:
  assumes "label_char c"
  shows "lower_char c = c" and "c \<notin> {CHR ''.'', CHR '':'', CHR ''['', CHR '']''}"
  using assms by (auto simp: label_char_def is_alnum_def lower_char_def Let_def)

lemma hostLabel_host:
  assumes "ParseURLs (Some p) = Inr u" "plain (upHostname p)" "last (upHostname p) \<noteq> CHR ''.''" "plain (upPort p)"
    and "list_all label_char label" "label \<noteq> []"
  shows "hostLabel u (url_host u label) = (label, True)"
proof -
  have u: "urBase u = map lower_char (upHostname p)" "urPort u = upPort p" "upHostname p \<noteq> []"
    using assms(1) by (auto simp: ParseURLs_def split: if_splits)
  define h where "h = label @ ''.'' @ urBase u"
  have l: "map lower_char label = label" "plain label" "CHR ''.'' \<notin> set label"
    using assms(5) label_char_plain by (auto simp: list_all_iff plain_def intro: map_idI)
  have h: "plain h" "h \<noteq> []" "last h \<noteq> CHR ''.''" "map lower_char h = h"
    using l assms(2,3) u by (auto simp: h_def plain_def lower_dot last_map) (use lower_plain [of "upHostname p"] in \<open>auto simp: plain_def lower_char_def\<close>)
  have "url_host u label = (if upPort p \<noteq> [] then JoinHostPort h (upPort p) else h)"
    unfolding url_host_def Let_def h_def [symmetric] u(2) by (rule refl)
  then have "(case SplitHostPort (url_host u label) of Some (h', _) \<Rightarrow> h' | None \<Rightarrow> url_host u label) = h"
    using SplitHostPort_join [OF h(1) assms(4) h(2)] SplitHostPort_none [OF h(1)] by simp
  moreover have "trim_suffix (map lower_char h) ''.'' = h" using h trim_suffix_dot by simp
  moreover have "has_suffix h (''.'' @ urBase u)" "trim_suffix h (''.'' @ urBase u) = label" unfolding h_def by simp_all
  ultimately show ?thesis using assms(6) l(3) by (simp add: hostLabel_def Let_def)
qed

text \<open>What the labels of a workload name.\<close>

lemma digest_marker: "c \<in> set (identity_digest w a n k) \<Longrightarrow> c \<noteq> CHR ''v'' \<and> c \<noteq> CHR ''-'' \<and> c \<noteq> CHR ''l''"
  using identity_digest_ok(2) [of w a n k] by auto

lemma deploymentLabel_subdomain: "deploymentLabel (Subdomain w a n k) = (Subdomain w a n k, 0)"
proof -
  let ?d = "identity_digest w a n k"
  have d: "CHR ''-'' \<notin> set ?d" "?d \<noteq> []" using digest_marker identity_digest_ok(1) [of w a n k] by (blast, auto)
  then have hd: "hd ?d \<noteq> CHR ''v''" "hd ?d \<noteq> CHR ''l''" using digest_marker [OF hd_in_set [OF d(2)]] by blast+
  have "?d \<noteq> ''latest''" using hd(2) by auto
  then show ?thesis
  proof (cases rule: Subdomain_shape [of w a n k])
    case 1
    have "cut_last (CHR ''-'') ?d = None" using d(1) by (simp add: cut_last_def)
    then show ?thesis unfolding 1 deploymentLabel_def by simp
  next
    case (2 stem)
    have "cut_last (CHR ''-'') (stem @ CHR ''-'' # ?d) = Some (stem, ?d)" using d(1) by (rule cut_last_append)
    then show ?thesis using hd(1) \<open>?d \<noteq> ''latest''\<close> unfolding 2(1) deploymentLabel_def by simp
  qed
qed

lemma deploymentLabel_latest: "deploymentLabel (sub @ ''-latest'') = (sub, 0)"
proof -
  have "cut_last (CHR ''-'') (sub @ CHR ''-'' # ''latest'') = Some (sub, ''latest'')" by (rule cut_last_append) simp
  then show ?thesis by (simp add: deploymentLabel_def)
qed

lemma deploymentLabel_version: "0 < n \<Longrightarrow> n < 2 ^ 63 \<Longrightarrow> deploymentLabel (version_label sub n) = (sub, int n)"
proof -
  assume n: "0 < n" "n < 2 ^ 63"
  have "CHR ''-'' \<notin> set (CHR ''v'' # print_nat n)" using print_nat_digits [of n] digit_plain by (auto simp: list_all_iff)
  from cut_last_append [OF this, of sub] show ?thesis
    using print_nat_first [OF n(1)] print_nat_word(1) [of n] atoi_print_nat [OF n(2)] by (simp add: deploymentLabel_def version_label_def)
qed

lemma version_label_chars: "list_all label_char sub \<Longrightarrow> list_all label_char (version_label sub n)"
  using print_nat_digits [of n]
  by (auto simp: version_label_def list_all_iff label_char_def is_digit_def is_alnum_def Let_def)

lemma Subdomain_chars: "list_all label_char (Subdomain w a n k)" "Subdomain w a n k \<noteq> []"
proof -
  note d = hex_alnum [OF identity_digest_ok(2) [of w a n k]]
  have "identity_digest w a n k \<noteq> []" using identity_digest_ok(1) [of w a n k] by auto
  with d show "list_all label_char (Subdomain w a n k)" "Subdomain w a n k \<noteq> []"
    by (atomize (full), cases rule: Subdomain_shape [of w a n k]) (auto simp: list_all_iff label_char_def stem_ok_def)
qed

text \<open>
  The hosts the edge prints lead back: with a base that is a plain host name, the host of a workload's subdomain and that of
  one of its versions are read as their labels under the base, and the labels name the subdomain with no version, also with
  the suffix of the latest, and the subdomain with that version.
\<close>

theorem hosts_lead_back:
  assumes "ParseURLs (Some p) = Inr u" and "plain (upHostname p)" and "last (upHostname p) \<noteq> CHR ''.''" and "plain (upPort p)"
    and "0 < n" and "n < 2 ^ 63"
  shows "hostLabel u (url_host u (Subdomain workspace app name kind)) = (Subdomain workspace app name kind, True)
    \<and> deploymentLabel (Subdomain workspace app name kind) = (Subdomain workspace app name kind, 0)
    \<and> deploymentLabel (Subdomain workspace app name kind @ ''-latest'') = (Subdomain workspace app name kind, 0)
    \<and> hostLabel u (url_host u (version_label (Subdomain workspace app name kind) n)) = (version_label (Subdomain workspace app name kind) n, True)
    \<and> deploymentLabel (version_label (Subdomain workspace app name kind) n) = (Subdomain workspace app name kind, int n)"
proof -
  let ?s = "Subdomain workspace app name kind"
  have "version_label ?s n \<noteq> []" by (simp add: version_label_def)
  then show ?thesis
    using hostLabel_host [OF assms(1-4) Subdomain_chars] hostLabel_host [OF assms(1-4) version_label_chars [OF Subdomain_chars(1)]]
      deploymentLabel_subdomain deploymentLabel_latest deploymentLabel_version [OF assms(5,6)] by blast
qed

definition demo_base :: url_parts where
  "demo_base = \<lparr>upScheme = ''http'', upHostname = ''LazyCloud.localhost'', upPort = ''8082'', upPath = []\<rparr>"

definition demo_urls :: URLs where
  "demo_urls = \<lparr>urScheme = ''http'', urBase = ''lazycloud.localhost'', urPort = ''8082''\<rparr>"

theorem hosts_lead_back_witness:
  "hostLabel demo_urls (url_host demo_urls (version_label (Subdomain ''0199a1b2'' ''x'' ''__'' ''function'') 12))
     = (version_label (Subdomain ''0199a1b2'' ''x'' ''__'' ''function'') 12, True)
   \<and> deploymentLabel (version_label (Subdomain ''0199a1b2'' ''x'' ''__'' ''function'') 12) = (Subdomain ''0199a1b2'' ''x'' ''__'' ''function'', 12)"
proof -
  have "ParseURLs (Some demo_base) = Inr demo_urls" by code_simp
  moreover have "plain (upHostname demo_base)" "last (upHostname demo_base) \<noteq> CHR ''.''" "plain (upPort demo_base)"
    by (simp_all add: demo_base_def plain_def)
  ultimately show ?thesis
    using hosts_lead_back [of demo_base demo_urls 12 "''0199a1b2''" "''x''" "''__''" "''function''"] by simp
qed

end
