(* ===== verification/EdgeRoutes.thy ===== *)
theory EdgeRoutes
  imports EdgeLoad EdgeUrls
begin

text \<open>
  What a request's host names (\<open>internal/edge/routes.go\<close>): releases and their settings, the table of routes and its reload
  (\<open>internal/edge/watch.go\<close>), and the resolution of a host to a target through the edge's caches.

  A query answers with a row, with none, or fails. The spec of a row is what decoding its JSON gives, \<open>None\<close> where that fails.
  Names that only appear in logs are left out of workloads.
\<close>

subsection \<open>Releases\<close>

record HttpSpec =
  hsWorkers :: "int option"
  hsRoute :: "string option"
  hsMethods :: "string list option"

record WorkloadSpec =
  wsConcurrency :: "int option"
  wsTimeoutSeconds :: "int option"
  wsKeepWarmSeconds :: "int option"
  wsMaxPendingTasks :: "int option"
  wsAuthorized :: "bool option"
  wsMaxAttempts :: "int option"
  wsHttp :: "HttpSpec option"

datatype route_error = NoRoute | DecodeSpec | ReadFailure | WaitEnded

definition or_default :: "'a \<Rightarrow> 'a option \<Rightarrow> 'a" where
  "or_default d x = (case x of None \<Rightarrow> d | Some v \<Rightarrow> v)"

definition newRelease :: "nat \<Rightarrow> nat \<Rightarrow> int option \<Rightarrow> WorkloadSpec option \<Rightarrow> route_error + edgeRelease" where
  "newRelease release workload version rawSpec =
     (case rawSpec of
        None \<Rightarrow> Inl DecodeSpec
      | Some spec \<Rightarrow>
          let concurrency = or_default 1 (wsConcurrency spec);
              r = \<lparr>erID = release, erWorkload = workload, erPreview = (case version of None \<Rightarrow> False | Some v \<Rightarrow> v < 0),
                   erWorkingTree = (version = None), erVersion = version, erCapacity = 1,
                   erAuthorized = or_default True (wsAuthorized spec),
                   erTimeout = (case wsTimeoutSeconds spec of None \<Rightarrow> hour | Some s \<Rightarrow> s * second),
                   erKeepWarm = (case wsKeepWarmSeconds spec of None \<Rightarrow> 0 | Some s \<Rightarrow> s * second),
                   erMaxPending = or_default 100 (wsMaxPendingTasks spec), erRoute = [], erMethods = [],
                   erAttempts = (case wsMaxAttempts spec of None \<Rightarrow> 1 | Some n \<Rightarrow> max 1 n)\<rparr>
          in Inr (case wsHttp spec of
                    None \<Rightarrow> r
                  | Some h \<Rightarrow> r\<lparr>erCapacity := max 1 (or_default 1 (hsWorkers h) * concurrency), erRoute := or_default [] (hsRoute h),
                               erMethods := or_default [] (hsMethods h)\<rparr>))"

definition release_allows :: "edgeRelease \<Rightarrow> string \<Rightarrow> bool" where
  "release_allows r m \<longleftrightarrow> m \<in> set (erMethods r)"

subsection \<open>Rows\<close>

datatype 'a answer = Row 'a | NoRows | Failed

record RoutesRow =
  rrWorkloadID :: nat
  rrWorkspaceID :: nat
  rrSubdomain :: string
  rrHostname :: "string option"
  rrHostnameReady :: bool
  rrDesiredState :: string
  rrAppState :: string
  rrReleaseID :: "nat option"
  rrVersion :: "int option"
  rrSpec :: "WorkloadSpec option"

record ReleaseRouteRow =
  rwReleaseID :: nat
  rwVersion :: "int option"
  rwSpec :: "WorkloadSpec option"
  rwWorkloadID :: nat
  rwWorkspaceID :: nat
  rwDesiredState :: string
  rwAppState :: string
  rwPreviewLive :: bool
  rwActiveAuthorized :: bool

record edge_queries =
  eqRoutes :: "RoutesRow list option"
  eqReleaseRoute :: "nat \<Rightarrow> ReleaseRouteRow answer"
  eqContainerRelease :: "nat \<Rightarrow> nat answer"
  eqReleaseOfVersion :: "nat \<Rightarrow> int \<Rightarrow> nat answer"

subsection \<open>The table of routes\<close>

definition no_routes :: routeTable where
  "no_routes = \<lparr>rtBySubdomain = [], rtByHostname = [], rtByID = []\<rparr>"

definition route_workload :: "RoutesRow \<Rightarrow> route_error + workload" where
  "route_workload row =
     (let w = \<lparr>wlID = rrWorkloadID row, wlWorkspace = rrWorkspaceID row,
               wlAccepting = (rrDesiredState row = ''active'' \<and> rrAppState row = ''active''), wlSubdomain = rrSubdomain row,
               wlHostname = (case rrHostname row of Some h \<Rightarrow> if rrHostnameReady row then h else [] | None \<Rightarrow> []), wlActive = None\<rparr>
      in case rrReleaseID row of
           None \<Rightarrow> Inr w
         | Some r \<Rightarrow> (case newRelease r (wlID w) (rrVersion row) (rrSpec row) of
                       Inl x \<Rightarrow> Inl x
                     | Inr rel \<Rightarrow> Inr (w\<lparr>wlActive := Some rel\<rparr>)))"

definition add_route :: "RoutesRow \<Rightarrow> workload \<Rightarrow> routeTable \<Rightarrow> routeTable" where
  "add_route row w t =
     \<lparr>rtBySubdomain = AList.update (wlSubdomain w) w (rtBySubdomain t),
      rtByHostname = (case rrHostname row of
                        Some h \<Rightarrow> if rrHostnameReady row then AList.update h w (rtByHostname t) else rtByHostname t
                      | None \<Rightarrow> rtByHostname t),
      rtByID = AList.update (wlID w) w (rtByID t)\<rparr>"

fun route_rows :: "RoutesRow list \<Rightarrow> routeTable \<Rightarrow> route_error + routeTable" where
  "route_rows [] t = Inr t"
| "route_rows (row # rows) t = (case route_workload row of Inl x \<Rightarrow> Inl x | Inr w \<Rightarrow> route_rows rows (add_route row w t))"

definition loadRoutes :: "edge_queries \<Rightarrow> route_error + routeTable" where
  "loadRoutes q = (case eqRoutes q of None \<Rightarrow> Inl ReadFailure | Some rows \<Rightarrow> route_rows rows no_routes)"

definition reloadLocked :: "time \<Rightarrow> edge_queries \<Rightarrow> edge \<Rightarrow> route_error option \<times> edge" where
  "reloadLocked started q e =
     (case loadRoutes q of
        Inl x \<Rightarrow> (Some x, e)
      | Inr routes \<Rightarrow> (None, forgetReplacedWindows (egRoutes e) routes (e\<lparr>egRoutes := routes, egReloadStarted := started\<rparr>)))"

definition missReloadInterval :: duration where
  "missReloadInterval = 250 * (second div 1000)"

text \<open>
  A miss: the request arrived at \<open>since\<close> and may have to wait, while others change the edge as \<open>rqWaited\<close> says, or until its context
  ends.
\<close>

record request_env =
  rqArrived :: time
  rqMissed :: time
  rqReloads :: time
  rqEnded :: bool
  rqWaited :: "edge \<Rightarrow> edge"
  rqParse :: "string \<Rightarrow> nat option"

definition reloadOnMiss :: "request_env \<Rightarrow> edge_queries \<Rightarrow> edge \<Rightarrow> route_error option \<times> edge" where
  "reloadOnMiss env q e =
     (if egReloadStarted e > rqArrived env then (None, e)
      else if missReloadInterval - time_sub (rqMissed env) (egReloadStarted e) > 0 then
        (if rqEnded env then (Some WaitEnded, rqWaited env e)
         else if egReloadStarted (rqWaited env e) > rqArrived env then (None, rqWaited env e)
         else reloadLocked (rqReloads env) q (rqWaited env e))
      else reloadLocked (rqReloads env) q e)"

subsection \<open>Targets\<close>

definition maxCachedReleases :: nat where
  "maxCachedReleases = 10000"

definition missTTL :: duration where
  "missTTL = 2 * second"

text \<open>An insert into a cache, which starts over when it is full.\<close>

definition cache_put :: "'k \<Rightarrow> 'v \<Rightarrow> ('k \<times> 'v) list \<Rightarrow> ('k \<times> 'v) list" where
  "cache_put k v c = AList.update k v (if length c \<ge> maxCachedReleases then [] else c)"

definition edge_release :: "edge_queries \<Rightarrow> nat \<Rightarrow> edge \<Rightarrow> (route_error + edgeRelease) \<times> edge" where
  "edge_release q release e =
     (case map_of (egReleases e) release of
        Some r \<Rightarrow> (Inr r, e)
      | None \<Rightarrow>
          (case eqReleaseRoute q release of
             NoRows \<Rightarrow> (Inl NoRoute, e)
           | Failed \<Rightarrow> (Inl ReadFailure, e)
           | Row row \<Rightarrow>
               (case newRelease (rwReleaseID row) (rwWorkloadID row) (rwVersion row) (rwSpec row) of
                  Inl x \<Rightarrow> (Inl x, e)
                | Inr r \<Rightarrow> (Inr r, e\<lparr>egReleases := cache_put release r (egReleases e)\<rparr>))))"

definition withPolicy :: "edgeTarget \<Rightarrow> bool \<Rightarrow> edgeTarget" where
  "withPolicy t active = t\<lparr>tgAuthorized := erAuthorized (tgRelease t) \<or> active\<rparr>"

definition activeAuthorized :: "workload \<Rightarrow> bool" where
  "activeAuthorized w = (case wlActive w of None \<Rightarrow> False | Some r \<Rightarrow> erAuthorized r)"

definition plain_target :: "workload \<Rightarrow> edgeRelease \<Rightarrow> bool \<Rightarrow> nat option \<Rightarrow> edgeTarget" where
  "plain_target w r latest container =
     \<lparr>tgWorkload = w, tgRelease = r, tgLatest = latest, tgContainer = container, tgAuthorized = False\<rparr>"

definition versionTarget :: "edge_queries \<Rightarrow> workload \<Rightarrow> nat \<Rightarrow> edge \<Rightarrow> (route_error + edgeTarget) \<times> edge" where
  "versionTarget q w release e =
     (case edge_release q release e of
        (Inl x, e) \<Rightarrow> (Inl x, e)
      | (Inr r, e) \<Rightarrow> (Inr (withPolicy (plain_target w r False None) (activeAuthorized w)), e))"

text \<open>The release an identifier names, with the container when it is one, and the target of its row.\<close>

definition id_row :: "edge_queries \<Rightarrow> nat \<Rightarrow> ReleaseRouteRow answer \<times> nat option" where
  "id_row q ident =
     (case eqReleaseRoute q ident of
        NoRows \<Rightarrow>
          (case eqContainerRelease q ident of
             NoRows \<Rightarrow> (NoRows, None)
           | Failed \<Rightarrow> (Failed, None)
           | Row release \<Rightarrow> (eqReleaseRoute q release, Some ident))
      | a \<Rightarrow> (a, None))"

definition row_target :: "ReleaseRouteRow \<Rightarrow> edgeRelease \<Rightarrow> nat option \<Rightarrow> edgeTarget" where
  "row_target row r container =
     (let w = \<lparr>wlID = rwWorkloadID row, wlWorkspace = rwWorkspaceID row,
               wlAccepting = (if erPreview r then rwPreviewLive row
                              else if erWorkingTree r then rwAppState row \<noteq> ''deleted'' \<and> rwDesiredState row \<noteq> ''deleted''
                              else rwDesiredState row = ''active'' \<and> rwAppState row = ''active''),
               wlSubdomain = [], wlHostname = [], wlActive = None\<rparr>
      in withPolicy (plain_target w r False container) (rwActiveAuthorized row))"

definition readID :: "edge_queries \<Rightarrow> nat \<Rightarrow> edge \<Rightarrow> (route_error + edgeTarget) \<times> edge" where
  "readID q ident e =
     (case id_row q ident of
        (NoRows, _) \<Rightarrow> (Inl NoRoute, e)
      | (Failed, _) \<Rightarrow> (Inl ReadFailure, e)
      | (Row row, container) \<Rightarrow>
          (case edge_release q (rwReleaseID row) e of
             (Inl x, e) \<Rightarrow> (Inl x, e)
           | (Inr r, e) \<Rightarrow> (Inr (row_target row r container), e)))"

definition resolveID :: "time \<Rightarrow> edge_queries \<Rightarrow> nat \<Rightarrow> edge \<Rightarrow> (route_error + edgeTarget) \<times> edge" where
  "resolveID now q ident e =
     (if (case map_of (egMisses e) ident of None \<Rightarrow> False | Some missed \<Rightarrow> time_sub now missed < missTTL) then (Inl NoRoute, e)
      else let (t, e') = readID q ident e
           in (t, if t = Inl NoRoute then e'\<lparr>egMisses := cache_put ident now (egMisses e')\<rparr> else e'))"

definition int32 :: "int \<Rightarrow> int" where
  "int32 n = (n + 2 ^ 31) mod 2 ^ 32 - 2 ^ 31"

text \<open>The target of a workload's host: its active release, or the version the label names.\<close>

definition workload_target :: "edge_queries \<Rightarrow> workload \<Rightarrow> int \<Rightarrow> edge \<Rightarrow> (route_error + edgeTarget) \<times> edge" where
  "workload_target q w version e =
     (if version = 0 then
        (case wlActive w of
           None \<Rightarrow> (Inl NoRoute, e)
         | Some r \<Rightarrow> (Inr (withPolicy (plain_target w r True None) (activeAuthorized w)), e))
      else case map_of (egVersions e) (wlID w, version) of
             Some release \<Rightarrow> versionTarget q w release e
           | None \<Rightarrow>
               (case eqReleaseOfVersion q (wlID w) (int32 version) of
                  NoRows \<Rightarrow> (Inl NoRoute, e)
                | Failed \<Rightarrow> (Inl ReadFailure, e)
                | Row release \<Rightarrow>
                    versionTarget q w release (e\<lparr>egVersions := cache_put (wlID w, version) release (egVersions e)\<rparr>)))"

definition route_of :: "string \<Rightarrow> bool \<Rightarrow> edge \<Rightarrow> workload option" where
  "route_of label below e =
     (if below then map_of (rtBySubdomain (egRoutes e)) (fst (deploymentLabel label)) else map_of (rtByHostname (egRoutes e)) label)"

definition resolveLabel :: "request_env \<Rightarrow> edge_queries \<Rightarrow> string \<Rightarrow> bool \<Rightarrow> edge \<Rightarrow> (route_error + edgeTarget) \<times> edge" where
  "resolveLabel env q label below e =
     (case (if below then rqParse env label else None) of
        Some ident \<Rightarrow> resolveID (rqArrived env) q ident e
      | None \<Rightarrow>
          let miss = (case route_of label below e of None \<Rightarrow> True | Some w \<Rightarrow> wlActive w = None);
              (failed, e) = (if miss then reloadOnMiss env q e else (None, e))
          in case failed of
               Some x \<Rightarrow> (Inl x, e)
             | None \<Rightarrow>
                 (case route_of label below e of
                    None \<Rightarrow> (Inl NoRoute, e)
                  | Some w \<Rightarrow> workload_target q w (if below then snd (deploymentLabel label) else 0) e))"

definition resolve :: "request_env \<Rightarrow> edge_queries \<Rightarrow> URLs \<Rightarrow> string \<Rightarrow> edge \<Rightarrow> (route_error + edgeTarget) \<times> edge" where
  "resolve env q u host e = (let (label, below) = hostLabel u host in resolveLabel env q label below e)"

end
