(* ===== verification/EdgeTargets.thy ===== *)
theory EdgeTargets
  imports EdgeRoutes
begin

text \<open>
  What hosts resolve to: the edge's caches never change an answer, the hosts of a workload lead to its releases with the token
  policy in force, and a version past 32 bits names another release.
\<close>

subsection \<open>Caches\<close>

text \<open>The contract of a cache: what it holds was put there.\<close>

locale memo =
  fixes get :: "'c \<Rightarrow> 'k \<Rightarrow> 'v option" and put :: "'k \<Rightarrow> 'v \<Rightarrow> 'c \<Rightarrow> 'c"
  assumes held: "get (put k v c) k' = Some v' \<Longrightarrow> k' = k \<and> v' = v \<or> get c k' = Some v'"
begin

lemma put_keeps:
  assumes "\<forall>k v. get c k = Some v \<longrightarrow> P k v" and "P k v"
  shows "\<forall>k' v'. get (put k v c) k' = Some v' \<longrightarrow> P k' v'"
  using assms held [of k v c] by blast

end

interpretation edge_cache: memo map_of cache_put
proof
  show "map_of (cache_put k v c) k' = Some v' \<Longrightarrow> k' = k \<and> v' = v \<or> map_of c k' = Some v'" for k k' and v v' and c
    by (auto simp: cache_put_def update_conv' split: if_splits)
qed

text \<open>The answers without caches.\<close>

definition direct_release :: "edge_queries \<Rightarrow> nat \<Rightarrow> route_error + edgeRelease" where
  "direct_release q release =
     (case eqReleaseRoute q release of
        NoRows \<Rightarrow> Inl NoRoute
      | Failed \<Rightarrow> Inl ReadFailure
      | Row row \<Rightarrow> newRelease (rwReleaseID row) (rwWorkloadID row) (rwVersion row) (rwSpec row))"

definition direct_id :: "edge_queries \<Rightarrow> nat \<Rightarrow> route_error + edgeTarget" where
  "direct_id q ident =
     (case id_row q ident of
        (NoRows, _) \<Rightarrow> Inl NoRoute
      | (Failed, _) \<Rightarrow> Inl ReadFailure
      | (Row row, container) \<Rightarrow>
          (case direct_release q (rwReleaseID row) of Inl x \<Rightarrow> Inl x | Inr r \<Rightarrow> Inr (row_target row r container)))"

definition direct_version :: "edge_queries \<Rightarrow> workload \<Rightarrow> int \<Rightarrow> route_error + edgeTarget" where
  "direct_version q w version =
     (case eqReleaseOfVersion q (wlID w) (int32 version) of
        NoRows \<Rightarrow> Inl NoRoute
      | Failed \<Rightarrow> Inl ReadFailure
      | Row release \<Rightarrow>
          (case direct_release q release of
             Inl x \<Rightarrow> Inl x
           | Inr r \<Rightarrow> Inr (withPolicy (plain_target w r False None) (activeAuthorized w))))"

definition direct_target :: "edge_queries \<Rightarrow> workload \<Rightarrow> int \<Rightarrow> route_error + edgeTarget" where
  "direct_target q w version =
     (if version = 0 then
        (case wlActive w of None \<Rightarrow> Inl NoRoute | Some r \<Rightarrow> Inr (withPolicy (plain_target w r True None) (activeAuthorized w)))
      else direct_version q w version)"

text \<open>What the caches hold is what the queries answer.\<close>

definition releases_ok :: "edge_queries \<Rightarrow> (nat \<times> edgeRelease) list \<Rightarrow> bool" where
  "releases_ok q c \<longleftrightarrow> (\<forall>release r. map_of c release = Some r \<longrightarrow> direct_release q release = Inr r)"

definition versions_ok :: "edge_queries \<Rightarrow> ((nat \<times> int) \<times> nat) list \<Rightarrow> bool" where
  "versions_ok q c \<longleftrightarrow> (\<forall>k release. map_of c k = Some release \<longrightarrow> eqReleaseOfVersion q (fst k) (int32 (snd k)) = Row release)"

definition misses_ok :: "edge_queries \<Rightarrow> (nat \<times> time) list \<Rightarrow> bool" where
  "misses_ok q c \<longleftrightarrow> (\<forall>ident t. map_of c ident = Some t \<longrightarrow> direct_id q ident = Inl NoRoute)"

definition caches_ok :: "edge_queries \<Rightarrow> edge \<Rightarrow> bool" where
  "caches_ok q e \<longleftrightarrow> releases_ok q (egReleases e) \<and> versions_ok q (egVersions e) \<and> misses_ok q (egMisses e)"

lemma releases_ok_put: "releases_ok q c \<Longrightarrow> direct_release q k = Inr r \<Longrightarrow> releases_ok q (cache_put k r c)"
  unfolding releases_ok_def by (rule edge_cache.put_keeps [where P = "\<lambda>k r. direct_release q k = Inr r"])

lemma versions_ok_put:
  "versions_ok q c \<Longrightarrow> eqReleaseOfVersion q w (int32 v) = Row release \<Longrightarrow> versions_ok q (cache_put (w, v) release c)"
  unfolding versions_ok_def
  by (rule edge_cache.put_keeps [where P = "\<lambda>k release. eqReleaseOfVersion q (fst k) (int32 (snd k)) = Row release"]) simp_all

lemma misses_ok_put: "misses_ok q c \<Longrightarrow> direct_id q k = Inl NoRoute \<Longrightarrow> misses_ok q (cache_put k t c)"
  unfolding misses_ok_def by (rule edge_cache.put_keeps [where P = "\<lambda>k t. direct_id q k = Inl NoRoute"])

lemma edge_release_direct:
  assumes "caches_ok q e"
  shows "fst (edge_release q release e) = direct_release q release" and "caches_ok q (snd (edge_release q release e))"
proof -
  show "fst (edge_release q release e) = direct_release q release"
    using assms by (auto simp: edge_release_def direct_release_def caches_ok_def releases_ok_def split: option.split answer.split sum.split)
  show "caches_ok q (snd (edge_release q release e))"
  proof (cases "map_of (egReleases e) release")
    case None
    then show ?thesis using assms releases_ok_put [of q "egReleases e" release]
      by (auto simp: edge_release_def direct_release_def caches_ok_def split: answer.split sum.split)
  qed (use assms in \<open>simp add: edge_release_def\<close>)
qed

lemma readID_direct:
  assumes "caches_ok q e"
  shows "fst (readID q ident e) = direct_id q ident" and "caches_ok q (snd (readID q ident e))"
proof -
  obtain found container where row: "id_row q ident = (found, container)" by (cases "id_row q ident")
  have "fst (readID q ident e) = direct_id q ident \<and> caches_ok q (snd (readID q ident e))"
  proof (cases found)
    case (Row r)
    obtain x e' where rel: "edge_release q (rwReleaseID r) e = (x, e')" by (cases "edge_release q (rwReleaseID r) e")
    then have "direct_release q (rwReleaseID r) = x" "caches_ok q e'" using edge_release_direct [OF assms, of "rwReleaseID r"] by simp_all
    then show ?thesis using row Row rel by (simp add: readID_def direct_id_def split: sum.split)
  qed (use assms row in \<open>simp_all add: readID_def direct_id_def\<close>)
  then show "fst (readID q ident e) = direct_id q ident" "caches_ok q (snd (readID q ident e))" by simp_all
qed

lemma resolveID_direct:
  assumes "caches_ok q e"
  shows "fst (resolveID now q ident e) = direct_id q ident" and "caches_ok q (snd (resolveID now q ident e))"
proof -
  obtain t e' where read: "readID q ident e = (t, e')" by (cases "readID q ident e")
  note r = readID_direct [OF assms, of ident, unfolded read fst_conv snd_conv]
  have "direct_id q ident = Inl NoRoute" if "map_of (egMisses e) ident = Some m" for m
    using assms that by (auto simp: caches_ok_def misses_ok_def)
  moreover have "caches_ok q (e'\<lparr>egMisses := cache_put ident now (egMisses e')\<rparr>)" if "t = Inl NoRoute"
    using r that misses_ok_put by (simp add: caches_ok_def)
  ultimately show "fst (resolveID now q ident e) = direct_id q ident" "caches_ok q (snd (resolveID now q ident e))"
    using r assms by (auto simp: resolveID_def read split: option.split)
qed

lemma versionTarget_direct:
  assumes "caches_ok q e"
  shows "fst (versionTarget q w release e)
      = (case direct_release q release of Inl x \<Rightarrow> Inl x | Inr r \<Rightarrow> Inr (withPolicy (plain_target w r False None) (activeAuthorized w)))"
    and "caches_ok q (snd (versionTarget q w release e))"
  using edge_release_direct [OF assms, of release]
  by (cases "edge_release q release e"; auto simp: versionTarget_def split: sum.split)+

lemma workload_target_direct:
  assumes "caches_ok q e"
  shows "fst (workload_target q w version e) = direct_target q w version" and "caches_ok q (snd (workload_target q w version e))"
proof -
  have "caches_ok q (e\<lparr>egVersions := cache_put (wlID w, version) release (egVersions e)\<rparr>)"
    if "eqReleaseOfVersion q (wlID w) (int32 version) = Row release" for release
    using assms versions_ok_put that by (simp add: caches_ok_def)
  note put = versionTarget_direct [OF this]
  have "eqReleaseOfVersion q (wlID w) (int32 version) = Row release" if "map_of (egVersions e) (wlID w, version) = Some release" for release
    using assms that by (fastforce simp: caches_ok_def versions_ok_def)
  then show "fst (workload_target q w version e) = direct_target q w version" "caches_ok q (snd (workload_target q w version e))"
    using put versionTarget_direct [OF assms] assms
    by (auto simp: workload_target_def direct_target_def direct_version_def split: option.split answer.split)
qed

text \<open>
  The caches over time: empty at first, used and filled by the operations, while the rest of the edge changes freely and the database
  changes so that releases and versions that are there stay as they are and an identifier remembered as missing does not
  appear.
\<close>

definition rows_stay :: "edge_queries \<Rightarrow> edge_queries \<Rightarrow> bool" where
  "rows_stay q q' \<longleftrightarrow> (\<forall>release r. direct_release q release = Inr r \<longrightarrow> direct_release q' release = Inr r)
     \<and> (\<forall>w v release. eqReleaseOfVersion q w v = Row release \<longrightarrow> eqReleaseOfVersion q' w v = Row release)"

inductive cache_run :: "edge_queries \<Rightarrow> edge \<Rightarrow> bool" where
  cold: "egReleases e = [] \<Longrightarrow> egVersions e = [] \<Longrightarrow> egMisses e = [] \<Longrightarrow> cache_run q e"
| release: "cache_run q e \<Longrightarrow> cache_run q (snd (edge_release q r e))"
| by_id: "cache_run q e \<Longrightarrow> cache_run q (snd (resolveID now q ident e))"
| by_label: "cache_run q e \<Longrightarrow> cache_run q (snd (workload_target q w version e))"
| other: "cache_run q e \<Longrightarrow> egReleases e' = egReleases e \<Longrightarrow> egVersions e' = egVersions e \<Longrightarrow> egMisses e' = egMisses e \<Longrightarrow> cache_run q e'"
| database: "cache_run q e \<Longrightarrow> rows_stay q q' \<Longrightarrow> misses_ok q' (egMisses e) \<Longrightarrow> cache_run q' e"

lemma cache_run_ok: "cache_run q e \<Longrightarrow> caches_ok q e"
proof (induction rule: cache_run.induct)
  case (database q e q')
  then show ?case by (fastforce simp: caches_ok_def releases_ok_def versions_ok_def rows_stay_def)
next
  case (cold e q)
  then show ?case by (simp add: caches_ok_def releases_ok_def versions_ok_def misses_ok_def)
next
  case (other q e e')
  then show ?case by (simp add: caches_ok_def)
qed (rule edge_release_direct resolveID_direct workload_target_direct, assumption)+

text \<open>
  C27: The edge's caches of releases, versions and missed identifiers never change an answer: however they were filled, an identifier
  and a workload's version resolve to what the database alone gives.
\<close>

theorem resolve_ignores_caches:
  assumes "cache_run q e"
  shows "fst (resolveID now q ident e) = direct_id q ident \<and> fst (workload_target q w version e) = direct_target q w version"
  using resolveID_direct(1) workload_target_direct(1) cache_run_ok [OF assms] by blast

subsection \<open>Hosts\<close>

text \<open>The label of a routed, deployed workload resolves without a reload.\<close>

lemma resolve_label:
  assumes "hostLabel u host = (label, True)" "deploymentLabel label = (sub, version)" "rqParse env label = None"
    and "map_of (rtBySubdomain (egRoutes e)) sub = Some w" "wlActive w \<noteq> None" "caches_ok q e"
  shows "fst (resolve env q u host e) = direct_target q w version"
  using assms workload_target_direct(1) [OF assms(6)] by (auto simp: resolve_def resolveLabel_def route_of_def Let_def)

lemma int32_small: "0 \<le> n \<Longrightarrow> n < 2 ^ 31 \<Longrightarrow> int32 n = n"
  by (simp add: int32_def)

lemma version_host:
  assumes "ParseURLs (Some p) = Inr u" "plain (upHostname p)" "last (upHostname p) \<noteq> CHR ''.''" "plain (upPort p)"
    and "list_all label_char sub" "0 < n" "n < 2 ^ 63" "rqParse env (version_label sub n) = None"
    and "map_of (rtBySubdomain (egRoutes e)) sub = Some w" "wlActive w \<noteq> None" "caches_ok q e"
  shows "fst (resolve env q u (url_host u (version_label sub n)) e) = direct_version q w (int n)"
proof -
  have "version_label sub n \<noteq> []" by (simp add: version_label_def)
  with assms(5) have "hostLabel u (url_host u (version_label sub n)) = (version_label sub n, True)"
    by (intro hostLabel_host [OF assms(1-4)] version_label_chars)
  from resolve_label [OF this deploymentLabel_version [OF assms(6,7)] assms(8-11)] assms(6) show ?thesis
    by (simp add: direct_target_def)
qed

text \<open>
  C26: The hosts of a deployed workload serve it: the host of its subdomain resolves to its active release, with older ones to
  fall back to, and the host of one of its versions to the release of that version, however the caches are filled; both with
  the token policy of their release and of the active one.
\<close>

theorem workload_hosts_resolve:
  assumes "ParseURLs (Some p) = Inr u" and "plain (upHostname p)" and "last (upHostname p) \<noteq> CHR ''.''" and "plain (upPort p)"
    and "sub = Subdomain workspace app name kind" and "0 < n" and "n < 2 ^ 31"
    and "rqParse env sub = None" and "rqParse env (version_label sub n) = None"
    and "map_of (rtBySubdomain (egRoutes e)) sub = Some w" and "wlActive w = Some active" and "cache_run q e"
    and "eqReleaseOfVersion q (wlID w) (int n) = Row release" and "direct_release q release = Inr r"
  shows "fst (resolve env q u (url_host u sub) e)
      = Inr \<lparr>tgWorkload = w, tgRelease = active, tgLatest = True, tgContainer = None, tgAuthorized = erAuthorized active\<rparr>
    \<and> fst (resolve env q u (url_host u (version_label sub n)) e)
      = Inr \<lparr>tgWorkload = w, tgRelease = r, tgLatest = False, tgContainer = None, tgAuthorized = erAuthorized r \<or> erAuthorized active\<rparr>"
proof
  note ok = cache_run_ok [OF assms(12)]
  have sub: "list_all label_char sub" "sub \<noteq> []" "deploymentLabel sub = (sub, 0)"
    unfolding assms(5) by (rule Subdomain_chars, rule Subdomain_chars, rule deploymentLabel_subdomain)
  have "wlActive w \<noteq> None" using assms(11) by simp
  from resolve_label [OF hostLabel_host [OF assms(1-4) sub(1,2)] sub(3) assms(8,10) this ok]
  show "fst (resolve env q u (url_host u sub) e)
      = Inr \<lparr>tgWorkload = w, tgRelease = active, tgLatest = True, tgContainer = None, tgAuthorized = erAuthorized active\<rparr>"
    using assms(11) by (simp add: direct_target_def withPolicy_def plain_target_def activeAuthorized_def)
  have "n < 2 ^ 63" using assms(7) by simp
  from version_host [OF assms(1-4) sub(1) assms(6) this assms(9,10) \<open>wlActive w \<noteq> None\<close> ok]
  show "fst (resolve env q u (url_host u (version_label sub n)) e)
      = Inr \<lparr>tgWorkload = w, tgRelease = r, tgLatest = False, tgContainer = None, tgAuthorized = erAuthorized r \<or> erAuthorized active\<rparr>"
    using assms(6,7,11,13,14) by (simp add: direct_version_def int32_small withPolicy_def plain_target_def activeAuthorized_def)
qed


subsection \<open>Versions past 32 bits\<close>

lemma int32_wraps: "0 < k \<Longrightarrow> k \<le> 2 ^ 31 \<Longrightarrow> int32 (2 ^ 32 - k) = - k"
proof -
  assume k: "0 < k" "k \<le> 2 ^ 31"
  have "2 ^ 32 - k + 2 ^ 31 = (2 ^ 31 - k) + 2 ^ 32" by simp
  then have "(2 ^ 32 - k + 2 ^ 31) mod 2 ^ 32 = (2 ^ 31 - k) mod 2 ^ 32" by (simp only: mod_add_self2)
  also have "\<dots> = 2 ^ 31 - k" using k by (intro mod_pos_pos_trivial) simp_all
  finally show ?thesis by (simp add: int32_def)
qed

text \<open>
  The version in a host is cut to 32 bits, so the label of version 4294967296 - k names the preview with version -k: it
  resolves to the preview's release as if it were a deployed version, accepting requests when the deployed workload does,
  while the preview's own host accepts them only while its lease lives.
\<close>

theorem version_names_preview:
  assumes "ParseURLs (Some p) = Inr u" and "plain (upHostname p)" and "last (upHostname p) \<noteq> CHR ''.''" and "plain (upPort p)"
    and "sub = Subdomain workspace app name kind" and "0 < k" and "k \<le> 2 ^ 31" and "rqParse env (version_label sub (2 ^ 32 - k)) = None"
    and "map_of (rtBySubdomain (egRoutes e)) sub = Some w" and "wlActive w \<noteq> None" and "cache_run q e"
    and "eqReleaseOfVersion q (wlID w) (- int k) = Row release" and "eqReleaseRoute q release = Row row"
    and "rwReleaseID row = release" and "rwVersion row = Some (- int k)" and "rwSpec row = Some spec"
  shows "\<exists>t t'. fst (resolve env q u (url_host u (version_label sub (2 ^ 32 - k))) e) = Inr t \<and> fst (resolveID now q release e) = Inr t'
    \<and> tgRelease t = tgRelease t' \<and> erPreview (tgRelease t) \<and> tgWorkload t = w \<and> wlAccepting (tgWorkload t') = rwPreviewLive row"
proof -
  note ok = cache_run_ok [OF assms(11)]
  have sub: "list_all label_char sub" unfolding assms(5) by (rule Subdomain_chars)
  have n: "0 < (2 ^ 32 - k :: nat)" "2 ^ 32 - k < (2 ^ 63 :: nat)" "int (2 ^ 32 - k) = 2 ^ 32 - int k"
    using assms(6,7) by (simp_all add: of_nat_diff)
  obtain r where r: "newRelease release (rwWorkloadID row) (Some (- int k)) (Some spec) = Inr r" "erPreview r"
    using assms(6) by (auto simp: newRelease_def Let_def split: option.split)
  then have d: "direct_release q release = Inr r" using assms(13-16) by (simp add: direct_release_def)
  have "int32 (2 ^ 32 - int k) = - int k" using assms(6,7) by (intro int32_wraps) simp_all
  then have "direct_version q w (2 ^ 32 - int k) = Inr (withPolicy (plain_target w r False None) (activeAuthorized w))"
    unfolding direct_version_def using assms(12) d by simp
  then have "fst (resolve env q u (url_host u (version_label sub (2 ^ 32 - k))) e) = Inr (withPolicy (plain_target w r False None) (activeAuthorized w))"
    unfolding version_host [OF assms(1-4) sub n(1,2) assms(8-10) ok] n(3) .
  moreover have "fst (resolveID now q release e) = Inr (row_target row r None)"
    using resolveID_direct(1) [OF ok] assms(13,14) d by (simp add: direct_id_def id_row_def)
  ultimately show ?thesis using r(2) by (auto simp: withPolicy_def plain_target_def row_target_def Let_def)
qed

subsection \<open>An example\<close>

text \<open>A workload with a deployed second version, which is active, and a preview whose lease has ended.\<close>

definition site_spec :: WorkloadSpec where
  "site_spec = \<lparr>wsConcurrency = Some 4, wsTimeoutSeconds = None, wsKeepWarmSeconds = Some 180, wsMaxPendingTasks = None, wsAuthorized = Some True,
     wsMaxAttempts = None, wsHttp = Some \<lparr>hsWorkers = Some 2, hsRoute = Some ''/'', hsMethods = None\<rparr>\<rparr>"

definition site_release :: edgeRelease where
  "site_release = (case newRelease 3 1 (Some 2) (Some site_spec) of Inr r \<Rightarrow> r)"

definition site_sub :: string where
  "site_sub = Subdomain ''0199a1b2'' ''reports'' ''total'' ''endpoint''"

definition site_workload :: workload where
  "site_workload = \<lparr>wlID = 1, wlWorkspace = 9, wlAccepting = True, wlSubdomain = site_sub, wlHostname = [], wlActive = Some site_release\<rparr>"

definition site_row :: "nat \<Rightarrow> int \<Rightarrow> ReleaseRouteRow" where
  "site_row release version = \<lparr>rwReleaseID = release, rwVersion = Some version, rwSpec = Some site_spec, rwWorkloadID = 1, rwWorkspaceID = 9,
     rwDesiredState = ''active'', rwAppState = ''active'', rwPreviewLive = False, rwActiveAuthorized = True\<rparr>"

definition site_queries :: edge_queries where
  "site_queries = \<lparr>eqRoutes = None,
     eqReleaseRoute = (\<lambda>release. if release = 3 then Row (site_row 3 2) else if release = 4 then Row (site_row 4 (- 1)) else NoRows),
     eqContainerRelease = (\<lambda>_. NoRows),
     eqReleaseOfVersion = (\<lambda>w v. if v = 2 then Row 3 else if v = - 1 then Row 4 else NoRows)\<rparr>"

definition site_edge :: edge where
  "site_edge = \<lparr>egRoutes = \<lparr>rtBySubdomain = [(site_sub, site_workload)], rtByHostname = [], rtByID = [(1, site_workload)]\<rparr>, egReloadStarted = 0,
     egReleases = [], egVersions = [], egMisses = [], egWorkloads = Map.empty, egLoads = [], egLoadHeap = [], egSlotHeap = [], egPublish = False\<rparr>"

definition site_env :: request_env where
  "site_env = \<lparr>rqArrived = 1, rqMissed = 1, rqReloads = 1, rqEnded = False, rqWaited = id, rqParse = (\<lambda>_. None)\<rparr>"

lemma site_cold: "cache_run site_queries site_edge"
  by (rule cache_run.cold) (simp_all add: site_edge_def)

lemma site_base:
  "ParseURLs (Some demo_base) = Inr demo_urls" "plain (upHostname demo_base)" "last (upHostname demo_base) \<noteq> CHR ''.''" "plain (upPort demo_base)"
proof -
  show "ParseURLs (Some demo_base) = Inr demo_urls" by code_simp
qed (simp_all add: demo_base_def plain_def)

lemma site_routed: "map_of (rtBySubdomain (egRoutes site_edge)) site_sub = Some site_workload" "wlActive site_workload = Some site_release"
  by (simp_all add: site_edge_def site_workload_def)

lemma site_release_direct: "direct_release site_queries 3 = Inr site_release"
  by (simp add: direct_release_def site_queries_def site_row_def site_release_def newRelease_def site_spec_def Let_def)

theorem resolve_ignores_caches_witness:
  "fst (resolveID 5 site_queries 7 (snd (workload_target site_queries site_workload 2 site_edge))) = direct_id site_queries 7
   \<and> fst (workload_target site_queries site_workload 2 (snd (workload_target site_queries site_workload 2 site_edge)))
     = direct_target site_queries site_workload 2"
  by (rule resolve_ignores_caches) (rule cache_run.by_label [OF site_cold])

theorem workload_hosts_resolve_witness:
  "fst (resolve site_env site_queries demo_urls (url_host demo_urls (version_label site_sub 2)) site_edge)
     = Inr \<lparr>tgWorkload = site_workload, tgRelease = site_release, tgLatest = False, tgContainer = None,
         tgAuthorized = erAuthorized site_release \<or> erAuthorized site_release\<rparr>"
proof -
  have "rqParse site_env l = None" for l by (simp add: site_env_def)
  moreover have "eqReleaseOfVersion site_queries (wlID site_workload) (int 2) = Row 3" by (simp add: site_queries_def)
  ultimately show ?thesis
    using workload_hosts_resolve [OF site_base site_sub_def _ _ _ _ site_routed site_cold _ site_release_direct, of 2 site_env] by simp
qed

theorem version_names_preview_witness:
  "\<exists>t t'. fst (resolve site_env site_queries demo_urls (url_host demo_urls (version_label site_sub (2 ^ 32 - 1))) site_edge) = Inr t
    \<and> fst (resolveID 5 site_queries 4 site_edge) = Inr t' \<and> tgRelease t = tgRelease t' \<and> erPreview (tgRelease t)
    \<and> tgWorkload t = site_workload \<and> wlAccepting (tgWorkload t') = rwPreviewLive (site_row 4 (- 1))"
proof (rule version_names_preview [OF site_base site_sub_def])
  show "map_of (rtBySubdomain (egRoutes site_edge)) site_sub = Some site_workload" "wlActive site_workload \<noteq> None" "cache_run site_queries site_edge"
    using site_routed site_cold by simp_all
  show "rwSpec (site_row 4 (- 1)) = Some site_spec" by (simp add: site_row_def)
qed (simp_all add: site_env_def site_queries_def site_row_def)


end
