(* ===== verification/Settle.thy ===== *)
theory Settle
  imports Calendar
begin

text \<open>
  Settling an account (\<open>internal/billing/rollup.go\<close> with its queries in \<open>rollup.sql.go\<close>): the hours of usage are covered from
  credit, credit that was reversed after it was spent is paid back from other credit, and the balance is written.

  An account is its rows: credit lots, hours of usage and the balance. A settlement is one transaction under the balance's lock, so it
  reads and writes the rows of one account; a statement that fails leaves them as they were. Amounts are nanodollars.
\<close>

subsection \<open>Rows\<close>

record creditLot =
  clID :: nat
  clKind :: string
  clAmount :: int
  clReversed :: int
  clSpent :: int
  clEffective :: time
  clExpires :: "time option"

record billingHour =
  bhHour :: time
  bhCost :: int
  bhCredited :: int
  bhSubscription :: int
  bhWaived :: int

record account =
  acComplimentary :: "time option"
  acLots :: "creditLot list"
  acHours :: "billingHour list"
  acBalance :: int
  acMonthStarted :: time
  acMonthSpent :: int
  acRecheck :: time
  acDue :: bool

text \<open>Lots with credit left or overdrawn, earliest expiry first, and hours not covered yet, oldest first.\<close>

definition lot_order :: "creditLot \<Rightarrow> (bool \<times> time) \<times> time \<times> nat" where
  "lot_order c = (case clExpires c of None \<Rightarrow> (True, 0) | Some t \<Rightarrow> (False, t), clEffective c, clID c)"

definition OpenLots :: "account \<Rightarrow> creditLot list" where
  "OpenLots a = sort_key lot_order (filter (\<lambda>c. clSpent c \<noteq> clAmount c - clReversed c) (acLots a))"

definition UncoveredHours :: "account \<Rightarrow> billingHour list" where
  "UncoveredHours a = sort_key bhHour (filter (\<lambda>h. bhCredited h + bhWaived h < bhCost h) (acHours a))"

definition MonthSpent :: "time \<Rightarrow> time \<Rightarrow> account \<Rightarrow> int" where
  "MonthSpent started ended a = sum_list (map bhCost (filter (\<lambda>h. started \<le> bhHour h \<and> bhHour h < ended) (acHours a)))"

definition SpendLots :: "(nat \<times> int) list \<Rightarrow> account \<Rightarrow> account" where
  "SpendLots deltas a =
     a\<lparr>acLots := map (\<lambda>c. case map_of deltas (clID c) of None \<Rightarrow> c | Some d \<Rightarrow> c\<lparr>clSpent := clSpent c + d\<rparr>) (acLots a)\<rparr>"

definition CoverHours :: "(time \<times> int \<times> int \<times> int) list \<Rightarrow> account \<Rightarrow> account" where
  "CoverHours covers a =
     a\<lparr>acHours := map (\<lambda>h. case map_of covers (bhHour h) of
         None \<Rightarrow> h
       | Some (credited, subscription, waived) \<Rightarrow>
           h\<lparr>bhCredited := bhCredited h + credited, bhSubscription := bhSubscription h + subscription, bhWaived := bhWaived h + waived\<rparr>)
       (acHours a)\<rparr>"

definition SetBalance :: "int \<Rightarrow> time \<Rightarrow> int \<Rightarrow> time \<Rightarrow> account \<Rightarrow> account" where
  "SetBalance balance month spent recheck a =
     a\<lparr>acBalance := balance, acMonthStarted := month, acMonthSpent := spent, acRecheck := recheck, acDue := False\<rparr>"

subsection \<open>Settling\<close>

record lot =
  ltID :: nat
  ltKind :: string
  ltRemaining :: int
  ltEffective :: time
  ltExpires :: "time option"
  ltSpent :: int

record usageHour =
  uhAt :: time
  uhUncovered :: int
  uhCredit :: int
  uhSub :: int
  uhWaived :: int

definition kindSubscription :: string where
  "kindSubscription = ''subscription''"

definition usable :: "time \<Rightarrow> time \<Rightarrow> lot \<Rightarrow> bool" where
  "usable used now l \<longleftrightarrow> ltRemaining l > 0 \<and> \<not> ltEffective l > now \<and> (case ltExpires l of None \<Rightarrow> True | Some t \<Rightarrow> t > used)"

definition lot_live :: "time \<Rightarrow> lot \<Rightarrow> bool" where
  "lot_live now l \<longleftrightarrow> \<not> ltEffective l > now \<and> (case ltExpires l of None \<Rightarrow> True | Some t \<Rightarrow> t > now)"

definition lot_of :: "creditLot \<Rightarrow> lot" where
  "lot_of c = \<lparr>ltID = clID c, ltKind = clKind c, ltRemaining = clAmount c - clReversed c - clSpent c, ltEffective = clEffective c,
     ltExpires = clExpires c, ltSpent = 0\<rparr>"

definition hour_row :: "billingHour \<Rightarrow> usageHour" where
  "hour_row h = \<lparr>uhAt = bhHour h, uhUncovered = bhCost h - bhCredited h - bhWaived h, uhCredit = 0, uhSub = 0, uhWaived = 0\<rparr>"

text \<open>
  Debts: for each debtor the payers in turn; a debtor that owes nothing more ends its inner loop, which then changes nothing.
\<close>

definition take_from :: "int \<Rightarrow> lot \<Rightarrow> lot" where
  "take_from n l = l\<lparr>ltRemaining := ltRemaining l - n, ltSpent := ltSpent l + n\<rparr>"

definition pay_debt :: "time \<Rightarrow> nat \<Rightarrow> lot list \<Rightarrow> nat \<Rightarrow> lot list" where
  "pay_debt now debtor ls payer =
     (if ltRemaining (ls ! debtor) \<ge> 0 \<or> payer = debtor \<or> ltRemaining (ls ! payer) \<le> 0 \<or> \<not> lot_live now (ls ! payer) then ls
      else let n = min (- ltRemaining (ls ! debtor)) (ltRemaining (ls ! payer))
           in ls[payer := take_from n (ls ! payer), debtor := take_from (- n) (ls ! debtor)])"

definition pay_debts :: "time \<Rightarrow> lot list \<Rightarrow> lot list" where
  "pay_debts now ls = foldl (\<lambda>ls debtor. foldl (pay_debt now debtor) ls [0..<length ls]) ls [0..<length ls]"

text \<open>One hour: waived while the account is complimentary, else covered from the lots in turn.\<close>

fun cover_lots :: "time \<Rightarrow> usageHour \<Rightarrow> lot list \<Rightarrow> usageHour \<times> lot list" where
  "cover_lots now h [] = (h, [])"
| "cover_lots now h (l # ls) =
     (if uhUncovered h = 0 then (h, l # ls)
      else if \<not> usable (uhAt h) now l then (let (h', ls') = cover_lots now h ls in (h', l # ls'))
      else let n = min (uhUncovered h) (ltRemaining l);
               h' = h\<lparr>uhUncovered := uhUncovered h - n, uhCredit := uhCredit h + n,
                      uhSub := (if ltKind l = kindSubscription then uhSub h + n else uhSub h)\<rparr>;
               (h'', ls') = cover_lots now h' ls
           in (h'', take_from n l # ls'))"

definition waived_hour :: "time option \<Rightarrow> usageHour \<Rightarrow> bool" where
  "waived_hour since h \<longleftrightarrow> (case since of None \<Rightarrow> False | Some t \<Rightarrow> \<not> uhAt h + hour < t)"

fun cover_hours :: "time \<Rightarrow> time option \<Rightarrow> usageHour list \<Rightarrow> lot list \<Rightarrow> usageHour list \<times> lot list" where
  "cover_hours now since [] ls = ([], ls)"
| "cover_hours now since (h # hs) ls =
     (let (h', ls') = (if waived_hour since h then (h\<lparr>uhWaived := uhUncovered h, uhUncovered := 0\<rparr>, ls) else cover_lots now h ls);
          (hs', ls'') = cover_hours now since hs ls'
      in (h' # hs', ls''))"

definition monthStart :: "time \<Rightarrow> time" where
  "monthStart t = utc_date (year_of (day_of t)) (month_of (day_of t)) 1 0 0 0 0"

definition next_month :: "time \<Rightarrow> time" where
  "next_month t =
     (let y = year_of (day_of t); m = month_of (day_of t)
      in if m = 12 then utc_date (y + 1) 1 1 0 0 0 0 else utc_date y (m + 1) 1 0 0 0 0)"

definition balance_lot :: "time \<Rightarrow> int \<times> time \<Rightarrow> lot \<Rightarrow> int \<times> time" where
  "balance_lot now = (\<lambda>(balance, recheck) l.
     if ltRemaining l < 0 then (balance + ltRemaining l, recheck)
     else if ltRemaining l > 0 \<and> lot_live now l then
       (balance + ltRemaining l, case ltExpires l of None \<Rightarrow> recheck | Some t \<Rightarrow> if t < recheck then t else recheck)
     else if ltRemaining l > 0 \<and> ltEffective l > now \<and> ltEffective l < recheck then (balance, ltEffective l)
     else (balance, recheck))"

definition settle :: "time \<Rightarrow> account \<Rightarrow> account" where
  "settle now a =
     (let (hours, lots) = cover_hours now (acComplimentary a) (map hour_row (UncoveredHours a)) (pay_debts now (map lot_of (OpenLots a)));
          spend = map (\<lambda>l. (ltID l, ltSpent l)) (filter (\<lambda>l. ltSpent l \<noteq> 0) lots);
          debt = sum_list (map uhUncovered hours);
          cover = map (\<lambda>h. (uhAt h, uhCredit h, uhSub h, uhWaived h)) (filter (\<lambda>h. \<not> (uhCredit h = 0 \<and> uhWaived h = 0)) hours);
          a = CoverHours cover (SpendLots spend a);
          (balance, recheck) = foldl (balance_lot now) (- debt, next_month now) lots
      in SetBalance balance (monthStart now) (MonthSpent (monthStart now) (next_month now) a) recheck a)"

subsection \<open>A pass\<close>

definition rollupBatch :: nat where
  "rollupBatch = 200"

definition account_due :: "time \<Rightarrow> account \<Rightarrow> bool" where
  "account_due now a \<longleftrightarrow> acDue a \<or> acRecheck a \<le> now"

text \<open>
  A claim takes one account that is due, whichever comes first in the table, and settles it. \<open>fails\<close> tells of an account whether a
  statement of its settlement fails, which rolls its transaction back.
\<close>

datatype claimed = NoneDue | SettleFailed | Settled "account list"

fun rollupOne :: "(account \<Rightarrow> bool) \<Rightarrow> time \<Rightarrow> account list \<Rightarrow> claimed" where
  "rollupOne fails now [] = NoneDue"
| "rollupOne fails now (a # as) =
     (if account_due now a then if fails a then SettleFailed else Settled (settle now a # as)
      else case rollupOne fails now as of Settled as' \<Rightarrow> Settled (a # as') | c \<Rightarrow> c)"

text \<open>A pass: the accounts after it, how many it settled, whether it stopped at its bound, and whether it returned an error.\<close>

fun rollup_loop :: "(account \<Rightarrow> bool) \<Rightarrow> time \<Rightarrow> nat \<Rightarrow> account list \<Rightarrow> account list \<times> nat \<times> bool" where
  "rollup_loop fails now 0 as = (as, 0, False)"
| "rollup_loop fails now (Suc n) as =
     (case rollupOne fails now as of
        NoneDue \<Rightarrow> (as, 0, False)
      | SettleFailed \<Rightarrow> (as, 0, True)
      | Settled as' \<Rightarrow> (let (as'', k, failed) = rollup_loop fails now n as' in (as'', Suc k, failed)))"

definition Rollup :: "(account \<Rightarrow> bool) \<Rightarrow> time \<Rightarrow> account list \<Rightarrow> account list \<times> nat \<times> bool \<times> bool" where
  "Rollup fails now as = (let (as', n, failed) = rollup_loop fails now rollupBatch as in (as', n, n = rollupBatch, failed))"

end
