(* ===== verification/Settling.thy ===== *)
theory Settling
  imports Settle
begin

text \<open>
  What a settlement promises: money is neither made nor lost, no credit is spent that is not there, nothing that credit could
  cover stays uncovered, settling again changes nothing, and a settled account is not due.
\<close>

subsection \<open>Lots\<close>

lemma take_from_simps [simp]:
  "ltRemaining (take_from n l) = ltRemaining l - n" "ltSpent (take_from n l) = ltSpent l + n" "ltID (take_from n l) = ltID l"
  "ltKind (take_from n l) = ltKind l" "ltEffective (take_from n l) = ltEffective l" "ltExpires (take_from n l) = ltExpires l"
  "take_from 0 l = l" "take_from m (take_from n l) = take_from (n + m) l" "lot_live now (take_from n l) = lot_live now l"
  by (simp_all add: take_from_def lot_live_def algebra_simps)

text \<open>A lot gives of the credit it has, or gets back of what it is overdrawn by.\<close>

definition gives :: "lot \<Rightarrow> int \<Rightarrow> bool" where
  "gives l n \<longleftrightarrow> (if 0 \<le> ltRemaining l then 0 \<le> n \<and> n \<le> ltRemaining l else ltRemaining l \<le> n \<and> n \<le> 0)"

definition settles :: "lot \<Rightarrow> lot \<Rightarrow> bool" where
  "settles l l' \<longleftrightarrow> (\<exists>n. gives l n \<and> l' = take_from n l)"

lemma settles_refl [simp]: "settles l l"
  unfolding settles_def gives_def by (intro exI [of _ 0]) auto

lemma settles_trans: "settles l l' \<Longrightarrow> settles l' l'' \<Longrightarrow> settles l l''"
proof -
  assume "settles l l'" "settles l' l''"
  then obtain n m where "gives l n" "l' = take_from n l" "gives l' m" "l'' = take_from m l'" by (auto simp: settles_def)
  then have "gives l (n + m)" "l'' = take_from (n + m) l" by (auto simp: gives_def split: if_splits)
  then show ?thesis unfolding settles_def by blast
qed

lemma settles_take: "gives l n \<Longrightarrow> settles l (take_from n l)"
  by (auto simp: settles_def)

lemma settles_facts:
  assumes "settles l l'"
  shows "ltID l' = ltID l" "ltKind l' = ltKind l" "lot_live now l' = lot_live now l" "usable used now l' \<Longrightarrow> usable used now l"
    "ltRemaining l' > 0 \<Longrightarrow> ltRemaining l > 0" "ltRemaining l' < 0 \<Longrightarrow> ltRemaining l < 0" "ltRemaining l' + ltSpent l' = ltRemaining l + ltSpent l"
  using assms by (auto simp: settles_def gives_def usable_def split: if_splits)

lemma all2_settles_refl [simp]: "list_all2 settles ls ls"
  by (rule list_all2_refl) simp

lemma all2_settles_trans: "list_all2 settles ls ls' \<Longrightarrow> list_all2 settles ls' ls'' \<Longrightarrow> list_all2 settles ls ls''"
  by (rule list_all2_trans) (rule settles_trans)

subsection \<open>Debts\<close>

definition spent_sum :: "lot list \<Rightarrow> int" where
  "spent_sum ls = sum_list (map ltSpent ls)"

lemma spent_sum_set: "i < length ls \<Longrightarrow> spent_sum (ls[i := take_from n (ls ! i)]) = spent_sum ls + n"
  by (simp add: spent_sum_def map_update sum_list_update_int)

lemma pay_debt_settles:
  assumes "i < length ls" "j < length ls"
  shows "list_all2 settles ls (pay_debt now i ls j)" and "spent_sum (pay_debt now i ls j) = spent_sum ls"
proof -
  define n where "n = min (- ltRemaining (ls ! i)) (ltRemaining (ls ! j))"
  have "list_all2 settles ls (ls[j := take_from n (ls ! j), i := take_from (- n) (ls ! i)])
      \<and> spent_sum (ls[j := take_from n (ls ! j), i := take_from (- n) (ls ! i)]) = spent_sum ls"
    if "ltRemaining (ls ! i) < 0" "j \<noteq> i" "ltRemaining (ls ! j) > 0"
  proof
    have "gives (ls ! j) n" "gives (ls ! i) (- n)" using that by (auto simp: gives_def n_def)
    then show "list_all2 settles ls (ls[j := take_from n (ls ! j), i := take_from (- n) (ls ! i)])"
      using assms that(2) by (auto simp: list_all2_conv_all_nth nth_list_update settles_take)
    have "(ls[j := take_from n (ls ! j)]) ! i = ls ! i" using that(2) by simp
    then show "spent_sum (ls[j := take_from n (ls ! j), i := take_from (- n) (ls ! i)]) = spent_sum ls"
      using spent_sum_set [of i "ls[j := take_from n (ls ! j)]" "- n"] spent_sum_set [of j ls n] assms by simp
  qed
  then show "list_all2 settles ls (pay_debt now i ls j)" "spent_sum (pay_debt now i ls j) = spent_sum ls"
    by (auto simp: pay_debt_def n_def Let_def)
qed

text \<open>The debtors up to one have no payer left.\<close>

definition no_payer :: "time \<Rightarrow> lot list \<Rightarrow> nat \<Rightarrow> nat \<Rightarrow> bool" where
  "no_payer now ls i k \<longleftrightarrow> ltRemaining (ls ! i) \<ge> 0 \<or> (\<forall>j<k. \<not> (ltRemaining (ls ! j) > 0 \<and> lot_live now (ls ! j)))"

lemma no_payer_settles:
  assumes "list_all2 settles ls ls'" "no_payer now ls i k" "i < length ls" "k \<le> length ls"
  shows "no_payer now ls' i k"
proof -
  have s: "settles (ls ! j) (ls' ! j)" if "j < length ls" for j using assms(1) that by (simp add: list_all2_conv_all_nth)
  have "0 \<le> ltRemaining (ls' ! i)" if "0 \<le> ltRemaining (ls ! i)"
    using settles_facts(6) [OF s [OF assms(3)]] that by linarith
  moreover have "\<not> (ltRemaining (ls' ! j) > 0 \<and> lot_live now (ls' ! j))"
    if "j < k" "\<not> (ltRemaining (ls ! j) > 0 \<and> lot_live now (ls ! j))" for j
    using that settles_facts(3,5) [OF s [of j]] assms(4) by auto
  ultimately show ?thesis using assms(2) unfolding no_payer_def by blast
qed

lemma pay_debt_exhausts:
  assumes "i < length ls" "k < length ls" "no_payer now ls i k"
  shows "no_payer now (pay_debt now i ls k) i (Suc k)"
proof (cases "ltRemaining (ls ! i) \<ge> 0 \<or> k = i \<or> ltRemaining (ls ! k) \<le> 0 \<or> \<not> lot_live now (ls ! k)")
  case True
  then show ?thesis using assms by (auto simp: pay_debt_def no_payer_def less_Suc_eq)
next
  case False
  let ?n = "min (- ltRemaining (ls ! i)) (ltRemaining (ls ! k))"
  have pay: "pay_debt now i ls k = ls[k := take_from ?n (ls ! k), i := take_from (- ?n) (ls ! i)]"
    using False by (simp add: pay_debt_def Let_def)
  show ?thesis
  proof (cases "ltRemaining (ls ! i) + ?n \<ge> 0")
    case True
    then show ?thesis using assms(1) False by (simp add: pay no_payer_def)
  next
    case neg: False
    then have "ltRemaining (ls ! k) - ?n = 0" by linarith
    moreover have "\<not> (ltRemaining (ls ! j) > 0 \<and> lot_live now (ls ! j))" if "j < k" for j
      using assms(3) False that by (auto simp: no_payer_def)
    ultimately show ?thesis using assms False neg by (auto simp: pay no_payer_def nth_list_update less_Suc_eq)
  qed
qed

lemma pay_debtor:
  assumes "i < length ls" "k \<le> length ls"
  shows "list_all2 settles ls (foldl (pay_debt now i) ls [0..<k]) \<and> spent_sum (foldl (pay_debt now i) ls [0..<k]) = spent_sum ls
    \<and> no_payer now (foldl (pay_debt now i) ls [0..<k]) i k"
  using assms(2)
proof (induction k)
  case 0
  then show ?case by (simp add: no_payer_def)
next
  case (Suc k)
  let ?ls = "foldl (pay_debt now i) ls [0..<k]"
  from Suc have IH: "list_all2 settles ls ?ls" "spent_sum ?ls = spent_sum ls" "no_payer now ?ls i k" by auto
  have len: "i < length ?ls" "k < length ?ls" using list_all2_lengthD [OF IH(1)] assms(1) Suc.prems by auto
  show ?case using all2_settles_trans [OF IH(1) pay_debt_settles(1) [OF len]] pay_debt_settles(2) [OF len] pay_debt_exhausts [OF len IH(3)] IH(2)
    by simp
qed

lemma pay_debts_upto:
  assumes "m \<le> length ls"
  shows "list_all2 settles ls (foldl (\<lambda>ls i. foldl (pay_debt now i) ls [0..<length ls]) ls [0..<m])
    \<and> spent_sum (foldl (\<lambda>ls i. foldl (pay_debt now i) ls [0..<length ls]) ls [0..<m]) = spent_sum ls
    \<and> (\<forall>i<m. no_payer now (foldl (\<lambda>ls i. foldl (pay_debt now i) ls [0..<length ls]) ls [0..<m]) i (length ls))"
  using assms
proof (induction m)
  case (Suc m)
  let ?f = "\<lambda>ls i. foldl (pay_debt now i) ls [0..<length ls]"
  let ?ls = "foldl ?f ls [0..<m]"
  from Suc have IH: "list_all2 settles ls ?ls" "spent_sum ?ls = spent_sum ls" "\<And>i. i < m \<Longrightarrow> no_payer now ?ls i (length ls)" by auto
  have len: "length ?ls = length ls" using list_all2_lengthD [OF IH(1)] by simp
  then have "m < length ?ls" using Suc.prems by simp
  note step = pay_debtor [OF this order_refl, of now]
  then have "no_payer now (?f ?ls m) i (length ls)" if "i < Suc m" for i
    using that IH(3) [of i] no_payer_settles [of ?ls "?f ?ls m" now i "length ls"] Suc.prems len by (cases "i = m") auto
  moreover have "list_all2 settles ls (?f ?ls m)" using all2_settles_trans [OF IH(1)] step by blast
  ultimately show ?case using step IH(2) by simp
qed simp

text \<open>Debts are paid as far as there is live credit.\<close>

definition debts_settled :: "time \<Rightarrow> lot list \<Rightarrow> bool" where
  "debts_settled now ls \<longleftrightarrow> (\<forall>l\<in>set ls. \<forall>p\<in>set ls. ltRemaining l < 0 \<longrightarrow> ltRemaining p > 0 \<longrightarrow> \<not> lot_live now p)"

lemma pay_debts_spec:
  shows "list_all2 settles ls (pay_debts now ls)" and "spent_sum (pay_debts now ls) = spent_sum ls" and "debts_settled now (pay_debts now ls)"
proof -
  note up = pay_debts_upto [of "length ls" ls now, folded pay_debts_def]
  then show "list_all2 settles ls (pay_debts now ls)" "spent_sum (pay_debts now ls) = spent_sum ls" by auto
  from up have "length (pay_debts now ls) = length ls" by (auto dest: list_all2_lengthD)
  with up show "debts_settled now (pay_debts now ls)"
    by (auto simp: debts_settled_def no_payer_def in_set_conv_nth) (metis leD)
qed

lemma debts_settled_mono: "list_all2 settles ls ls' \<Longrightarrow> debts_settled now ls \<Longrightarrow> debts_settled now ls'"
proof -
  assume a: "list_all2 settles ls ls'" and d: "debts_settled now ls"
  have origin: "\<exists>l\<in>set ls. settles l l'" if "l' \<in> set ls'" for l'
    using a that by (metis list_all2_conv_all_nth in_set_conv_nth)
  show ?thesis unfolding debts_settled_def
  proof (intro ballI impI)
    fix l' p' assume "l' \<in> set ls'" "p' \<in> set ls'" "ltRemaining l' < 0" "ltRemaining p' > 0"
    moreover from this obtain l p where "l \<in> set ls" "settles l l'" "p \<in> set ls" "settles p p'" using origin by blast
    ultimately show "\<not> lot_live now p'" using d settles_facts(3,5,6) unfolding debts_settled_def by metis
  qed
qed

lemma pay_debts_idle:
  assumes "debts_settled now ls"
  shows "pay_debts now ls = ls"
proof -
  have "pay_debt now i ls j = ls" if "i < length ls" "j < length ls" for i j
    using assms that unfolding pay_debt_def debts_settled_def by (metis leI not_less nth_mem)
  then have "foldl (pay_debt now i) ls [0..<k] = ls" if "i < length ls" "k \<le> length ls" for i k
    using that by (induction k) auto
  then have "foldl (\<lambda>ls i. foldl (pay_debt now i) ls [0..<length ls]) ls [0..<k] = ls" if "k \<le> length ls" for k
    using that by (induction k) auto
  then show ?thesis by (simp add: pay_debts_def)
qed

subsection \<open>Hours\<close>

text \<open>An hour covered from credit.\<close>

definition covers :: "usageHour \<Rightarrow> usageHour \<Rightarrow> bool" where
  "covers h h' \<longleftrightarrow> uhAt h' = uhAt h \<and> 0 \<le> uhUncovered h' \<and> 0 \<le> uhCredit h' \<and> 0 \<le> uhWaived h' \<and> 0 \<le> uhSub h' \<and> uhSub h' \<le> uhCredit h'
     \<and> uhUncovered h' + uhCredit h' + uhWaived h' = uhUncovered h + uhCredit h + uhWaived h"

lemma usable_gives: "usable used now l \<Longrightarrow> 0 \<le> u \<Longrightarrow> gives l (min u (ltRemaining l))"
  by (auto simp: usable_def gives_def)

lemma cover_lots_spec:
  assumes "cover_lots now h ls = (h', ls')" "0 \<le> uhUncovered h" "0 \<le> uhSub h" "uhSub h \<le> uhCredit h" "0 \<le> uhWaived h"
  shows "list_all2 settles ls ls' \<and> covers h h' \<and> uhWaived h' = uhWaived h \<and> uhCredit h \<le> uhCredit h' \<and> spent_sum ls' - spent_sum ls = uhCredit h' - uhCredit h
    \<and> (uhUncovered h' = 0 \<or> (\<forall>l\<in>set ls'. \<not> usable (uhAt h) now l))"
  using assms
proof (induction now h ls arbitrary: h' ls' rule: cover_lots.induct)
  case (1 now h)
  then show ?case by (auto simp: covers_def spent_sum_def)
next
  case (2 now h l ls)
  consider "uhUncovered h = 0" | "uhUncovered h \<noteq> 0" "\<not> usable (uhAt h) now l" | "uhUncovered h \<noteq> 0" "usable (uhAt h) now l" by blast
  then show ?case
  proof cases
    case 1
    then show ?thesis using 2 by (auto simp: covers_def)
  next
    case idle: 2
    then obtain ls2 where rest: "cover_lots now h ls = (h', ls2)" "ls' = l # ls2" using "2.prems"(1) by (auto split: prod.splits)
    from "2.IH"(1) [OF idle rest(1) "2.prems"(2-5)] show ?thesis using idle rest(2) by (auto simp: spent_sum_def)
  next
    case take: 3
    define n where "n = min (uhUncovered h) (ltRemaining l)"
    define h1 where "h1 = h\<lparr>uhUncovered := uhUncovered h - n, uhCredit := uhCredit h + n,
      uhSub := (if ltKind l = kindSubscription then uhSub h + n else uhSub h)\<rparr>"
    have "cover_lots now h (l # ls) = (let (h'', ls') = cover_lots now h1 ls in (h'', take_from n l # ls'))"
      unfolding cover_lots.simps Let_def h1_def n_def using take by simp
    then obtain ls2 where rest: "cover_lots now h1 ls = (h', ls2)" "ls' = take_from n l # ls2"
      using "2.prems"(1) by (auto split: prod.splits)
    have n: "0 \<le> n" "n \<le> uhUncovered h" "gives l n" "n = uhUncovered h \<or> n = ltRemaining l"
      using take "2.prems"(2) usable_gives [OF take(2), of "uhUncovered h"] by (auto simp: n_def usable_def)
    have pre: "0 \<le> uhUncovered h1" "0 \<le> uhSub h1" "uhSub h1 \<le> uhCredit h1" "0 \<le> uhWaived h1"
      using n "2.prems"(3-5) by (auto simp: h1_def)
    from take(2) have "\<not> \<not> usable (uhAt h) now l" by simp
    note IH = "2.IH"(2) [OF take(1) this n_def refl, folded h1_def, OF rest(1) pre]
    have "\<not> usable (uhAt h) now (take_from n l)" if "uhUncovered h' \<noteq> 0"
    proof -
      have "uhUncovered h' \<le> uhUncovered h1" "0 \<le> uhUncovered h'" using IH by (auto simp: covers_def)
      then have "uhUncovered h1 \<noteq> 0" using that by linarith
      then have "n = ltRemaining l" using n(4) by (simp add: h1_def)
      then show ?thesis by (simp add: usable_def)
    qed
    then show ?thesis using IH settles_take [OF n(3)] rest(2) n(1) by (auto simp: h1_def covers_def spent_sum_def)
  qed
qed

text \<open>Hours as they are read, and all of them covered in turn.\<close>

definition unsettled :: "usageHour \<Rightarrow> bool" where
  "unsettled h \<longleftrightarrow> 0 \<le> uhUncovered h \<and> uhCredit h = 0 \<and> uhSub h = 0 \<and> uhWaived h = 0"

definition hour_done :: "time \<Rightarrow> time option \<Rightarrow> lot list \<Rightarrow> usageHour \<Rightarrow> bool" where
  "hour_done now since ls h \<longleftrightarrow> uhUncovered h = 0 \<or> \<not> waived_hour since h \<and> (\<forall>l\<in>set ls. \<not> usable (uhAt h) now l)"

lemma waived_hour_at: "uhAt h' = uhAt h \<Longrightarrow> waived_hour since h' = waived_hour since h"
  by (simp add: waived_hour_def split: option.split)

lemma hour_done_settles: "list_all2 settles ls ls' \<Longrightarrow> hour_done now since ls h \<Longrightarrow> hour_done now since ls' h"
  unfolding hour_done_def using settles_facts(4) by (metis in_set_conv_nth list_all2_conv_all_nth)

lemma cover_hours_spec:
  assumes "cover_hours now since hs ls = (hs', ls')" "\<forall>h\<in>set hs. unsettled h"
  shows "list_all2 settles ls ls' \<and> list_all2 covers hs hs' \<and> spent_sum ls' - spent_sum ls = sum_list (map uhCredit hs')
    \<and> (\<forall>h'\<in>set hs'. hour_done now since ls' h')"
  using assms
proof (induction hs arbitrary: ls hs' ls')
  case (Cons h hs)
  obtain h1 ls1 where one: "(if waived_hour since h then (h\<lparr>uhWaived := uhUncovered h, uhUncovered := 0\<rparr>, ls) else cover_lots now h ls) = (h1, ls1)"
    by (cases "if waived_hour since h then (h\<lparr>uhWaived := uhUncovered h, uhUncovered := 0\<rparr>, ls) else cover_lots now h ls")
  obtain hs2 where rest: "cover_hours now since hs ls1 = (hs2, ls')" "hs' = h1 # hs2"
    using Cons.prems(1) one by (auto split: prod.splits)
  from Cons.IH [OF rest(1)] Cons.prems(2) have IH: "list_all2 settles ls1 ls'" "list_all2 covers hs hs2"
    "spent_sum ls' - spent_sum ls1 = sum_list (map uhCredit hs2)" "\<forall>h'\<in>set hs2. hour_done now since ls' h'" by auto
  have h: "unsettled h" using Cons.prems(2) by simp
  have "list_all2 settles ls ls1 \<and> covers h h1 \<and> spent_sum ls1 - spent_sum ls = uhCredit h1 \<and> hour_done now since ls1 h1"
  proof (cases "waived_hour since h")
    case True
    then show ?thesis using one h by (auto simp: unsettled_def covers_def hour_done_def)
  next
    case False
    with one have c: "cover_lots now h ls = (h1, ls1)" by simp
    have pre: "0 \<le> uhUncovered h" "0 \<le> uhSub h" "uhSub h \<le> uhCredit h" "0 \<le> uhWaived h" using h by (simp_all add: unsettled_def)
    from cover_lots_spec [OF c pre] False h waived_hour_at [of h1 h since] show ?thesis
      by (auto simp: unsettled_def covers_def hour_done_def)
  qed
  then show ?case using IH rest(2) all2_settles_trans hour_done_settles by auto
qed simp

lemma cover_lots_idle: "uhUncovered h = 0 \<or> (\<forall>l\<in>set ls. \<not> usable (uhAt h) now l) \<Longrightarrow> cover_lots now h ls = (h, ls)"
  by (induction ls) auto

lemma cover_hours_idle:
  "\<forall>h\<in>set hs. uhUncovered h \<noteq> 0 \<and> hour_done now since ls h \<Longrightarrow> cover_hours now since hs ls = (hs, ls)"
proof (induction hs)
  case (Cons h hs)
  then have "cover_hours now since hs ls = (hs, ls)" by simp
  then show ?case using Cons.prems by (auto simp: hour_done_def cover_lots_idle)
qed simp

subsection \<open>Rows\<close>

text \<open>Updates by key.\<close>

lemma map_of_filtered:
  "distinct (map f xs) \<Longrightarrow> x \<in> set xs \<Longrightarrow> map_of (map (\<lambda>x. (f x, g x)) (filter P xs)) (f x) = (if P x then Some (g x) else None)"
proof (induction xs)
  case (Cons y xs)
  show ?case
  proof (cases "x = y")
    case True
    have "map_of (map (\<lambda>x. (f x, g x)) (filter P xs)) (f y) = None" using Cons.prems(1) by (auto simp: map_of_eq_None_iff)
    then show ?thesis using True by simp
  next
    case False
    then have "f x \<noteq> f y" using Cons.prems by (metis distinct.simps(2) image_eqI list.set_map list.simps(9) set_ConsD)
    then show ?thesis using Cons False by auto
  qed
qed simp

lemma map_of_filtered_none: "k \<notin> f ` set xs \<Longrightarrow> map_of (map (\<lambda>x. (f x, g x)) (filter P xs)) k = None"
  by (auto simp: map_of_eq_None_iff)

lemma sort_key_map:
  assumes "\<And>x. k (f x) = k x"
  shows "sort_key k (map f xs) = map f (sort_key k xs)"
proof -
  have "insort_key k (f x) (map f ys) = map f (insort_key k x ys)" for x ys by (induction ys) (simp_all add: assms)
  then show ?thesis by (induction xs) simp_all
qed

text \<open>The lots and hours of a settlement, and what the rows become.\<close>

definition settled :: "time \<Rightarrow> account \<Rightarrow> usageHour list \<times> lot list" where
  "settled now a = cover_hours now (acComplimentary a) (map hour_row (UncoveredHours a)) (pay_debts now (map lot_of (OpenLots a)))"

definition lot_after :: "lot list \<Rightarrow> creditLot \<Rightarrow> creditLot" where
  "lot_after ls c =
     (case map_of (map (\<lambda>l. (ltID l, ltSpent l)) (filter (\<lambda>l. ltSpent l \<noteq> 0) ls)) (clID c) of
        None \<Rightarrow> c | Some d \<Rightarrow> c\<lparr>clSpent := clSpent c + d\<rparr>)"

definition hour_after :: "usageHour list \<Rightarrow> billingHour \<Rightarrow> billingHour" where
  "hour_after hs h =
     (case map_of (map (\<lambda>h. (uhAt h, uhCredit h, uhSub h, uhWaived h)) (filter (\<lambda>h. \<not> (uhCredit h = 0 \<and> uhWaived h = 0)) hs)) (bhHour h) of
        None \<Rightarrow> h
      | Some (credited, subscription, waived) \<Rightarrow>
          h\<lparr>bhCredited := bhCredited h + credited, bhSubscription := bhSubscription h + subscription, bhWaived := bhWaived h + waived\<rparr>)"

lemma settle_rows:
  assumes "settled now a = (hs, ls)"
  shows "acLots (settle now a) = map (lot_after ls) (acLots a)" "acHours (settle now a) = map (hour_after hs) (acHours a)"
    "acComplimentary (settle now a) = acComplimentary a" "acDue (settle now a) = False" "acMonthStarted (settle now a) = monthStart now"
    "(acBalance (settle now a), acRecheck (settle now a)) = foldl (balance_lot now) (- sum_list (map uhUncovered hs), next_month now) ls"
    "acMonthSpent (settle now a) = MonthSpent (monthStart now) (next_month now) (settle now a)"
  using assms
  by (auto simp: settle_def settled_def SetBalance_def SpendLots_def CoverHours_def MonthSpent_def lot_after_def [abs_def] hour_after_def [abs_def]
    Let_def split: prod.splits)

definition account_ok :: "account \<Rightarrow> bool" where
  "account_ok a \<longleftrightarrow> distinct (map clID (acLots a)) \<and> distinct (map bhHour (acHours a))"

lemma settled_facts:
  assumes "settled now a = (hs, ls)"
  shows "list_all2 settles (map lot_of (OpenLots a)) ls" "list_all2 covers (map hour_row (UncoveredHours a)) hs"
    "spent_sum ls = sum_list (map uhCredit hs)" "debts_settled now ls" "\<forall>h\<in>set hs. hour_done now (acComplimentary a) ls h"
proof -
  let ?ls = "map lot_of (OpenLots a)"
  have zero: "spent_sum ?ls = 0" by (simp add: spent_sum_def lot_of_def comp_def)
  have "\<forall>h\<in>set (map hour_row (UncoveredHours a)). unsettled h" by (auto simp: unsettled_def hour_row_def UncoveredHours_def)
  note c = cover_hours_spec [OF assms [unfolded settled_def] this]
  note d = pay_debts_spec [where ls = ?ls and now = now]
  show "list_all2 settles ?ls ls" using all2_settles_trans d(1) c by blast
  show "list_all2 covers (map hour_row (UncoveredHours a)) hs" "\<forall>h\<in>set hs. hour_done now (acComplimentary a) ls h" using c by auto
  show "spent_sum ls = sum_list (map uhCredit hs)" using c d(2) zero by simp
  show "debts_settled now ls" using debts_settled_mono d(3) c by blast
qed

text \<open>What the rows of open lots and uncovered hours become, and that all others stay.\<close>

lemma distinct_sorted_filter: "distinct (map f xs) \<Longrightarrow> distinct (map f (sort_key k (filter P xs)))"
  by (auto simp: distinct_map intro: inj_on_subset)

lemma open_set: "set (OpenLots a) = {c \<in> set (acLots a). ltRemaining (lot_of c) \<noteq> 0}"
  by (auto simp: OpenLots_def lot_of_def)

lemma uncovered_set: "set (UncoveredHours a) = {h \<in> set (acHours a). bhCredited h + bhWaived h < bhCost h}"
  by (auto simp: UncoveredHours_def)

lemma lot_after_open:
  assumes "account_ok a" "settled now a = (hs, ls)" "k < length (OpenLots a)"
  shows "gives (lot_of (OpenLots a ! k)) (ltSpent (ls ! k))" "ls ! k = take_from (ltSpent (ls ! k)) (lot_of (OpenLots a ! k))"
    "lot_after ls (OpenLots a ! k) = (OpenLots a ! k)\<lparr>clSpent := clSpent (OpenLots a ! k) + ltSpent (ls ! k)\<rparr>"
proof -
  let ?c = "OpenLots a ! k"
  note all = settled_facts(1) [OF assms(2)]
  have len: "length ls = length (OpenLots a)" using list_all2_lengthD [OF all] by simp
  have s: "settles (lot_of (OpenLots a ! j)) (ls ! j)" if "j < length ls" for j
    using all that len by (auto simp: list_all2_conv_all_nth)
  obtain n where n: "gives (lot_of ?c) n" "ls ! k = take_from n (lot_of ?c)" using s [of k] assms(3) len by (auto simp: settles_def)
  then have spent: "ltSpent (ls ! k) = n" by (simp add: lot_of_def)
  with n show "gives (lot_of ?c) (ltSpent (ls ! k))" "ls ! k = take_from (ltSpent (ls ! k)) (lot_of ?c)" by simp_all
  have ids: "map ltID ls = map clID (OpenLots a)"
    using settles_facts(1) [OF s] len by (intro nth_equalityI) (simp_all add: lot_of_def)
  have "distinct (map ltID ls)" unfolding ids using assms(1) distinct_sorted_filter by (auto simp: account_ok_def OpenLots_def)
  moreover have "ls ! k \<in> set ls" "ltID (ls ! k) = clID ?c" using assms(3) len arg_cong [OF ids, of "\<lambda>xs. xs ! k"] by simp_all
  ultimately show "lot_after ls ?c = ?c\<lparr>clSpent := clSpent ?c + ltSpent (ls ! k)\<rparr>"
    using map_of_filtered [of ltID ls "ls ! k" ltSpent "\<lambda>l. ltSpent l \<noteq> 0"] by (auto simp: lot_after_def)
qed

lemma lot_after_closed:
  assumes "account_ok a" "settled now a = (hs, ls)" "c \<in> set (acLots a)" "c \<notin> set (OpenLots a)"
  shows "lot_after ls c = c"
proof -
  note all = settled_facts(1) [OF assms(2)]
  have "ltID ` set ls \<subseteq> clID ` set (OpenLots a)"
  proof
    fix i assume "i \<in> ltID ` set ls"
    then obtain k where "k < length ls" "i = ltID (ls ! k)" by (metis imageE in_set_conv_nth)
    then show "i \<in> clID ` set (OpenLots a)"
      using all settles_facts(1) [of "lot_of (OpenLots a ! k)" "ls ! k"] by (auto simp: list_all2_conv_all_nth lot_of_def)
  qed
  moreover have "clID c \<notin> clID ` set (OpenLots a)"
    using assms(1,3,4) inj_onD [of clID "set (acLots a)"] open_set [of a] by (auto simp: account_ok_def distinct_map)
  ultimately have "clID c \<notin> ltID ` set ls" by blast
  then show ?thesis unfolding lot_after_def by (subst map_of_filtered_none) simp_all
qed

lemma hour_after_open:
  assumes "account_ok a" "settled now a = (hs, ls)" "k < length (UncoveredHours a)"
  shows "covers (hour_row (UncoveredHours a ! k)) (hs ! k)"
    "hour_after hs (UncoveredHours a ! k) = (UncoveredHours a ! k)\<lparr>bhCredited := bhCredited (UncoveredHours a ! k) + uhCredit (hs ! k),
      bhSubscription := bhSubscription (UncoveredHours a ! k) + uhSub (hs ! k), bhWaived := bhWaived (UncoveredHours a ! k) + uhWaived (hs ! k)\<rparr>"
proof -
  let ?h = "UncoveredHours a ! k"
  note all = settled_facts(2) [OF assms(2)]
  have len: "length hs = length (UncoveredHours a)" using list_all2_lengthD [OF all] by simp
  have c: "covers (hour_row (UncoveredHours a ! j)) (hs ! j)" if "j < length hs" for j
    using all that len by (auto simp: list_all2_conv_all_nth)
  then show ck: "covers (hour_row ?h) (hs ! k)" using assms(3) len by simp
  have keys: "map uhAt hs = map bhHour (UncoveredHours a)"
    using c len by (intro nth_equalityI) (auto simp: covers_def hour_row_def)
  have "distinct (map uhAt hs)" unfolding keys using assms(1) distinct_sorted_filter by (auto simp: account_ok_def UncoveredHours_def)
  moreover have "hs ! k \<in> set hs" "uhAt (hs ! k) = bhHour ?h" using assms(3) len arg_cong [OF keys, of "\<lambda>xs. xs ! k"] by simp_all
  ultimately show "hour_after hs ?h = ?h\<lparr>bhCredited := bhCredited ?h + uhCredit (hs ! k), bhSubscription := bhSubscription ?h + uhSub (hs ! k),
      bhWaived := bhWaived ?h + uhWaived (hs ! k)\<rparr>"
    using map_of_filtered [of uhAt hs "hs ! k" "\<lambda>h. (uhCredit h, uhSub h, uhWaived h)" "\<lambda>h. \<not> (uhCredit h = 0 \<and> uhWaived h = 0)"] ck
    by (auto simp: hour_after_def covers_def)
qed

lemma hour_after_closed:
  assumes "account_ok a" "settled now a = (hs, ls)" "h \<in> set (acHours a)" "h \<notin> set (UncoveredHours a)"
  shows "hour_after hs h = h"
proof -
  note all = settled_facts(2) [OF assms(2)]
  have "uhAt ` set hs \<subseteq> bhHour ` set (UncoveredHours a)"
  proof
    fix i assume "i \<in> uhAt ` set hs"
    then obtain k where "k < length hs" "i = uhAt (hs ! k)" by (metis imageE in_set_conv_nth)
    then show "i \<in> bhHour ` set (UncoveredHours a)" using all by (auto simp: list_all2_conv_all_nth covers_def hour_row_def)
  qed
  moreover have "bhHour h \<notin> bhHour ` set (UncoveredHours a)"
    using assms(1,3,4) inj_onD [of bhHour "set (acHours a)"] uncovered_set [of a] by (auto simp: account_ok_def distinct_map)
  ultimately have "bhHour h \<notin> uhAt ` set hs" by blast
  then show ?thesis unfolding hour_after_def by (subst map_of_filtered_none) simp_all
qed

lemma sum_changed:
  assumes "\<And>x. x \<in> set xs \<Longrightarrow> \<not> P x \<Longrightarrow> d x = (0 :: int)" "map d (sort_key k (filter P xs)) = ys"
  shows "sum_list (map d xs) = sum_list ys"
proof -
  have "sum_list ys = sum_list (map d (filter P xs))"
    unfolding assms(2) [symmetric] by (metis mset_map mset_sort sum_mset_sum_list)
  also have "\<dots> = sum_list (map d xs)" by (rule sum_list_map_filter) (use assms(1) in blast)
  finally show ?thesis by simp
qed

subsection \<open>Money\<close>

text \<open>A lot's row gives of its credit or gets back what it is overdrawn by; an hour's row is covered up to its cost.\<close>

definition lot_settled :: "creditLot \<Rightarrow> creditLot \<Rightarrow> bool" where
  "lot_settled c c' \<longleftrightarrow> (\<exists>n. gives (lot_of c) n \<and> c' = c\<lparr>clSpent := clSpent c + n\<rparr>)"

definition hour_settled :: "billingHour \<Rightarrow> billingHour \<Rightarrow> bool" where
  "hour_settled h h' \<longleftrightarrow> bhHour h' = bhHour h \<and> bhCost h' = bhCost h \<and> bhCredited h \<le> bhCredited h' \<and> bhWaived h \<le> bhWaived h'
     \<and> bhSubscription h' - bhSubscription h \<le> bhCredited h' - bhCredited h \<and> (h' = h \<or> bhCredited h' + bhWaived h' \<le> bhCost h')"

lemma lot_after_settled:
  assumes "account_ok a" "settled now a = (hs, ls)" "c \<in> set (acLots a)"
  shows "lot_settled c (lot_after ls c)"
proof (cases "c \<in> set (OpenLots a)")
  case True
  then obtain k where "k < length (OpenLots a)" "c = OpenLots a ! k" by (metis in_set_conv_nth)
  with lot_after_open [OF assms(1,2)] show ?thesis unfolding lot_settled_def by blast
next
  case False
  then have "gives (lot_of c) 0" "lot_after ls c = c\<lparr>clSpent := clSpent c + 0\<rparr>"
    using lot_after_closed [OF assms(1,2,3)] by (simp_all add: gives_def)
  then show ?thesis unfolding lot_settled_def by blast
qed

lemma hour_after_settled:
  assumes "account_ok a" "settled now a = (hs, ls)" "h \<in> set (acHours a)"
  shows "hour_settled h (hour_after hs h)"
proof (cases "h \<in> set (UncoveredHours a)")
  case True
  then obtain k where k: "k < length (UncoveredHours a)" "h = UncoveredHours a ! k" by (metis in_set_conv_nth)
  from hour_after_open [OF assms(1,2) k(1), folded k(2)] show ?thesis by (auto simp: hour_settled_def covers_def hour_row_def)
next
  case False
  then show ?thesis using hour_after_closed [OF assms(1,2,3)] by (simp add: hour_settled_def)
qed

lemma lots_spent:
  assumes "account_ok a" "settled now a = (hs, ls)"
  shows "sum_list (map (\<lambda>c. clSpent (lot_after ls c) - clSpent c) (acLots a)) = spent_sum ls"
  unfolding spent_sum_def
proof (rule sum_changed [where P = "\<lambda>c. clSpent c \<noteq> clAmount c - clReversed c" and k = lot_order])
  have "length ls = length (OpenLots a)" using list_all2_lengthD [OF settled_facts(1) [OF assms(2)]] by simp
  then show "map (\<lambda>c. clSpent (lot_after ls c) - clSpent c) (sort_key lot_order (filter (\<lambda>c. clSpent c \<noteq> clAmount c - clReversed c) (acLots a))) = map ltSpent ls"
    unfolding OpenLots_def [symmetric] by (intro nth_equalityI) (simp_all add: lot_after_open(3) [OF assms])
  show "clSpent (lot_after ls c) - clSpent c = 0" if "c \<in> set (acLots a)" "\<not> clSpent c \<noteq> clAmount c - clReversed c" for c
    using lot_after_closed [OF assms that(1)] that open_set [of a] by (auto simp: lot_of_def)
qed

lemma hours_credited:
  assumes "account_ok a" "settled now a = (hs, ls)"
  shows "sum_list (map (\<lambda>h. bhCredited (hour_after hs h) - bhCredited h) (acHours a)) = sum_list (map uhCredit hs)"
proof (rule sum_changed [where P = "\<lambda>h. bhCredited h + bhWaived h < bhCost h" and k = bhHour])
  have "length hs = length (UncoveredHours a)" using list_all2_lengthD [OF settled_facts(2) [OF assms(2)]] by simp
  then show "map (\<lambda>h. bhCredited (hour_after hs h) - bhCredited h) (sort_key bhHour (filter (\<lambda>h. bhCredited h + bhWaived h < bhCost h) (acHours a))) = map uhCredit hs"
    unfolding UncoveredHours_def [symmetric] by (intro nth_equalityI) (simp_all add: hour_after_open(2) [OF assms])
  show "bhCredited (hour_after hs h) - bhCredited h = 0" if "h \<in> set (acHours a)" "\<not> bhCredited h + bhWaived h < bhCost h" for h
    using hour_after_closed [OF assms that(1)] that uncovered_set [of a] by auto
qed

text \<open>
  C6: A settlement makes and loses no money: what lots are spent by in all is what hours are credited with in all; each lot gives no
  more than the credit it has, or gets back at most what a reversal overdrew it by; and no hour is covered beyond its cost.
\<close>

theorem settle_conserves:
  assumes "account_ok a"
  shows "sum_list (map clSpent (acLots (settle now a))) - sum_list (map clSpent (acLots a))
      = sum_list (map bhCredited (acHours (settle now a))) - sum_list (map bhCredited (acHours a))
    \<and> list_all2 lot_settled (acLots a) (acLots (settle now a)) \<and> list_all2 hour_settled (acHours a) (acHours (settle now a))"
proof -
  obtain hs ls where s: "settled now a = (hs, ls)" by (cases "settled now a")
  have diff: "sum_list (map f xs) - sum_list (map g xs) = sum_list (map (\<lambda>x. f x - g x) xs)" for f g :: "'b \<Rightarrow> int" and xs
    by (simp add: sum_list_subtractf)
  show ?thesis
    using lots_spent [OF assms s] hours_credited [OF assms s] settled_facts(3) [OF s] lot_after_settled [OF assms s] hour_after_settled [OF assms s]
    by (simp add: settle_rows [OF s] comp_def diff list_all2_conv_all_nth)
qed

subsection \<open>Nothing is left undone\<close>

definition zero_spent :: "lot \<Rightarrow> lot" where
  "zero_spent l = l\<lparr>ltSpent := 0\<rparr>"

lemma zero_spent_simps [simp]:
  "ltRemaining (zero_spent l) = ltRemaining l" "usable used now (zero_spent l) = usable used now l" "lot_live now (zero_spent l) = lot_live now l"
  "ltSpent (zero_spent l) = 0" "balance_lot now p (zero_spent l) = balance_lot now p l"
  by (simp_all add: zero_spent_def usable_def lot_live_def balance_lot_def split: prod.split)

lemma lot_of_after:
  assumes "account_ok a" "settled now a = (hs, ls)" "k < length (OpenLots a)"
  shows "lot_of (lot_after ls (OpenLots a ! k)) = zero_spent (ls ! k)"
proof -
  define n where "n = ltSpent (ls ! k)"
  have "ls ! k = take_from n (lot_of (OpenLots a ! k))" using lot_after_open(2) [OF assms] n_def by simp
  then show ?thesis unfolding lot_after_open(3) [OF assms] n_def [symmetric] by (simp add: lot_of_def zero_spent_def take_from_def)
qed

lemma lots_after:
  assumes "account_ok a" "settled now a = (hs, ls)"
  shows "lot_of ` lot_after ls ` set (OpenLots a) = zero_spent ` set ls"
proof -
  have "length ls = length (OpenLots a)" using list_all2_lengthD [OF settled_facts(1) [OF assms(2)]] by simp
  then have "map (lot_of \<circ> lot_after ls) (OpenLots a) = map zero_spent ls"
    by (intro nth_equalityI) (simp_all add: lot_of_after [OF assms])
  from arg_cong [OF this, of set] show ?thesis by (simp add: image_comp)
qed

lemma usable_pos: "usable used now l \<Longrightarrow> 0 < ltRemaining l"
  by (simp add: usable_def)

text \<open>Every row of a lot after a settlement is empty as before, or is one of the settled lots.\<close>

lemma lot_row_cases:
  assumes "account_ok a" "settled now a = (hs, ls)" "c \<in> set (acLots (settle now a))"
  obtains "ltRemaining (lot_of c) = 0" | l where "l \<in> set ls" "lot_of c = zero_spent l"
proof -
  obtain c0 where c0: "c0 \<in> set (acLots a)" "c = lot_after ls c0" using assms(3) by (auto simp: settle_rows [OF assms(2)])
  show ?thesis
  proof (cases "c0 \<in> set (OpenLots a)")
    case True
    then have "lot_of c \<in> zero_spent ` set ls" using lots_after [OF assms(1,2)] c0(2) by blast
    then show ?thesis using that(2) by blast
  next
    case False
    then have "ltRemaining (lot_of c) = 0" using lot_after_closed [OF assms(1,2) c0(1)] c0 open_set [of a] by auto
    then show ?thesis by (rule that(1))
  qed
qed

lemma hour_row_after:
  assumes "account_ok a" "settled now a = (hs, ls)" "k < length (UncoveredHours a)"
  shows "uhUncovered (hour_row (hour_after hs (UncoveredHours a ! k))) = uhUncovered (hs ! k)"
    "uhAt (hour_row (hour_after hs (UncoveredHours a ! k))) = uhAt (hs ! k)"
  using hour_after_open [OF assms] by (auto simp: hour_row_def covers_def)

lemma hour_row_cases:
  assumes "account_ok a" "settled now a = (hs, ls)" "h \<in> set (acHours (settle now a))"
  obtains "uhUncovered (hour_row h) \<le> 0"
    | h' where "h' \<in> set hs" "uhUncovered (hour_row h) = uhUncovered h'" "bhHour h = uhAt h'"
proof -
  obtain h0 where h0: "h0 \<in> set (acHours a)" "h = hour_after hs h0" using assms(3) by (auto simp: settle_rows [OF assms(2)])
  have len: "length hs = length (UncoveredHours a)" using list_all2_lengthD [OF settled_facts(2) [OF assms(2)]] by simp
  show ?thesis
  proof (cases "h0 \<in> set (UncoveredHours a)")
    case True
    then obtain k where "k < length (UncoveredHours a)" "h0 = UncoveredHours a ! k" by (metis in_set_conv_nth)
    with hour_row_after [OF assms(1,2), of k] len h0(2) show ?thesis using that(2) [of "hs ! k"] by (simp add: hour_row_def)
  next
    case False
    then have "uhUncovered (hour_row h) \<le> 0"
      using hour_after_closed [OF assms(1,2) h0(1)] h0 uncovered_set [of a] by (auto simp: hour_row_def)
    then show ?thesis by (rule that(1))
  qed
qed

text \<open>What a lot counts in the balance.\<close>

definition lot_value :: "time \<Rightarrow> lot \<Rightarrow> int" where
  "lot_value now l = (if ltRemaining l < 0 \<or> lot_live now l then ltRemaining l else 0)"

lemma balance_sum: "fst (foldl (balance_lot now) (b, r) ls) = b + sum_list (map (lot_value now) ls)"
proof (induction ls arbitrary: b r)
  case (Cons l ls)
  obtain b' r' where step: "balance_lot now (b, r) l = (b', r')" by (cases "balance_lot now (b, r) l")
  then have "b' = b + lot_value now l" by (auto simp: balance_lot_def lot_value_def split: if_splits)
  then show ?case using Cons.IH [of b' r'] step by simp
qed simp

lemma settle_lots_value:
  assumes "account_ok a" "settled now a = (hs, ls)"
  shows "sum_list (map (\<lambda>c. lot_value now (lot_of c)) (acLots (settle now a))) = sum_list (map (lot_value now) ls)"
proof -
  have len: "length ls = length (OpenLots a)" using list_all2_lengthD [OF settled_facts(1) [OF assms(2)]] by simp
  have "sum_list (map (\<lambda>c. lot_value now (lot_of (lot_after ls c))) (acLots a)) = sum_list (map (lot_value now) ls)"
  proof (rule sum_changed [where P = "\<lambda>c. clSpent c \<noteq> clAmount c - clReversed c" and k = lot_order])
    show "map (\<lambda>c. lot_value now (lot_of (lot_after ls c))) (sort_key lot_order (filter (\<lambda>c. clSpent c \<noteq> clAmount c - clReversed c) (acLots a))) = map (lot_value now) ls"
      unfolding OpenLots_def [symmetric] using len by (intro nth_equalityI) (simp_all add: lot_of_after [OF assms] lot_value_def)
    show "lot_value now (lot_of (lot_after ls c)) = 0" if "c \<in> set (acLots a)" "\<not> clSpent c \<noteq> clAmount c - clReversed c" for c
      using lot_after_closed [OF assms that(1)] that open_set [of a] by (auto simp: lot_of_def lot_value_def)
  qed
  then show ?thesis by (simp add: settle_rows [OF assms(2)] comp_def)
qed

lemma settle_balance:
  assumes "account_ok a"
  shows "acBalance (settle now a) = sum_list (map (\<lambda>c. lot_value now (lot_of c)) (acLots (settle now a)))
    - sum_list (map (\<lambda>h. max 0 (bhCost h - bhCredited h - bhWaived h)) (acHours (settle now a)))"
proof -
  obtain hs ls where s: "settled now a = (hs, ls)" by (cases "settled now a")
  have len: "length ls = length (OpenLots a)" "length hs = length (UncoveredHours a)"
    using list_all2_lengthD [OF settled_facts(1) [OF s]] list_all2_lengthD [OF settled_facts(2) [OF s]] by simp_all
  note settle_lots_value [OF assms s]
  moreover have "sum_list (map (\<lambda>h. max 0 (uhUncovered (hour_row (hour_after hs h)))) (acHours a)) = sum_list (map uhUncovered hs)"
  proof (rule sum_changed [where P = "\<lambda>h. bhCredited h + bhWaived h < bhCost h" and k = bhHour])
    have "0 \<le> uhUncovered (hs ! k)" if "k < length hs" for k using hour_after_open(1) [OF assms s, of k] that len by (auto simp: covers_def)
    then show "map (\<lambda>h. max 0 (uhUncovered (hour_row (hour_after hs h)))) (sort_key bhHour (filter (\<lambda>h. bhCredited h + bhWaived h < bhCost h) (acHours a))) = map uhUncovered hs"
      unfolding UncoveredHours_def [symmetric] using len by (intro nth_equalityI) (simp_all add: hour_row_after [OF assms s])
    show "max 0 (uhUncovered (hour_row (hour_after hs h))) = 0" if "h \<in> set (acHours a)" "\<not> bhCredited h + bhWaived h < bhCost h" for h
      using hour_after_closed [OF assms s that(1)] that uncovered_set [of a] by (auto simp: hour_row_def)
  qed
  moreover have "acBalance (settle now a) = - sum_list (map uhUncovered hs) + sum_list (map (lot_value now) ls)"
    using settle_rows(6) [OF s] balance_sum by (metis fst_conv)
  ultimately show ?thesis by (simp add: settle_rows [OF s] comp_def hour_row_def)
qed

text \<open>
  C17: A settlement leaves nothing undone: no hour stays uncovered that credit in force could cover, no lot stays overdrawn beside
  live credit, and the balance is the live credit less what is overdrawn and what is uncovered.
\<close>

theorem settle_complete:
  assumes "account_ok a"
  shows "(\<forall>h\<in>set (acHours (settle now a)). bhCredited h + bhWaived h < bhCost h \<longrightarrow> (\<forall>c\<in>set (acLots (settle now a)). \<not> usable (bhHour h) now (lot_of c)))
    \<and> debts_settled now (map lot_of (acLots (settle now a)))
    \<and> acBalance (settle now a) = sum_list (map (\<lambda>c. lot_value now (lot_of c)) (acLots (settle now a)))
        - sum_list (map (\<lambda>h. max 0 (bhCost h - bhCredited h - bhWaived h)) (acHours (settle now a)))"
proof -
  obtain hs ls where s: "settled now a = (hs, ls)" by (cases "settled now a")
  have "\<not> usable (bhHour h) now (lot_of c)"
    if h: "h \<in> set (acHours (settle now a))" and left: "bhCredited h + bhWaived h < bhCost h" and c: "c \<in> set (acLots (settle now a))" for h c
  proof -
    have "\<exists>h'\<in>set hs. uhUncovered h' \<noteq> 0 \<and> bhHour h = uhAt h'"
      by (cases rule: hour_row_cases [OF assms s h]) (use left in \<open>force simp: hour_row_def\<close>)+
    with settled_facts(5) [OF s] have "\<forall>l\<in>set ls. \<not> usable (bhHour h) now l" by (auto simp: hour_done_def)
    then show ?thesis by (cases rule: lot_row_cases [OF assms s c]) (auto dest: usable_pos)
  qed
  moreover have "debts_settled now (map lot_of (acLots (settle now a)))"
    unfolding debts_settled_def set_map
  proof (intro ballI impI; elim imageE)
    fix l p c d assume l: "ltRemaining l < 0" "l = lot_of c" and c: "c \<in> set (acLots (settle now a))"
      and p: "ltRemaining p > 0" "p = lot_of d" and d: "d \<in> set (acLots (settle now a))"
    have "\<exists>l'\<in>set ls. l = zero_spent l'" by (cases rule: lot_row_cases [OF assms s c]) (use l in auto)
    moreover have "\<exists>p'\<in>set ls. p = zero_spent p'" by (cases rule: lot_row_cases [OF assms s d]) (use p in auto)
    ultimately show "\<not> lot_live now p" using settled_facts(4) [OF s] l(1) p(1) by (auto simp: debts_settled_def)
  qed
  ultimately show ?thesis using settle_balance [OF assms] by blast
qed

subsection \<open>Settling again\<close>

lemma open_lots_again:
  assumes "account_ok a" "settled now a = (hs, ls)"
  shows "map lot_of (OpenLots (settle now a)) = map zero_spent (filter (\<lambda>l. ltRemaining l \<noteq> 0) ls)"
proof -
  let ?f = "lot_after ls" and ?rem = "\<lambda>c. ltRemaining (lot_of c) \<noteq> 0"
  have key: "lot_order (?f c) = lot_order c" for c by (auto simp: lot_after_def lot_order_def split: option.split)
  have P: "(\<lambda>c. clSpent c \<noteq> clAmount c - clReversed c) = ?rem" by (auto simp: lot_of_def fun_eq_iff)
  have closed: "?rem c" if "c \<in> set (acLots a)" "?rem (?f c)" for c
  proof (rule ccontr)
    assume "\<not> ?rem c"
    then have "c \<notin> set (OpenLots a)" by (simp add: open_set)
    from lot_after_closed [OF assms that(1) this] that(2) \<open>\<not> ?rem c\<close> show False by simp
  qed
  have "OpenLots (settle now a) = sort_key lot_order (filter ?rem (map ?f (acLots a)))"
    unfolding OpenLots_def settle_rows [OF assms(2)] P ..
  also have "\<dots> = map ?f (sort_key lot_order (filter (?rem \<circ> ?f) (acLots a)))"
    unfolding filter_map by (rule sort_key_map) (rule key)
  also have "filter (?rem \<circ> ?f) (acLots a) = filter (?rem \<circ> ?f) (filter ?rem (acLots a))"
    unfolding filter_filter using closed by (intro filter_cong refl) auto
  also have "sort_key lot_order (filter (?rem \<circ> ?f) (filter ?rem (acLots a))) = filter (?rem \<circ> ?f) (OpenLots a)"
    unfolding OpenLots_def P by (rule filter_sort [symmetric])
  finally have "map lot_of (OpenLots (settle now a)) = filter (\<lambda>l. ltRemaining l \<noteq> 0) (map (lot_of \<circ> ?f) (OpenLots a))"
    by (simp add: filter_map comp_def)
  also have "map (lot_of \<circ> ?f) (OpenLots a) = map zero_spent ls"
    using list_all2_lengthD [OF settled_facts(1) [OF assms(2)]] by (intro nth_equalityI) (simp_all add: lot_of_after [OF assms])
  finally show ?thesis by (simp add: filter_map comp_def)
qed

lemma uncovered_hours_again:
  assumes "account_ok a" "settled now a = (hs, ls)"
  shows "sum_list (map uhUncovered (map hour_row (UncoveredHours (settle now a)))) = sum_list (map uhUncovered hs)"
    "\<forall>h\<in>set (map hour_row (UncoveredHours (settle now a))). uhUncovered h \<noteq> 0 \<and> hour_done now (acComplimentary a) ls h"
proof -
  have "max 0 (uhUncovered (hour_row h)) = 0" if "h \<in> set (acHours (settle now a))" "\<not> bhCredited h + bhWaived h < bhCost h" for h
    using that by (auto simp: hour_row_def)
  from sum_changed [OF this refl, where k = bhHour]
  have "sum_list (map (\<lambda>h. max 0 (uhUncovered (hour_row h))) (acHours (settle now a)))
      = sum_list (map (\<lambda>h. max 0 (uhUncovered (hour_row h))) (UncoveredHours (settle now a)))" unfolding UncoveredHours_def .
  also have "map (\<lambda>h. max 0 (uhUncovered (hour_row h))) (UncoveredHours (settle now a)) = map (uhUncovered \<circ> hour_row) (UncoveredHours (settle now a))"
    using uncovered_set [of "settle now a"] by (intro map_cong refl) (auto simp: hour_row_def)
  finally have sum: "sum_list (map (\<lambda>h. max 0 (uhUncovered (hour_row h))) (acHours (settle now a)))
      = sum_list (map (uhUncovered \<circ> hour_row) (UncoveredHours (settle now a)))" .
  have "acBalance (settle now a) = - sum_list (map uhUncovered hs) + sum_list (map (lot_value now) ls)"
    using settle_rows(6) [OF assms(2)] balance_sum by (metis fst_conv)
  moreover have "sum_list (map (\<lambda>c. lot_value now (lot_of c)) (acLots (settle now a))) = sum_list (map (lot_value now) ls)"
    using settle_lots_value [OF assms] .
  ultimately show "sum_list (map uhUncovered (map hour_row (UncoveredHours (settle now a)))) = sum_list (map uhUncovered hs)"
    using settle_balance [OF assms(1), of now] sum by (simp add: hour_row_def comp_def)
  show "\<forall>h\<in>set (map hour_row (UncoveredHours (settle now a))). uhUncovered h \<noteq> 0 \<and> hour_done now (acComplimentary a) ls h"
  proof
    fix u assume "u \<in> set (map hour_row (UncoveredHours (settle now a)))"
    then obtain h where u: "u = hour_row h" and h: "h \<in> set (acHours (settle now a))" "uhUncovered u > 0"
      using uncovered_set [of "settle now a"] by (auto simp: hour_row_def)
    have "\<exists>h'\<in>set hs. uhUncovered u = uhUncovered h' \<and> uhAt u = uhAt h'"
      by (cases rule: hour_row_cases [OF assms h(1)]) (use h(2) u in \<open>auto simp: hour_row_def\<close>)
    then show "uhUncovered u \<noteq> 0 \<and> hour_done now (acComplimentary a) ls u"
      using settled_facts(5) [OF assms(2)] h(2) waived_hour_at [of u] by (fastforce simp: hour_done_def)
  qed
qed

lemma balance_again: "foldl (balance_lot now) p (map zero_spent (filter (\<lambda>l. ltRemaining l \<noteq> 0) ls)) = foldl (balance_lot now) p ls"
proof (induction ls arbitrary: p)
  case (Cons l ls)
  have "balance_lot now p l = p" if "ltRemaining l = 0" using that by (cases p) (simp add: balance_lot_def)
  then show ?case using Cons by simp
qed simp

lemma settled_again:
  assumes "account_ok a" "settled now a = (hs, ls)"
  shows "settled now (settle now a) = (map hour_row (UncoveredHours (settle now a)), map zero_spent (filter (\<lambda>l. ltRemaining l \<noteq> 0) ls))"
proof -
  let ?ls = "map zero_spent (filter (\<lambda>l. ltRemaining l \<noteq> 0) ls)"
  have "debts_settled now ?ls" using settled_facts(4) [OF assms(2)] by (auto simp: debts_settled_def)
  moreover have "\<forall>h\<in>set (map hour_row (UncoveredHours (settle now a))). uhUncovered h \<noteq> 0 \<and> hour_done now (acComplimentary a) ?ls h"
    using uncovered_hours_again(2) [OF assms] by (auto simp: hour_done_def)
  ultimately show ?thesis unfolding settled_def settle_rows(3) [OF assms(2)] open_lots_again [OF assms]
    by (simp only: pay_debts_idle cover_hours_idle)
qed

text \<open>
  C19: Settling is idempotent: settling a settled account again at the same instant, with no new usage or credit, changes nothing, so a
  settlement that runs twice charges once.
\<close>

theorem settle_again:
  assumes "account_ok a"
  shows "settle now (settle now a) = settle now a"
proof -
  obtain hs ls where s: "settled now a = (hs, ls)" by (cases "settled now a")
  let ?a = "settle now a" and ?ls = "map zero_spent (filter (\<lambda>l. ltRemaining l \<noteq> 0) ls)"
  note t = settled_again [OF assms s]
  have "filter (\<lambda>l. ltSpent l \<noteq> 0) ?ls = []" by (auto simp: filter_empty_conv)
  then have "lot_after ?ls = id" by (simp add: lot_after_def fun_eq_iff)
  then have lots: "acLots (settle now ?a) = acLots ?a" by (simp add: settle_rows(1) [OF t])
  have "filter (\<lambda>h. \<not> (uhCredit h = 0 \<and> uhWaived h = 0)) (map hour_row (UncoveredHours ?a)) = []" by (auto simp: filter_empty_conv hour_row_def)
  then have "hour_after (map hour_row (UncoveredHours ?a)) = id" unfolding hour_after_def by (simp only: list.map map_of.simps option.case id_def)
  then have hours: "acHours (settle now ?a) = acHours ?a" by (simp add: settle_rows(2) [OF t])
  have "(acBalance (settle now ?a), acRecheck (settle now ?a)) = (acBalance ?a, acRecheck ?a)"
    unfolding settle_rows(6) [OF t] settle_rows(6) [OF s] uncovered_hours_again(1) [OF assms s] balance_again ..
  moreover have "acMonthSpent (settle now ?a) = acMonthSpent ?a"
    unfolding settle_rows(7) [OF t] settle_rows(7) [OF s] MonthSpent_def hours ..
  ultimately show ?thesis
    using lots hours settle_rows(3-5) [OF t] settle_rows(4,5) [OF s] by (intro account.equality) simp_all
qed

subsection \<open>A pass\<close>

lemma month_step: "1 \<le> m \<Longrightarrow> m < 12 \<Longrightarrow> days_before_month y (m + 1) = days_before_month y m + month_days y m"
proof -
  assume "1 \<le> m" "m < 12"
  then have "m = 1 \<or> m = 2 \<or> m = 3 \<or> m = 4 \<or> m = 5 \<or> m = 6 \<or> m = 7 \<or> m = 8 \<or> m = 9 \<or> m = 10 \<or> m = 11" by presburger
  then show ?thesis by (auto simp: days_before_month_def month_days_def)
qed

lemma next_month_later: "now < next_month now"
proof -
  define n where "n = day_of now"
  let ?y = "year_of n" and ?m = "month_of n"
  have "n < (if ?m = 12 then day_number (?y + 1) 1 1 else day_number ?y (?m + 1) 1)"
  proof (cases "?m = 12")
    case True
    then show ?thesis using year_of_bounds(2) [of n] days_before_year_next [of ?y] by (simp add: day_number_def days_before_month_def)
  next
    case False
    then have "days_before_month ?y (?m + 1) = days_before_month ?y ?m + month_days ?y ?m" using month_of_range [of n] by (intro month_step) auto
    then show ?thesis using False mday_of_range(2) [of n] day_number_of [of n] by (simp add: day_number_def)
  qed
  then have "next_month now \<ge> (n + 1 - unix_epoch_day) * (24 * hour)"
    by (auto simp: next_month_def n_def [symmetric] Let_def utc_date_def)
  moreover have "now < (now div (24 * hour) + 1) * (24 * hour)"
    using pos_mod_bound [of "24 * hour" now] div_mult_mod_eq [of now "24 * hour"] by (simp add: algebra_simps)
  ultimately show ?thesis by (simp add: n_def day_of_def)
qed

lemma recheck_later: "now < r \<Longrightarrow> now < snd (foldl (balance_lot now) (b, r) ls)"
proof (induction ls arbitrary: b r)
  case (Cons l ls)
  obtain b' r' where step: "balance_lot now (b, r) l = (b', r')" by (cases "balance_lot now (b, r) l")
  then have "now < r'" using Cons.prems by (auto simp: balance_lot_def lot_live_def split: if_splits option.splits)
  then show ?case using Cons.IH step by simp
qed simp

lemma settle_not_due: "\<not> account_due now (settle now a)"
proof -
  obtain hs ls where s: "settled now a = (hs, ls)" by (cases "settled now a")
  have "now < acRecheck (settle now a)"
    using settle_rows(6) [OF s] recheck_later [OF next_month_later] by (metis snd_conv)
  then show ?thesis by (simp add: account_due_def settle_rows(4) [OF s])
qed

definition due_count :: "time \<Rightarrow> account list \<Rightarrow> nat" where
  "due_count now as = length (filter (account_due now) as)"

lemma rollupOne_spec:
  "case rollupOne fails now as of
     NoneDue \<Rightarrow> due_count now as = 0
   | SettleFailed \<Rightarrow> \<exists>a\<in>set as. account_due now a \<and> fails a
   | Settled as' \<Rightarrow> Suc (due_count now as') = due_count now as"
proof (induction as)
  case (Cons a as)
  then show ?case by (cases "rollupOne fails now as") (auto simp: due_count_def settle_not_due)
qed (simp add: due_count_def)

text \<open>Each account is settled once or was not due.\<close>

definition once_settled :: "time \<Rightarrow> account \<Rightarrow> account \<Rightarrow> bool" where
  "once_settled now a a' \<longleftrightarrow> a' = a \<or> account_due now a \<and> a' = settle now a"

lemma once_settled_trans: "once_settled now a b \<Longrightarrow> once_settled now b c \<Longrightarrow> once_settled now a c"
  unfolding once_settled_def using settle_not_due by blast

lemma all2_once_refl: "list_all2 (once_settled now) as as"
  by (rule list_all2_refl) (simp add: once_settled_def)

lemma rollupOne_rows: "rollupOne fails now as = Settled as' \<Longrightarrow> list_all2 (once_settled now) as as'"
proof (induction as arbitrary: as')
  case (Cons a as)
  have "once_settled now a a" "account_due now a \<Longrightarrow> once_settled now a (settle now a)" by (simp_all add: once_settled_def)
  then show ?case using Cons all2_once_refl by (auto split: if_splits claimed.splits)
qed simp

lemma rollup_loop_spec:
  "rollup_loop fails now n as = (as', k, failed)
    \<Longrightarrow> due_count now as' + k = due_count now as \<and> list_all2 (once_settled now) as as' \<and> k \<le> n
      \<and> (if failed then k < n \<and> (\<exists>a\<in>set as'. account_due now a \<and> fails a) else k = min n (due_count now as))"
proof (induction n arbitrary: as as' k)
  case (Suc n)
  show ?case
  proof (cases "rollupOne fails now as")
    case (Settled as1)
    then obtain j where "rollup_loop fails now n as1 = (as', j, failed)" "k = Suc j" using Suc.prems by (auto split: prod.splits)
    then show ?thesis
      using Suc.IH [where as = as1 and as' = as' and k = j] Settled rollupOne_spec [where fails = fails and now = now and as = as] list_all2_trans [OF once_settled_trans rollupOne_rows [OF Settled]]
      by (auto split: if_splits)
  qed (use Suc.prems rollupOne_spec [where fails = fails and now = now and as = as] all2_once_refl in auto)
qed (simp add: all2_once_refl)

text \<open>
  A pass settles due accounts, each once: as many fewer are due after it as it counts. Without an error it settles all that were
  due, or two hundred and reports that there may be more. An error ends it with an account that is due and failed.
\<close>

theorem Rollup_settles_due:
  assumes "Rollup fails now as = (as', n, left, failed)"
  shows "length (filter (account_due now) as') + n = length (filter (account_due now) as)
    \<and> list_all2 (\<lambda>a a'. a' = a \<or> account_due now a \<and> a' = settle now a) as as'
    \<and> (left \<longleftrightarrow> n = rollupBatch)
    \<and> (if failed then n < rollupBatch \<and> (\<exists>a\<in>set as'. account_due now a \<and> fails a)
       else n = min rollupBatch (length (filter (account_due now) as)))"
proof -
  have "rollup_loop fails now rollupBatch as = (as', n, failed)" "left = (n = rollupBatch)"
    using assms by (auto simp: Rollup_def Let_def split: prod.splits)
  with rollup_loop_spec show ?thesis unfolding due_count_def once_settled_def by simp
qed

text \<open>
  An account whose settlement fails ends the pass, though it is meant to fail alone: when it is the first the claim finds, the
  pass settles no account, whatever the number of due accounts after it.
\<close>

theorem Rollup_held_back:
  assumes "\<forall>b\<in>set bs. \<not> account_due now b" and "account_due now a" and "fails a"
  shows "Rollup fails now (bs @ a # cs) = (bs @ a # cs, 0, False, True)"
proof -
  have "rollupOne fails now (bs @ a # cs) = SettleFailed" using assms by (induction bs) auto
  then show ?thesis by (simp add: Rollup_def rollupBatch_def numeral_eq_Suc)
qed

subsection \<open>An example\<close>

text \<open>
  A trial lot a refund overdrew by ten, a subscription lot of thirty that expires, and purchased credit of a hundred; two hours of
  usage, the first partly covered.
\<close>

definition demo_account :: account where
  "demo_account = \<lparr>acComplimentary = None,
     acLots = [\<lparr>clID = 3, clKind = ''purchased'', clAmount = 100, clReversed = 0, clSpent = 0, clEffective = 0, clExpires = None\<rparr>,
               \<lparr>clID = 1, clKind = ''trial'', clAmount = 50, clReversed = 20, clSpent = 40, clEffective = 0, clExpires = None\<rparr>,
               \<lparr>clID = 2, clKind = ''subscription'', clAmount = 30, clReversed = 0, clSpent = 0, clEffective = 0, clExpires = Some (9 * hour)\<rparr>],
     acHours = [\<lparr>bhHour = 5 * hour, bhCost = 200, bhCredited = 0, bhSubscription = 0, bhWaived = 0\<rparr>,
                \<lparr>bhHour = 4 * hour, bhCost = 15, bhCredited = 5, bhSubscription = 0, bhWaived = 0\<rparr>],
     acBalance = 0, acMonthStarted = 0, acMonthSpent = 0, acRecheck = 0, acDue = True\<rparr>"

lemma demo_account_ok: "account_ok demo_account"
  by (simp add: account_ok_def demo_account_def)

theorem settle_conserves_witness:
  "sum_list (map clSpent (acLots (settle (6 * hour) demo_account))) - sum_list (map clSpent (acLots demo_account))
     = sum_list (map bhCredited (acHours (settle (6 * hour) demo_account))) - sum_list (map bhCredited (acHours demo_account))
   \<and> map clSpent (acLots (settle (6 * hour) demo_account)) = [100, 30, 30]"
proof -
  have "map clSpent (acLots (settle (6 * hour) demo_account)) = [100, 30, 30]" by code_simp
  then show ?thesis using settle_conserves [OF demo_account_ok, of "6 * hour"] by blast
qed

theorem settle_complete_witness:
  "debts_settled (6 * hour) (map lot_of (acLots (settle (6 * hour) demo_account))) \<and> acBalance (settle (6 * hour) demo_account) = - 90"
proof -
  have "acBalance (settle (6 * hour) demo_account) = - 90" by code_simp
  then show ?thesis using settle_complete [OF demo_account_ok, of "6 * hour"] by blast
qed

theorem settle_again_witness: "settle (6 * hour) (settle (6 * hour) demo_account) = settle (6 * hour) demo_account"
  by (rule settle_again [OF demo_account_ok])

theorem Rollup_settles_due_witness:
  "length (filter (account_due (6 * hour)) (fst (Rollup (\<lambda>_. False) (6 * hour) [demo_account]))) = 0
   \<and> fst (snd (Rollup (\<lambda>_. False) (6 * hour) [demo_account])) = 1"
proof -
  obtain as' n left failed where r: "Rollup (\<lambda>_. False) (6 * hour) [demo_account] = (as', n, left, failed)"
    by (cases "Rollup (\<lambda>_. False) (6 * hour) [demo_account]")
  have "account_due (6 * hour) demo_account" by (simp add: account_due_def demo_account_def)
  then show ?thesis using Rollup_settles_due [OF r] unfolding r by (auto simp add: rollupBatch_def split: if_splits)
qed

theorem Rollup_held_back_witness:
  "Rollup (\<lambda>a. acBalance a = 7) (6 * hour) [demo_account\<lparr>acBalance := 7\<rparr>, demo_account]
     = ([demo_account\<lparr>acBalance := 7\<rparr>, demo_account], 0, False, True)"
  using Rollup_held_back [of "[]" "6 * hour" "demo_account\<lparr>acBalance := 7\<rparr>" "\<lambda>a. acBalance a = 7" "[demo_account]"]
  by (simp add: account_due_def demo_account_def)

end
