(* ===== verification/Admission.thy ===== *)
theory Admission
  imports Rates Settle
begin

text \<open>
  What an account may take on (\<open>internal/billing/admission.go\<close>, \<open>allowance.go\<close>): its standing, whether it can pay, and the limits of
  its plan, which a deploy is held to as a whole and every start again.

  The reads of a transaction are arguments: the rows of the account and the workspace and the counts under the account's lock; a read
  that fails ends the call. Errors are the kinds users see, without their texts, and a refusal's remedy is a value for each of its
  texts.
\<close>

subsection \<open>Requests and standings\<close>

record Request =
  reqStart :: int
  reqCold :: bool
  reqGPUs :: int
  reqGPUModels :: "GPUType list"
  reqPinned :: bool
  reqMachine :: bool

definition GPUAny_billing :: GPUType where
  "GPUAny_billing = ''any''"

record Grant =
  grStart :: int
  grGPUModels :: "GPUType list"

record AccountStandingRow =
  asTermsVersion :: TermsVersion
  asStatus :: string
  asPaymentMethodAttachedAt :: "time option"
  asComplimentarySince :: "time option"
  asMonthlyLimit :: "int option"
  asBalanceNanos :: int
  asAccruedNanos :: int
  asMonthStartedAt :: time
  asMonthSpentNanos :: int
  asPlanChangePending :: bool
  asScheduledTerms :: "TermsVersion option"
  asNow :: time

record standing =
  sdPlan :: Plan
  sdStatus :: string
  sdHasCard :: bool
  sdComplimentary :: bool
  sdLimit :: "int option"
  sdBalance :: int
  sdMonthSpent :: int
  sdChangePending :: bool
  sdEntitlements :: Entitlements
  sdLimits :: Entitlements

datatype admit_error = ReadError | RateFailure rate_error | PastDue | NoCredit | UsageLimit | NoRegions | ModelRefused GPUType
  | Unoffered "GPUType list" | AtLimit | ChangePending | NoDisks | NoCapability

definition stricter :: "Limit \<Rightarrow> Limit \<Rightarrow> Limit" where
  "stricter a b = (if liUnlimited a then b else if liUnlimited b then a else \<lparr>liMax = min (liMax a) (liMax b), liUnlimited = False\<rparr>)"

definition readStanding :: "AccountStandingRow option \<Rightarrow> admit_error + standing" where
  "readStanding found =
     (case found of
        None \<Rightarrow> Inl ReadError
      | Some row \<Rightarrow>
          (case planOfTerms (asTermsVersion row) of
             Inl x \<Rightarrow> Inl (RateFailure x)
           | Inr plan \<Rightarrow>
               (case accountEntitlements plan (asPaymentMethodAttachedAt row \<noteq> None) (asComplimentarySince row \<noteq> None) of
                  Inl x \<Rightarrow> Inl (RateFailure x)
                | Inr e \<Rightarrow>
                    let s = \<lparr>sdPlan = plan, sdStatus = asStatus row, sdHasCard = asPaymentMethodAttachedAt row \<noteq> None,
                             sdComplimentary = asComplimentarySince row \<noteq> None,
                             sdLimit = asMonthlyLimit row, sdBalance = asBalanceNanos row - asAccruedNanos row,
                             sdMonthSpent = (if asMonthStartedAt row = monthStart (asNow row) then asMonthSpentNanos row else 0) + asAccruedNanos row,
                             sdChangePending = asPlanChangePending row, sdEntitlements = e, sdLimits = e\<rparr>
                    in case (if asComplimentarySince row \<noteq> None then None else asScheduledTerms row) of
                         None \<Rightarrow> Inr s
                       | Some terms \<Rightarrow>
                           (case planOfTerms terms of
                              Inl x \<Rightarrow> Inl (RateFailure x)
                            | Inr later \<Rightarrow>
                                Inr (s\<lparr>sdLimits := e\<lparr>enMaxWorkspaces := stricter (enMaxWorkspaces e) (enMaxWorkspaces (plEntitlements later)),
                                                      enMaxMembers := stricter (enMaxMembers e) (enMaxMembers (plEntitlements later))\<rparr>\<rparr>)))))"

definition statusPastDue :: string where
  "statusPastDue = ''past_due''"

definition fundsRefusal :: "standing \<Rightarrow> admit_error option" where
  "fundsRefusal s =
     (if sdComplimentary s then None
      else if sdStatus s = statusPastDue then Some PastDue
      else if sdBalance s \<le> 0 then Some NoCredit
      else if (case sdLimit s of None \<Rightarrow> False | Some m \<Rightarrow> sdMonthSpent s \<ge> m) then Some UsageLimit
      else None)"

subsection \<open>GPU models\<close>

text \<open>A preference that names models and none the fleet offers.\<close>

fun unoffered_from :: "GPUType list \<Rightarrow> GPUType list \<Rightarrow> GPUType list option" where
  "unoffered_from models [] = (if models \<noteq> [] then Some models else None)"
| "unoffered_from models (m # ms) = (if m = GPUAny_billing \<or> GPUEnabled m then None else unoffered_from (models @ [m]) ms)"

definition unoffered :: "GPUType list \<Rightarrow> GPUType list option" where
  "unoffered requested = unoffered_from [] requested"

text \<open>The models of a request the account may use, or the first one it may not.\<close>

fun named_models :: "Entitlements \<Rightarrow> bool \<Rightarrow> GPUType list \<Rightarrow> GPUType list \<Rightarrow> GPUType list \<Rightarrow> GPUType + GPUType list" where
  "named_models e fleet allowed named [] = Inr (if named = [] then allowed else named)"
| "named_models e fleet allowed named (m # ms) =
     (if m = GPUAny_billing then Inr allowed
      else if fleet \<and> \<not> GPUEnabled m then named_models e fleet allowed named ms
      else if m \<notin> set (enGPUTypes e) then Inl m
      else named_models e fleet allowed (named @ [m]) ms)"

definition gpuModels_entitled :: "Entitlements \<Rightarrow> GPUType list \<Rightarrow> bool \<Rightarrow> GPUType + GPUType list" where
  "gpuModels_entitled e requested fleet =
     (let allowed = (if fleet then filter GPUEnabled (enGPUTypes e) else enGPUTypes e) in named_models e fleet allowed [] requested)"

subsection \<open>Admission\<close>

record LiveContainers =
  lvCpuContainers :: int
  lvGpus :: int

text \<open>
  \<open>linked\<close> and \<open>live\<close> are the reads of the workspace, whether it is in a connected account, and of the owner's live containers;
  \<open>locked\<close> is whether the account's lock was taken, which only a start asks for.
\<close>

definition Admit :: "bool option \<Rightarrow> bool \<Rightarrow> AccountStandingRow option \<Rightarrow> LiveContainers option \<Rightarrow> Request \<Rightarrow> admit_error + Grant" where
  "Admit linked locked account live req =
     (case linked of
        None \<Rightarrow> Inl ReadError
      | Some c \<Rightarrow>
          let fleet = (\<not> reqMachine req \<and> \<not> c)
          in case (if reqGPUs req > 0 \<and> fleet then unoffered (reqGPUModels req) else None) of
               Some models \<Rightarrow> Inl (Unoffered models)
             | None \<Rightarrow>
                 if reqStart req > 0 \<and> \<not> locked then Inl ReadError
                 else case readStanding account of
                    Inl x \<Rightarrow> Inl x
                  | Inr s \<Rightarrow>
                      (case fundsRefusal s of
                         Some x \<Rightarrow> Inl x
                       | None \<Rightarrow>
                           if reqPinned req \<and> \<not> enRegionSelection (sdEntitlements s) then Inl NoRegions
                           else case (if reqGPUs req > 0 then gpuModels_entitled (sdEntitlements s) (reqGPUModels req) fleet else Inr []) of
                                  Inl m \<Rightarrow> Inl (ModelRefused m)
                                | Inr models \<Rightarrow>
                                    if reqStart req = 0 \<and> \<not> reqCold req then Inr \<lparr>grStart = 0, grGPUModels = models\<rparr>
                                    else case live of
                                           None \<Rightarrow> Inl ReadError
                                         | Some lv \<Rightarrow>
                                             if reqGPUs req > 0 then
                                               let m = enMaxGPUs (sdEntitlements s)
                                               in if reqCold req \<and> lvGpus lv + reqGPUs req > m then Inl AtLimit
                                                  else Inr \<lparr>grStart = max 0 (min (reqStart req) ((m - lvGpus lv) sdiv reqGPUs req)), grGPUModels = models\<rparr>
                                             else
                                               let m = enMaxCPUContainers (sdEntitlements s)
                                               in if reqCold req \<and> lvCpuContainers lv \<ge> m then Inl AtLimit
                                                  else Inr \<lparr>grStart = max 0 (min (reqStart req) (m - lvCpuContainers lv)), grGPUModels = models\<rparr>))"

text \<open>
  Workspaces and members, by their counts. A workspace whose owner is not found and a lock that is not taken end a call as its first
  read does.
\<close>

definition AdmitWorkspace :: "int option \<Rightarrow> AccountStandingRow option \<Rightarrow> admit_error option" where
  "AdmitWorkspace owned account =
     (case owned of
        None \<Rightarrow> Some ReadError
      | Some n \<Rightarrow>
          if n = 0 then None
          else case readStanding account of
                 Inl x \<Rightarrow> Some x
               | Inr s \<Rightarrow>
                   if sdChangePending s then Some ChangePending
                   else let l = enMaxWorkspaces (sdLimits s) in if \<not> liUnlimited l \<and> n \<ge> liMax l then Some AtLimit else None)"

definition AdmitMember :: "AccountStandingRow option \<Rightarrow> bool option \<Rightarrow> int option \<Rightarrow> int option \<Rightarrow> bool \<Rightarrow> admit_error option" where
  "AdmitMember account seated members offers invited =
     (case readStanding account of
        Inl x \<Rightarrow> Some x
      | Inr s \<Rightarrow>
          if sdChangePending s then Some ChangePending
          else let l = enMaxMembers (sdLimits s)
               in if liUnlimited l then None
                  else case seated of
                         None \<Rightarrow> Some ReadError
                       | Some True \<Rightarrow> None
                       | Some False \<Rightarrow>
                           (case (members, if invited then offers else Some 0) of
                              (Some m, Some n) \<Rightarrow> if m + n \<ge> liMax l then Some AtLimit else None
                            | _ \<Rightarrow> Some ReadError))"

definition bytesPerGiB :: int where
  "bytesPerGiB = 2 ^ 30"

definition diskAllows :: "int \<Rightarrow> Entitlements \<Rightarrow> bool" where
  "diskAllows declared e \<longleftrightarrow> declared \<le> enMaxWorkspaceDiskGiB e * bytesPerGiB"

definition AdmitDisk :: "AccountStandingRow option \<Rightarrow> int \<Rightarrow> admit_error option" where
  "AdmitDisk account declared =
     (case readStanding account of
        Inl x \<Rightarrow> Some x
      | Inr s \<Rightarrow> (case fundsRefusal s of Some x \<Rightarrow> Some x | None \<Rightarrow> if diskAllows declared (sdEntitlements s) then None else Some NoDisks))"

definition AdmitStorage :: "AccountStandingRow option \<Rightarrow> admit_error option" where
  "AdmitStorage account = (case readStanding account of Inl x \<Rightarrow> Some x | Inr s \<Rightarrow> fundsRefusal s)"

definition admitCapability :: "(Entitlements \<Rightarrow> bool) \<Rightarrow> AccountStandingRow option \<Rightarrow> admit_error option" where
  "admitCapability has account =
     (case readStanding account of
        Inl x \<Rightarrow> Some x
      | Inr s \<Rightarrow> if sdChangePending s then Some ChangePending else if has (sdEntitlements s) then None else Some NoCapability)"

definition AdmitCustomDomain :: "AccountStandingRow option \<Rightarrow> admit_error option" where
  "AdmitCustomDomain account = admitCapability enCustomDomains account"

definition AdmitAccountCustomDomain :: "AccountStandingRow option \<Rightarrow> admit_error option" where
  "AdmitAccountCustomDomain account = admitCapability enCustomDomains account"

definition AdmitConnectedCloud :: "AccountStandingRow option \<Rightarrow> admit_error option" where
  "AdmitConnectedCloud account = admitCapability enConnectedCloud account"

text \<open>How long logs and artifacts are kept; an account that does not exist yet, \<open>Some None\<close>, keeps them as the free plan does.\<close>

definition Retention :: "AccountStandingRow option option \<Rightarrow> admit_error + int" where
  "Retention found =
     (case PlanFor PlanFree of
        Inl x \<Rightarrow> Inl (RateFailure x)
      | Inr free \<Rightarrow>
          (case found of
             None \<Rightarrow> Inl ReadError
           | Some None \<Rightarrow> Inr (enRetentionDays (plEntitlements free) * 24 * hour)
           | Some (Some row) \<Rightarrow>
               (case planOfTerms (asTermsVersion row) of
                  Inl x \<Rightarrow> Inl (RateFailure x)
                | Inr plan \<Rightarrow>
                    (case accountEntitlements plan (asPaymentMethodAttachedAt row \<noteq> None) (asComplimentarySince row \<noteq> None) of
                       Inl x \<Rightarrow> Inl (RateFailure x)
                     | Inr e \<Rightarrow> Inr (enRetentionDays e * 24 * hour)))))"

subsection \<open>Allowances\<close>

record Declared =
  deGPUs :: int
  deGPUModels :: "GPUType list"
  dePinned :: bool
  deMachine :: bool
  deMinContainers :: int

text \<open>The fields of a workload's resources, placement and autoscaler sections that count; each section and each field may be missing.\<close>

record Resources =
  rsGpu :: "GPUType list option"
  rsGpuCount :: "int option"

record PlacementSpec =
  psRegion :: "string option"
  psAvailabilityZone :: "string option"
  psMachine :: "string option"

definition set_to_name :: "string option \<Rightarrow> bool" where
  "set_to_name x \<longleftrightarrow> x \<noteq> None \<and> x \<noteq> Some []"

definition DeclaredBy :: "Resources option \<Rightarrow> PlacementSpec option \<Rightarrow> int option option \<Rightarrow> Declared" where
  "DeclaredBy resources placement autoscaler =
     (let models = (case resources of None \<Rightarrow> [] | Some r \<Rightarrow> (case rsGpu r of None \<Rightarrow> [] | Some gs \<Rightarrow> gs))
      in \<lparr>deGPUs = (case resources of
                     None \<Rightarrow> 0
                   | Some r \<Rightarrow> (case rsGpuCount r of Some n \<Rightarrow> if n > 0 then n else if models \<noteq> [] then 1 else 0
                                                    | None \<Rightarrow> if models \<noteq> [] then 1 else 0)),
          deGPUModels = models,
          dePinned = (case placement of None \<Rightarrow> False | Some p \<Rightarrow> set_to_name (psRegion p) \<or> set_to_name (psAvailabilityZone p)),
          deMachine = (case placement of None \<Rightarrow> False | Some p \<Rightarrow> set_to_name (psMachine p)),
          deMinContainers = (case autoscaler of Some (Some n) \<Rightarrow> n | _ \<Rightarrow> 0)\<rparr>)"

definition Declared_Request :: "Declared \<Rightarrow> Request" where
  "Declared_Request d = \<lparr>reqStart = 0, reqCold = False, reqGPUs = deGPUs d, reqGPUModels = deGPUModels d, reqPinned = dePinned d, reqMachine = deMachine d\<rparr>"

datatype DeploymentGate = DiskAllowance | DiskImage | DiskMinimum | GpuCount | GpuModelGate | GpuUnavailable | MissingSecrets | RegionSelection | WarmFloor

datatype remedy = AddPaymentMethod | UpgradeTo PlanID | Otherwise

record Refusal =
  rfGate :: DeploymentGate
  rfRemedy :: remedy

text \<open>The plans above the account's own.\<close>

fun plans_above :: "PlanID \<Rightarrow> bool \<Rightarrow> Plan list \<Rightarrow> (Entitlements \<Rightarrow> bool) \<Rightarrow> remedy" where
  "plans_above own past [] allows = Otherwise"
| "plans_above own past (p # ps) allows =
     (if past \<and> allows (plEntitlements p) then UpgradeTo (plID p) else plans_above own (past \<or> plID p = own) ps allows)"

definition lift_remedy :: "standing \<Rightarrow> (Entitlements \<Rightarrow> bool) \<Rightarrow> remedy" where
  "lift_remedy s allows =
     (if sdComplimentary s then Otherwise
      else if \<not> sdHasCard s \<and> allows (plEntitlements (sdPlan s)) then AddPaymentMethod
      else plans_above (plID (sdPlan s)) False Plans allows)"

definition refuse :: "standing \<Rightarrow> DeploymentGate \<Rightarrow> (Entitlements \<Rightarrow> bool) \<Rightarrow> Refusal" where
  "refuse s gate allows = \<lparr>rfGate = gate, rfRemedy = lift_remedy s allows\<rparr>"

definition Refusals :: "standing \<Rightarrow> bool \<Rightarrow> Declared \<Rightarrow> Refusal list" where
  "Refusals s linked d =
     (let e = sdEntitlements s;
          fleet = (\<not> deMachine d \<and> \<not> linked);
          out = (if dePinned d \<and> \<not> enRegionSelection e then [refuse s RegionSelection enRegionSelection] else [])
      in if deGPUs d = 0 then
           out @ (if deMinContainers d > enMaxCPUContainers e then [refuse s WarmFloor (\<lambda>e. enMaxCPUContainers e \<ge> deMinContainers d)] else [])
         else
           out @ (if fleet \<and> unoffered (deGPUModels d) \<noteq> None then [\<lparr>rfGate = GpuUnavailable, rfRemedy = Otherwise\<rparr>] else [])
           @ (case gpuModels_entitled e (deGPUModels d) fleet of Inl m \<Rightarrow> [refuse s GpuModelGate (\<lambda>e. m \<in> set (enGPUTypes e))] | Inr _ \<Rightarrow> [])
           @ (if deGPUs d > enMaxGPUs e then [refuse s GpuCount (\<lambda>e. enMaxGPUs e \<ge> deGPUs d)]
              else let floor = deMinContainers d * deGPUs d
                   in if floor > enMaxGPUs e then [refuse s WarmFloor (\<lambda>e. enMaxGPUs e \<ge> floor)] else []))"

definition DiskRefusal :: "standing \<Rightarrow> int \<Rightarrow> Refusal option" where
  "DiskRefusal s declared =
     (if diskAllows declared (sdEntitlements s) then None else Some (refuse s DiskAllowance (diskAllows declared)))"

end
