(* ===== verification/ReleasePlan.thy ===== *)
theory ReleasePlan
  imports Admission
begin

text \<open>
  How many containers a release gets (\<open>internal/execution/planning.go\<close> and \<open>serving.go\<close>): \<open>Plan\<close> for functions, whose demand is
  their tasks, and \<open>PlanServing\<close> for HTTP workloads and previews, whose demand the edges publish.

  A release is its row and its containers, stopped ones included. A decision is one savepoint under the planning lock; its
  statements act on the containers the row was counted from, passing over those another transaction holds. Queries are functions on the
  containers. What a release's spec, workload and tasks or loads say is in its row; \<open>container_leaves\<close> is computed from its two
  causes. The trace a start joins and the notifications of hosts are left out.
\<close>

subsection \<open>Containers and their queries\<close>

datatype containerState = Pending | Starting | Ready | Draining | Stopped

record serveContainer =
  scID :: nat
  scStage :: containerState
  scCreatedAt :: time
  scReplaces :: "nat option"
  scReadyAt :: "time option"
  scIdleSince :: time
  scRunning :: int
  scHandsBack :: bool
  scHeld :: bool
  scHost :: "nat option"
  scSlots :: int
  scCpuMillis :: int
  scMemoryBytes :: int
  scGpuCount :: int
  scRateClass :: RateClass

definition count_state :: "containerState list \<Rightarrow> serveContainer list \<Rightarrow> int" where
  "count_state states cs = int (length (filter (\<lambda>c. scStage c \<in> set states) cs))"

definition replacement_ready :: "serveContainer list \<Rightarrow> serveContainer \<Rightarrow> bool" where
  "replacement_ready cs c \<longleftrightarrow> list_ex (\<lambda>r. scReplaces r = Some (scID c) \<and> scReadyAt r \<noteq> None) cs"

definition replaced :: "serveContainer list \<Rightarrow> serveContainer \<Rightarrow> bool" where
  "replaced cs c \<longleftrightarrow> list_ex (\<lambda>r. scReplaces r = Some (scID c) \<and> scStage r \<in> {Pending, Starting}) cs"

definition container_leaves :: "serveContainer list \<Rightarrow> serveContainer \<Rightarrow> bool" where
  "container_leaves cs c \<longleftrightarrow> scHandsBack c \<or> replacement_ready cs c"

definition leaves_now :: "serveContainer list \<Rightarrow> serveContainer \<Rightarrow> bool" where
  "leaves_now cs c \<longleftrightarrow> scStage c \<in> {Starting, Ready} \<and> container_leaves cs c"

definition age_order :: "serveContainer \<Rightarrow> time \<times> nat" where
  "age_order c = (scCreatedAt c, scID c)"

definition LeavingContainers :: "serveContainer list \<Rightarrow> serveContainer list" where
  "LeavingContainers cs = sort_key age_order (filter (leaves_now cs) cs)"

definition set_state :: "containerState list \<Rightarrow> containerState \<Rightarrow> nat list \<Rightarrow> serveContainer list \<Rightarrow> serveContainer list" where
  "set_state before after ids cs = map (\<lambda>c. if scID c \<in> set ids \<and> scStage c \<in> set before then c\<lparr>scStage := after\<rparr> else c) cs"

definition unheld_ids :: "(serveContainer \<Rightarrow> bool) \<Rightarrow> serveContainer list \<Rightarrow> nat list" where
  "unheld_ids P cs = map scID (filter (\<lambda>c. P c \<and> \<not> scHeld c) cs)"

definition DrainLeavingContainers :: "nat list \<Rightarrow> serveContainer list \<Rightarrow> nat list \<times> serveContainer list" where
  "DrainLeavingContainers ids cs =
     (let chosen = unheld_ids (\<lambda>c. scID c \<in> set ids \<and> scStage c \<in> {Starting, Ready}) cs in (chosen, set_state [Starting, Ready] Draining chosen cs))"

definition StopPendingContainers :: "nat \<Rightarrow> serveContainer list \<Rightarrow> nat list \<times> serveContainer list" where
  "StopPendingContainers n cs =
     (let chosen = take n (unheld_ids (\<lambda>c. scStage c = Pending) (rev (sort_key age_order cs))) in (chosen, set_state [Pending] Stopped chosen cs))"

definition DrainNewestContainers :: "nat \<Rightarrow> serveContainer list \<Rightarrow> nat list \<times> serveContainer list" where
  "DrainNewestContainers n cs =
     (let chosen = take n (unheld_ids (\<lambda>c. scStage c \<in> {Starting, Ready}) (rev (sort_key age_order cs)))
      in (chosen, set_state [Starting, Ready] Draining chosen cs))"

definition idle_past :: "time \<Rightarrow> int \<Rightarrow> serveContainer \<Rightarrow> bool" where
  "idle_past now keepWarm c \<longleftrightarrow> scStage c = Ready \<and> scRunning c = 0 \<and> scIdleSince c < now - keepWarm * second"

definition LockIdleContainers :: "time \<Rightarrow> int \<Rightarrow> nat \<Rightarrow> serveContainer list \<Rightarrow> nat list" where
  "LockIdleContainers now keepWarm n cs = take n (unheld_ids (idle_past now keepWarm) (sort_key (\<lambda>c. (scIdleSince c, scID c)) cs))"

definition DrainIdleContainers :: "time \<Rightarrow> int \<Rightarrow> nat list \<Rightarrow> serveContainer list \<Rightarrow> nat list \<times> serveContainer list" where
  "DrainIdleContainers now keepWarm ids cs =
     (let chosen = map scID (filter (\<lambda>c. scID c \<in> set ids \<and> idle_past now keepWarm c) cs) in (chosen, set_state [Ready] Draining chosen cs))"

text \<open>A release's resources, as starts create and admit them. New ids are above the table's.\<close>

record releaseSpec =
  spSlots :: int
  spCpuMillis :: int
  spMemoryBytes :: int
  spMounters :: int
  spGpuCount :: int
  spGpuModels :: "GPUType list"
  spPreemptible :: bool
  spPinned :: bool
  spMachine :: bool

definition MounterMemoryBytes :: int where
  "MounterMemoryBytes = 768 * 2 ^ 20"

definition mountReserve :: "int \<Rightarrow> int" where
  "mountReserve mounters = mounters * MounterMemoryBytes"

definition fresh_id :: "serveContainer list \<Rightarrow> nat" where
  "fresh_id cs = Suc (foldr max (map scID cs) 0)"

definition new_container :: "releaseSpec \<Rightarrow> time \<Rightarrow> nat \<Rightarrow> nat option \<Rightarrow> serveContainer" where
  "new_container sp now i r =
     \<lparr>scID = i, scStage = Pending, scCreatedAt = now, scReplaces = r, scReadyAt = None, scIdleSince = now, scRunning = 0, scHandsBack = False,
      scHeld = False, scHost = None, scSlots = spSlots sp, scCpuMillis = spCpuMillis sp,
      scMemoryBytes = spMemoryBytes sp + mountReserve (spMounters sp), scGpuCount = spGpuCount sp,
      scRateClass = RateClassFor (spPinned sp) (spPreemptible sp)\<rparr>"

definition CreatePendingContainers :: "releaseSpec \<Rightarrow> time \<Rightarrow> nat \<Rightarrow> nat list \<Rightarrow> serveContainer list \<Rightarrow> serveContainer list" where
  "CreatePendingContainers sp now n replaces cs =
     map (\<lambda>i. new_container sp now (fresh_id cs + i) (if i < length replaces then Some (replaces ! i) else None)) [0..<n]"

subsection \<open>Plans of a release\<close>

definition planningBatch :: nat where "planningBatch = 100"
definition startRetryBase :: duration where "startRetryBase = 5 * second"
definition startRetryMax :: duration where "startRetryMax = minute"
definition startFailureLimit :: int where "startFailureLimit = 3"

record releasePlan =
  rpCreated :: "nat list"
  rpStopped :: "nat list"
  rpDrained :: "nat list"
  rpCancelled :: int
  rpRetryAt :: "time option"

definition no_plan :: releasePlan where
  "no_plan = \<lparr>rpCreated = [], rpStopped = [], rpDrained = [], rpCancelled = 0, rpRetryAt = None\<rparr>"

datatype plan_error = NoResources | AdmitFailed admit_error | CancelFailed

definition startRetryDelay :: "int \<Rightarrow> duration" where
  "startRetryDelay failures = (if failures \<ge> 8 then startRetryMax else min (startRetryBase * 2 ^ nat (failures - 1)) startRetryMax)"

definition holdStart :: "time \<Rightarrow> int \<Rightarrow> time option \<Rightarrow> time option" where
  "holdStart now failures stopped =
     (if failures \<le> 0 then None
      else case stopped of
             None \<Rightarrow> None
           | Some t \<Rightarrow> let resume = t + startRetryDelay failures in if \<not> now < resume then None else Some resume)"

text \<open>The containers of a release that leave their host.\<close>

record releaseLeaving =
  rlDrained :: int
  rlRunning :: int
  rlReplacing :: int
  rlUnpaired :: "nat list"

definition drains_now :: "serveContainer list \<Rightarrow> serveContainer \<Rightarrow> bool" where
  "drains_now cs c \<longleftrightarrow> replacement_ready cs c \<or> scRunning c > 0"

fun leaving_walk :: "serveContainer list \<Rightarrow> serveContainer list \<Rightarrow> nat list \<times> int \<times> int \<times> nat list \<Rightarrow> nat list \<times> int \<times> int \<times> nat list" where
  "leaving_walk cs [] acc = acc"
| "leaving_walk cs (c # rows) (drain, running, replacing, unpaired) =
     leaving_walk cs rows
       (if drains_now cs c then (drain @ [scID c], running + scRunning c, replacing, unpaired)
        else if replaced cs c then (drain, running, replacing + 1, unpaired)
        else (drain, running, replacing, unpaired @ [scID c]))"

definition drainLeaving :: "nat list \<Rightarrow> serveContainer list \<times> releasePlan \<Rightarrow> serveContainer list \<times> releasePlan" where
  "drainLeaving ids = (\<lambda>(cs, plan).
     if ids = [] then (cs, plan)
     else let (drained, cs') = DrainLeavingContainers ids cs in (cs', plan\<lparr>rpDrained := rpDrained plan @ drained\<rparr>))"

definition leaving_of :: "bool \<Rightarrow> serveContainer list \<times> releasePlan \<Rightarrow> releaseLeaving \<times> serveContainer list \<times> releasePlan" where
  "leaving_of may = (\<lambda>(cs, plan).
     if \<not> may then (\<lparr>rlDrained = 0, rlRunning = 0, rlReplacing = 0, rlUnpaired = []\<rparr>, cs, plan)
     else let (drain, running, replacing, unpaired) = leaving_walk cs (LeavingContainers cs) ([], 0, 0, [])
          in (\<lparr>rlDrained = int (length drain), rlRunning = running, rlReplacing = replacing, rlUnpaired = unpaired\<rparr>, drainLeaving drain (cs, plan)))"

definition leaving_counts :: "releaseLeaving \<Rightarrow> int \<Rightarrow> int \<Rightarrow> int \<Rightarrow> int \<Rightarrow> int \<times> int" where
  "leaving_counts l pending starting ready draining =
     (let n = pending + starting + ready in (n - rlDrained l - rlReplacing l, n + draining - rlReplacing l))"

definition leaving_starts :: "releaseLeaving \<Rightarrow> int \<Rightarrow> int \<Rightarrow> int \<Rightarrow> int \<times> int" where
  "leaving_starts l active desired space =
     (let u = int (length (rlUnpaired l)) in (min u (max (desired - active + u) 0), max (min (desired - active) space) 0))"

definition refusedToWait :: "admit_error \<Rightarrow> bool" where
  "refusedToWait x \<longleftrightarrow>
     (case x of PastDue \<Rightarrow> True | NoCredit \<Rightarrow> True | UsageLimit \<Rightarrow> True | NoRegions \<Rightarrow> True | ModelRefused _ \<Rightarrow> True | NoCapability \<Rightarrow> True | Unoffered _ \<Rightarrow> True
      | _ \<Rightarrow> False)"

definition spec_request :: "releaseSpec \<Rightarrow> int \<Rightarrow> Request" where
  "spec_request sp n = \<lparr>reqStart = n, reqCold = False, reqGPUs = spGpuCount sp, reqGPUModels = spGpuModels sp, reqPinned = spPinned sp,
     reqMachine = spMachine sp\<rparr>"

definition start :: "(Request \<Rightarrow> admit_error + Grant) \<Rightarrow> releaseSpec \<Rightarrow> time \<Rightarrow> nat list \<Rightarrow> int \<Rightarrow> serveContainer list \<times> releasePlan
    \<Rightarrow> plan_error + serveContainer list \<times> releasePlan" where
  "start admit sp now replaces n st =
     (case admit (spec_request sp n) of
        Inl x \<Rightarrow> if refusedToWait x then Inr st else Inl (AdmitFailed x)
      | Inr grant \<Rightarrow>
          let paired = min (nat (grStart grant)) (length replaces);
              (cs, plan) = (if paired < length replaces then drainLeaving (drop paired replaces) st else st);
              created = CreatePendingContainers sp now (nat (grStart grant)) (take paired replaces) cs
          in if grStart grant = 0 then Inr (cs, plan) else Inr (cs @ created, plan\<lparr>rpCreated := map scID created\<rparr>))"

definition desiredContainers :: "int \<Rightarrow> int \<Rightarrow> int \<Rightarrow> int \<Rightarrow> int" where
  "desiredContainers demand tasksPerContainer minimum maximum =
     (let per = max tasksPerContainer 1; needed = (demand + per - 1) sdiv per in max (min (max needed minimum) maximum) 0)"

subsection \<open>Functions\<close>

record PlanningReleasesRow =
  prSpec :: releaseSpec
  prActive :: bool
  prStopping :: bool
  prRetiring :: bool
  prMinContainers :: int
  prMaxContainers :: int
  prTasksPerContainer :: int
  prKeepWarmSeconds :: int
  prQueuedAvailable :: int
  prRunning :: int
  prLoadFailed :: bool
  prStartFailures :: int
  prLastStoppedAt :: "time option"

definition drainIdle :: "time \<Rightarrow> int \<Rightarrow> int \<Rightarrow> serveContainer list \<times> releasePlan \<Rightarrow> serveContainer list \<times> releasePlan" where
  "drainIdle now keepWarm n = (\<lambda>(cs, plan).
     let locked = LockIdleContainers now keepWarm (nat n) cs
     in if locked = [] then (cs, plan)
        else let (drained, cs') = DrainIdleContainers now keepWarm locked cs in (cs', plan\<lparr>rpDrained := rpDrained plan @ drained\<rparr>))"

text \<open>Stopping pending containers, and what is still too many after it.\<close>

definition stop_pending :: "int \<Rightarrow> int \<Rightarrow> serveContainer list \<times> releasePlan \<Rightarrow> int \<times> serveContainer list \<times> releasePlan" where
  "stop_pending excess pending = (\<lambda>(cs, plan).
     if min excess pending > 0 then
       let (stopped, cs') = StopPendingContainers (nat (min excess pending)) cs
       in (excess - int (length stopped), cs', plan\<lparr>rpStopped := stopped\<rparr>)
     else (excess, cs, plan))"

definition warm_minimum :: "PlanningReleasesRow \<Rightarrow> int" where
  "warm_minimum row = (if prActive row \<and> \<not> prLoadFailed row \<and> prStartFailures row < startFailureLimit then prMinContainers row else 0)"

definition planRelease :: "(Request \<Rightarrow> admit_error + Grant) \<Rightarrow> time \<Rightarrow> PlanningReleasesRow \<Rightarrow> serveContainer list
    \<Rightarrow> plan_error + serveContainer list \<times> releasePlan" where
  "planRelease admit now row cs =
     (if spCpuMillis (prSpec row) \<le> 0 \<or> spMemoryBytes (prSpec row) \<le> 0 then Inl NoResources
      else let pending = count_state [Pending] cs; starting = count_state [Starting] cs;
               ready = count_state [Ready] cs; draining = count_state [Draining] cs;
               (leave, st) = leaving_of (list_ex (leaves_now cs) cs) (cs, no_plan);
               desired = desiredContainers (prQueuedAvailable row + prRunning row - rlRunning leave) (prTasksPerContainer row) (warm_minimum row)
                   (prMaxContainers row);
               (active, live) = leaving_counts leave pending starting ready draining;
               (pairs, grow) = leaving_starts leave active desired (prMaxContainers row - live)
           in if pairs + grow > 0 then
                case holdStart now (prStartFailures row) (prLastStoppedAt row) of
                  Some resume \<Rightarrow> Inr (fst st, (snd st)\<lparr>rpRetryAt := Some resume\<rparr>)
                | None \<Rightarrow> start admit (prSpec row) now (take (nat pairs) (rlUnpaired leave)) (pairs + grow) st
              else if active > desired then
                let (excess, st') = stop_pending (active - desired) pending st
                in Inr (if excess > 0 \<and> ready > 0 then drainIdle now (prKeepWarmSeconds row) excess st' else st')
              else Inr st)"

text \<open>
  A release whose workload stops: \<open>cancelled\<close> is how many of its tasks the same savepoint cancels, none when a statement of the
  cancellation fails.
\<close>

definition stopRelease :: "int option \<Rightarrow> serveContainer list \<Rightarrow> plan_error + serveContainer list \<times> releasePlan" where
  "stopRelease cancelled cs =
     (let stopped = map scID (filter (\<lambda>c. scStage c = Pending) cs);
          drained = map scID (filter (\<lambda>c. scStage c \<in> {Starting, Ready}) cs)
      in case cancelled of
           None \<Rightarrow> Inl CancelFailed
         | Some n \<Rightarrow> Inr (set_state [Starting, Ready] Draining drained (set_state [Pending] Stopped stopped cs),
                          no_plan\<lparr>rpStopped := stopped, rpDrained := drained, rpCancelled := n\<rparr>))"

subsection \<open>HTTP workloads and previews\<close>

record ServingReleasesRow =
  svSpec :: releaseSpec
  svPreview :: bool
  svActive :: bool
  svStopping :: bool
  svMinContainers :: int
  svMaxContainers :: int
  svTasksPerContainer :: int
  svDemand :: int
  svPeak :: int
  svPreviewLive :: bool
  svActiveReady :: bool
  svFailed :: bool
  svStartFailures :: int
  svLastStoppedAt :: "time option"

definition servingDesired :: "ServingReleasesRow \<Rightarrow> int \<Rightarrow> int" where
  "servingDesired row active =
     (if svPreview row then if svPreviewLive row \<and> \<not> svFailed row then 1 else 0
      else if svStopping row \<or> svFailed row then 0
      else let demand = max (svDemand row) (svPeak row);
               desired = desiredContainers demand (svTasksPerContainer row) 0 (svMaxContainers row)
           in if svActive row then desiredContainers demand (svTasksPerContainer row) (svMinContainers row) (svMaxContainers row)
              else if \<not> svActiveReady row then max desired active
              else desired)"

definition serving_max :: "ServingReleasesRow \<Rightarrow> int" where
  "serving_max row = (if svPreview row then 1 else svMaxContainers row)"

definition planServing :: "(Request \<Rightarrow> admit_error + Grant) \<Rightarrow> time \<Rightarrow> ServingReleasesRow \<Rightarrow> serveContainer list
    \<Rightarrow> plan_error + serveContainer list \<times> releasePlan" where
  "planServing admit now row cs =
     (if spCpuMillis (svSpec row) \<le> 0 \<or> spMemoryBytes (svSpec row) \<le> 0 then Inl NoResources
      else let pending = count_state [Pending] cs; starting = count_state [Starting] cs;
               ready = count_state [Ready] cs; draining = count_state [Draining] cs;
               (leave, st) = leaving_of (list_ex (leaves_now cs) cs) (cs, no_plan);
               (active, live) = leaving_counts leave pending starting ready draining;
               desired = servingDesired row active;
               (pairs, grow) = leaving_starts leave active desired (serving_max row - live)
           in if pairs + grow > 0 then
                case holdStart now (svStartFailures row) (svLastStoppedAt row) of
                  Some resume \<Rightarrow> Inr (fst st, (snd st)\<lparr>rpRetryAt := Some resume\<rparr>)
                | None \<Rightarrow> start admit (svSpec row) now (take (nat pairs) (rlUnpaired leave)) (pairs + grow) st
              else if active \<le> desired then Inr st
              else let (excess, cs', plan) = stop_pending (active - desired) pending st
                   in if excess \<le> 0 then Inr (cs', plan)
                      else let (drained, cs'') = DrainNewestContainers (nat excess) cs' in Inr (cs'', plan\<lparr>rpDrained := rpDrained plan @ drained\<rparr>))"

subsection \<open>Passes\<close>

text \<open>
  The table of releases. An entry has its owner, whether its workspace is in a connected account, the row of its kind, its containers,
  whether its tasks, demand or warm minimum ask for a decision, and what cancelling its tasks gives. The environment of a pass has each owner's
  account, its lock, and what the account runs outside the table.
\<close>

datatype releaseRow = FunctionRow PlanningReleasesRow | ServingRow ServingReleasesRow

record releaseEntry =
  reID :: nat
  reOwner :: nat
  reLinked :: "bool option"
  reRow :: releaseRow
  reWanted :: bool
  reCancelled :: "int option"
  reContainers :: "serveContainer list"

record planEnv =
  peAccount :: "nat \<Rightarrow> AccountStandingRow option"
  peLocked :: "nat \<Rightarrow> bool"
  peOther :: "nat \<Rightarrow> LiveContainers"

definition owned_live :: "nat \<Rightarrow> releaseEntry list \<Rightarrow> serveContainer list" where
  "owned_live owner rs = filter (\<lambda>c. scStage c \<noteq> Stopped) (concat (map reContainers (filter (\<lambda>e. reOwner e = owner) rs)))"

definition OwnerLiveContainers :: "planEnv \<Rightarrow> nat \<Rightarrow> releaseEntry list \<Rightarrow> LiveContainers" where
  "OwnerLiveContainers env owner rs =
     \<lparr>lvCpuContainers = lvCpuContainers (peOther env owner) + int (length (filter (\<lambda>c. scGpuCount c = 0) (owned_live owner rs))),
      lvGpus = lvGpus (peOther env owner) + sum_list (map scGpuCount (owned_live owner rs))\<rparr>"

definition admit_in :: "planEnv \<Rightarrow> releaseEntry list \<Rightarrow> releaseEntry \<Rightarrow> Request \<Rightarrow> admit_error + Grant" where
  "admit_in env rs e req =
     Admit (reLinked e) (peLocked env (reOwner e)) (peAccount env (reOwner e)) (Some (OwnerLiveContainers env (reOwner e) rs)) req"

definition planReleaseIsolated :: "planEnv \<Rightarrow> time \<Rightarrow> releaseEntry list \<Rightarrow> releaseEntry \<Rightarrow> plan_error + serveContainer list \<times> releasePlan" where
  "planReleaseIsolated env now rs e =
     (case reRow e of
        FunctionRow row \<Rightarrow> if prStopping row then stopRelease (reCancelled e) (reContainers e) else planRelease (admit_in env rs e) now row (reContainers e)
      | ServingRow row \<Rightarrow> planServing (admit_in env rs e) now row (reContainers e))"

text \<open>A release that fails is passed over, as its savepoint rolled back.\<close>

definition plan_step :: "planEnv \<Rightarrow> time \<Rightarrow> releaseEntry list \<times> releasePlan list \<Rightarrow> nat \<Rightarrow> releaseEntry list \<times> releasePlan list" where
  "plan_step env now = (\<lambda>(rs, plans) i.
     case List.find (\<lambda>e. reID e = i) rs of
       None \<Rightarrow> (rs, plans)
     | Some e \<Rightarrow>
         (case planReleaseIsolated env now rs e of
            Inl _ \<Rightarrow> (rs, plans)
          | Inr (cs, plan) \<Rightarrow> (map (\<lambda>e'. if reID e' = i then e'\<lparr>reContainers := cs\<rparr> else e') rs, plans @ [plan])))"

record PlanResult =
  plSkipped :: bool
  plCreated :: int
  plStopped :: int
  plDrained :: int
  plCancelled :: int
  plRetryAt :: "time option"

definition no_result :: PlanResult where
  "no_result = \<lparr>plSkipped = False, plCreated = 0, plStopped = 0, plDrained = 0, plCancelled = 0, plRetryAt = None\<rparr>"

definition add_plan :: "PlanResult \<Rightarrow> releasePlan \<Rightarrow> PlanResult" where
  "add_plan r p =
     r\<lparr>plCreated := plCreated r + int (length (rpCreated p)), plStopped := plStopped r + int (length (rpStopped p)),
       plDrained := plDrained r + int (length (rpDrained p)), plCancelled := plCancelled r + rpCancelled p,
       plRetryAt := (case rpRetryAt p of
                       None \<Rightarrow> plRetryAt r
                     | Some t \<Rightarrow> (case plRetryAt r of None \<Rightarrow> Some t | Some u \<Rightarrow> if t < u then Some t else Some u))\<rparr>"

definition wants_plan :: "(releaseRow \<Rightarrow> bool) \<Rightarrow> releaseEntry \<Rightarrow> bool" where
  "wants_plan kind e \<longleftrightarrow> kind (reRow e) \<and> (reWanted e \<or> list_ex (\<lambda>c. scStage c \<noteq> Stopped) (reContainers e))"

definition batch_ids :: "(releaseRow \<Rightarrow> bool) \<Rightarrow> nat \<Rightarrow> releaseEntry list \<Rightarrow> nat list" where
  "batch_ids kind after rs = take planningBatch (sort (map reID (filter (\<lambda>e. wants_plan kind e \<and> after < reID e) rs)))"

datatype lockResult = LockTaken | LockHeld | LockFailed

lemma plan_step_ids: "map reID (fst (plan_step env now st i)) = map reID (fst st)"
  by (auto simp: plan_step_def split_beta comp_def split: option.splits sum.splits)

lemma plan_steps_ids: "map reID (fst (foldl (plan_step env now) st ids)) = map reID (fst st)"
  by (induction ids arbitrary: st) (simp_all add: plan_step_ids)

lemma batch_last:
  assumes "\<not> length (batch_ids kind after rs) < planningBatch"
  shows "after < last (batch_ids kind after rs) \<and> last (batch_ids kind after rs) \<in> set (map reID rs)"
proof -
  have "batch_ids kind after rs \<noteq> []" using assms by (auto simp: planningBatch_def)
  then have "last (batch_ids kind after rs) \<in> set (batch_ids kind after rs)" by simp
  then show ?thesis by (auto simp: batch_ids_def dest!: in_set_takeD)
qed

function planning_pass :: "planEnv \<Rightarrow> time \<Rightarrow> (releaseRow \<Rightarrow> bool) \<Rightarrow> (nat \<Rightarrow> lockResult) \<Rightarrow> nat \<Rightarrow> releaseEntry list \<Rightarrow> PlanResult
    \<Rightarrow> releaseEntry list \<times> PlanResult \<times> bool" where
  "planning_pass env now kind lock after rs result =
     (case lock after of
        LockFailed \<Rightarrow> (rs, result, True)
      | LockHeld \<Rightarrow> (rs, result\<lparr>plSkipped := True\<rparr>, False)
      | LockTaken \<Rightarrow>
          let st = foldl (plan_step env now) (rs, []) (batch_ids kind after rs);
              result' = foldl add_plan result (snd st)
          in if length (batch_ids kind after rs) < planningBatch then (fst st, result', False)
             else planning_pass env now kind lock (last (batch_ids kind after rs)) (fst st) result')"
  by pat_completeness auto

text \<open>Every batch moves past the ids it decided, of which there are finitely many.\<close>

termination
proof (relation "measure (\<lambda>(env, now, kind, lock, after, rs, result). length (filter (\<lambda>i. after < i) (map reID rs)))", goal_cases)
  case (2 env now kind lock after rs result st result')
  have ids: "map reID (fst st) = map reID rs" using 2(2) by (simp add: plan_steps_ids)
  let ?l = "last (batch_ids kind after rs)"
  have l: "after < ?l" "?l \<in> set (map reID rs)" using batch_last [OF 2(4)] by simp_all
  have "length (filter (\<lambda>i. ?l < i) xs) < length (filter (\<lambda>i. after < i) xs)" if "?l \<in> set xs" for xs
  proof -
    have "length (filter (\<lambda>i. ?l < i) xs) \<le> length (filter (\<lambda>i. after < i) xs)" for xs :: "nat list"
      using l(1) by (induction xs) auto
    with that l(1) show ?thesis by (induction xs) (auto simp: less_Suc_eq_le)
  qed
  from this [OF l(2)] show ?case by (simp only: in_measure prod.case ids)
qed simp

fun is_function :: "releaseRow \<Rightarrow> bool" where
  "is_function (FunctionRow _) = True"
| "is_function (ServingRow _) = False"

definition Plan_functions :: "planEnv \<Rightarrow> time \<Rightarrow> (nat \<Rightarrow> lockResult) \<Rightarrow> releaseEntry list \<Rightarrow> releaseEntry list \<times> PlanResult \<times> bool" where
  "Plan_functions env now lock rs = planning_pass env now is_function lock 0 rs no_result"

definition PlanServing :: "planEnv \<Rightarrow> time \<Rightarrow> (nat \<Rightarrow> lockResult) \<Rightarrow> releaseEntry list \<Rightarrow> releaseEntry list \<times> PlanResult \<times> bool" where
  "PlanServing env now lock rs = planning_pass env now (\<lambda>row. \<not> is_function row) lock 0 rs no_result"

end
