(* ===== verification/Planning.thy ===== *)
theory Planning
  imports ReleasePlan
begin

text \<open>
  What a plan of a release guarantees: its maximum, its demand, which containers it may touch, and one replacement at a time.

  Both planners take a decision of the same form. They differ in how many containers they want and in how they cut, so what is shown of a
  decision is shown once, in the locale \<open>cutting\<close>, for every cut that keeps its laws, and interpreted for both cuts.
\<close>

subsection \<open>Counting and moving containers\<close>

definition number :: "('a \<Rightarrow> bool) \<Rightarrow> 'a list \<Rightarrow> int" where
  "number P xs = int (length (filter P xs))"

lemma number_simps [simp]: "number P [] = 0" "number P (x # xs) = (if P x then 1 else 0) + number P xs" "number P (xs @ ys) = number P xs + number P ys"
  by (simp_all add: number_def)

lemma number_nonneg [simp]: "0 \<le> number P xs"
  by (simp add: number_def)

lemma number_none: "(\<And>x. x \<in> set xs \<Longrightarrow> \<not> P x) \<Longrightarrow> number P xs = 0"
  by (induction xs) auto

lemma number_all: "(\<And>x. x \<in> set xs \<Longrightarrow> P x) \<Longrightarrow> number P xs = int (length xs)"
  by (induction xs) auto

lemma number_cong: "(\<And>x. x \<in> set xs \<Longrightarrow> P x = Q x) \<Longrightarrow> number P xs = number Q xs"
  by (induction xs) auto

lemma number_mono: "(\<And>x. x \<in> set xs \<Longrightarrow> P x \<Longrightarrow> Q x) \<Longrightarrow> number P xs \<le> number Q xs"
  by (induction xs) (auto intro: add_mono)

lemma number_or: "(\<And>x. x \<in> set xs \<Longrightarrow> \<not> (P x \<and> Q x)) \<Longrightarrow> number (\<lambda>x. P x \<or> Q x) xs = number P xs + number Q xs"
  by (induction xs) auto

lemma number_split: "number P xs = number (\<lambda>x. P x \<and> Q x) xs + number (\<lambda>x. P x \<and> \<not> Q x) xs"
  by (induction xs) auto

lemma number_map: "number P (map f xs) = number (\<lambda>x. P (f x)) xs"
  by (induction xs) auto

lemma number_perm: "mset xs = mset ys \<Longrightarrow> number P xs = number P ys"
  unfolding number_def by (metis mset_filter size_mset)

text \<open>Containers with ids in a list are at most as many as the list has, and exactly as many when all of it are theirs.\<close>

lemma number_ids_le: "distinct (map scID cs) \<Longrightarrow> number (\<lambda>c. scID c \<in> set ids) cs \<le> int (length ids)"
proof -
  assume d: "distinct (map scID cs)"
  have "length (filter (\<lambda>c. scID c \<in> set ids) cs) = card (scID ` set (filter (\<lambda>c. scID c \<in> set ids) cs))"
    using d by (metis distinct_card distinct_map_filter length_map set_map)
  also have "\<dots> \<le> card (set ids)" by (intro card_mono) auto
  also have "\<dots> \<le> length ids" by (rule card_length)
  finally show ?thesis by (simp add: number_def)
qed

lemma number_ids: "distinct (map scID cs) \<Longrightarrow> distinct ids \<Longrightarrow> set ids \<subseteq> scID ` set cs \<Longrightarrow> number (\<lambda>c. scID c \<in> set ids) cs = int (length ids)"
proof -
  assume d: "distinct (map scID cs)" "distinct ids" "set ids \<subseteq> scID ` set cs"
  have "length (filter (\<lambda>c. scID c \<in> set ids) cs) = card (scID ` set (filter (\<lambda>c. scID c \<in> set ids) cs))"
    using d by (metis distinct_card distinct_map_filter length_map set_map)
  also have "scID ` set (filter (\<lambda>c. scID c \<in> set ids) cs) = set ids" using d(3) by auto
  finally show ?thesis using d(2) by (simp add: number_def distinct_card)
qed

lemma same_id: "distinct (map scID cs) \<Longrightarrow> c \<in> set cs \<Longrightarrow> d \<in> set cs \<Longrightarrow> scID c = scID d \<Longrightarrow> c = d"
  by (auto simp: distinct_map inj_on_def)

text \<open>Containers after some stopped and some drained.\<close>

definition moved :: "(serveContainer \<Rightarrow> bool) \<Rightarrow> (serveContainer \<Rightarrow> bool) \<Rightarrow> serveContainer list \<Rightarrow> serveContainer list" where
  "moved S D cs = map (\<lambda>c. if scStage c = Pending \<and> S c then c\<lparr>scStage := Stopped\<rparr>
                           else if scStage c \<in> {Starting, Ready} \<and> D c then c\<lparr>scStage := Draining\<rparr> else c) cs"

lemma moved_ids [simp]: "map scID (moved S D cs) = map scID cs"
  by (simp add: moved_def comp_def if_distrib)

lemma moved_none [simp]: "moved (\<lambda>_. False) (\<lambda>_. False) cs = cs"
  by (simp add: moved_def)

lemma moved_cong: "(\<And>c. c \<in> set cs \<Longrightarrow> scStage c = Pending \<Longrightarrow> S c = S' c) \<Longrightarrow> (\<And>c. c \<in> set cs \<Longrightarrow> scStage c \<in> {Starting, Ready} \<Longrightarrow> D c = D' c)
    \<Longrightarrow> moved S D cs = moved S' D' cs"
  by (auto simp: moved_def)

lemma moved_moved: "moved S2 D2 (moved S1 D1 cs) = moved (\<lambda>c. S1 c \<or> S2 c) (\<lambda>c. D1 c \<or> D2 c) cs"
  by (auto simp: moved_def)

lemma set_state_moved:
  "set_state [Pending] Stopped ids cs = moved (\<lambda>c. scID c \<in> set ids) (\<lambda>_. False) cs"
  "set_state [Starting, Ready] Draining ids cs = moved (\<lambda>_. False) (\<lambda>c. scID c \<in> set ids) cs"
  "set_state [Ready] Draining ids cs = moved (\<lambda>_. False) (\<lambda>c. scID c \<in> set ids \<and> scStage c = Ready) cs"
  by (auto simp: set_state_def moved_def)

lemma moved_replacement_ready [simp]: "replacement_ready (moved S D cs) c = replacement_ready cs c"
  by (induction cs) (auto simp: replacement_ready_def moved_def)

subsection \<open>Leaving containers\<close>

text \<open>Those that drain now, those a replacement starts for, and those without one.\<close>

definition goes_now :: "serveContainer list \<Rightarrow> serveContainer \<Rightarrow> bool" where
  "goes_now cs c \<longleftrightarrow> leaves_now cs c \<and> drains_now cs c"

definition paired_off :: "serveContainer list \<Rightarrow> serveContainer \<Rightarrow> bool" where
  "paired_off cs c \<longleftrightarrow> leaves_now cs c \<and> \<not> drains_now cs c \<and> replaced cs c"

definition alone :: "serveContainer list \<Rightarrow> serveContainer \<Rightarrow> bool" where
  "alone cs c \<longleftrightarrow> leaves_now cs c \<and> \<not> drains_now cs c \<and> \<not> replaced cs c"

definition is_up :: "serveContainer \<Rightarrow> bool" where
  "is_up c \<longleftrightarrow> scStage c \<in> {Pending, Starting, Ready}"

definition active_of :: "serveContainer list \<Rightarrow> int" where
  "active_of cs = number is_up cs - number (goes_now cs) cs - number (paired_off cs) cs"

definition live_of :: "serveContainer list \<Rightarrow> int" where
  "live_of cs = number (\<lambda>c. scStage c \<noteq> Stopped) cs - number (paired_off cs) cs"

definition alone_ids :: "serveContainer list \<Rightarrow> nat list" where
  "alone_ids cs = map scID (filter (alone cs) (sort_key age_order cs))"

lemmas leaving_kinds = goes_now_def paired_off_def alone_def

lemma leaving_walk_result:
  "leaving_walk cs rows (d, r, p, u) =
    (d @ map scID (filter (drains_now cs) rows), r + sum_list (map scRunning (filter (drains_now cs) rows)),
     p + number (\<lambda>c. \<not> drains_now cs c \<and> replaced cs c) rows, u @ map scID (filter (\<lambda>c. \<not> drains_now cs c \<and> \<not> replaced cs c) rows))"
  by (induction rows arbitrary: d r p u) auto

lemma number_filter: "number P (filter Q xs) = number (\<lambda>x. Q x \<and> P x) xs"
  by (simp add: number_def conj_commute)

lemma chosen_ids: "distinct (map scID cs) \<Longrightarrow> mset xs = mset cs \<Longrightarrow> c \<in> set cs \<Longrightarrow> scID c \<in> set (map scID (filter P xs)) \<longleftrightarrow> P c"
  using mset_eq_setD [of xs cs] by (auto dest: same_id)

lemma drainLeaving_facts:
  assumes "distinct (map scID cs)"
  shows "fst (drainLeaving ids (cs, plan)) = moved (\<lambda>_. False) (\<lambda>c. scID c \<in> set ids \<and> \<not> scHeld c) cs"
    and "rpCreated (snd (drainLeaving ids (cs, plan))) = rpCreated plan" and "rpStopped (snd (drainLeaving ids (cs, plan))) = rpStopped plan"
proof -
  have "moved (\<lambda>_. False) (\<lambda>c. scID c \<in> set (unheld_ids (\<lambda>c. scID c \<in> set ids \<and> scStage c \<in> {Starting, Ready}) cs)) cs
    = moved (\<lambda>_. False) (\<lambda>c. scID c \<in> set ids \<and> \<not> scHeld c) cs"
    unfolding unheld_ids_def using chosen_ids [OF assms refl] by (intro moved_cong) auto
  then show "fst (drainLeaving ids (cs, plan)) = moved (\<lambda>_. False) (\<lambda>c. scID c \<in> set ids \<and> \<not> scHeld c) cs"
    by (auto simp: drainLeaving_def DrainLeavingContainers_def set_state_moved Let_def)
qed (simp_all add: drainLeaving_def DrainLeavingContainers_def Let_def)

lemma sum_list_perm: "mset xs = mset ys \<Longrightarrow> sum_list (map f (filter P xs)) = sum_list (map (f :: 'a \<Rightarrow> int) (filter P ys))"
  by (metis mset_filter mset_map sum_mset_sum_list)

lemma leaving_of_facts:
  assumes "leaving_of (list_ex (leaves_now cs) cs) (cs, no_plan) = (leave, st)" and "distinct (map scID cs)"
  shows "rlDrained leave = number (goes_now cs) cs" and "rlReplacing leave = number (paired_off cs) cs" and "rlUnpaired leave = alone_ids cs"
    and "fst st = moved (\<lambda>_. False) (\<lambda>c. goes_now cs c \<and> \<not> scHeld c) cs"
    and "rpCreated (snd st) = []" and "rpStopped (snd st) = []"
    and "rlRunning leave = sum_list (map scRunning (filter (goes_now cs) cs))"
proof -
  let ?s = "sort_key age_order cs"
  have m: "mset ?s = mset cs" by simp
  have rows: "LeavingContainers cs = filter (leaves_now cs) ?s" by (simp add: LeavingContainers_def filter_sort)
  have "rlDrained leave = number (goes_now cs) cs \<and> rlReplacing leave = number (paired_off cs) cs \<and> rlUnpaired leave = alone_ids cs
    \<and> fst st = moved (\<lambda>_. False) (\<lambda>c. goes_now cs c \<and> \<not> scHeld c) cs \<and> rpCreated (snd st) = [] \<and> rpStopped (snd st) = []
    \<and> rlRunning leave = sum_list (map scRunning (filter (goes_now cs) cs))"
  proof (cases "list_ex (leaves_now cs) cs")
    case False
    then have none: "\<not> leaves_now cs c" if "c \<in> set cs" for c using that by (auto simp: list_ex_iff)
    have "moved (\<lambda>_. False) (\<lambda>c. goes_now cs c \<and> \<not> scHeld c) cs = moved (\<lambda>_. False) (\<lambda>_. False) cs"
      using none by (intro moved_cong) (auto simp: goes_now_def)
    moreover have "filter (goes_now cs) cs = []" "alone_ids cs = []" using none by (auto simp: leaving_kinds alone_ids_def filter_empty_conv)
    moreover have "number (goes_now cs) cs = 0" "number (paired_off cs) cs = 0" using none by (auto intro!: number_none simp: leaving_kinds)
    ultimately show ?thesis using assms(1) False by (auto simp: leaving_of_def no_plan_def)
  next
    case True
    let ?ids = "map scID (filter (goes_now cs) ?s)"
    have l: "leave = \<lparr>rlDrained = int (length ?ids), rlRunning = sum_list (map scRunning (filter (goes_now cs) ?s)),
        rlReplacing = number (paired_off cs) ?s, rlUnpaired = alone_ids cs\<rparr>"
      and st: "st = drainLeaving ?ids (cs, no_plan)"
      using assms(1) True
      by (auto simp: leaving_of_def Let_def rows leaving_walk_result number_filter leaving_kinds [abs_def] alone_ids_def conj_commute conj_left_commute)
    have "moved (\<lambda>_. False) (\<lambda>c. scID c \<in> set ?ids \<and> \<not> scHeld c) cs = moved (\<lambda>_. False) (\<lambda>c. goes_now cs c \<and> \<not> scHeld c) cs"
      using chosen_ids [OF assms(2) m] by (intro moved_cong) auto
    then show ?thesis
      using l sum_list_perm [OF m] number_perm [OF m] unfolding st
      by (auto simp: drainLeaving_facts [OF assms(2)] number_def [symmetric] no_plan_def)
  qed
  then show "rlDrained leave = number (goes_now cs) cs" and "rlReplacing leave = number (paired_off cs) cs" and "rlUnpaired leave = alone_ids cs"
    and "fst st = moved (\<lambda>_. False) (\<lambda>c. goes_now cs c \<and> \<not> scHeld c) cs"
    and "rpCreated (snd st) = []" and "rpStopped (snd st) = []"
    and "rlRunning leave = sum_list (map scRunning (filter (goes_now cs) cs))" by simp_all
qed

lemma counts_total:
  "count_state [Pending] cs + count_state [Starting] cs + count_state [Ready] cs = number is_up cs"
  "number is_up cs + count_state [Draining] cs = number (\<lambda>c. scStage c \<noteq> Stopped) cs"
proof -
  have c: "count_state ss cs = number (\<lambda>c. scStage c \<in> set ss) cs" for ss by (simp add: count_state_def number_def)
  show "count_state [Pending] cs + count_state [Starting] cs + count_state [Ready] cs = number is_up cs"
    unfolding c by (induction cs) (auto simp: is_up_def)
  have "scStage c \<in> {Pending, Starting, Ready, Draining, Stopped}" for c by (cases "scStage c") auto
  then show "number is_up cs + count_state [Draining] cs = number (\<lambda>c. scStage c \<noteq> Stopped) cs"
    unfolding c by (induction cs) (auto simp: is_up_def)
qed

subsection \<open>Decisions\<close>

text \<open>
  The form both planners share: \<open>want\<close> is how many active containers the release should have, given the attempts that leave and the
  active ones; \<open>shed\<close> gives up active ones that are too many.
\<close>

definition leaving_running :: "serveContainer list \<Rightarrow> int" where
  "leaving_running cs = sum_list (map scRunning (filter (goes_now cs) cs))"

definition pairs_of :: "serveContainer list \<Rightarrow> int \<Rightarrow> int" where
  "pairs_of cs desired = min (int (length (alone_ids cs))) (max (desired - active_of cs + int (length (alone_ids cs))) 0)"

definition grow_of :: "serveContainer list \<Rightarrow> int \<Rightarrow> int \<Rightarrow> int" where
  "grow_of cs desired maximum = max (min (desired - active_of cs) (maximum - live_of cs)) 0"

definition gone :: "serveContainer list \<Rightarrow> serveContainer list" where
  "gone cs = moved (\<lambda>_. False) (\<lambda>c. goes_now cs c \<and> \<not> scHeld c) cs"

definition decide :: "(Request \<Rightarrow> admit_error + Grant) \<Rightarrow> releaseSpec \<Rightarrow> int \<Rightarrow> time option \<Rightarrow> (int \<Rightarrow> int \<Rightarrow> int)
    \<Rightarrow> (int \<Rightarrow> serveContainer list \<Rightarrow> serveContainer list \<times> releasePlan \<Rightarrow> serveContainer list \<times> releasePlan) \<Rightarrow> time \<Rightarrow> serveContainer list
    \<Rightarrow> plan_error + serveContainer list \<times> releasePlan" where
  "decide admit sp maximum wait want shed now cs =
     (let (leave, st) = leaving_of (list_ex (leaves_now cs) cs) (cs, no_plan);
          desired = want (leaving_running cs) (active_of cs);
          pairs = pairs_of cs desired; grow = grow_of cs desired maximum
      in if pairs + grow > 0 then
           case wait of
             Some resume \<Rightarrow> Inr (fst st, (snd st)\<lparr>rpRetryAt := Some resume\<rparr>)
           | None \<Rightarrow> start admit sp now (take (nat pairs) (alone_ids cs)) (pairs + grow) st
         else if active_of cs > desired then Inr (shed (active_of cs - desired) cs st)
         else Inr st)"

definition cut_idle :: "time \<Rightarrow> int \<Rightarrow> int \<Rightarrow> serveContainer list \<Rightarrow> serveContainer list \<times> releasePlan \<Rightarrow> serveContainer list \<times> releasePlan" where
  "cut_idle now keepWarm excess cs st =
     (let (left, st') = stop_pending excess (count_state [Pending] cs) st
      in if left > 0 \<and> count_state [Ready] cs > 0 then drainIdle now keepWarm left st' else st')"

definition cut_newest :: "int \<Rightarrow> serveContainer list \<Rightarrow> serveContainer list \<times> releasePlan \<Rightarrow> serveContainer list \<times> releasePlan" where
  "cut_newest excess cs st =
     (let (left, cs', plan) = stop_pending excess (count_state [Pending] cs) st
      in if left \<le> 0 then (cs', plan) else let (drained, cs'') = DrainNewestContainers (nat left) cs' in (cs'', plan\<lparr>rpDrained := rpDrained plan @ drained\<rparr>))"

definition function_desired :: "PlanningReleasesRow \<Rightarrow> int \<Rightarrow> int" where
  "function_desired row leaving_attempts =
     desiredContainers (prQueuedAvailable row + prRunning row - leaving_attempts) (prTasksPerContainer row) (warm_minimum row) (prMaxContainers row)"

lemma leaving_numbers:
  assumes "leaving_of (list_ex (leaves_now cs) cs) (cs, no_plan) = (leave, st)" and "distinct (map scID cs)"
  shows "leaving_counts leave (count_state [Pending] cs) (count_state [Starting] cs) (count_state [Ready] cs) (count_state [Draining] cs) = (active_of cs, live_of cs)"
    and "leaving_starts leave (active_of cs) desired (maximum - live_of cs) = (pairs_of cs desired, grow_of cs desired maximum)"
    and "rlUnpaired leave = alone_ids cs" and "rlRunning leave = leaving_running cs"
  using leaving_of_facts [OF assms]
  by (simp_all add: leaving_counts_def leaving_starts_def Let_def counts_total active_of_def live_of_def pairs_of_def grow_of_def leaving_running_def)

lemma planRelease_decides:
  assumes "distinct (map scID cs)"
  shows "planRelease admit now row cs =
    (if spCpuMillis (prSpec row) \<le> 0 \<or> spMemoryBytes (prSpec row) \<le> 0 then Inl NoResources
     else decide admit (prSpec row) (prMaxContainers row) (holdStart now (prStartFailures row) (prLastStoppedAt row))
       (\<lambda>r _. function_desired row r) (cut_idle now (prKeepWarmSeconds row)) now cs)"
proof -
  obtain leave st where l: "leaving_of (list_ex (leaves_now cs) cs) (cs, no_plan) = (leave, st)" by (cases "leaving_of (list_ex (leaves_now cs) cs) (cs, no_plan)")
  show ?thesis
    unfolding planRelease_def decide_def Let_def l prod.case leaving_numbers [OF l assms] function_desired_def [symmetric] by (simp add: cut_idle_def split_beta)
qed

lemma planServing_decides:
  assumes "distinct (map scID cs)"
  shows "planServing admit now row cs =
    (if spCpuMillis (svSpec row) \<le> 0 \<or> spMemoryBytes (svSpec row) \<le> 0 then Inl NoResources
     else decide admit (svSpec row) (serving_max row) (holdStart now (svStartFailures row) (svLastStoppedAt row))
       (\<lambda>_ active. servingDesired row active) cut_newest now cs)"
proof -
  obtain leave st where l: "leaving_of (list_ex (leaves_now cs) cs) (cs, no_plan) = (leave, st)" by (cases "leaving_of (list_ex (leaves_now cs) cs) (cs, no_plan)")
  show ?thesis
    unfolding planServing_def decide_def Let_def l prod.case leaving_numbers [OF l assms] by (simp add: cut_newest_def Let_def split_beta not_less)
qed

subsection \<open>Cuts\<close>

text \<open>
  A cut stops pending containers and drains others, as many as are too many at most and none another transaction holds; \<open>may\<close> tells
  which it may drain.
\<close>

locale shedding =
  fixes shed :: "int \<Rightarrow> serveContainer list \<Rightarrow> serveContainer list \<times> releasePlan \<Rightarrow> serveContainer list \<times> releasePlan"
    and may :: "serveContainer \<Rightarrow> bool"
  assumes shed_law: "distinct (map scID cs) \<Longrightarrow> 0 < excess \<Longrightarrow>
      \<exists>S D. fst (shed excess cs0 (cs, plan)) = moved S D cs
        \<and> (\<forall>c\<in>set cs. scStage c \<in> {Starting, Ready} \<and> D c \<longrightarrow> may c \<and> \<not> scHeld c)
        \<and> number (\<lambda>c. scStage c = Pending \<and> S c) cs + number (\<lambda>c. scStage c \<in> {Starting, Ready} \<and> D c) cs \<le> excess"
    and shed_creates_none: "rpCreated (snd (shed excess cs0 (cs, plan))) = rpCreated plan"

lemma number_chosen: "distinct (map scID cs) \<Longrightarrow> number (\<lambda>c. P c \<and> scID c \<in> set ids) cs \<le> int (length ids)"
  using number_mono [of cs "\<lambda>c. P c \<and> scID c \<in> set ids" "\<lambda>c. scID c \<in> set ids"] number_ids_le [of cs ids] by linarith

lemma unheld_chosen:
  assumes "distinct (map scID cs)" and "set xs \<subseteq> set cs" and "c \<in> set cs" and "scID c \<in> set (take n (unheld_ids P xs))"
  shows "P c \<and> \<not> scHeld c"
proof -
  have "scID c \<in> set (unheld_ids P xs)" using assms(4) by (rule in_set_takeD)
  then obtain d where "d \<in> set xs" "scID d = scID c" "P d" "\<not> scHeld d" by (auto simp: unheld_ids_def)
  then show ?thesis using assms(2) same_id [OF assms(1,3), of d] by auto
qed

lemma stop_pending_law:
  assumes "distinct (map scID cs)" and "0 < excess"
  obtains ids where "stop_pending excess pending (cs, plan) =
      (excess - int (length ids), moved (\<lambda>c. scID c \<in> set ids) (\<lambda>_. False) cs, plan\<lparr>rpStopped := if min excess pending > 0 then ids else rpStopped plan\<rparr>)"
    and "int (length ids) \<le> excess"
proof (cases "min excess pending > 0")
  case True
  let ?ids = "take (nat (min excess pending)) (unheld_ids (\<lambda>c. scStage c = Pending) (rev (sort_key age_order cs)))"
  have "stop_pending excess pending (cs, plan) = (excess - int (length ?ids), moved (\<lambda>c. scID c \<in> set ?ids) (\<lambda>_. False) cs,
      plan\<lparr>rpStopped := if min excess pending > 0 then ?ids else rpStopped plan\<rparr>)"
    using True by (simp add: stop_pending_def StopPendingContainers_def set_state_moved Let_def)
  moreover have "int (length ?ids) \<le> excess" using assms(2) by auto
  ultimately show ?thesis by (rule that)
next
  case False
  show ?thesis by (rule that [of "[]"]) (use False assms(2) in \<open>auto simp: stop_pending_def\<close>)
qed

text \<open>After stopping some, draining those of a list of ids keeps the law.\<close>

lemma shed_two:
  assumes d: "distinct (map scID cs)" and l: "int (length ids) \<le> excess" "int (length ids') \<le> excess - int (length ids)"
    and D: "\<And>c. c \<in> set cs \<Longrightarrow> scStage c \<in> {Starting, Ready} \<Longrightarrow> D c \<Longrightarrow> scID c \<in> set ids' \<and> may c \<and> \<not> scHeld c"
  shows "\<exists>S D'. moved (\<lambda>_. False) D (moved (\<lambda>c. scID c \<in> set ids) (\<lambda>_. False) cs) = moved S D' cs
        \<and> (\<forall>c\<in>set cs. scStage c \<in> {Starting, Ready} \<and> D' c \<longrightarrow> may c \<and> \<not> scHeld c)
        \<and> number (\<lambda>c. scStage c = Pending \<and> S c) cs + number (\<lambda>c. scStage c \<in> {Starting, Ready} \<and> D' c) cs \<le> excess"
proof (intro exI conjI)
  show "moved (\<lambda>_. False) D (moved (\<lambda>c. scID c \<in> set ids) (\<lambda>_. False) cs) = moved (\<lambda>c. scID c \<in> set ids) D cs"
    by (simp add: moved_moved)
  have "number (\<lambda>c. scStage c \<in> {Starting, Ready} \<and> D c) cs \<le> number (\<lambda>c. True \<and> scID c \<in> set ids') cs"
    using D by (intro number_mono) auto
  then show "number (\<lambda>c. scStage c = Pending \<and> scID c \<in> set ids) cs + number (\<lambda>c. scStage c \<in> {Starting, Ready} \<and> D c) cs \<le> excess"
    using l number_chosen [OF d, of "\<lambda>c. scStage c = Pending" ids] number_chosen [OF d, of "\<lambda>_. True" ids'] by linarith
qed (use D in auto)

lemma moved_keeps: "c \<in> set cs \<Longrightarrow> scStage c \<in> {Starting, Ready} \<Longrightarrow> c \<in> set (moved S (\<lambda>_. False) cs)"
  by (force simp: moved_def)

lemma cut_idle_law:
  assumes "distinct (map scID cs)" and "0 < excess"
  shows "\<exists>S D. fst (cut_idle now keepWarm excess cs0 (cs, plan)) = moved S D cs
        \<and> (\<forall>c\<in>set cs. scStage c \<in> {Starting, Ready} \<and> D c \<longrightarrow> idle_past now keepWarm c \<and> \<not> scHeld c)
        \<and> number (\<lambda>c. scStage c = Pending \<and> S c) cs + number (\<lambda>c. scStage c \<in> {Starting, Ready} \<and> D c) cs \<le> excess"
proof -
  obtain ids where stop: "stop_pending excess (count_state [Pending] cs0) (cs, plan) =
      (excess - int (length ids), moved (\<lambda>c. scID c \<in> set ids) (\<lambda>_. False) cs,
       plan\<lparr>rpStopped := if min excess (count_state [Pending] cs0) > 0 then ids else rpStopped plan\<rparr>)"
    and le: "int (length ids) \<le> excess"
    by (rule stop_pending_law [OF assms])
  let ?cs = "moved (\<lambda>c. scID c \<in> set ids) (\<lambda>_. False) cs"
  let ?locked = "LockIdleContainers now keepWarm (nat (excess - int (length ids))) ?cs"
  let ?chosen = "map scID (filter (\<lambda>c. scID c \<in> set ?locked \<and> idle_past now keepWarm c) ?cs)"
  have d: "distinct (map scID ?cs)" using assms(1) by simp
  have len: "int (length ?locked) \<le> excess - int (length ids)" using le by (simp add: LockIdleContainers_def)
  have chosen: "scID c \<in> set ?locked \<and> idle_past now keepWarm c \<and> \<not> scHeld c"
    if "c \<in> set cs" "scStage c \<in> {Starting, Ready}" "scID c \<in> set ?chosen" for c
  proof -
    have c: "c \<in> set ?cs" using that moved_keeps by blast
    have l: "scID c \<in> set ?locked \<and> idle_past now keepWarm c" by (rule iffD1 [OF chosen_ids [OF d refl c] that(3)])
    have "idle_past now keepWarm c \<and> \<not> scHeld c"
      by (rule unheld_chosen [OF d _ c conjunct1 [OF l [unfolded LockIdleContainers_def]]]) simp
    with l show ?thesis by (simp only: simp_thms)
  qed
  show ?thesis
  proof (cases "excess - int (length ids) > 0 \<and> count_state [Ready] cs0 > 0 \<and> ?locked \<noteq> []")
    case True
    then have "fst (cut_idle now keepWarm excess cs0 (cs, plan)) = moved (\<lambda>_. False) (\<lambda>c. scID c \<in> set ?chosen \<and> scStage c = Ready) ?cs"
      by (simp add: cut_idle_def stop drainIdle_def DrainIdleContainers_def set_state_moved Let_def)
    moreover note shed_two [OF assms(1) le len, of "\<lambda>c. scID c \<in> set ?chosen \<and> scStage c = Ready" "idle_past now keepWarm"]
    ultimately show ?thesis using chosen by (simp only:) blast
  next
    case False
    then have "fst (cut_idle now keepWarm excess cs0 (cs, plan)) = moved (\<lambda>_. False) (\<lambda>_. False) ?cs"
      by (auto simp: cut_idle_def stop drainIdle_def Let_def)
    moreover note shed_two [OF assms(1) le len, of "\<lambda>_. False" "idle_past now keepWarm"]
    ultimately show ?thesis by (simp only:)
  qed
qed

lemma cut_newest_law:
  assumes "distinct (map scID cs)" and "0 < excess"
  shows "\<exists>S D. fst (cut_newest excess cs0 (cs, plan)) = moved S D cs
        \<and> (\<forall>c\<in>set cs. scStage c \<in> {Starting, Ready} \<and> D c \<longrightarrow> True \<and> \<not> scHeld c)
        \<and> number (\<lambda>c. scStage c = Pending \<and> S c) cs + number (\<lambda>c. scStage c \<in> {Starting, Ready} \<and> D c) cs \<le> excess"
proof -
  obtain ids where stop: "stop_pending excess (count_state [Pending] cs0) (cs, plan) =
      (excess - int (length ids), moved (\<lambda>c. scID c \<in> set ids) (\<lambda>_. False) cs,
       plan\<lparr>rpStopped := if min excess (count_state [Pending] cs0) > 0 then ids else rpStopped plan\<rparr>)"
    and le: "int (length ids) \<le> excess"
    by (rule stop_pending_law [OF assms])
  let ?cs = "moved (\<lambda>c. scID c \<in> set ids) (\<lambda>_. False) cs"
  let ?chosen = "take (nat (excess - int (length ids))) (unheld_ids (\<lambda>c. scStage c \<in> {Starting, Ready}) (rev (sort_key age_order ?cs)))"
  have d: "distinct (map scID ?cs)" using assms(1) by simp
  have len: "int (length ?chosen) \<le> excess - int (length ids)" using le by simp
  have chosen: "scID c \<in> set ?chosen \<and> True \<and> \<not> scHeld c"
    if "c \<in> set cs" "scStage c \<in> {Starting, Ready}" "scID c \<in> set ?chosen" for c
    using unheld_chosen [OF d _ moved_keeps [OF that(1,2)] that(3)] that(3) by simp
  have "fst (cut_newest excess cs0 (cs, plan)) = moved (\<lambda>_. False) (\<lambda>c. scID c \<in> set ?chosen) ?cs"
    by (auto simp: cut_newest_def stop DrainNewestContainers_def set_state_moved Let_def)
  moreover note shed_two [OF assms(1) le len, of "\<lambda>c. scID c \<in> set ?chosen" "\<lambda>_. True"]
  ultimately show ?thesis using chosen by (simp only:) blast
qed

interpretation idle: shedding "cut_idle now keepWarm" "idle_past now keepWarm" for now keepWarm
proof unfold_locales
  fix excess cs0 cs and plan :: releasePlan
  show "rpCreated (snd (cut_idle now keepWarm excess cs0 (cs, plan))) = rpCreated plan"
    by (auto simp: cut_idle_def stop_pending_def drainIdle_def Let_def split_beta)
qed (rule cut_idle_law)

interpretation newest: shedding cut_newest "\<lambda>_. True"
proof unfold_locales
  fix excess cs0 cs and plan :: releasePlan
  show "rpCreated (snd (cut_newest excess cs0 (cs, plan))) = rpCreated plan"
    by (auto simp: cut_newest_def stop_pending_def Let_def split_beta)
qed (rule cut_newest_law)

subsection \<open>Outcomes\<close>

lemma fresh_id_moved [simp]: "fresh_id (moved S D cs) = fresh_id cs"
  by (simp add: fresh_id_def)

lemma Create_moved [simp]: "CreatePendingContainers sp now n r (moved S D cs) = CreatePendingContainers sp now n r cs"
  by (simp add: CreatePendingContainers_def)

definition started :: "releaseSpec \<Rightarrow> time \<Rightarrow> serveContainer list \<Rightarrow> nat list \<Rightarrow> int \<Rightarrow> serveContainer list" where
  "started sp now cs replaces granted =
     (let paired = min (nat granted) (length replaces)
      in moved (\<lambda>_. False) (\<lambda>c. (goes_now cs c \<or> scID c \<in> set (drop paired replaces)) \<and> \<not> scHeld c) cs
         @ CreatePendingContainers sp now (nat granted) (take paired replaces) cs)"

lemma start_outcome:
  assumes "start admit sp now replaces n (gone cs, plan1) = Inr (cs', plan)" and "distinct (map scID cs)" and "rpCreated plan1 = []"
  shows "(\<exists>x. admit (spec_request sp n) = Inl x \<and> cs' = gone cs \<and> rpCreated plan = [])
    \<or> (\<exists>g. admit (spec_request sp n) = Inr g \<and> cs' = started sp now cs replaces (grStart g) \<and> length (rpCreated plan) = nat (grStart g))"
proof (cases "admit (spec_request sp n)")
  case (Inl x)
  then show ?thesis using assms by (auto simp: start_def split: if_splits)
next
  case (Inr g)
  let ?paired = "min (nat (grStart g)) (length replaces)"
  have d: "distinct (map scID (gone cs))" using assms(2) by (simp add: gone_def)
  obtain cs2 plan2 where st: "(if ?paired < length replaces then drainLeaving (drop ?paired replaces) (gone cs, plan1) else (gone cs, plan1)) = (cs2, plan2)"
    by (cases "if ?paired < length replaces then drainLeaving (drop ?paired replaces) (gone cs, plan1) else (gone cs, plan1)")
  have "cs2 = moved (\<lambda>_. False) (\<lambda>c. scID c \<in> set (drop ?paired replaces) \<and> \<not> scHeld c) (gone cs)" and created: "rpCreated plan2 = []"
    using st drainLeaving_facts [OF d, of "drop ?paired replaces" plan1] assms(3) by (auto split: if_splits)
  then have cs2: "cs2 = moved (\<lambda>_. False) (\<lambda>c. (goes_now cs c \<or> scID c \<in> set (drop ?paired replaces)) \<and> \<not> scHeld c) cs"
    by (auto simp: gone_def moved_moved intro!: moved_cong)
  have "(Inr (cs', plan) :: plan_error + serveContainer list \<times> releasePlan) = (let created = CreatePendingContainers sp now (nat (grStart g)) (take ?paired replaces) cs2
      in if grStart g = 0 then Inr (cs2, plan2) else Inr (cs2 @ created, plan2\<lparr>rpCreated := map scID created\<rparr>))"
    using assms(1) unfolding start_def Inr sum.case Let_def st prod.case by (rule sym)
  then have "cs' = cs2 @ CreatePendingContainers sp now (nat (grStart g)) (take ?paired replaces) cs2" "length (rpCreated plan) = nat (grStart g)"
    using created by (auto simp: Let_def CreatePendingContainers_def split: if_splits)
  then show ?thesis using Inr by (simp add: started_def cs2 Let_def)
qed

context shedding
begin

lemma decide_outcome:
  assumes "decide admit sp maximum wait want shed now cs = Inr (cs', plan)" and "distinct (map scID cs)"
    and "desired = want (leaving_running cs) (active_of cs)" and "n = pairs_of cs desired + grow_of cs desired maximum"
  obtains
    (quiet) "cs' = gone cs" and "rpCreated plan = []"
      and "n \<le> 0 \<and> active_of cs \<le> desired \<or> wait \<noteq> None \<or> (\<exists>x. admit (spec_request sp n) = Inl x)"
  | (starts) g where "n > 0" and "admit (spec_request sp n) = Inr g"
      and "cs' = started sp now cs (take (nat (pairs_of cs desired)) (alone_ids cs)) (grStart g)" and "length (rpCreated plan) = nat (grStart g)"
  | (cuts) S D where "desired < active_of cs" and "cs' = moved S D (gone cs)" and "rpCreated plan = []"
      and "\<And>c. c \<in> set (gone cs) \<Longrightarrow> scStage c \<in> {Starting, Ready} \<Longrightarrow> D c \<Longrightarrow> may c \<and> \<not> scHeld c"
      and "number (\<lambda>c. scStage c = Pending \<and> S c) (gone cs) + number (\<lambda>c. scStage c \<in> {Starting, Ready} \<and> D c) (gone cs) \<le> active_of cs - desired"
proof -
  obtain leave cs1 plan1 where l: "leaving_of (list_ex (leaves_now cs) cs) (cs, no_plan) = (leave, cs1, plan1)"
    by (cases "leaving_of (list_ex (leaves_now cs) cs) (cs, no_plan)") auto
  have cs1: "cs1 = gone cs" and none: "rpCreated plan1 = []" using leaving_of_facts [OF l assms(2)] by (simp_all add: gone_def)
  have d: "distinct (map scID (gone cs))" using assms(2) by (simp add: gone_def)
  note body = assms(1) [unfolded decide_def Let_def l prod.case assms(3) [symmetric] assms(4) [symmetric] cs1]
  show thesis
  proof (cases "n > 0")
    case True
    show thesis
    proof (cases wait)
      case None
      have "start admit sp now (take (nat (pairs_of cs desired)) (alone_ids cs)) n (gone cs, plan1) = Inr (cs', plan)"
        using body True None by simp
      from start_outcome [OF this assms(2) none] show thesis using quiet starts True by blast
    next
      case (Some t)
      then show thesis using body True none by (intro quiet) auto
    qed
  next
    case small: False
    show thesis
    proof (cases "active_of cs > desired")
      case True
      have result: "(cs', plan) = shed (active_of cs - desired) cs (gone cs, plan1)" using body True small by simp
      have "0 < active_of cs - desired" using True by simp
      from shed_law [OF d this, of cs plan1] obtain S D where "fst (shed (active_of cs - desired) cs (gone cs, plan1)) = moved S D (gone cs)"
        and "\<forall>c\<in>set (gone cs). scStage c \<in> {Starting, Ready} \<and> D c \<longrightarrow> may c \<and> \<not> scHeld c"
        and "number (\<lambda>c. scStage c = Pending \<and> S c) (gone cs) + number (\<lambda>c. scStage c \<in> {Starting, Ready} \<and> D c) (gone cs) \<le> active_of cs - desired"
        by blast
      with True shed_creates_none [of "active_of cs - desired" cs "gone cs" plan1] none show thesis
        unfolding result [symmetric] by (intro cuts) auto
    next
      case False
      then show thesis using body small none by (intro quiet) auto
    qed
  qed
qed

end

subsection \<open>Counts after an outcome\<close>

text \<open>New containers are pending and were never ready.\<close>

definition brand_new :: "serveContainer list \<Rightarrow> bool" where
  "brand_new new \<longleftrightarrow> (\<forall>c\<in>set new. scStage c = Pending \<and> scReadyAt c = None)"

definition becomes :: "(serveContainer \<Rightarrow> bool) \<Rightarrow> (serveContainer \<Rightarrow> bool) \<Rightarrow> serveContainer \<Rightarrow> serveContainer" where
  "becomes S D c = (if scStage c = Pending \<and> S c then c\<lparr>scStage := Stopped\<rparr>
                    else if scStage c \<in> {Starting, Ready} \<and> D c then c\<lparr>scStage := Draining\<rparr> else c)"

lemma moved_becomes: "moved S D cs = map (becomes S D) cs"
  by (simp add: moved_def becomes_def [abs_def])

lemma becomes_keeps [simp]: "scID (becomes S D c) = scID c" "scReplaces (becomes S D c) = scReplaces c" "scReadyAt (becomes S D c) = scReadyAt c"
  "scRunning (becomes S D c) = scRunning c" "scHandsBack (becomes S D c) = scHandsBack c" "scHeld (becomes S D c) = scHeld c" "scGpuCount (becomes S D c) = scGpuCount c"
  by (simp_all add: becomes_def)

lemma brand_new_ready: "brand_new new \<Longrightarrow> replacement_ready (moved S D cs @ new) c = replacement_ready cs c"
  unfolding replacement_ready_def list_ex_append moved_becomes
  by (auto simp: brand_new_def list_ex_iff)

lemma replacement_ready_becomes: "replacement_ready cs (becomes S D c) = replacement_ready cs c"
  by (simp add: replacement_ready_def)

lemma replaced_becomes: "replaced cs (becomes S D c) = replaced cs c"
  by (simp add: replaced_def)

lemma leaves_after:
  assumes "brand_new new"
  shows "leaves_now (moved S D cs @ new) (becomes S D c) \<longleftrightarrow> leaves_now cs c \<and> \<not> D c"
    and "drains_now (moved S D cs @ new) (becomes S D c) \<longleftrightarrow> drains_now cs c"
    and "x \<in> set new \<Longrightarrow> \<not> leaves_now (moved S D cs @ new) x"
proof -
  show "drains_now (moved S D cs @ new) (becomes S D c) \<longleftrightarrow> drains_now cs c"
    by (simp add: drains_now_def brand_new_ready [OF assms] replacement_ready_becomes)
  have "container_leaves (moved S D cs @ new) (becomes S D c) = container_leaves cs c"
    by (simp add: container_leaves_def brand_new_ready [OF assms] replacement_ready_becomes)
  then show "leaves_now (moved S D cs @ new) (becomes S D c) \<longleftrightarrow> leaves_now cs c \<and> \<not> D c"
    by (auto simp: leaves_now_def becomes_def)
  show "x \<in> set new \<Longrightarrow> \<not> leaves_now (moved S D cs @ new) x" using assms by (auto simp: leaves_now_def brand_new_def)
qed

lemma numbers_after:
  assumes "brand_new new"
  shows "number is_up (moved S D cs @ new) = number is_up cs - number (\<lambda>c. scStage c = Pending \<and> S c) cs
      - number (\<lambda>c. scStage c \<in> {Starting, Ready} \<and> D c) cs + int (length new)"
    and "number (\<lambda>c. scStage c \<noteq> Stopped) (moved S D cs @ new) = number (\<lambda>c. scStage c \<noteq> Stopped) cs
      - number (\<lambda>c. scStage c = Pending \<and> S c) cs + int (length new)"
    and "number (goes_now (moved S D cs @ new)) (moved S D cs @ new) = number (goes_now cs) cs - number (\<lambda>c. goes_now cs c \<and> D c) cs"
    and "number (paired_off (moved S D cs @ new)) (moved S D cs @ new)
      = number (\<lambda>c. leaves_now cs c \<and> \<not> D c \<and> \<not> drains_now cs c \<and> replaced (moved S D cs @ new) c) cs"
proof -
  have new: "number is_up new = int (length new)" "number (\<lambda>c. scStage c \<noteq> Stopped) new = int (length new)"
    using assms by (auto intro!: number_all simp: brand_new_def is_up_def)
  show "number is_up (moved S D cs @ new) = number is_up cs - number (\<lambda>c. scStage c = Pending \<and> S c) cs
      - number (\<lambda>c. scStage c \<in> {Starting, Ready} \<and> D c) cs + int (length new)"
    unfolding number_simps new moved_becomes by (induction cs) (auto simp: is_up_def becomes_def)
  show "number (\<lambda>c. scStage c \<noteq> Stopped) (moved S D cs @ new) = number (\<lambda>c. scStage c \<noteq> Stopped) cs
      - number (\<lambda>c. scStage c = Pending \<and> S c) cs + int (length new)"
    unfolding number_simps new moved_becomes by (induction cs) (auto simp: becomes_def)
  let ?cs = "moved S D cs @ new"
  have none: "number (goes_now ?cs) new = 0" "number (paired_off ?cs) new = 0"
    using leaves_after(3) [OF assms] by (auto intro!: number_none simp: leaving_kinds)
  have "number (goes_now ?cs) (moved S D cs) = number (\<lambda>c. goes_now cs c \<and> \<not> D c) cs"
    by (auto simp: moved_becomes [of S D cs] number_map goes_now_def leaves_after [OF assms, unfolded moved_becomes] intro: number_cong)
  then show "number (goes_now ?cs) ?cs = number (goes_now cs) cs - number (\<lambda>c. goes_now cs c \<and> D c) cs"
    using none number_split [of "goes_now cs" cs D] by simp
  have "number (paired_off ?cs) (moved S D cs) = number (\<lambda>c. leaves_now cs c \<and> \<not> D c \<and> \<not> drains_now cs c \<and> replaced ?cs c) cs"
    by (auto simp: moved_becomes [of S D cs] number_map paired_off_def leaves_after [OF assms, unfolded moved_becomes] replaced_becomes intro: number_cong)
  then show "number (paired_off ?cs) ?cs = number (\<lambda>c. leaves_now cs c \<and> \<not> D c \<and> \<not> drains_now cs c \<and> replaced ?cs c) cs"
    using none by simp
qed

lemma replaced_after: "replaced (moved S D cs @ new) c \<Longrightarrow> replaced cs c \<or> (\<exists>r\<in>set new. scReplaces r = Some (scID c))"
  by (auto simp: replaced_def moved_def list_ex_iff split: if_splits)

lemma active_after:
  assumes "brand_new new"
  shows "active_of cs - number (\<lambda>c. scStage c = Pending \<and> S c) cs - number (\<lambda>c. scStage c \<in> {Starting, Ready} \<and> D c) cs
      + number (\<lambda>c. goes_now cs c \<and> D c) cs + int (length new) - number (\<lambda>c. \<exists>r\<in>set new. scReplaces r = Some (scID c)) cs
    \<le> active_of (moved S D cs @ new)"
proof -
  let ?cs = "moved S D cs @ new" and ?fresh = "\<lambda>c. \<exists>r\<in>set new. scReplaces r = Some (scID c)"
  have "number (\<lambda>c. leaves_now cs c \<and> \<not> D c \<and> \<not> drains_now cs c \<and> replaced ?cs c) cs \<le> number (\<lambda>c. paired_off cs c \<or> (?fresh c \<and> \<not> paired_off cs c)) cs"
    using replaced_after [of S D cs new] by (intro number_mono) (auto simp: paired_off_def)
  also have "\<dots> = number (paired_off cs) cs + number (\<lambda>c. ?fresh c \<and> \<not> paired_off cs c) cs" by (rule number_or) blast
  also have "\<dots> \<le> number (paired_off cs) cs + number ?fresh cs" using number_mono [of cs "\<lambda>c. ?fresh c \<and> \<not> paired_off cs c" ?fresh] by simp
  finally show ?thesis unfolding active_of_def numbers_after [OF assms] by linarith
qed

lemma goes_up: "goes_now cs c \<Longrightarrow> scStage c \<in> {Starting, Ready}"
  by (simp add: goes_now_def leaves_now_def)

lemma active_gone: "active_of cs \<le> active_of (gone cs)"
proof -
  have "number (\<lambda>c. scStage c \<in> {Starting, Ready} \<and> goes_now cs c \<and> \<not> scHeld c) cs = number (\<lambda>c. goes_now cs c \<and> goes_now cs c \<and> \<not> scHeld c) cs"
    using goes_up by (intro number_cong) blast
  then show ?thesis
    using active_after [of "[]" cs "\<lambda>_. False" "\<lambda>c. goes_now cs c \<and> \<not> scHeld c"] by (simp add: gone_def brand_new_def number_none)
qed

lemma active_cut:
  "active_of cs - number (\<lambda>c. scStage c = Pending \<and> S c) cs - number (\<lambda>c. scStage c \<in> {Starting, Ready} \<and> D c) cs \<le> active_of (moved S D cs)"
proof -
  have "active_of cs - number (\<lambda>c. scStage c = Pending \<and> S c) cs - number (\<lambda>c. scStage c \<in> {Starting, Ready} \<and> D c) cs
      + number (\<lambda>c. goes_now cs c \<and> D c) cs \<le> active_of (moved S D cs)"
    using active_after [of "[]" cs S D] by (simp add: brand_new_def number_none)
  then show ?thesis using number_nonneg [of "\<lambda>c. goes_now cs c \<and> D c" cs] by linarith
qed

lemma created_facts:
  "brand_new (CreatePendingContainers sp now n r cs)" "length (CreatePendingContainers sp now n r cs) = n"
  "map scID (CreatePendingContainers sp now n r cs) = map (\<lambda>i. fresh_id cs + i) [0..<n]"
  "length r \<le> n \<Longrightarrow> (\<exists>x\<in>set (CreatePendingContainers sp now n r cs). scReplaces x = Some i) \<longleftrightarrow> i \<in> set r"
  by (auto simp: CreatePendingContainers_def brand_new_def new_container_def in_set_conv_nth split: if_splits)

lemma number_paired:
  assumes "distinct (map scID cs)" and "paired = min (nat granted) (length r)"
  shows "number (\<lambda>c. \<exists>x\<in>set (CreatePendingContainers sp now (nat granted) (take paired r) cs). scReplaces x = Some (scID c)) cs \<le> int paired"
  using number_ids_le [OF assms(1), of "take paired r"] assms(2) by (subst created_facts(4)) simp_all

lemma active_started:
  assumes "distinct (map scID cs)" and "int (length r) \<le> granted"
  shows "active_of cs + granted - int (length r) \<le> active_of (started sp now cs r granted)"
proof -
  let ?D = "\<lambda>c. goes_now cs c \<and> \<not> scHeld c" and ?new = "CreatePendingContainers sp now (nat granted) r cs"
  have m: "min (nat granted) (length r) = length r" using assms(2) by linarith
  have "number (\<lambda>c. scStage c \<in> {Starting, Ready} \<and> ?D c) cs = number (\<lambda>c. goes_now cs c \<and> ?D c) cs"
    using goes_up by (intro number_cong) blast
  moreover have "number (\<lambda>c. \<exists>x\<in>set ?new. scReplaces x = Some (scID c)) cs \<le> int (length r)"
    using number_paired [OF assms(1) refl, where granted = granted and r = r, unfolded m] by simp
  moreover have "started sp now cs r granted = moved (\<lambda>_. False) ?D cs @ ?new" unfolding started_def Let_def m by simp
  ultimately show ?thesis
    using active_after [OF created_facts(1) [of sp now "nat granted" r cs], of cs "\<lambda>_. False" ?D] assms(2)
    by (simp add: created_facts(2) number_none)
qed

lemma asked_bound: "pairs_of cs desired + grow_of cs desired maximum \<le> int (length (alone_ids cs)) + max 0 (desired - active_of cs)"
  by (auto simp: pairs_of_def grow_of_def)

context shedding
begin

lemma decide_meets_demand:
  assumes "decide admit sp maximum None want shed now cs = Inr (cs', plan)" and "distinct (map scID cs)"
    and "desired = want (leaving_running cs) (active_of cs)"
    and "\<And>n. 0 < n \<Longrightarrow> n \<le> int (length (alone_ids cs)) + max 0 (desired - active_of cs) \<Longrightarrow> \<exists>g. admit (spec_request sp n) = Inr g \<and> grStart g = n"
  shows "min desired (active_of cs + max 0 (maximum - live_of cs)) \<le> active_of cs'"
  using assms(1,2,3) refl
proof (cases rule: decide_outcome)
  case quiet
  let ?n = "pairs_of cs desired + grow_of cs desired maximum"
  have "?n \<le> 0 \<or> (\<exists>g. admit (spec_request sp ?n) = Inr g)"
    using assms(4) [of ?n] asked_bound [of cs desired maximum] by (cases "?n > 0") auto
  then have "?n \<le> 0" using quiet(3) by auto
  moreover have "0 \<le> pairs_of cs desired" by (simp add: pairs_of_def)
  ultimately have "grow_of cs desired maximum \<le> 0" by linarith
  then have "min desired (active_of cs + max 0 (maximum - live_of cs)) \<le> active_of cs" by (auto simp: grow_of_def)
  then show ?thesis using active_gone [of cs] quiet(1) by simp
next
  case (starts g)
  let ?p = "pairs_of cs desired" and ?n = "pairs_of cs desired + grow_of cs desired maximum"
  let ?r = "take (nat ?p) (alone_ids cs)"
  have p: "0 \<le> ?p" "?p \<le> int (length (alone_ids cs))" "0 \<le> grow_of cs desired maximum" by (auto simp: pairs_of_def grow_of_def)
  have "grStart g = ?n" using assms(4) [OF starts(1) asked_bound] starts(2) by auto
  moreover have "int (length ?r) = ?p" using p by simp
  ultimately have "active_of cs + grow_of cs desired maximum \<le> active_of cs'"
    using active_started [OF assms(2), of ?r ?n sp now] p(3) starts(3) by simp
  then show ?thesis by (auto simp: grow_of_def)
next
  case (cuts S D)
  then show ?thesis using active_cut [of "gone cs" S D] active_gone [of cs] by auto
qed

end

subsection \<open>The maximum\<close>

text \<open>No replacement that is still starting leaves its host itself.\<close>

definition no_chains :: "serveContainer list \<Rightarrow> bool" where
  "no_chains cs \<longleftrightarrow> (\<forall>r\<in>set cs. scReplaces r \<noteq> None \<and> scStage r = Starting \<longrightarrow> \<not> container_leaves cs r)"

lemma alone_ids_facts:
  assumes "distinct (map scID cs)"
  shows "distinct (alone_ids cs)" and "set (alone_ids cs) \<subseteq> scID ` set cs" and "c \<in> set cs \<Longrightarrow> scID c \<in> set (alone_ids cs) \<longleftrightarrow> alone cs c"
proof -
  have m: "mset (sort_key age_order cs) = mset cs" by simp
  have "mset (map scID (sort_key age_order cs)) = mset (map scID cs)" by simp
  then have "distinct (map scID (sort_key age_order cs))" using assms by (metis mset_eq_imp_distinct_iff)
  then show "distinct (alone_ids cs)" unfolding alone_ids_def by (rule distinct_map_filter)
  show "set (alone_ids cs) \<subseteq> scID ` set cs" by (auto simp: alone_ids_def)
  show "c \<in> set cs \<Longrightarrow> scID c \<in> set (alone_ids cs) \<longleftrightarrow> alone cs c" unfolding alone_ids_def by (rule chosen_ids [OF assms m])
qed

lemma paired_started:
  assumes d: "distinct (map scID cs)" and "no_chains cs" and r: "r = take k (alone_ids cs)" and p: "paired = min (nat granted) (length r)"
  shows "number (paired_off cs) cs + int paired \<le> number (paired_off (started sp now cs r granted)) (started sp now cs r granted)"
proof -
  let ?D = "\<lambda>c. (goes_now cs c \<or> scID c \<in> set (drop paired r)) \<and> \<not> scHeld c"
  let ?new = "CreatePendingContainers sp now (nat granted) (take paired r) cs"
  let ?cs = "moved (\<lambda>_. False) ?D cs @ ?new"
  have cs: "started sp now cs r granted = ?cs" by (simp add: started_def Let_def p)
  have rd: "distinct r" and sub: "set r \<subseteq> set (alone_ids cs)" using alone_ids_facts(1) [OF d] by (auto simp: r dest: in_set_takeD)
  have alone: "alone cs c" if "c \<in> set cs" "scID c \<in> set r" for c using that sub alone_ids_facts(3) [OF d] by blast
  have D: "goes_now cs c \<or> alone cs c" if "c \<in> set cs" "?D c" for c using that alone by (auto dest: in_set_dropD)
  have new: "replaced ?cs c" if "scID c \<in> set (take paired r)" for c
  proof -
    have "\<exists>x\<in>set ?new. scReplaces x = Some (scID c)" using that p by (subst created_facts(4)) auto
    then show ?thesis using created_facts(1) [of sp now "nat granted" "take paired r" cs] by (auto simp: replaced_def list_ex_iff brand_new_def)
  qed
  have old: "replaced ?cs c" if po: "paired_off cs c" for c
  proof -
    obtain x where x: "x \<in> set cs" "scReplaces x = Some (scID c)" "scStage x \<in> {Pending, Starting}"
      using po by (auto simp: paired_off_def replaced_def list_ex_iff)
    have "\<not> (scStage x = Starting \<and> ?D x)" using D [OF x(1)] assms(2) x by (auto simp: no_chains_def leaving_kinds leaves_now_def)
    then have "x \<in> set (moved (\<lambda>_. False) ?D cs)" using x by (force simp: moved_def)
    then show ?thesis using x by (auto simp: replaced_def list_ex_iff)
  qed
  have "number (\<lambda>c. paired_off cs c \<or> scID c \<in> set (take paired r)) cs
    \<le> number (\<lambda>c. leaves_now cs c \<and> \<not> ?D c \<and> \<not> drains_now cs c \<and> replaced ?cs c) cs"
  proof (rule number_mono)
    fix c assume c: "c \<in> set cs" "paired_off cs c \<or> scID c \<in> set (take paired r)"
    have "set (take paired r) \<inter> set (drop paired r) = {}" using rd by (rule set_take_disj_set_drop_if_distinct) simp
    then show "leaves_now cs c \<and> \<not> ?D c \<and> \<not> drains_now cs c \<and> replaced ?cs c"
      using c D [OF c(1)] old [of c] new [of c] alone [OF c(1)] by (auto simp: leaving_kinds dest: in_set_takeD in_set_dropD)
  qed
  moreover have "number (\<lambda>c. paired_off cs c \<or> scID c \<in> set (take paired r)) cs = number (paired_off cs) cs + number (\<lambda>c. scID c \<in> set (take paired r)) cs"
    using alone by (intro number_or) (auto simp: leaving_kinds dest: in_set_takeD)
  moreover have "number (\<lambda>c. scID c \<in> set (take paired r)) cs = int paired"
    using number_ids [OF d, of "take paired r"] rd sub alone_ids_facts(2) [OF d] p by (auto dest!: in_set_takeD)
  ultimately show ?thesis unfolding cs numbers_after(4) [OF created_facts(1)] by simp
qed

lemma live_started:
  assumes "distinct (map scID cs)" and "no_chains cs" and "r = take k (alone_ids cs)" and "0 \<le> granted"
  shows "live_of (started sp now cs r granted) \<le> live_of cs + granted - min granted (int (length r))"
proof -
  have "number (\<lambda>c. scStage c \<noteq> Stopped) (started sp now cs r granted) = number (\<lambda>c. scStage c \<noteq> Stopped) cs + granted"
    unfolding started_def Let_def numbers_after(2) [OF created_facts(1)] using assms(4) by (simp add: created_facts(2) number_none)
  then show ?thesis
    using paired_started [OF assms(1-3) refl, of granted sp now] assms(4) unfolding live_of_def by (simp add: of_nat_min)
qed

context shedding
begin

lemma decide_within_max:
  assumes "decide admit sp maximum wait want shed now cs = Inr (cs', plan)" and "distinct (map scID cs)" and "no_chains cs"
    and "\<And>n g. admit (spec_request sp n) = Inr g \<Longrightarrow> 0 \<le> grStart g \<and> grStart g \<le> max 0 n" and "rpCreated plan \<noteq> []"
  shows "live_of cs' \<le> max (live_of cs) maximum"
  using assms(1,2) refl refl
proof (cases rule: decide_outcome)
  case (starts g)
  let ?desired = "want (leaving_running cs) (active_of cs)"
  let ?p = "pairs_of cs ?desired" and ?grow = "grow_of cs ?desired maximum"
  have p: "0 \<le> ?p" "?p \<le> int (length (alone_ids cs))" by (auto simp: pairs_of_def)
  have g: "0 \<le> grStart g" "grStart g \<le> ?p + ?grow" using assms(4) [OF starts(2)] starts(1) by auto
  have "int (length (take (nat ?p) (alone_ids cs))) = ?p" using p by simp
  then have "live_of cs' \<le> live_of cs + grStart g - min (grStart g) ?p"
    using live_started [OF assms(2,3) refl g(1)] starts(3) by metis
  also have "\<dots> \<le> live_of cs + ?grow" using g by (auto simp: grow_of_def)
  also have "\<dots> \<le> max (live_of cs) maximum" by (auto simp: grow_of_def)
  finally show ?thesis .
qed (use assms(5) in auto)

end

subsection \<open>What a decision touches\<close>

text \<open>
  Ids are unique, and a container has at most one replacement that is pending or starting.
\<close>

definition standing_in :: "nat \<Rightarrow> serveContainer \<Rightarrow> bool" where
  "standing_in i r \<longleftrightarrow> scReplaces r = Some i \<and> scStage r \<in> {Pending, Starting}"

definition release_ok :: "serveContainer list \<Rightarrow> bool" where
  "release_ok cs \<longleftrightarrow> distinct (map scID cs) \<and> (\<forall>i. number (standing_in i) cs \<le> 1)"

text \<open>
  A legal change: pending containers stop and starting or ready ones drain, those that drain leave their host or may be cut; new ones
  are pending, and replace containers that leave without a replacement, each at most one.
\<close>

definition legal_change :: "(serveContainer \<Rightarrow> bool) \<Rightarrow> serveContainer list \<Rightarrow> serveContainer list \<Rightarrow> bool" where
  "legal_change may cs cs' \<longleftrightarrow>
     (\<exists>S D new. cs' = moved S D cs @ new \<and> brand_new new \<and> distinct (map scID cs')
        \<and> (\<forall>c\<in>set cs. scStage c \<in> {Starting, Ready} \<and> D c \<longrightarrow> leaves_now cs c \<or> may c)
        \<and> (\<forall>i. number (\<lambda>r. scReplaces r = Some i) new \<le> (if i \<in> set (alone_ids cs) then 1 else 0)))"

lemma fresh_id_above: "c \<in> set cs \<Longrightarrow> scID c < fresh_id cs"
  by (induction cs) (auto simp: fresh_id_def)

lemma created_distinct: "distinct (map scID cs) \<Longrightarrow> distinct (map scID (moved S D cs @ CreatePendingContainers sp now n r cs))"
proof -
  assume d: "distinct (map scID cs)"
  have "i < fresh_id cs" if "i \<in> set (map scID cs)" for i using that fresh_id_above by auto
  then have "set (map scID cs) \<inter> set (map (\<lambda>i. fresh_id cs + i) [0..<n]) = {}" by fastforce
  then show ?thesis unfolding map_append moved_ids created_facts(3) distinct_append using d by (simp add: distinct_map inj_on_def)
qed

lemma number_eq_le: "distinct xs \<Longrightarrow> number (\<lambda>x. x = i) xs \<le> (if i \<in> set xs then 1 else 0)"
  by (induction xs) (auto intro: number_none)

lemma created_replaces:
  assumes "length r \<le> n"
  shows "map scReplaces (CreatePendingContainers sp now n r cs) = map Some r @ replicate (n - length r) None"
  using assms by (intro nth_equalityI) (auto simp: CreatePendingContainers_def new_container_def nth_append)

lemma number_created:
  assumes "length r \<le> n" and "distinct r" and "set r \<subseteq> A"
  shows "number (\<lambda>x. scReplaces x = Some i) (CreatePendingContainers sp now n r cs) \<le> (if i \<in> A then 1 else 0)"
proof -
  have "number (\<lambda>x. scReplaces x = Some i) (CreatePendingContainers sp now n r cs)
    = number (\<lambda>x. x = Some i) (map scReplaces (CreatePendingContainers sp now n r cs))" by (simp add: number_map)
  also have "\<dots> = number (\<lambda>x. x = i) r" unfolding created_replaces [OF assms(1)] by (simp add: number_map) (rule number_none, auto)
  finally show ?thesis using number_eq_le [OF assms(2), of i] assms(3) by (auto split: if_splits)
qed

context shedding
begin

lemma decide_created:
  assumes "decide admit sp maximum wait want shed now cs = Inr (cs', plan)" and "distinct (map scID cs)"
  obtains S D new where "cs' = moved S D cs @ new" and "\<forall>c\<in>set new. scGpuCount c = spGpuCount sp \<and> scStage c = Pending"
    and "new = [] \<or> (\<exists>n g. admit (spec_request sp n) = Inr g \<and> grStart g = int (length new))"
  using assms(1,2) refl refl
proof (cases rule: decide_outcome)
  case quiet
  then show ?thesis by (intro that [of "\<lambda>_. False" "\<lambda>c. goes_now cs c \<and> \<not> scHeld c" "[]"]) (simp_all add: gone_def)
next
  case (starts g)
  let ?r = "take (nat (pairs_of cs (want (leaving_running cs) (active_of cs)))) (alone_ids cs)"
  let ?new = "CreatePendingContainers sp now (nat (grStart g)) (take (min (nat (grStart g)) (length ?r)) ?r) cs"
  have len: "length ?new = nat (grStart g)" by (rule created_facts(2))
  have "?new = [] \<or> (\<exists>n g. admit (spec_request sp n) = Inr g \<and> grStart g = int (length ?new))"
  proof (cases "grStart g \<le> 0")
    case True
    then have "length ?new = 0" unfolding len by simp
    then show ?thesis unfolding length_0_conv by (rule disjI1)
  next
    case False
    then have "grStart g = int (length ?new)" unfolding len by simp
    with starts(2) show ?thesis by (intro disjI2 exI conjI)
  qed
  moreover have "\<forall>c\<in>set ?new. scGpuCount c = spGpuCount sp \<and> scStage c = Pending"
    by (auto simp: CreatePendingContainers_def new_container_def)
  ultimately show ?thesis using starts(3) unfolding started_def Let_def by (intro that)
next
  case (cuts S D)
  show ?thesis using cuts(2) by (intro that [of S _ "[]"]) (simp_all add: gone_def moved_moved)
qed

lemma decide_legal:
  assumes "decide admit sp maximum wait want shed now cs = Inr (cs', plan)" and "distinct (map scID cs)"
  shows "legal_change may cs cs'"
  using assms(1,2) refl refl
proof (cases rule: decide_outcome)
  case quiet
  then show ?thesis unfolding legal_change_def
    using assms(2) by (intro exI [of _ "\<lambda>_. False"] exI [of _ "\<lambda>c. goes_now cs c \<and> \<not> scHeld c"] exI [of _ "[]"]) (auto simp: gone_def goes_now_def brand_new_def)
next
  case (starts g)
  let ?r = "take (nat (pairs_of cs (want (leaving_running cs) (active_of cs)))) (alone_ids cs)"
  let ?k = "min (nat (grStart g)) (length ?r)"
  let ?D = "\<lambda>c. (goes_now cs c \<or> scID c \<in> set (drop ?k ?r)) \<and> \<not> scHeld c"
  let ?new = "CreatePendingContainers sp now (nat (grStart g)) (take ?k ?r) cs"
  have cs': "cs' = moved (\<lambda>_. False) ?D cs @ ?new" using starts(3) by (simp add: started_def Let_def)
  have "number (\<lambda>x. scReplaces x = Some i) ?new \<le> (if i \<in> set (alone_ids cs) then 1 else 0)" for i
  proof -
    have "length (take ?k ?r) \<le> nat (grStart g)" "distinct (take ?k ?r)" "set (take ?k ?r) \<subseteq> set (alone_ids cs)"
      using alone_ids_facts(1) [OF assms(2)] by (auto dest!: in_set_takeD)
    then show ?thesis by (rule number_created)
  qed
  moreover have "leaves_now cs c" if "c \<in> set cs" "?D c" for c
    using that alone_ids_facts(3) [OF assms(2) that(1)] by (auto simp: leaving_kinds dest!: in_set_dropD in_set_takeD)
  ultimately show ?thesis unfolding legal_change_def cs'
    using created_facts(1) created_distinct [OF assms(2)] by (intro exI [of _ "\<lambda>_. False"] exI [of _ ?D] exI [of _ ?new]) blast
next
  case (cuts S D)
  let ?D = "\<lambda>c. goes_now cs c \<and> \<not> scHeld c \<or> D c"
  have "cs' = moved S ?D cs @ []" using cuts(2) by (simp add: gone_def moved_moved)
  moreover have "leaves_now cs c \<or> may c" if "c \<in> set cs" "scStage c \<in> {Starting, Ready}" "?D c" for c
  proof (cases "goes_now cs c \<and> \<not> scHeld c")
    case False
    then have "c \<in> set (gone cs)" using that by (force simp: gone_def moved_def)
    then show ?thesis using cuts(4) that False by blast
  qed (simp add: goes_now_def)
  ultimately show ?thesis unfolding legal_change_def
    using assms(2) by (intro exI [of _ S] exI [of _ ?D] exI [of _ "[]"]) (auto simp: brand_new_def)
qed

end

lemma legal_change_ok:
  assumes "legal_change may cs cs'" and "release_ok cs"
  shows "release_ok cs'"
proof -
  obtain S D new where cs': "cs' = moved S D cs @ new" and d: "distinct (map scID cs')"
    and new: "number (\<lambda>r. scReplaces r = Some i) new \<le> (if i \<in> set (alone_ids cs) then 1 else 0)" for i
    using assms(1) unfolding legal_change_def by blast
  have "number (standing_in i) cs' \<le> 1" for i
  proof -
    have old: "number (standing_in i) (moved S D cs) \<le> number (standing_in i) cs"
      unfolding moved_becomes number_map by (rule number_mono) (auto simp: standing_in_def becomes_def split: if_splits)
    have fresh: "number (standing_in i) new \<le> (if i \<in> set (alone_ids cs) then 1 else 0)"
      using new [of i] number_mono [of new "standing_in i" "\<lambda>r. scReplaces r = Some i"] by (simp add: standing_in_def)
    show ?thesis
    proof (cases "i \<in> set (alone_ids cs)")
      case True
      then have "number (standing_in i) cs = 0"
        by (intro number_none) (auto simp: alone_ids_def alone_def replaced_def list_ex_iff standing_in_def)
      then show ?thesis using old fresh True by (simp add: cs')
    next
      case False
      then show ?thesis using old fresh assms(2) number_nonneg [of "standing_in i" new] by (simp add: cs' release_ok_def) (smt (verit, best))
    qed
  qed
  then show ?thesis using d by (simp add: release_ok_def)
qed

end
