(* ===== verification/Admitting.thy ===== *)
theory Admitting
  imports Admission
begin

text \<open>
  What admission guarantees: a grant stays within the plan and is as large as the plan allows, a deploy's refusals say exactly which
  workloads an idle account could not run, and the remedy a refusal names does lift it.
\<close>

lemma named_models_allowed:
  assumes "named_models e fleet allowed named ms = Inr models" and "set allowed \<subseteq> A" and "set named \<subseteq> A"
    and "\<And>m. m \<in> set (enGPUTypes e) \<Longrightarrow> \<not> fleet \<or> GPUEnabled m \<Longrightarrow> m \<in> A"
  shows "set models \<subseteq> A"
  using assms by (induction e fleet allowed named ms rule: named_models.induct) (auto split: if_splits)

lemma gpuModels_entitled_allowed:
  assumes "gpuModels_entitled e requested fleet = Inr models"
  shows "set models \<subseteq> {m \<in> set (enGPUTypes e). fleet \<longrightarrow> GPUEnabled m}"
  using assms unfolding gpuModels_entitled_def Let_def by (rule named_models_allowed) auto

text \<open>The largest number of holders of \<open>k\<close> units each that fits beside \<open>held\<close>.\<close>

lemma room_within:
  fixes k m held n :: int
  assumes "0 < k" and "g = max 0 (min n ((m - held) sdiv k))"
  shows "0 \<le> g" and "g \<le> max 0 n" and "0 < g \<Longrightarrow> held + g * k \<le> m" and "g < n \<Longrightarrow> m < held + (g + 1) * k"
    and "0 \<le> n \<Longrightarrow> g = n \<longleftrightarrow> n = 0 \<or> held + n * k \<le> m"
proof -
  have pos: "(m - held) sdiv k = (m - held) div k" if "held \<le> m"
    using that assms(1) by (simp add: sdiv_div)
  have neg: "(m - held) sdiv k \<le> 0" if "m < held"
    using that assms(1) by (simp add: signed_divide_int_def sgn_if)  (simp add: pos_imp_zdiv_nonneg_iff)
  have fits: "x * k \<le> m - held \<longleftrightarrow> x \<le> (m - held) div k" for x
  proof
    show "x \<le> (m - held) div k" if "x * k \<le> m - held"
      using zdiv_mono1[OF that assms(1)] assms(1) by simp
    show "x * k \<le> m - held" if "x \<le> (m - held) div k"
      using mult_right_mono[OF that, of k] assms(1) div_mult_mod_eq[of "m - held" k] pos_mod_sign[OF assms(1), of "m - held"] by linarith
  qed
  show "0 \<le> g" and "g \<le> max 0 n" using assms(2) by auto
  show "held + g * k \<le> m" if "0 < g"
    using that assms(2) pos neg fits[of g] by (cases "held \<le> m") auto
  show "m < held + (g + 1) * k" if "g < n"
  proof (cases "held \<le> m")
    case True
    then show ?thesis using that assms pos fits[of "g + 1"] by (auto simp: pos_imp_zdiv_nonneg_iff)
  next
    case False
    then show ?thesis using that assms neg by (auto simp: algebra_simps)
  qed
  show "g = n \<longleftrightarrow> n = 0 \<or> held + n * k \<le> m" if "0 \<le> n"
  proof (cases "held \<le> m")
    case True
    then show ?thesis using that assms pos fits[of n] by (auto simp: pos_imp_zdiv_nonneg_iff)
  next
    case False
    moreover have "0 \<le> n * k" using that assms(1) by simp
    ultimately show ?thesis using that assms(2) neg by auto
  qed
qed

text \<open>What holds when a request is granted.\<close>

lemma Admit_granted:
  assumes "Admit linked locked account live req = Inr g"
  obtains c s where "linked = Some c" and "readStanding account = Inr s" and "fundsRefusal s = None"
    and "(if reqGPUs req > 0 \<and> \<not> reqMachine req \<and> \<not> c then unoffered (reqGPUModels req) else None) = None"
    and "\<not> (reqPinned req \<and> \<not> enRegionSelection (sdEntitlements s))"
    and "if reqGPUs req > 0 then gpuModels_entitled (sdEntitlements s) (reqGPUModels req) (\<not> reqMachine req \<and> \<not> c) = Inr (grGPUModels g) else grGPUModels g = []"
    and "if reqStart req = 0 \<and> \<not> reqCold req then grStart g = 0
         else \<exists>lv. live = Some lv \<and>
           (if reqGPUs req > 0 then grStart g = max 0 (min (reqStart req) ((enMaxGPUs (sdEntitlements s) - lvGpus lv) sdiv reqGPUs req))
            else grStart g = max 0 (min (reqStart req) ((enMaxCPUContainers (sdEntitlements s) - lvCpuContainers lv) sdiv 1)))"
proof -
  obtain c where c: "linked = Some c" using assms by (cases linked) (auto simp: Admit_def)
  let ?fleet = "\<not> reqMachine req \<and> \<not> c"
  have u: "(if reqGPUs req > 0 \<and> ?fleet then unoffered (reqGPUModels req) else None) = None" (is "?u = _")
    using assms by (cases ?u) (simp_all only: Admit_def c option.case Let_def sum.distinct)
  have l: "\<not> (reqStart req > 0 \<and> \<not> locked)"
    using assms by (intro notI) (simp only: Admit_def c option.case Let_def u simp_thms if_True sum.distinct)
  obtain s where s: "readStanding account = Inr s"
    using assms by (cases "readStanding account") (simp_all only: Admit_def c option.case Let_def u l if_False sum.case sum.distinct)
  have f: "fundsRefusal s = None"
    using assms by (cases "fundsRefusal s") (simp_all only: Admit_def c option.case Let_def u l s if_False sum.case sum.distinct)
  have p: "\<not> (reqPinned req \<and> \<not> enRegionSelection (sdEntitlements s))"
    using assms by (intro notI) (simp only: Admit_def c option.case Let_def u l s f simp_thms if_False if_True sum.case sum.distinct)
  obtain models where m: "(if reqGPUs req > 0 then gpuModels_entitled (sdEntitlements s) (reqGPUModels req) ?fleet else Inr []) = Inr models"
      (is "?m = _")
    using assms by (cases ?m) (simp_all only: Admit_def c option.case Let_def u l s f p if_False sum.case sum.distinct)
  note rest = assms[unfolded Admit_def Let_def c option.case u l s f p m if_False sum.case]
  have g: "grGPUModels g = models" using rest by (auto split: if_splits option.splits)
  show ?thesis
  proof (rule that[OF c s f u p])
    show "if reqGPUs req > 0 then gpuModels_entitled (sdEntitlements s) (reqGPUModels req) ?fleet = Inr (grGPUModels g) else grGPUModels g = []"
      using m g by (simp split: if_splits)
    show "if reqStart req = 0 \<and> \<not> reqCold req then grStart g = 0
         else \<exists>lv. live = Some lv \<and>
           (if reqGPUs req > 0 then grStart g = max 0 (min (reqStart req) ((enMaxGPUs (sdEntitlements s) - lvGpus lv) sdiv reqGPUs req))
            else grStart g = max 0 (min (reqStart req) ((enMaxCPUContainers (sdEntitlements s) - lvCpuContainers lv) sdiv 1)))"
      using rest by (cases live) (auto split: if_splits)
  qed
qed

lemma Admit_grant:
  assumes "readStanding account = Inr s" and "fundsRefusal s = None" and "reqStart req = 0 \<or> locked"
    and "(if reqGPUs req > 0 \<and> \<not> reqMachine req \<and> \<not> c then unoffered (reqGPUModels req) else None) = None"
    and "\<not> (reqPinned req \<and> \<not> enRegionSelection (sdEntitlements s))"
    and "(if reqGPUs req > 0 then gpuModels_entitled (sdEntitlements s) (reqGPUModels req) (\<not> reqMachine req \<and> \<not> c) else Inr []) = Inr models"
    and "\<not> reqCold req" and "reqStart req \<noteq> 0"
  shows "Admit (Some c) locked account (Some lv) req =
    Inr \<lparr>grStart = (if reqGPUs req > 0 then max 0 (min (reqStart req) ((enMaxGPUs (sdEntitlements s) - lvGpus lv) sdiv reqGPUs req))
                    else max 0 (min (reqStart req) ((enMaxCPUContainers (sdEntitlements s) - lvCpuContainers lv) sdiv 1))),
         grGPUModels = models\<rparr>"
proof -
  have l: "\<not> (reqStart req > 0 \<and> \<not> locked)" using assms(3) by auto
  show ?thesis
    unfolding Admit_def Let_def option.case assms(1,2,4,6) if_not_P[OF l] if_not_P[OF assms(5)] sum.case
    using assms(7,8) by simp
qed

lemma Admit_start_iff:
  assumes "readStanding account = Inr s" and "fundsRefusal s = None" and "\<not> reqCold req" and "reqStart req \<noteq> 0"
  shows "Admit (Some c) True account (Some lv) req = Inr \<lparr>grStart = n, grGPUModels = models\<rparr> \<longleftrightarrow>
    (if reqGPUs req > 0 \<and> \<not> reqMachine req \<and> \<not> c then unoffered (reqGPUModels req) else None) = None \<and>
    \<not> (reqPinned req \<and> \<not> enRegionSelection (sdEntitlements s)) \<and>
    (if reqGPUs req > 0 then gpuModels_entitled (sdEntitlements s) (reqGPUModels req) (\<not> reqMachine req \<and> \<not> c) else Inr []) = Inr models \<and>
    n = (if reqGPUs req > 0 then max 0 (min (reqStart req) ((enMaxGPUs (sdEntitlements s) - lvGpus lv) sdiv reqGPUs req))
         else max 0 (min (reqStart req) ((enMaxCPUContainers (sdEntitlements s) - lvCpuContainers lv) sdiv 1)))" (is "?l \<longleftrightarrow> ?r")
proof
  assume ?l
  then show ?r
  proof (rule Admit_granted, goal_cases)
    case (1 c' s')
    then have "c' = c" "s' = s" using assms(1) by simp_all
    then show ?case using 1(4-7) assms(4) by (auto split: if_splits)
  qed
next
  assume ?r
  then show ?l
    by (elim conjE) (hypsubst, rule Admit_grant[OF assms(1,2)]; (assumption | rule disjI2 TrueI assms(3,4))+)
qed

text \<open>A floor of \<open>n\<close> holders, or one when there is none, is granted by an idle pool just when it fits.\<close>

lemma fits_floor:
  fixes n k pool :: int
  assumes "0 < k" and "w = max 1 n"
  shows "w = max 0 (min w (pool sdiv k)) \<longleftrightarrow> k \<le> pool \<and> n * k \<le> pool"
proof -
  have "max 0 (min w ((pool - 0) sdiv k)) = w \<longleftrightarrow> w * k \<le> pool"
    using room_within(5)[OF assms(1) refl, of w pool 0] assms(2) by auto
  moreover have "w * k \<le> pool \<longleftrightarrow> k \<le> pool \<and> n * k \<le> pool"
  proof (cases "n \<le> 1")
    case True
    then have "n * k \<le> 1 * k" using assms(1) by (intro mult_right_mono) simp_all
    then have "n * k \<le> k" by (simp only: mult_1)
    then show ?thesis using True assms(2) by (metis max.absorb1 mult_1 order_trans)
  next
    case False
    then have "1 * k \<le> n * k" using assms(1) by (intro mult_right_mono) simp_all
    then have "k \<le> n * k" by (simp only: mult_1)
    then show ?thesis using False assms(2) by (metis linorder_le_cases max.absorb2 order_trans)
  qed
  ultimately show ?thesis by auto
qed

lemma Plans_limits: "p \<in> set Plans \<Longrightarrow> 1 \<le> enMaxCPUContainers (plEntitlements p) \<and> 1 \<le> enMaxGPUs (plEntitlements p)"
  by (auto simp: Plans_def Let_def)

lemma found_plan: "planOfTerms v = Inr p \<Longrightarrow> p \<in> set Plans \<and> plTerms p = v" "PlanFor i = Inr p \<Longrightarrow> p \<in> set Plans \<and> plID p = i"
  by (auto simp: planOfTerms_def PlanFor_def find_Some_iff split: option.splits)

lemma accountEntitlements_limits:
  "p \<in> set Plans \<Longrightarrow> accountEntitlements p withCard free = Inr e \<Longrightarrow> 1 \<le> enMaxCPUContainers e \<and> 1 \<le> enMaxGPUs e"
  by (auto simp: accountEntitlements_def Let_def noCardMaxCPUContainers_def noCardMaxGPUs_def Plans_limits
      dest: found_plan(2) split: if_splits sum.splits)

lemma readStanding_reads:
  assumes "readStanding found = Inr s"
  obtains row where "found = Some row" and "planOfTerms (asTermsVersion row) = Inr (sdPlan s)"
    and "accountEntitlements (sdPlan s) (sdHasCard s) (sdComplimentary s) = Inr (sdEntitlements s)"
    and "sdHasCard s = (asPaymentMethodAttachedAt row \<noteq> None)" and "sdComplimentary s = (asComplimentarySince row \<noteq> None)"
  using assms by (auto simp: readStanding_def Let_def split: option.splits sum.splits if_splits)

lemma standing_limits:
  assumes "readStanding found = Inr s"
  shows "1 \<le> enMaxCPUContainers (sdEntitlements s)" and "1 \<le> enMaxGPUs (sdEntitlements s)"
proof -
  obtain row :: AccountStandingRow where "planOfTerms (asTermsVersion row) = Inr (sdPlan s)"
    and "accountEntitlements (sdPlan s) (sdHasCard s) (sdComplimentary s) = Inr (sdEntitlements s)"
    by (rule readStanding_reads[OF assms]) blast
  then show "1 \<le> enMaxCPUContainers (sdEntitlements s)" and "1 \<le> enMaxGPUs (sdEntitlements s)"
    using accountEntitlements_limits[of "sdPlan s"] found_plan(1) by blast+
qed

text \<open>
  C16: A grant is within the plan and as large as the plan allows: the account can pay, the containers that may start fit in its pool
  beside the live ones, one container more than granted would not fit when fewer than asked were granted, and the models it grants
  are among the account's, and on the platform fleet among those the fleet offers.
\<close>

theorem Admit_within_plan:
  assumes "Admit (Some c) locked account (Some lv) req = Inr g"
  shows "\<exists>s. readStanding account = Inr s \<and> fundsRefusal s = None \<and>
    (let e = sdEntitlements s;
         (held, each, pool) = (if reqGPUs req > 0 then (lvGpus lv, reqGPUs req, enMaxGPUs e) else (lvCpuContainers lv, 1, enMaxCPUContainers e))
     in 0 \<le> grStart g \<and> grStart g \<le> max 0 (reqStart req)
        \<and> (grStart g > 0 \<longrightarrow> held + grStart g * each \<le> pool)
        \<and> (grStart g < reqStart req \<longrightarrow> pool < held + (grStart g + 1) * each)
        \<and> set (grGPUModels g) \<subseteq> {m \<in> set (enGPUTypes e). \<not> reqMachine req \<and> \<not> c \<longrightarrow> GPUEnabled m})"
proof -
  obtain c' s where c: "Some c = Some c'" and s: "readStanding account = Inr s" "fundsRefusal s = None"
    and models: "if reqGPUs req > 0 then gpuModels_entitled (sdEntitlements s) (reqGPUModels req) (\<not> reqMachine req \<and> \<not> c') = Inr (grGPUModels g)
                 else grGPUModels g = []"
    and start: "if reqStart req = 0 \<and> \<not> reqCold req then grStart g = 0
       else \<exists>l. Some lv = Some l \<and>
         (if reqGPUs req > 0 then grStart g = max 0 (min (reqStart req) ((enMaxGPUs (sdEntitlements s) - lvGpus l) sdiv reqGPUs req))
          else grStart g = max 0 (min (reqStart req) ((enMaxCPUContainers (sdEntitlements s) - lvCpuContainers l) sdiv 1)))"
    by (rule Admit_granted[OF assms]) blast
  define e where "e = sdEntitlements s"
  obtain held each pool where h: "(held, each, pool) = (if reqGPUs req > 0 then (lvGpus lv, reqGPUs req, enMaxGPUs e) else (lvCpuContainers lv, 1, enMaxCPUContainers e))"
    by (cases "reqGPUs req > 0") auto
  have each: "0 < each" using h by (auto split: if_splits)
  have cases: "reqStart req = 0 \<and> grStart g = 0 \<or> grStart g = max 0 (min (reqStart req) ((pool - held) sdiv each))"
    using start h by (cases "reqGPUs req > 0"; cases "reqStart req = 0 \<and> \<not> reqCold req") (simp_all only: e_def prod.inject if_True if_False option.inject simp_thms ex_simps)
  from cases have "0 \<le> grStart g \<and> grStart g \<le> max 0 (reqStart req) \<and> (grStart g > 0 \<longrightarrow> held + grStart g * each \<le> pool)
    \<and> (grStart g < reqStart req \<longrightarrow> pool < held + (grStart g + 1) * each)"
  proof
    assume "grStart g = max 0 (min (reqStart req) ((pool - held) sdiv each))"
    from room_within(1-4)[OF each this] show ?thesis by simp
  qed simp
  moreover have "set (grGPUModels g) \<subseteq> {m \<in> set (enGPUTypes e). \<not> reqMachine req \<and> \<not> c \<longrightarrow> GPUEnabled m}"
    using models c gpuModels_entitled_allowed[of e] by (auto simp: e_def split: if_splits)
  ultimately show ?thesis
    using s by (intro exI[of _ s]) (simp only: Let_def e_def[symmetric] h[symmetric] prod.case simp_thms, blast)
qed

text \<open>A free account without a card: ten containers at most, of which three run.\<close>

definition small_account :: AccountStandingRow where
  "small_account = \<lparr>asTermsVersion = TermsFree, asStatus = ''active'', asPaymentMethodAttachedAt = None, asComplimentarySince = None,
     asMonthlyLimit = Some 9000, asBalanceNanos = 5000, asAccruedNanos = 100, asMonthStartedAt = utc_date 2026 10 1 0 0 0 0,
     asMonthSpentNanos = 300, asPlanChangePending = False, asScheduledTerms = None, asNow = utc_date 2026 10 9 8 0 0 0\<rparr>"

definition twelve_containers :: Request where
  "twelve_containers = \<lparr>reqStart = 12, reqCold = True, reqGPUs = 0, reqGPUModels = [], reqPinned = False, reqMachine = False\<rparr>"

lemma small_account_grant:
  "Admit (Some False) True (Some small_account) (Some \<lparr>lvCpuContainers = 3, lvGpus = 0\<rparr>) twelve_containers = Inr \<lparr>grStart = 7, grGPUModels = []\<rparr>"
  by code_simp

theorem Admit_within_plan_witness:
  "\<exists>s. readStanding (Some small_account) = Inr s \<and> fundsRefusal s = None \<and> 3 + 7 * 1 \<le> enMaxCPUContainers (sdEntitlements s)
     \<and> enMaxCPUContainers (sdEntitlements s) < 3 + (7 + 1) * 1"
  using Admit_within_plan[OF small_account_grant] by (auto simp: twelve_containers_def Let_def)

lemma Refusals_none:
  "Refusals s c d = [] \<longleftrightarrow>
     \<not> (dePinned d \<and> \<not> enRegionSelection (sdEntitlements s)) \<and>
     (if deGPUs d = 0 then deMinContainers d \<le> enMaxCPUContainers (sdEntitlements s)
      else (\<not> deMachine d \<and> \<not> c \<longrightarrow> unoffered (deGPUModels d) = None) \<and>
           (\<exists>models. gpuModels_entitled (sdEntitlements s) (deGPUModels d) (\<not> deMachine d \<and> \<not> c) = Inr models) \<and>
           deGPUs d \<le> enMaxGPUs (sdEntitlements s) \<and> deMinContainers d * deGPUs d \<le> enMaxGPUs (sdEntitlements s))"
  by (cases "gpuModels_entitled (sdEntitlements s) (deGPUModels d) (\<not> deMachine d \<and> \<not> c)")
     (auto simp: Refusals_def Let_def)

lemma DeclaredBy_GPUs: "0 \<le> deGPUs (DeclaredBy r p a)"
  by (auto simp: DeclaredBy_def Let_def split: option.splits)

text \<open>
  C8: The refusals of a deploy say exactly what its account could not run. For a workload that declares a warm floor, on an account
  that can pay and runs nothing, the plan rules give no refusal just when admission grants all the containers of the floor, or one
  container when there is no floor.
\<close>

theorem Refusals_exact:
  assumes "readStanding account = Inr s" and "fundsRefusal s = None" and "d = DeclaredBy resources placement autoscaler"
    and "0 \<le> deMinContainers d"
  defines "wanted \<equiv> max 1 (deMinContainers d)"
  shows "Refusals s c d = [] \<longleftrightarrow>
    (\<exists>models. Admit (Some c) True account (Some \<lparr>lvCpuContainers = 0, lvGpus = 0\<rparr>) ((Declared_Request d)\<lparr>reqStart := wanted\<rparr>) =
       Inr \<lparr>grStart = wanted, grGPUModels = models\<rparr>)"
proof -
  let ?req = "(Declared_Request d)\<lparr>reqStart := wanted\<rparr>" and ?e = "sdEntitlements s" and ?idle = "\<lparr>lvCpuContainers = 0, lvGpus = 0\<rparr>"
  have w: "1 \<le> wanted" by (simp add: wanted_def)
  have g: "0 \<le> deGPUs d" using assms(3) by (simp add: DeclaredBy_GPUs)
  have grants: "wanted = max 0 (min wanted (pool sdiv k)) \<longleftrightarrow> k \<le> pool \<and> deMinContainers d * k \<le> pool" if "0 < k" for k pool :: int
    using fits_floor[OF that refl, of "deMinContainers d" pool] by (simp add: wanted_def)
  have "(\<exists>models. Admit (Some c) True account (Some ?idle) ?req = Inr \<lparr>grStart = wanted, grGPUModels = models\<rparr>) \<longleftrightarrow>
    (if deGPUs d > 0 \<and> \<not> deMachine d \<and> \<not> c then unoffered (deGPUModels d) else None) = None \<and>
    \<not> (dePinned d \<and> \<not> enRegionSelection ?e) \<and>
    (\<exists>models. (if deGPUs d > 0 then gpuModels_entitled ?e (deGPUModels d) (\<not> deMachine d \<and> \<not> c) else Inr []) = Inr models) \<and>
    wanted = (if deGPUs d > 0 then max 0 (min wanted (enMaxGPUs ?e sdiv deGPUs d)) else max 0 (min wanted (enMaxCPUContainers ?e sdiv 1)))"
    using w by (simp add: Admit_start_iff[OF assms(1,2)] Declared_Request_def)
  also have "\<dots> \<longleftrightarrow> Refusals s c d = []"
    using g grants[of 1 "enMaxCPUContainers ?e"] grants[of "deGPUs d" "enMaxGPUs ?e"] standing_limits(1)[OF assms(1)]
    by (cases "deGPUs d = 0") (auto simp add: Refusals_none)
  finally show ?thesis ..
qed

definition pinned_pair :: Declared where
  "pinned_pair = DeclaredBy (Some \<lparr>rsGpu = Some [''L4''], rsGpuCount = None\<rparr>) None (Some (Some 2))"

lemma small_account_stands: "\<exists>s. readStanding (Some small_account) = Inr s \<and> fundsRefusal s = None \<and> Refusals s False pinned_pair \<noteq> []"
proof -
  have "(case readStanding (Some small_account) of Inr s \<Rightarrow> fundsRefusal s = None \<and> Refusals s False pinned_pair \<noteq> [] | Inl _ \<Rightarrow> False)"
    by code_simp
  then show ?thesis by (auto split: sum.splits)
qed

theorem Refusals_exact_witness:
  "\<nexists>models. Admit (Some False) True (Some small_account) (Some \<lparr>lvCpuContainers = 0, lvGpus = 0\<rparr>) ((Declared_Request pinned_pair)\<lparr>reqStart := 2\<rparr>) =
     Inr \<lparr>grStart = 2, grGPUModels = models\<rparr>"
proof -
  obtain s where s: "readStanding (Some small_account) = Inr s" "fundsRefusal s = None" "Refusals s False pinned_pair \<noteq> []"
    using small_account_stands by blast
  have two: "max 1 (deMinContainers pinned_pair) = 2" by code_simp
  have floor: "0 \<le> deMinContainers pinned_pair" by code_simp
  show ?thesis
    using Refusals_exact[OF s(1,2) pinned_pair_def floor, of False] s(3) unfolding two by simp
qed

lemma planOfTerms_found: "\<exists>p. planOfTerms v = Inr p"
  by (cases v) (simp_all add: planOfTerms_def Plans_def Let_def)

lemma planOfTerms_plan: "p \<in> set Plans \<Longrightarrow> planOfTerms (plTerms p) = Inr p"
  by (auto simp: planOfTerms_def Plans_def Let_def)

lemma standing_with_card:
  assumes "asComplimentarySince row = None" and "asPaymentMethodAttachedAt row = Some t" and "planOfTerms (asTermsVersion row) = Inr p"
  shows "\<exists>s. readStanding (Some row) = Inr s \<and> sdEntitlements s = plEntitlements p"
proof (cases "asScheduledTerms row")
  case None
  then show ?thesis using assms by (simp add: readStanding_def accountEntitlements_def Let_def)
next
  case (Some v)
  then show ?thesis using assms planOfTerms_found[of v] by (auto simp: readStanding_def accountEntitlements_def Let_def)
qed

lemma plans_above_first:
  assumes "own \<in> set Plans"
  shows "case plans_above (plID own) False Plans allows of
      UpgradeTo i \<Rightarrow> \<exists>p \<in> set Plans. plID p = i \<and> plMonthlyNanos own < plMonthlyNanos p \<and> allows (plEntitlements p)
        \<and> (\<forall>q \<in> set Plans. plMonthlyNanos own < plMonthlyNanos q \<and> plMonthlyNanos q < plMonthlyNanos p \<longrightarrow> \<not> allows (plEntitlements q))
    | AddPaymentMethod \<Rightarrow> False
    | Otherwise \<Rightarrow> \<forall>q \<in> set Plans. plMonthlyNanos own < plMonthlyNanos q \<longrightarrow> \<not> allows (plEntitlements q)"
  using assms by (auto simp: Plans_def Let_def NanosPerUSD_def)

text \<open>
  C21: The remedy a refusal names lifts it. After the payment method it asks for, or the upgrade it names, the account's entitlements
  allow what was refused, and no cheaper plan above the account's own does; a refusal that names neither is of an account that no
  payment method and no plan above its own would help, or that is complimentary.
\<close>

theorem lift_remedy_lifts:
  assumes "readStanding (Some row) = Inr s"
  shows "case lift_remedy s allows of
      AddPaymentMethod \<Rightarrow> \<exists>s'. readStanding (Some (row\<lparr>asPaymentMethodAttachedAt := Some t\<rparr>)) = Inr s' \<and> allows (sdEntitlements s')
    | UpgradeTo i \<Rightarrow> \<exists>p \<in> set Plans. plID p = i \<and> plMonthlyNanos (sdPlan s) < plMonthlyNanos p
        \<and> (\<exists>s'. readStanding (Some (row\<lparr>asTermsVersion := plTerms p, asPaymentMethodAttachedAt := Some t\<rparr>)) = Inr s'
              \<and> allows (sdEntitlements s'))
        \<and> (\<forall>q \<in> set Plans. plMonthlyNanos (sdPlan s) < plMonthlyNanos q \<and> plMonthlyNanos q < plMonthlyNanos p \<longrightarrow> \<not> allows (plEntitlements q))
    | Otherwise \<Rightarrow> sdComplimentary s
        \<or> (sdHasCard s \<or> \<not> allows (plEntitlements (sdPlan s)))
          \<and> (\<forall>q \<in> set Plans. plMonthlyNanos (sdPlan s) < plMonthlyNanos q \<longrightarrow> \<not> allows (plEntitlements q))"
proof (cases "sdComplimentary s")
  case True
  then show ?thesis by (simp add: lift_remedy_def)
next
  case False
  from assms have own: "planOfTerms (asTermsVersion row) = Inr (sdPlan s)" and free: "asComplimentarySince row = None"
    using False by (auto elim: readStanding_reads)
  have above: "case plans_above (plID (sdPlan s)) False Plans allows of
      UpgradeTo i \<Rightarrow> \<exists>p \<in> set Plans. plID p = i \<and> plMonthlyNanos (sdPlan s) < plMonthlyNanos p \<and> allows (plEntitlements p)
        \<and> (\<forall>q \<in> set Plans. plMonthlyNanos (sdPlan s) < plMonthlyNanos q \<and> plMonthlyNanos q < plMonthlyNanos p \<longrightarrow> \<not> allows (plEntitlements q))
    | AddPaymentMethod \<Rightarrow> False
    | Otherwise \<Rightarrow> \<forall>q \<in> set Plans. plMonthlyNanos (sdPlan s) < plMonthlyNanos q \<longrightarrow> \<not> allows (plEntitlements q)"
    using found_plan(1)[OF own] by (intro plans_above_first) simp
  show ?thesis
  proof (cases "\<not> sdHasCard s \<and> allows (plEntitlements (sdPlan s))")
    case True
    with False own free show ?thesis
      using standing_with_card[of "row\<lparr>asPaymentMethodAttachedAt := Some t\<rparr>" t "sdPlan s"] by (auto simp: lift_remedy_def)
  next
    case card: False
    show ?thesis
    proof (cases "plans_above (plID (sdPlan s)) False Plans allows")
      case (UpgradeTo i)
      with above obtain p where p: "p \<in> set Plans" "plID p = i" "plMonthlyNanos (sdPlan s) < plMonthlyNanos p" "allows (plEntitlements p)"
        "\<forall>q \<in> set Plans. plMonthlyNanos (sdPlan s) < plMonthlyNanos q \<and> plMonthlyNanos q < plMonthlyNanos p \<longrightarrow> \<not> allows (plEntitlements q)"
        by auto
      have "\<exists>s'. readStanding (Some (row\<lparr>asTermsVersion := plTerms p, asPaymentMethodAttachedAt := Some t\<rparr>)) = Inr s' \<and> sdEntitlements s' = plEntitlements p"
        using standing_with_card free planOfTerms_plan[OF p(1)] by simp
      then show ?thesis using p False card UpgradeTo by (auto simp: lift_remedy_def)
    qed (use above False card in \<open>auto simp: lift_remedy_def\<close>)
  qed
qed

lemma small_account_remedy:
  "\<exists>s. readStanding (Some small_account) = Inr s \<and> lift_remedy s enRegionSelection = UpgradeTo PlanTeam"
proof -
  have "(case readStanding (Some small_account) of Inr s \<Rightarrow> lift_remedy s enRegionSelection = UpgradeTo PlanTeam | Inl _ \<Rightarrow> False)"
    by code_simp
  then show ?thesis by (auto split: sum.splits)
qed

theorem lift_remedy_lifts_witness:
  "\<exists>p \<in> set Plans. plID p = PlanTeam \<and>
     (\<exists>s'. readStanding (Some (small_account\<lparr>asTermsVersion := plTerms p, asPaymentMethodAttachedAt := Some 0\<rparr>)) = Inr s' \<and> enRegionSelection (sdEntitlements s'))"
proof -
  obtain s where s: "readStanding (Some small_account) = Inr s" "lift_remedy s enRegionSelection = UpgradeTo PlanTeam"
    using small_account_remedy by blast
  from lift_remedy_lifts[OF s(1), where allows = enRegionSelection and t = 0] show ?thesis unfolding s(2) by auto
qed

lemma standing_fits_both:
  assumes "asComplimentarySince row = None" and "v = asTermsVersion row \<or> asScheduledTerms row = Some v" and "planOfTerms v = Inr p"
    and "readStanding (Some row) = Inr s"
  shows "liUnlimited (enMaxWorkspaces (sdLimits s)) \<or> n < liMax (enMaxWorkspaces (sdLimits s)) \<Longrightarrow>
      liUnlimited (enMaxWorkspaces (plEntitlements p)) \<or> n < liMax (enMaxWorkspaces (plEntitlements p))"
    and "liUnlimited (enMaxMembers (sdLimits s)) \<or> n < liMax (enMaxMembers (sdLimits s)) \<Longrightarrow>
      liUnlimited (enMaxMembers (plEntitlements p)) \<or> n < liMax (enMaxMembers (plEntitlements p))"
proof -
  obtain own e where own: "planOfTerms (asTermsVersion row) = Inr own"
    and e: "accountEntitlements own (asPaymentMethodAttachedAt row \<noteq> None) False = Inr e"
    and keeps: "enMaxWorkspaces e = enMaxWorkspaces (plEntitlements own)" "enMaxMembers e = enMaxMembers (plEntitlements own)"
    using planOfTerms_found[of "asTermsVersion row"] by (auto simp: accountEntitlements_def Let_def)
  have "enMaxWorkspaces (sdLimits s) = enMaxWorkspaces (plEntitlements own) \<and> enMaxMembers (sdLimits s) = enMaxMembers (plEntitlements own) \<and> p = own
    \<or> (\<exists>later. enMaxWorkspaces (sdLimits s) = stricter (enMaxWorkspaces (plEntitlements own)) (enMaxWorkspaces (plEntitlements later))
        \<and> enMaxMembers (sdLimits s) = stricter (enMaxMembers (plEntitlements own)) (enMaxMembers (plEntitlements later)) \<and> (p = own \<or> p = later))"
    using assms own e keeps by (cases "asScheduledTerms row") (auto simp: readStanding_def Let_def split: sum.splits)
  then show "liUnlimited (enMaxWorkspaces (sdLimits s)) \<or> n < liMax (enMaxWorkspaces (sdLimits s)) \<Longrightarrow>
      liUnlimited (enMaxWorkspaces (plEntitlements p)) \<or> n < liMax (enMaxWorkspaces (plEntitlements p))"
    and "liUnlimited (enMaxMembers (sdLimits s)) \<or> n < liMax (enMaxMembers (sdLimits s)) \<Longrightarrow>
      liUnlimited (enMaxMembers (plEntitlements p)) \<or> n < liMax (enMaxMembers (plEntitlements p))"
    by (auto simp: stricter_def split: if_splits)
qed

text \<open>
  A workspace and a member that are let in fit in the account's plan, and while a cheaper plan is scheduled in that one too, so
  the account is within its limits when the change applies.
\<close>

theorem additions_fit_both_plans:
  assumes "asComplimentarySince row = None" and "v = asTermsVersion row \<or> asScheduledTerms row = Some v" and "planOfTerms v = Inr p"
  shows "(AdmitWorkspace (Some n) (Some row) = None \<and> n \<noteq> 0 \<longrightarrow>
      liUnlimited (enMaxWorkspaces (plEntitlements p)) \<or> n < liMax (enMaxWorkspaces (plEntitlements p))) \<and>
    (AdmitMember (Some row) (Some False) (Some m) (Some k) invited = None \<longrightarrow>
      liUnlimited (enMaxMembers (plEntitlements p)) \<or> (if invited then m + k else m) < liMax (enMaxMembers (plEntitlements p)))"
proof (cases "readStanding (Some row)")
  case (Inr s)
  have "liUnlimited (enMaxWorkspaces (sdLimits s)) \<or> n < liMax (enMaxWorkspaces (sdLimits s))"
    if "AdmitWorkspace (Some n) (Some row) = None \<and> n \<noteq> 0"
    using that Inr by (auto simp: AdmitWorkspace_def Let_def split: if_splits)
  moreover have "liUnlimited (enMaxMembers (sdLimits s)) \<or> (if invited then m + k else m) < liMax (enMaxMembers (sdLimits s))"
    if "AdmitMember (Some row) (Some False) (Some m) (Some k) invited = None"
    using that Inr by (auto simp: AdmitMember_def Let_def split: if_splits)
  ultimately show ?thesis using standing_fits_both[OF assms Inr] by blast
qed (simp add: AdmitWorkspace_def AdmitMember_def)

definition leaving_business :: AccountStandingRow where
  "leaving_business = small_account\<lparr>asTermsVersion := TermsBusiness, asPaymentMethodAttachedAt := Some 0, asScheduledTerms := Some TermsTeam\<rparr>"

theorem additions_fit_both_plans_witness:
  "AdmitMember (Some leaving_business) (Some False) (Some 1) (Some 1) True = None \<and>
     (case planOfTerms TermsTeam of Inr p \<Rightarrow> liUnlimited (enMaxMembers (plEntitlements p)) \<or> 2 < liMax (enMaxMembers (plEntitlements p)) | Inl _ \<Rightarrow> False)"
proof -
  have a: "AdmitMember (Some leaving_business) (Some False) (Some 1) (Some 1) True = None" by code_simp
  obtain p where p: "planOfTerms TermsTeam = Inr p" using planOfTerms_found by blast
  have "asComplimentarySince leaving_business = None" and "asScheduledTerms leaving_business = Some TermsTeam"
    by (simp_all add: leaving_business_def small_account_def)
  then show ?thesis
    using additions_fit_both_plans[of leaving_business TermsTeam p 1 1 1 True] p a by simp
qed

end
