(* ===== verification/PlanPasses.thy ===== *)
theory PlanPasses
  imports Planning Admitting
begin

text \<open>
  The promises of planning, with admission as billing decides it: decisions of one release, whole passes, and the pools of an account.
\<close>

subsection \<open>Admission as planning uses it\<close>

lemma Admit_grant_bounds: "Admit linked locked account live req = Inr g \<Longrightarrow> 0 \<le> grStart g \<and> grStart g \<le> max 0 (reqStart req)"
  by (erule Admit_granted) (auto split: if_splits)

lemma Admit_pool:
  assumes "Admit linked locked account (Some lv) req = Inr g" and "0 < grStart g"
  obtains s where "readStanding account = Inr s"
    and "if reqGPUs req > 0 then lvGpus lv + grStart g * reqGPUs req \<le> enMaxGPUs (sdEntitlements s)
         else lvCpuContainers lv + grStart g \<le> enMaxCPUContainers (sdEntitlements s)"
proof (rule Admit_granted [OF assms(1)])
  fix c s
  assume s: "readStanding account = Inr s"
    and start: "if reqStart req = 0 \<and> \<not> reqCold req then grStart g = 0
         else \<exists>l. Some lv = Some l \<and>
           (if reqGPUs req > 0 then grStart g = max 0 (min (reqStart req) ((enMaxGPUs (sdEntitlements s) - lvGpus l) sdiv reqGPUs req))
            else grStart g = max 0 (min (reqStart req) ((enMaxCPUContainers (sdEntitlements s) - lvCpuContainers l) sdiv 1)))"
  have "if reqGPUs req > 0 then lvGpus lv + grStart g * reqGPUs req \<le> enMaxGPUs (sdEntitlements s)
         else lvCpuContainers lv + grStart g * 1 \<le> enMaxCPUContainers (sdEntitlements s)"
    using start assms(2) room_within(3) [of "reqGPUs req" "grStart g" "reqStart req" "enMaxGPUs (sdEntitlements s)" "lvGpus lv"]
      room_within(3) [of 1 "grStart g" "reqStart req" "enMaxCPUContainers (sdEntitlements s)" "lvCpuContainers lv"]
    by (cases "reqStart req = 0 \<and> \<not> reqCold req"; cases "reqGPUs req > 0") simp_all
  with s show thesis by (intro that) (simp_all split: if_splits)
qed

lemma spec_request_simps [simp]: "reqStart (spec_request sp n) = n" "reqGPUs (spec_request sp n) = spGpuCount sp"
  by (simp_all add: spec_request_def)

subsection \<open>One release\<close>

lemma planRelease_decide:
  assumes "planRelease admit now row cs = Inr (cs', plan)" and "distinct (map scID cs)"
  shows "decide admit (prSpec row) (prMaxContainers row) (holdStart now (prStartFailures row) (prLastStoppedAt row))
      (\<lambda>r _. function_desired row r) (cut_idle now (prKeepWarmSeconds row)) now cs = Inr (cs', plan)"
  using assms(1) unfolding planRelease_decides [OF assms(2)] by (simp split: if_splits)

lemma planServing_decide:
  assumes "planServing admit now row cs = Inr (cs', plan)" and "distinct (map scID cs)"
  shows "decide admit (svSpec row) (serving_max row) (holdStart now (svStartFailures row) (svLastStoppedAt row))
      (\<lambda>_ active. servingDesired row active) cut_newest now cs = Inr (cs', plan)"
  using assms(1) unfolding planServing_decides [OF assms(2)] by (simp split: if_splits)


text \<open>
  C9: Planning follows demand. When the account grants what is asked and no failed start holds the release back, the active containers
  after a plan are as many as desired, or as many as the room under the maximum allows; containers are cut only down to the number desired.
\<close>

theorem plans_meet_demand:
  assumes "distinct (map scID cs)"
  shows "(planRelease admit now row cs = Inr (cs', plan) \<and> holdStart now (prStartFailures row) (prLastStoppedAt row) = None
      \<and> (\<forall>n \<in> {1..int (length (alone_ids cs)) + max 0 (function_desired row (leaving_running cs) - active_of cs)}.
           \<exists>g. admit (spec_request (prSpec row) n) = Inr g \<and> grStart g = n)
      \<longrightarrow> min (function_desired row (leaving_running cs)) (active_of cs + max 0 (prMaxContainers row - live_of cs)) \<le> active_of cs')
    \<and> (planServing admit now srow cs = Inr (cs', plan) \<and> holdStart now (svStartFailures srow) (svLastStoppedAt srow) = None
      \<and> (\<forall>n \<in> {1..int (length (alone_ids cs)) + max 0 (servingDesired srow (active_of cs) - active_of cs)}.
           \<exists>g. admit (spec_request (svSpec srow) n) = Inr g \<and> grStart g = n)
      \<longrightarrow> min (servingDesired srow (active_of cs)) (active_of cs + max 0 (serving_max srow - live_of cs)) \<le> active_of cs')"
proof (intro conjI impI; elim conjE)
  assume p: "planRelease admit now row cs = Inr (cs', plan)" and h: "holdStart now (prStartFailures row) (prLastStoppedAt row) = None"
    and g: "\<forall>n \<in> {1..int (length (alone_ids cs)) + max 0 (function_desired row (leaving_running cs) - active_of cs)}.
           \<exists>g. admit (spec_request (prSpec row) n) = Inr g \<and> grStart g = n"
  show "min (function_desired row (leaving_running cs)) (active_of cs + max 0 (prMaxContainers row - live_of cs)) \<le> active_of cs'"
    by (rule idle.decide_meets_demand [OF planRelease_decide [OF p assms, unfolded h] assms refl]) (use g in auto)
next
  assume p: "planServing admit now srow cs = Inr (cs', plan)" and h: "holdStart now (svStartFailures srow) (svLastStoppedAt srow) = None"
    and g: "\<forall>n \<in> {1..int (length (alone_ids cs)) + max 0 (servingDesired srow (active_of cs) - active_of cs)}.
           \<exists>g. admit (spec_request (svSpec srow) n) = Inr g \<and> grStart g = n"
  show "min (servingDesired srow (active_of cs)) (active_of cs + max 0 (serving_max srow - live_of cs)) \<le> active_of cs'"
    by (rule newest.decide_meets_demand [OF planServing_decide [OF p assms, unfolded h] assms refl]) (use g in auto)
qed

text \<open>
  A plan of a function's release leaves work alone: a container is as it was, or was pending and stops, or drains, and then it
  leaves its host or ran no attempt and was idle for longer than the release keeps it warm.
\<close>

theorem planRelease_spares_work:
  assumes "planRelease admit now row cs = Inr (cs', plan)" and "distinct (map scID cs)" and "c \<in> set cs"
  shows "distinct (map scID cs') \<and> (\<exists>c' \<in> set cs'. c' = c
    \<or> scStage c = Pending \<and> c' = c\<lparr>scStage := Stopped\<rparr>
    \<or> scStage c \<in> {Starting, Ready} \<and> c' = c\<lparr>scStage := Draining\<rparr> \<and> (leaves_now cs c \<or> idle_past now (prKeepWarmSeconds row) c))"
proof -
  have "legal_change (idle_past now (prKeepWarmSeconds row)) cs cs'"
    by (rule idle.decide_legal [OF planRelease_decide [OF assms(1,2)] assms(2)])
  then obtain S D new where "cs' = map (becomes S D) cs @ new" "distinct (map scID cs')"
    and "\<forall>c\<in>set cs. scStage c \<in> {Starting, Ready} \<and> D c \<longrightarrow> leaves_now cs c \<or> idle_past now (prKeepWarmSeconds row) c"
    unfolding legal_change_def moved_becomes by blast
  then show ?thesis using assms(3) by (intro conjI bexI [of _ "becomes S D c"]) (auto simp: becomes_def)
qed

subsection \<open>Reachable releases\<close>

text \<open>
  The steps of a release's containers: plans of either kind, its stop, and what placement, hosts and claims do to one container, which
  moves on through its stages and keeps its id and what it replaces.
\<close>

fun stage_rank :: "containerState \<Rightarrow> nat" where
  "stage_rank Pending = 0"
| "stage_rank Starting = 1"
| "stage_rank Ready = 2"
| "stage_rank Draining = 3"
| "stage_rank Stopped = 4"

inductive release_step :: "serveContainer list \<Rightarrow> serveContainer list \<Rightarrow> bool" where
  plan_function: "planRelease admit now row cs = Inr (cs', plan) \<Longrightarrow> release_step cs cs'"
| plan_serving: "planServing admit now srow cs = Inr (cs', plan) \<Longrightarrow> release_step cs cs'"
| stop: "stopRelease cancelled cs = Inr (cs', plan) \<Longrightarrow> release_step cs cs'"
| host: "i < length cs \<Longrightarrow> scID c = scID (cs ! i) \<Longrightarrow> scReplaces c = scReplaces (cs ! i) \<Longrightarrow> stage_rank (scStage (cs ! i)) \<le> stage_rank (scStage c)
    \<Longrightarrow> release_step cs (cs[i := c])"

inductive reached :: "serveContainer list \<Rightarrow> bool" where
  none: "reached []"
| step: "reached cs \<Longrightarrow> release_step cs cs' \<Longrightarrow> reached cs'"

lemma stopRelease_legal:
  assumes "stopRelease cancelled cs = Inr (cs', plan)" and "distinct (map scID cs)"
  shows "legal_change (\<lambda>_. True) cs cs'"
proof -
  obtain S D where "cs' = moved S D cs" using assms(1) by (auto simp: stopRelease_def Let_def set_state_moved moved_moved split: option.splits)
  then show ?thesis unfolding legal_change_def
    using assms(2) by (intro exI [of _ S] exI [of _ D] exI [of _ "[]"]) (simp add: brand_new_def)
qed

lemma host_ok:
  assumes "release_ok cs" and "i < length cs" and "scID c = scID (cs ! i)" and "scReplaces c = scReplaces (cs ! i)"
    and "stage_rank (scStage (cs ! i)) \<le> stage_rank (scStage c)"
  shows "release_ok (cs[i := c])"
proof -
  have "map scID (cs[i := c]) = map scID cs" using assms(2,3) by (simp add: map_update list_update_same_conv)
  moreover have "number (standing_in j) (cs[i := c]) \<le> number (standing_in j) cs" for j
  proof -
    have "standing_in j c \<Longrightarrow> standing_in j (cs ! i)"
      using assms(4,5) by (cases "scStage (cs ! i)"; cases "scStage c") (auto simp: standing_in_def)
    moreover have "number (standing_in j) cs = number (standing_in j) (take i cs @ cs ! i # drop (Suc i) cs)"
      by (simp only: id_take_nth_drop [OF assms(2), symmetric])
    ultimately show ?thesis unfolding upd_conv_take_nth_drop [OF assms(2)] by auto
  qed
  ultimately show ?thesis using assms(1) unfolding release_ok_def by (metis order_trans)
qed

lemma release_step_ok: "release_step cs cs' \<Longrightarrow> release_ok cs \<Longrightarrow> release_ok cs'"
proof (induction rule: release_step.induct)
  case (plan_function admit now row cs cs' plan)
  then have "distinct (map scID cs)" by (simp add: release_ok_def)
  from legal_change_ok [OF idle.decide_legal [OF planRelease_decide [OF plan_function(1) this] this] plan_function(2)] show ?case .
next
  case (plan_serving admit now srow cs cs' plan)
  then have "distinct (map scID cs)" by (simp add: release_ok_def)
  from legal_change_ok [OF newest.decide_legal [OF planServing_decide [OF plan_serving(1) this] this] plan_serving(2)] show ?case .
next
  case (stop cancelled cs cs' plan)
  then have "distinct (map scID cs)" by (simp add: release_ok_def)
  from legal_change_ok [OF stopRelease_legal [OF stop(1) this] stop(2)] show ?case .
qed (rule host_ok)

text \<open>
  C18: However plans, stops, placement and hosts interleave, a release's containers have distinct ids and none ever has two
  replacements that are pending or starting.
\<close>

theorem one_replacement:
  assumes "reached cs"
  shows "distinct (map scID cs) \<and> (\<forall>c \<in> set cs. length (filter (\<lambda>r. scReplaces r = Some (scID c) \<and> scStage r \<in> {Pending, Starting}) cs) \<le> 1)"
proof -
  have "release_ok cs" using assms by (induction rule: reached.induct) (simp_all add: release_ok_def release_step_ok [unfolded release_ok_def])
  then show ?thesis by (simp add: release_ok_def number_def standing_in_def [abs_def])
qed

subsection \<open>The pools of an account\<close>

definition cpu_of :: "serveContainer list \<Rightarrow> int" where
  "cpu_of cs = number (\<lambda>c. scStage c \<noteq> Stopped \<and> scGpuCount c = 0) cs"

definition gpus_of :: "serveContainer list \<Rightarrow> int" where
  "gpus_of cs = sum_list (map scGpuCount (filter (\<lambda>c. scStage c \<noteq> Stopped) cs))"

fun row_spec :: "releaseRow \<Rightarrow> releaseSpec" where
  "row_spec (FunctionRow row) = prSpec row"
| "row_spec (ServingRow row) = svSpec row"

definition entry_ok :: "releaseEntry \<Rightarrow> bool" where
  "entry_ok e \<longleftrightarrow> release_ok (reContainers e) \<and> (\<forall>c \<in> set (reContainers e). 0 \<le> scGpuCount c) \<and> 0 \<le> spGpuCount (row_spec (reRow e))"

lemma pools_append [simp]: "cpu_of (xs @ ys) = cpu_of xs + cpu_of ys" "gpus_of (xs @ ys) = gpus_of xs + gpus_of ys"
  by (simp_all add: cpu_of_def gpus_of_def)

lemma pools_moved:
  assumes "\<forall>c \<in> set cs. 0 \<le> scGpuCount c"
  shows "cpu_of (moved S D cs) \<le> cpu_of cs" and "gpus_of (moved S D cs) \<le> gpus_of cs"
proof -
  show "cpu_of (moved S D cs) \<le> cpu_of cs"
    unfolding cpu_of_def moved_becomes number_map by (rule number_mono) (auto simp: becomes_def split: if_splits)
  show "gpus_of (moved S D cs) \<le> gpus_of cs"
    using assms unfolding moved_becomes by (induction cs) (auto simp: gpus_of_def becomes_def)
qed

lemma pools_new:
  assumes "\<forall>c \<in> set new. scGpuCount c = k \<and> scStage c = Pending"
  shows "cpu_of new = (if k = 0 then int (length new) else 0)" and "gpus_of new = int (length new) * k"
  using assms by (induction new) (auto simp: cpu_of_def gpus_of_def algebra_simps)

text \<open>What one decision does to the pools of its owner.\<close>

lemma isolated_pools:
  assumes "planReleaseIsolated env now rs e = Inr (cs', plan)" and "entry_ok e"
  obtains k where "0 \<le> k" and "entry_ok (e\<lparr>reContainers := cs'\<rparr>)"
    and "cpu_of cs' \<le> cpu_of (reContainers e) + (if spGpuCount (row_spec (reRow e)) = 0 then k else 0)"
    and "gpus_of cs' \<le> gpus_of (reContainers e) + k * spGpuCount (row_spec (reRow e))"
    and "k = 0 \<or> (\<exists>n g. admit_in env rs e (spec_request (row_spec (reRow e)) n) = Inr g \<and> grStart g = k)"
proof -
  let ?cs = "reContainers e" and ?sp = "row_spec (reRow e)"
  have d: "distinct (map scID ?cs)" and gpu: "\<forall>c \<in> set ?cs. 0 \<le> scGpuCount c" "0 \<le> spGpuCount ?sp" using assms(2) by (auto simp: entry_ok_def release_ok_def)
  have "\<exists>S D new. cs' = moved S D ?cs @ new \<and> (\<forall>c\<in>set new. scGpuCount c = spGpuCount ?sp \<and> scStage c = Pending)
    \<and> (new = [] \<or> (\<exists>n g. admit_in env rs e (spec_request ?sp n) = Inr g \<and> grStart g = int (length new)))"
  proof (cases "reRow e")
    case (FunctionRow row)
    show ?thesis
    proof (cases "prStopping row")
      case True
      with assms(1) FunctionRow obtain S D where "cs' = moved S D ?cs"
        by (auto simp: planReleaseIsolated_def stopRelease_def Let_def set_state_moved moved_moved split: option.splits)
      then show ?thesis by (intro exI [of _ S] exI [of _ D] exI [of _ "[]"]) simp
    next
      case False
      with assms(1) FunctionRow have "planRelease (admit_in env rs e) now row ?cs = Inr (cs', plan)" by (simp add: planReleaseIsolated_def)
      from idle.decide_created [OF planRelease_decide [OF this d] d] FunctionRow show ?thesis by (metis row_spec.simps(1))
    qed
  next
    case (ServingRow row)
    with assms(1) have "planServing (admit_in env rs e) now row ?cs = Inr (cs', plan)" by (simp add: planReleaseIsolated_def)
    from newest.decide_created [OF planServing_decide [OF this d] d] ServingRow show ?thesis by (metis row_spec.simps(2))
  qed
  then obtain S D new where cs': "cs' = moved S D ?cs @ new" and new: "\<forall>c\<in>set new. scGpuCount c = spGpuCount ?sp \<and> scStage c = Pending"
    and g: "new = [] \<or> (\<exists>n g. admit_in env rs e (spec_request ?sp n) = Inr g \<and> grStart g = int (length new))" by blast
  have "release_ok cs'"
  proof (rule release_step_ok)
    show "release_step ?cs cs'" using assms(1) by (auto simp: planReleaseIsolated_def split: releaseRow.splits if_splits intro: release_step.intros)
    show "release_ok ?cs" using assms(2) by (simp add: entry_ok_def)
  qed
  then have ok: "entry_ok (e\<lparr>reContainers := cs'\<rparr>)" using gpu new by (auto simp: entry_ok_def cs' moved_becomes)
  show thesis
  proof (rule that [of "int (length new)"])
    show "cpu_of cs' \<le> cpu_of ?cs + (if spGpuCount ?sp = 0 then int (length new) else 0)"
      using pools_moved(1) [OF gpu(1), of S D] by (simp add: cs' pools_new [OF new])
    show "gpus_of cs' \<le> gpus_of ?cs + int (length new) * spGpuCount ?sp"
      using pools_moved(2) [OF gpu(1), of S D] by (simp add: cs' pools_new [OF new])
  qed (use g ok in auto)
qed

lemma owner_pools:
  "lvCpuContainers (OwnerLiveContainers env acct rs) = lvCpuContainers (peOther env acct) + sum_list (map (\<lambda>e. cpu_of (reContainers e)) (filter (\<lambda>e. reOwner e = acct) rs))"
  "lvGpus (OwnerLiveContainers env acct rs) = lvGpus (peOther env acct) + sum_list (map (\<lambda>e. gpus_of (reContainers e)) (filter (\<lambda>e. reOwner e = acct) rs))"
proof -
  have "int (length (filter (\<lambda>c. scGpuCount c = 0) (owned_live acct rs))) = sum_list (map (\<lambda>e. cpu_of (reContainers e)) (filter (\<lambda>e. reOwner e = acct) rs))"
    by (induction rs) (auto simp: owned_live_def cpu_of_def number_def conj_commute)
  then show "lvCpuContainers (OwnerLiveContainers env acct rs) = lvCpuContainers (peOther env acct) + sum_list (map (\<lambda>e. cpu_of (reContainers e)) (filter (\<lambda>e. reOwner e = acct) rs))"
    by (simp add: OwnerLiveContainers_def)
  have "sum_list (map scGpuCount (owned_live acct rs)) = sum_list (map (\<lambda>e. gpus_of (reContainers e)) (filter (\<lambda>e. reOwner e = acct) rs))"
    by (induction rs) (auto simp: owned_live_def gpus_of_def)
  then show "lvGpus (OwnerLiveContainers env acct rs) = lvGpus (peOther env acct) + sum_list (map (\<lambda>e. gpus_of (reContainers e)) (filter (\<lambda>e. reOwner e = acct) rs))"
    by (simp add: OwnerLiveContainers_def)
qed

text \<open>A table that is well formed and within the pools of an account, or no higher than given bounds.\<close>

definition pools_within :: "planEnv \<Rightarrow> nat \<Rightarrow> int \<Rightarrow> int \<Rightarrow> releaseEntry list \<Rightarrow> bool" where
  "pools_within env acct cpus gpus rs \<longleftrightarrow> distinct (map reID rs) \<and> (\<forall>e \<in> set rs. entry_ok e)
     \<and> lvCpuContainers (OwnerLiveContainers env acct rs) \<le> cpus \<and> lvGpus (OwnerLiveContainers env acct rs) \<le> gpus"

lemma plan_step_pools:
  assumes "pools_within env acct cpus gpus rs" and "readStanding (peAccount env acct) = Inr s"
    and "enMaxCPUContainers (sdEntitlements s) \<le> cpus" and "enMaxGPUs (sdEntitlements s) \<le> gpus"
  shows "pools_within env acct cpus gpus (fst (plan_step env now (rs, plans) i))"
proof (cases "\<exists>e cs' plan. List.find (\<lambda>e. reID e = i) rs = Some e \<and> planReleaseIsolated env now rs e = Inr (cs', plan)")
  case False
  then have "fst (plan_step env now (rs, plans) i) = rs" by (auto simp: plan_step_def split: option.splits sum.splits)
  then show ?thesis using assms(1) by simp
next
  case True
  then obtain e cs' plan where f: "List.find (\<lambda>e. reID e = i) rs = Some e" and p: "planReleaseIsolated env now rs e = Inr (cs', plan)" by blast
  have e: "e \<in> set rs" "reID e = i" using f by (auto simp: find_Some_iff)
  then obtain as bs where rs: "rs = as @ e # bs" by (meson split_list)
  let ?e = "e\<lparr>reContainers := cs'\<rparr>" and ?sp = "row_spec (reRow e)" and ?o = "OwnerLiveContainers env acct"
  have d: "distinct (map reID rs)" and ok: "\<forall>e \<in> set rs. entry_ok e" using assms(1) by (simp_all add: pools_within_def)
  let ?upd = "\<lambda>e'. if reID e' = i then e'\<lparr>reContainers := cs'\<rparr> else e'"
  have same: "map ?upd xs = xs" if "i \<notin> reID ` set xs" for xs using that by (induction xs) auto
  have "fst (plan_step env now (rs, plans) i) = map ?upd rs" by (simp add: plan_step_def f p)
  also have "\<dots> = as @ ?e # bs" using d e(2) same [of as] same [of bs] by (simp add: rs)
  finally have step: "fst (plan_step env now (rs, plans) i) = as @ ?e # bs" .
  obtain k where k: "0 \<le> k" "entry_ok ?e" and cpu: "cpu_of cs' \<le> cpu_of (reContainers e) + (if spGpuCount ?sp = 0 then k else 0)"
    and gpu: "gpus_of cs' \<le> gpus_of (reContainers e) + k * spGpuCount ?sp"
    and g: "k = 0 \<or> (\<exists>n g. admit_in env rs e (spec_request ?sp n) = Inr g \<and> grStart g = k)"
    by (rule isolated_pools [OF p bspec [OF ok e(1)]])
  have "lvCpuContainers (?o (as @ ?e # bs)) \<le> cpus \<and> lvGpus (?o (as @ ?e # bs)) \<le> gpus"
  proof (cases "reOwner e = acct \<and> k \<noteq> 0")
    case True
    then obtain n g' where "admit_in env rs e (spec_request ?sp n) = Inr g'" "grStart g' = k" "0 < grStart g'" using g k(1) by auto
    then have room: "if spGpuCount ?sp > 0 then lvGpus (?o rs) + k * spGpuCount ?sp \<le> gpus else lvCpuContainers (?o rs) + k \<le> cpus"
      using assms(2-4) True unfolding admit_in_def by (elim Admit_pool) (auto split: if_splits)
    have "0 \<le> spGpuCount ?sp" using ok e(1) by (simp add: entry_ok_def)
    then show ?thesis
      using room cpu gpu True assms(1) unfolding pools_within_def owner_pools rs by (cases "spGpuCount ?sp = 0") auto
  next
    case False
    then show ?thesis using cpu gpu assms(1) unfolding pools_within_def owner_pools rs by auto
  qed
  moreover have "distinct (map reID (as @ ?e # bs))" "\<forall>e \<in> set (as @ ?e # bs). entry_ok e" using d ok k(2) by (auto simp: rs)
  ultimately show ?thesis unfolding step pools_within_def by blast
qed

lemma plan_steps_pools:
  assumes "pools_within env acct cpus gpus (fst st)" and "readStanding (peAccount env acct) = Inr s"
    and "enMaxCPUContainers (sdEntitlements s) \<le> cpus" and "enMaxGPUs (sdEntitlements s) \<le> gpus"
  shows "pools_within env acct cpus gpus (fst (foldl (plan_step env now) st ids))"
  using assms(1)
proof (induction ids arbitrary: st)
  case (Cons i ids)
  then show ?case using plan_step_pools [OF _ assms(2-4), of "fst st" now "snd st" i] by simp
qed simp

lemma planning_pass_pools:
  assumes "pools_within env acct cpus gpus rs" and "readStanding (peAccount env acct) = Inr s"
    and "enMaxCPUContainers (sdEntitlements s) \<le> cpus" and "enMaxGPUs (sdEntitlements s) \<le> gpus"
  shows "pools_within env acct cpus gpus (fst (planning_pass env now kind lock after rs result))"
  using assms
proof (induction env now kind lock after rs result rule: planning_pass.induct)
  case (1 env now kind lock after rs result)
  let ?st = "foldl (plan_step env now) (rs, []) (batch_ids kind after rs)"
  have st: "pools_within env acct cpus gpus (fst ?st)" using "1.prems" by (intro plan_steps_pools) simp_all
  show ?case
  proof (cases "lock after = LockTaken \<and> \<not> length (batch_ids kind after rs) < planningBatch")
    case True
    then have "planning_pass env now kind lock after rs result
      = planning_pass env now kind lock (last (batch_ids kind after rs)) (fst ?st) (foldl add_plan result (snd ?st))"
      by (subst planning_pass.simps) (simp add: Let_def)
    then show ?thesis using "1.IH" [OF _ refl refl] True st "1.prems" by simp
  next
    case False
    then have "fst (planning_pass env now kind lock after rs result) \<in> {rs, fst ?st}"
      by (subst planning_pass.simps) (auto simp: Let_def split: lockResult.splits)
    then show ?thesis using st "1.prems"(1) by auto
  qed
qed

text \<open>
  C5: A pass never takes an account past its plan. Whatever it starts for the releases of an owner, and whichever batches find the
  planning lock taken, the containers and the cards the account runs afterwards are within its pools or no more than before.
\<close>

theorem pass_within_pools:
  assumes "distinct (map reID rs)" and "\<forall>e \<in> set rs. entry_ok e" and "readStanding (peAccount env acct) = Inr s"
    and "rs' = fst (Plan_functions env now lock rs) \<or> rs' = fst (PlanServing env now lock rs)"
  shows "lvCpuContainers (OwnerLiveContainers env acct rs') \<le> max (lvCpuContainers (OwnerLiveContainers env acct rs)) (enMaxCPUContainers (sdEntitlements s))
    \<and> lvGpus (OwnerLiveContainers env acct rs') \<le> max (lvGpus (OwnerLiveContainers env acct rs)) (enMaxGPUs (sdEntitlements s))"
proof -
  let ?c = "max (lvCpuContainers (OwnerLiveContainers env acct rs)) (enMaxCPUContainers (sdEntitlements s))"
  let ?g = "max (lvGpus (OwnerLiveContainers env acct rs)) (enMaxGPUs (sdEntitlements s))"
  have "pools_within env acct ?c ?g rs" using assms(1,2) by (simp add: pools_within_def)
  then have "pools_within env acct ?c ?g (fst (planning_pass env now kind lock 0 rs no_result))" for kind
    by (rule planning_pass_pools [OF _ assms(3)]) simp_all
  then show ?thesis using assms(4) unfolding Plan_functions_def PlanServing_def pools_within_def by auto
qed

subsection \<open>Batches\<close>

definition pass_ids :: "(releaseRow \<Rightarrow> bool) \<Rightarrow> nat \<Rightarrow> releaseEntry list \<Rightarrow> nat list" where
  "pass_ids kind after rs = sort (map reID (filter (\<lambda>e. wants_plan kind e \<and> after < reID e) rs))"

lemma plan_step_acc: "plan_step env now (rs, plans) i = (fst (plan_step env now (rs, []) i), plans @ snd (plan_step env now (rs, []) i))"
  by (auto simp: plan_step_def split: option.splits sum.splits)

lemma plan_steps_acc:
  "foldl (plan_step env now) (rs, plans) ids = (fst (foldl (plan_step env now) (rs, []) ids), plans @ snd (foldl (plan_step env now) (rs, []) ids))"
proof (induction ids arbitrary: rs plans)
  case (Cons i ids)
  obtain rs1 p1 where one: "plan_step env now (rs, []) i = (rs1, p1)" by (cases "plan_step env now (rs, []) i")
  then have "plan_step env now (rs, plans) i = (rs1, plans @ p1)" by (subst plan_step_acc) simp
  then show ?case using Cons.IH [of rs1 "plans @ p1"] Cons.IH [of rs1 p1] one by simp
qed simp

lemma plan_step_others: "filter (\<lambda>e. reID e \<noteq> i) (fst (plan_step env now st i)) = filter (\<lambda>e. reID e \<noteq> i) (fst st)"
proof -
  have "filter (\<lambda>e. reID e \<noteq> i) (map (\<lambda>e'. if reID e' = i then e'\<lparr>reContainers := cs\<rparr> else e') rs) = filter (\<lambda>e. reID e \<noteq> i) rs" for cs rs
    by (induction rs) auto
  then show ?thesis by (auto simp: plan_step_def split_beta split: option.splits sum.splits)
qed

lemma plan_steps_others: "filter (\<lambda>e. reID e \<notin> set ids) (fst (foldl (plan_step env now) st ids)) = filter (\<lambda>e. reID e \<notin> set ids) (fst st)"
proof (induction ids arbitrary: st)
  case (Cons i ids)
  have split: "filter (\<lambda>e. reID e \<notin> set (i # ids)) xs = filter (\<lambda>e. reID e \<noteq> i) (filter (\<lambda>e. reID e \<notin> set ids) xs)" for xs by (induction xs) auto
  show ?case unfolding split foldl_Cons Cons.IH unfolding filter_filter
    using arg_cong [OF plan_step_others [of i env now st], of "filter (\<lambda>e. reID e \<notin> set ids)"] by (simp add: conj_commute)
qed simp

lemma sorted_le_last: "sorted xs \<Longrightarrow> x \<in> set xs \<Longrightarrow> x \<le> last xs"
  by (induction xs) auto

lemma sorted_after_last:
  fixes xs :: "nat list"
  assumes "sorted xs" and "distinct xs" and "take n xs \<noteq> []"
  shows "filter (\<lambda>i. last (take n xs) < i) xs = drop n xs" and "\<And>i. i \<in> set (take n xs) \<Longrightarrow> i \<le> last (take n xs)"
proof -
  let ?a = "take n xs" and ?b = "drop n xs"
  have "sorted (?a @ ?b)" using assms(1) by simp
  then have s: "sorted ?a" "\<forall>x\<in>set ?a. \<forall>y\<in>set ?b. x \<le> y" unfolding sorted_append by blast+
  show le: "\<And>i. i \<in> set ?a \<Longrightarrow> i \<le> last ?a" by (rule sorted_le_last [OF s(1)])
  have "last ?a \<in> set ?a" using assms(3) by simp
  moreover have "set ?a \<inter> set ?b = {}" using assms(2) by (rule set_take_disj_set_drop_if_distinct) simp
  ultimately have after: "last ?a < y" if "y \<in> set ?b" for y using s(2) that by (metis disjoint_iff le_neq_implies_less)
  have "filter (\<lambda>i. last ?a < i) ?a = []" using le by (auto simp: filter_empty_conv not_less)
  moreover have "filter (\<lambda>i. last ?a < i) ?b = ?b" using after by simp
  ultimately have "filter (\<lambda>i. last ?a < i) (?a @ ?b) = ?b" by (simp only: filter_append append_Nil)
  then show "filter (\<lambda>i. last ?a < i) xs = ?b" unfolding append_take_drop_id .
qed

lemma pass_ids_next:
  assumes "distinct (map reID rs)" and "batch = take planningBatch (pass_ids kind after rs)" and "batch \<noteq> []"
    and "rs' = fst (foldl (plan_step env now) (rs, []) batch)"
  shows "pass_ids kind (last batch) rs' = drop planningBatch (pass_ids kind after rs)"
proof -
  let ?l = "last batch" and ?w = "\<lambda>e. wants_plan kind e \<and> after < reID e"
  have x: "sorted (pass_ids kind after rs)" "distinct (pass_ids kind after rs)"
    using assms(1) by (simp_all add: pass_ids_def distinct_map_filter)
  note last = sorted_after_last [OF x, of planningBatch, folded assms(2), OF assms(3)]
  have "?l \<in> set (pass_ids kind after rs)" using assms(2,3) last_in_set in_set_takeD by metis
  then have "after < ?l" by (auto simp: pass_ids_def)
  have "filter (\<lambda>e. wants_plan kind e \<and> ?l < reID e) rs' = filter (\<lambda>e. wants_plan kind e \<and> ?l < reID e) (filter (\<lambda>e. reID e \<notin> set batch) rs')"
    using last(2) by (auto simp: intro!: filter_cong) (metis leD)
  also have "\<dots> = filter (\<lambda>e. wants_plan kind e \<and> ?l < reID e) (filter (\<lambda>e. reID e \<notin> set batch) rs)"
    unfolding assms(4) plan_steps_others by simp
  also have "\<dots> = filter (\<lambda>e. ?l < reID e) (filter ?w rs)"
    using last(2) \<open>after < ?l\<close> by (auto intro!: filter_cong) (metis leD)
  finally have "pass_ids kind ?l rs' = sort (map reID (filter (\<lambda>e. ?l < reID e) (filter ?w rs)))" by (simp add: pass_ids_def)
  also have "\<dots> = filter (\<lambda>i. ?l < i) (pass_ids kind after rs)" by (simp add: pass_ids_def filter_map comp_def filter_sort)
  finally show ?thesis using last(1) by simp
qed

lemma planning_pass_all:
  assumes "distinct (map reID rs)" and "\<And>i. lock i = LockTaken"
  shows "planning_pass env now kind lock after rs result =
    (let st = foldl (plan_step env now) (rs, []) (pass_ids kind after rs) in (fst st, foldl add_plan result (snd st), False))"
  using assms
proof (induction env now kind lock after rs result rule: planning_pass.induct)
  case (1 env now kind lock after rs result)
  let ?ids = "pass_ids kind after rs" and ?batch = "batch_ids kind after rs"
  let ?st = "foldl (plan_step env now) (rs, []) ?batch"
  have batch: "?batch = take planningBatch ?ids" by (simp add: batch_ids_def pass_ids_def)
  have body: "planning_pass env now kind lock after rs result =
    (if length ?batch < planningBatch then (fst ?st, foldl add_plan result (snd ?st), False)
     else planning_pass env now kind lock (last ?batch) (fst ?st) (foldl add_plan result (snd ?st)))"
    by (subst planning_pass.simps) (simp add: "1.prems"(2) Let_def del: planning_pass.simps)
  show ?case
  proof (cases "length ?batch < planningBatch")
    case True
    then have "?batch = ?ids" by (simp add: batch)
    then show ?thesis unfolding body if_P [OF True] by (simp only: Let_def)
  next
    case False
    then have ne: "?batch \<noteq> []" by (auto simp: planningBatch_def)
    have ids: "pass_ids kind (last ?batch) (fst ?st) = drop planningBatch ?ids"
      by (rule pass_ids_next [OF "1.prems"(1) batch ne refl])
    have d: "distinct (map reID (fst ?st))" using "1.prems"(1) by (simp add: plan_steps_ids)
    have "foldl (plan_step env now) (rs, []) ?ids = foldl (plan_step env now) ?st (drop planningBatch ?ids)"
      unfolding batch foldl_append [symmetric] append_take_drop_id ..
    also have "\<dots> = (fst (foldl (plan_step env now) (fst ?st, []) (drop planningBatch ?ids)),
        snd ?st @ snd (foldl (plan_step env now) (fst ?st, []) (drop planningBatch ?ids)))"
      using plan_steps_acc [of env now "fst ?st" "snd ?st"] by simp
    finally show ?thesis
      unfolding body if_not_P [OF False] "1.IH" [OF "1.prems"(2) refl refl False d "1.prems"(2)] ids Let_def by (simp del: planning_pass.simps)
  qed
qed

text \<open>
  C20: The batches of a pass do not show: with the planning lock free, a pass decides every release of its kind that asks for a decision
  once, in the order of ids, each on the table as those before it left it, and its result adds up all of their plans.
\<close>

theorem pass_decides_all:
  assumes "distinct (map reID rs)" and "\<forall>e \<in> set rs. 0 < reID e" and "\<forall>i. lock i = LockTaken"
  shows "Plan_functions env now lock rs =
    (let st = foldl (plan_step env now) (rs, []) (sort (map reID (filter (wants_plan is_function) rs))) in (fst st, foldl add_plan no_result (snd st), False))"
proof -
  have "filter (\<lambda>e. wants_plan is_function e \<and> 0 < reID e) rs = filter (wants_plan is_function) rs" using assms(2) by (intro filter_cong) auto
  then show ?thesis using planning_pass_all [OF assms(1), of lock env now is_function 0 no_result] assms(3) by (simp add: Plan_functions_def pass_ids_def del: planning_pass.simps)
qed

subsection \<open>An example\<close>

text \<open>
  A function of one container per task and three at most. One container hands its host back and is idle, one runs an attempt; three
  tasks ask for containers.
\<close>

definition demo_spec :: releaseSpec where
  "demo_spec = \<lparr>spSlots = 1, spCpuMillis = 1000, spMemoryBytes = 536870912, spMounters = 0, spGpuCount = 0, spGpuModels = [], spPreemptible = True,
     spPinned = False, spMachine = False\<rparr>"

definition demo_container :: "nat \<Rightarrow> serveContainer" where
  "demo_container i = (new_container demo_spec 0 i None)\<lparr>scStage := Ready, scReadyAt := Some 5, scHost := Some 1\<rparr>"

definition demo_row :: PlanningReleasesRow where
  "demo_row = \<lparr>prSpec = demo_spec, prActive = True, prStopping = False, prRetiring = False, prMinContainers = 1, prMaxContainers = 3, prTasksPerContainer = 1,
     prKeepWarmSeconds = 10, prQueuedAvailable = 2, prRunning = 1, prLoadFailed = False, prStartFailures = 0, prLastStoppedAt = None\<rparr>"

definition demo_release :: "serveContainer list" where
  "demo_release = [(demo_container 1)\<lparr>scHandsBack := True\<rparr>, (demo_container 2)\<lparr>scRunning := 1\<rparr>]"

definition demo_plan :: "serveContainer list \<times> releasePlan" where
  "demo_plan = (case planRelease (Admit (Some False) True (Some small_account) (Some \<lparr>lvCpuContainers = 2, lvGpus = 0\<rparr>)) minute demo_row demo_release of
     Inr r \<Rightarrow> r | Inl _ \<Rightarrow> ([], no_plan))"

lemma demo_planned:
  "planRelease (Admit (Some False) True (Some small_account) (Some \<lparr>lvCpuContainers = 2, lvGpus = 0\<rparr>)) minute demo_row demo_release = Inr (fst demo_plan, snd demo_plan)"
proof -
  have "(case planRelease (Admit (Some False) True (Some small_account) (Some \<lparr>lvCpuContainers = 2, lvGpus = 0\<rparr>)) minute demo_row demo_release of Inr _ \<Rightarrow> True | Inl _ \<Rightarrow> False)"
    by code_simp
  then show ?thesis unfolding demo_plan_def by (simp split: sum.splits)
qed

lemma demo_facts: "distinct (map scID demo_release)" "no_chains demo_release" "rpCreated (snd demo_plan) = [3, 4]"
  by (simp add: demo_release_def demo_container_def new_container_def, code_simp, code_simp)


theorem plans_meet_demand_witness: "3 \<le> active_of (fst demo_plan) \<and> active_of demo_release = 2"
proof -
  let ?admit = "Admit (Some False) True (Some small_account) (Some \<lparr>lvCpuContainers = 2, lvGpus = 0\<rparr>)"
  have h: "holdStart minute (prStartFailures demo_row) (prLastStoppedAt demo_row) = None" by code_simp
  have "int (length (alone_ids demo_release)) + max 0 (function_desired demo_row (leaving_running demo_release) - active_of demo_release) = 2" by code_simp
  moreover have "grStart (case ?admit (spec_request (prSpec demo_row) 1) of Inr g \<Rightarrow> g | Inl _ \<Rightarrow> \<lparr>grStart = 0, grGPUModels = []\<rparr>) = 1"
    and "grStart (case ?admit (spec_request (prSpec demo_row) 2) of Inr g \<Rightarrow> g | Inl _ \<Rightarrow> \<lparr>grStart = 0, grGPUModels = []\<rparr>) = 2" by code_simp+
  then have "\<exists>g. ?admit (spec_request (prSpec demo_row) 1) = Inr g \<and> grStart g = 1" "\<exists>g. ?admit (spec_request (prSpec demo_row) 2) = Inr g \<and> grStart g = 2"
    by (auto split: sum.splits)
  moreover have "{1..2 :: int} = {1, 2}" by auto
  ultimately have "\<forall>n \<in> {1..int (length (alone_ids demo_release)) + max 0 (function_desired demo_row (leaving_running demo_release) - active_of demo_release)}.
      \<exists>g. ?admit (spec_request (prSpec demo_row) n) = Inr g \<and> grStart g = n" by simp
  with plans_meet_demand [OF demo_facts(1)] demo_planned h
  have "min (function_desired demo_row (leaving_running demo_release)) (active_of demo_release + max 0 (prMaxContainers demo_row - live_of demo_release)) \<le> active_of (fst demo_plan)"
    by blast
  moreover have "min (function_desired demo_row (leaving_running demo_release)) (active_of demo_release + max 0 (prMaxContainers demo_row - live_of demo_release)) = 3" by code_simp
  moreover have "active_of demo_release = 2" by code_simp
  ultimately show ?thesis by simp
qed

theorem planRelease_spares_work_witness: "(demo_container 2)\<lparr>scRunning := 1\<rparr> \<in> set (fst demo_plan)"
proof -
  let ?c = "(demo_container 2)\<lparr>scRunning := 1\<rparr>"
  have "?c \<in> set demo_release" "scStage ?c = Ready" "\<not> idle_past minute (prKeepWarmSeconds demo_row) ?c"
    by (simp_all add: demo_release_def demo_container_def idle_past_def)
  moreover have "\<not> leaves_now demo_release ?c" by code_simp
  ultimately show ?thesis using planRelease_spares_work [OF demo_planned demo_facts(1), of ?c] by auto
qed

definition demo_first :: "serveContainer list" where
  "demo_first = (case planRelease (Admit (Some False) True (Some small_account) (Some \<lparr>lvCpuContainers = 0, lvGpus = 0\<rparr>)) 0 demo_row [] of
     Inr r \<Rightarrow> fst r | Inl _ \<Rightarrow> [])"

theorem one_replacement_witness: "distinct (map scID demo_first) \<and> length demo_first = 3"
proof -
  have three: "length demo_first = 3" by code_simp
  then obtain plan where "planRelease (Admit (Some False) True (Some small_account) (Some \<lparr>lvCpuContainers = 0, lvGpus = 0\<rparr>)) 0 demo_row [] = Inr (demo_first, plan)"
    by (auto simp: demo_first_def split: sum.splits)
  from one_replacement [OF reached.step [OF reached.none plan_function [OF this]]] three show ?thesis by blast
qed

text \<open>A table with that release and a second one that asks for containers without a running one.\<close>

definition demo_env :: planEnv where
  "demo_env = \<lparr>peAccount = (\<lambda>_. Some small_account), peLocked = (\<lambda>_. True), peOther = (\<lambda>_. \<lparr>lvCpuContainers = 6, lvGpus = 0\<rparr>)\<rparr>"

definition demo_table :: "releaseEntry list" where
  "demo_table =
     [\<lparr>reID = 9, reOwner = 1, reLinked = Some False, reRow = FunctionRow demo_row, reWanted = True, reCancelled = Some 0, reContainers = []\<rparr>,
      \<lparr>reID = 4, reOwner = 1, reLinked = Some False, reRow = FunctionRow demo_row, reWanted = True, reCancelled = Some 0, reContainers = demo_release\<rparr>]"

lemma demo_table_ok: "distinct (map reID demo_table)" "\<forall>e \<in> set demo_table. 0 < reID e" "\<forall>e \<in> set demo_table. entry_ok e"
proof -
  show "distinct (map reID demo_table)" "\<forall>e \<in> set demo_table. 0 < reID e" by (simp_all add: demo_table_def)
  show "\<forall>e \<in> set demo_table. entry_ok e"
    by (simp add: demo_table_def entry_ok_def release_ok_def demo_release_def demo_container_def new_container_def demo_spec_def demo_row_def standing_in_def)
qed

lemma demo_table_pass:
  "map (\<lambda>e. length (reContainers e)) (fst (foldl (plan_step demo_env minute) (demo_table, []) [4, 9])) = [0, 4]"
  by code_simp

theorem pass_within_pools_witness:
  "\<exists>s. readStanding (Some small_account) = Inr s \<and>
     lvCpuContainers (OwnerLiveContainers demo_env 1 (fst (Plan_functions demo_env minute (\<lambda>_. LockTaken) demo_table))) \<le> max 8 (enMaxCPUContainers (sdEntitlements s))"
proof -
  obtain s where s: "readStanding (Some small_account) = Inr s" using small_account_stands by blast
  then have "readStanding (peAccount demo_env 1) = Inr s" by (simp add: demo_env_def)
  moreover have "lvCpuContainers (OwnerLiveContainers demo_env 1 demo_table) = 8" by code_simp
  ultimately show ?thesis using pass_within_pools [OF demo_table_ok(1,3)] s by metis
qed

theorem pass_decides_all_witness:
  "map (\<lambda>e. length (reContainers e)) (fst (Plan_functions demo_env minute (\<lambda>_. LockTaken) demo_table)) = [0, 4]"
proof -
  have "sort (map reID (filter (wants_plan is_function) demo_table)) = [4, 9]" by (simp add: demo_table_def wants_plan_def)
  then show ?thesis
    using demo_table_pass by (simp add: pass_decides_all [OF demo_table_ok(1,2)] Let_def)
qed

end
